(* ===== verification/Prelude.thy ===== *)
theory Prelude
  imports Complex_Main "HOL-Library.Sublist"
begin

text \<open>
  The vocabulary the components share: JavaScript strings as lists of UTF-16 code units, the
  string operations of the language that the source uses, JavaScript values, thrown errors as
  values of a sum type, and the fact collections the component proofs use.
\<close>

named_theorems js_simps \<open>evaluation of JavaScript string operations\<close>
named_theorems js_eval \<open>unfolding of string operations on concrete arguments\<close>
named_theorems inv_intro \<open>operations preserve the invariant of their component\<close>

section \<open>Strings\<close>

text \<open>A JavaScript string is a sequence of UTF-16 code units. \<open>S\<close> reads an ASCII literal.\<close>

type_synonym jstr = "nat list"

definition S :: "string \<Rightarrow> jstr" where
  "S s = map of_char s"

lemma S_Nil [simp]: "S [] = []"
  by (simp add: S_def)

lemma S_Cons: "S (c # s) = of_char c # S s"
  by (simp add: S_def)

lemma S_append [simp]: "S (s @ t) = S s @ S t"
  by (simp add: S_def)

lemma S_inject [simp]: "S s = S t \<longleftrightarrow> s = t"
  by (simp add: S_def inj_map_eq_map inj_def)

lemma S_eq_Nil [simp]: "S s = [] \<longleftrightarrow> s = []" "[] = S s \<longleftrightarrow> s = []"
  by (simp_all add: S_def)

lemma length_S [simp]: "length (S s) = length s"
  by (simp add: S_def)

text \<open>
  \<open>startsWith\<close>, \<open>endsWith\<close> and \<open>includes\<close> of \<open>String.prototype\<close>, and \<open>slice\<close> with one
  non-negative argument.
\<close>

definition startsWith :: "jstr \<Rightarrow> jstr \<Rightarrow> bool" where
  "startsWith s p = prefix p s"

definition endsWith :: "jstr \<Rightarrow> jstr \<Rightarrow> bool" where
  "endsWith s p = suffix p s"

definition str_includes :: "jstr \<Rightarrow> jstr \<Rightarrow> bool" where
  "str_includes s p = sublist p s"

definition slice_from :: "jstr \<Rightarrow> nat \<Rightarrow> jstr" where
  "slice_from s n = drop n s"

lemma startsWith_append [simp]: "startsWith (p @ s) p"
  by (simp add: startsWith_def)

lemma startsWith_self [simp]: "startsWith s s"
  by (simp add: startsWith_def)

lemma startsWith_S [js_simps]: "startsWith (S s) (S p) = prefix p s"
  by (simp add: startsWith_def S_def) (metis (no_types) inj_map_eq_map map_append
      prefix_def prefix_map_rightE inj_def of_char_eq_iff map_mono_prefix)

lemma startsWith_slice: "startsWith s p \<longleftrightarrow> s = p @ slice_from s (length p)"
  by (auto simp: startsWith_def slice_from_def prefix_def)

lemma slice_from_append [simp]: "slice_from (p @ s) (length p) = s"
  by (simp add: slice_from_def)

text \<open>The white space and line terminators of \<open>\s\<close> and of \<open>trim\<close>.\<close>

definition is_space :: "nat \<Rightarrow> bool" where
  "is_space c \<longleftrightarrow> (9 \<le> c \<and> c \<le> 13) \<or> c = 32 \<or> c = 160 \<or> c = 0x1680
     \<or> (0x2000 \<le> c \<and> c \<le> 0x200A) \<or> c = 0x2028 \<or> c = 0x2029 \<or> c = 0x202F \<or> c = 0x205F
     \<or> c = 0x3000 \<or> c = 0xFEFF"

definition trim :: "jstr \<Rightarrow> jstr" where
  "trim s = rev (dropWhile is_space (rev (dropWhile is_space s)))"

text \<open>Lower case on ASCII, the only letters the case-insensitive patterns of the source name.\<close>

definition ascii_lower :: "nat \<Rightarrow> nat" where
  "ascii_lower c = (if 65 \<le> c \<and> c \<le> 90 then c + 32 else c)"

definition lowercase :: "jstr \<Rightarrow> jstr" where
  "lowercase s = map ascii_lower s"

lemma ascii_lower_idem [simp]: "ascii_lower (ascii_lower c) = ascii_lower c"
  by (simp add: ascii_lower_def)

section \<open>JavaScript values\<close>

text \<open>
  A number is an integer, a finite non-integral rational (every double is one), an infinity or
  NaN. An object is the list of its own enumerable string-keyed properties in the order of
  \<open>Object.entries\<close>.
\<close>

datatype jnum = NInt int | NFrac rat | NInf bool | NaN

datatype jv =
    JUndef
  | JNull
  | JBool bool
  | JNum jnum
  | JStr jstr
  | JArr "jv list"
  | JObj "(jstr \<times> jv) list"

text \<open>Property read \<open>o.k\<close> and the \<open>in\<close> operator on own properties.\<close>

fun jget :: "(jstr \<times> jv) list \<Rightarrow> jstr \<Rightarrow> jv" where
  "jget [] k = JUndef"
| "jget ((k', v) # o') k = (if k' = k then v else jget o' k)"

definition jhas :: "(jstr \<times> jv) list \<Rightarrow> jstr \<Rightarrow> bool" where
  "jhas kvs k \<longleftrightarrow> k \<in> fst ` set kvs"

lemma jget_not_in: "k \<notin> fst ` set kvs \<Longrightarrow> jget kvs k = JUndef"
  by (induction kvs k rule: jget.induct) auto

text \<open>\<open>Number.isSafeInteger\<close> and truthiness.\<close>

definition max_safe_integer :: int where
  "max_safe_integer = 9007199254740991"

fun is_safe_integer :: "jv \<Rightarrow> bool" where
  "is_safe_integer (JNum (NInt i)) = (\<bar>i\<bar> \<le> max_safe_integer)"
| "is_safe_integer _ = False"

fun truthy :: "jv \<Rightarrow> bool" where
  "truthy JUndef = False"
| "truthy JNull = False"
| "truthy (JBool b) = b"
| "truthy (JNum n) = (n \<noteq> NInt 0 \<and> n \<noteq> NaN)"
| "truthy (JStr s) = (s \<noteq> [])"
| "truthy (JArr _) = True"
| "truthy (JObj _) = True"

section \<open>Thrown errors\<close>

text \<open>
  An exception is a value of \<open>js_error\<close>: the fields of the thrown object that the program
  reads (\<open>name\<close>, \<open>message\<close>, \<open>code\<close>, \<open>statusCode\<close>). A call that may throw returns
  \<open>Inl\<close> the error or \<open>Inr\<close> the result.
\<close>

record js_error =
  err_name :: jstr
  err_message :: jstr
  err_code :: "jstr option"
  err_status :: "int option"

type_synonym 'a result = "js_error + 'a"

definition plain_error :: "jstr \<Rightarrow> js_error" where
  "plain_error m = \<lparr>err_name = S ''Error'', err_message = m, err_code = None, err_status = None\<rparr>"

definition bindE :: "'e + 'a \<Rightarrow> ('a \<Rightarrow> 'e + 'b) \<Rightarrow> 'e + 'b" where
  "bindE r f = (case r of Inl e \<Rightarrow> Inl e | Inr x \<Rightarrow> f x)"

lemma bindE_simps [simp]: "bindE (Inl e) f = Inl e" "bindE (Inr x) f = f x"
  by (simp_all add: bindE_def)

lemma bindE_Inr_iff: "bindE r f = Inr y \<longleftrightarrow> (\<exists>x. r = Inr x \<and> f x = Inr y)"
  by (cases r) auto

lemma bindE_Inl_iff: "bindE r f = Inl e \<longleftrightarrow> r = Inl e \<or> (\<exists>x. r = Inr x \<and> f x = Inl e)"
  by (cases r) auto

text \<open>A loop that stops at the first error, over the elements of an array in order.\<close>

fun for_each :: "('a \<Rightarrow> 's \<Rightarrow> 'e + 's) \<Rightarrow> 'a list \<Rightarrow> 's \<Rightarrow> 'e + 's" where
  "for_each f [] s = Inr s"
| "for_each f (x # xs) s = bindE (f x s) (for_each f xs)"

lemma for_each_append: "for_each f (xs @ ys) s = bindE (for_each f xs s) (for_each f ys)"
  by (induction xs arbitrary: s) (auto simp: bindE_def split: sum.splits)

lemma for_each_invariant:
  assumes "for_each f xs s = Inr t" and "P s"
    and "\<And>x s s'. x \<in> set xs \<Longrightarrow> P s \<Longrightarrow> f x s = Inr s' \<Longrightarrow> P s'"
  shows "P t"
  using assms by (induction xs arbitrary: s) (auto simp: bindE_Inr_iff)


text \<open>\<open>Array.map\<close> and \<open>Array.some\<close> with a callback that may throw: \<open>some\<close> stops at the first hit.\<close>

fun mapE :: "('a \<Rightarrow> 'e + 'b) \<Rightarrow> 'a list \<Rightarrow> 'e + 'b list" where
  "mapE f [] = Inr []"
| "mapE f (x # xs) = bindE (f x) (\<lambda>y. bindE (mapE f xs) (\<lambda>ys. Inr (y # ys)))"

fun someE :: "('a \<Rightarrow> 'e + bool) \<Rightarrow> 'a list \<Rightarrow> 'e + bool" where
  "someE f [] = Inr False"
| "someE f (x # xs) = bindE (f x) (\<lambda>b. if b then Inr True else someE f xs)"

lemma mapE_Inr_iff: "mapE f xs = Inr ys \<longleftrightarrow> list_all2 (\<lambda>x y. f x = Inr y) xs ys"
  by (induction xs arbitrary: ys) (auto simp: bindE_Inr_iff list_all2_Cons1)

lemma mapE_append: "mapE f (xs @ ys) = bindE (mapE f xs) (\<lambda>as. bindE (mapE f ys) (\<lambda>bs. Inr (as @ bs)))"
proof (induction xs)
  case Nil
  then show ?case by (cases "mapE f ys") auto
next
  case (Cons x xs)
  then show ?case by (cases "f x"; cases "mapE f xs"; cases "mapE f ys") auto
qed

lemma someE_True: "someE f xs = Inr True \<Longrightarrow> \<exists>x\<in>set xs. f x = Inr True"
  by (induction xs) (auto simp: bindE_Inr_iff split: if_splits)

lemma someE_False: "someE f xs = Inr False \<longleftrightarrow> (\<forall>x\<in>set xs. f x = Inr False)"
  by (induction xs) (auto simp: bindE_Inr_iff split: if_splits)

lemma someE_total:
  "(\<And>x. x \<in> set xs \<Longrightarrow> f x = Inr (g x)) \<Longrightarrow> someE f xs = Inr (\<exists>x\<in>set xs. g x)"
  by (induction xs) auto

lemma filter_unique:
  assumes "distinct (map f xs)" and "x \<in> set xs" and "P x" and "\<And>y. y \<in> set xs \<Longrightarrow> P y \<Longrightarrow> f y = f x"
  shows "filter P xs = [x]"
proof -
  have "set (filter P xs) = {x}" using assms by (auto simp: distinct_map dest: inj_onD)
  moreover have "distinct (filter P xs)" using assms(1) by (simp add: distinct_map)
  ultimately have "length (filter P xs) = 1" by (metis distinct_card card.empty card_insert_disjoint empty_iff finite.emptyI One_nat_def)
  with \<open>set (filter P xs) = {x}\<close> show ?thesis by (cases "filter P xs") (auto simp del: set_filter)
qed

section \<open>Statements on a shared state\<close>

text \<open>
  A computation that reads and changes a state, and throws or returns. \<open>query\<close> is one statement of
  an operation, named \<open>k\<close>: the fault oracle says whether it fails for a reason outside the model.
\<close>

type_synonym ('s, 'e, 'a) stm = "'s \<Rightarrow> 's \<times> ('e + 'a)"

definition retQ :: "'a \<Rightarrow> ('s, 'e, 'a) stm" where
  "retQ x s = (s, Inr x)"

definition bindQ :: "('s, 'e, 'a) stm \<Rightarrow> ('a \<Rightarrow> ('s, 'e, 'b) stm) \<Rightarrow> ('s, 'e, 'b) stm" where
  "bindQ m f s = (case m s of (s', Inl e) \<Rightarrow> (s', Inl e) | (s', Inr x) \<Rightarrow> f x s')"

definition throwQ :: "'e \<Rightarrow> ('s, 'e, 'a) stm" where
  "throwQ e s = (s, Inl e)"

definition query :: "('k \<Rightarrow> 'e option) \<Rightarrow> 'k \<Rightarrow> ('s, 'e, 'a) stm \<Rightarrow> ('s, 'e, 'a) stm" where
  "query flt k m s = (case flt k of Some e \<Rightarrow> (s, Inl e) | None \<Rightarrow> m s)"

lemma bindQ_retQ [simp]: "bindQ (retQ x) f = f x"
  by (rule ext) (simp add: bindQ_def retQ_def)

lemma bindQ_Inr_iff: "bindQ m f s = (s', Inr y) \<longleftrightarrow> (\<exists>s1 x. m s = (s1, Inr x) \<and> f x s1 = (s', Inr y))"
  by (auto simp: bindQ_def split: prod.splits sum.splits)

lemma query_Inr_iff: "query flt k m s = (s', Inr y) \<longleftrightarrow> flt k = None \<and> m s = (s', Inr y)"
  by (auto simp: query_def split: option.splits)

lemma retQ_Inr_iff: "retQ x s = (s', Inr y) \<longleftrightarrow> s' = s \<and> y = x"
  by (auto simp: retQ_def)

lemma bindQ_cases:
  assumes "bindQ m f s = (s', r)"
  obtains e where "m s = (s', Inl e)" "r = Inl e" | s1 x where "m s = (s1, Inr x)" "f x s1 = (s', r)"
  using assms by (auto simp: bindQ_def split: prod.splits sum.splits)

lemma bindQ_query: "bindQ (query flt k m) f s = (case flt k of Some e \<Rightarrow> (s, Inl e) | None \<Rightarrow> bindQ m f s)"
  by (simp add: bindQ_def query_def split: option.split)

lemma bindQ_read: "bindQ (\<lambda>s. (s, Inr (g s))) f s = f (g s) s"
  by (simp add: bindQ_def)

text \<open>
  The shape of every transaction of the source: connect and \<open>BEGIN\<close> (statement 0), the body
  with its \<open>COMMIT\<close>, and on any error \<open>ROLLBACK\<close> (statement 99) and the error again.
\<close>

definition transaction :: "(nat \<Rightarrow> 'e option) \<Rightarrow> ('s, 'e, 'a) stm \<Rightarrow> ('s, 'e, 'a) stm" where
  "transaction flt body d =
     (case bindQ (query flt 0 (retQ ())) (\<lambda>_. body) d of
        (d', Inr x) \<Rightarrow> (d', Inr x)
      | (d', Inl e) \<Rightarrow> (d, Inl (case flt 99 of None \<Rightarrow> e | Some e' \<Rightarrow> e')))"

definition commit :: "(nat \<Rightarrow> 'e option) \<Rightarrow> nat \<Rightarrow> 'a \<Rightarrow> ('s, 'e, 'a) stm" where
  "commit flt i x = bindQ (query flt i (retQ ())) (\<lambda>_. retQ x)"

lemma commit_Inr_iff: "commit flt i x d = (d', Inr y) \<longleftrightarrow> flt i = None \<and> d' = d \<and> y = x"
  by (auto simp: commit_def bindQ_Inr_iff query_Inr_iff retQ_Inr_iff)

lemma transaction_Inl: "transaction flt body d = (d', Inl e) \<Longrightarrow> d' = d"
  by (auto simp: transaction_def split: prod.splits sum.splits)

lemma transaction_Inr_iff: "transaction flt body d = (d', Inr x) \<longleftrightarrow> flt 0 = None \<and> body d = (d', Inr x)"
  by (auto simp: transaction_def bindQ_def query_def retQ_def split: prod.splits sum.splits option.splits)

section \<open>Decimal text of integers\<close>

fun dec_nat :: "nat \<Rightarrow> jstr" where
  "dec_nat n = (if n < 10 then [48 + n] else dec_nat (n div 10) @ [48 + n mod 10])"

declare dec_nat.simps [simp del]

lemma dec_nat_digits: "x \<in> set (dec_nat n) \<Longrightarrow> 48 \<le> x \<and> x \<le> 57"
proof (induction n rule: dec_nat.induct)
  case (1 n)
  then show ?case by (subst (asm) dec_nat.simps) (auto split: if_splits)
qed

lemma dec_nat_nonempty [simp]: "dec_nat n \<noteq> []"
  by (subst dec_nat.simps) simp

lemma dec_nat_inject: "dec_nat m = dec_nat n \<Longrightarrow> m = n"
proof (induction m arbitrary: n rule: dec_nat.induct)
  case (1 m)
  have len: "length (dec_nat k) = 1 \<longleftrightarrow> k < 10" for k by (subst dec_nat.simps) simp
  show ?case
  proof (cases "m < 10")
    case True
    with 1(2) len [of m] len [of n] have "n < 10" by simp
    with True 1(2) show ?thesis by (subst (asm) (1 2) dec_nat.simps) simp
  next
    case False
    with 1(2) len [of m] len [of n] have n: "\<not> n < 10" by metis
    have "dec_nat m = dec_nat (m div 10) @ [48 + m mod 10]" "dec_nat n = dec_nat (n div 10) @ [48 + n mod 10]"
      using False n by (subst dec_nat.simps; simp)+
    with 1(2) have "dec_nat (m div 10) = dec_nat (n div 10)" "m mod 10 = n mod 10" by auto
    with 1(1) [OF False] have "m div 10 = n div 10" "m mod 10 = n mod 10" by auto
    then show ?thesis by (metis div_mult_mod_eq)
  qed
qed

definition dec_int :: "int \<Rightarrow> jstr" where
  "dec_int i = (if i < 0 then 45 # dec_nat (nat (- i)) else dec_nat (nat i))"

section \<open>JSON text of strings\<close>

text \<open>
  \<open>JSON.stringify\<close> on a string: control characters, the quote, the backslash and lone
  surrogates are escaped, everything else is copied.
\<close>

definition hex_digit :: "nat \<Rightarrow> nat" where
  "hex_digit n = (if n < 10 then 48 + n else 87 + n)"

definition json_u :: "nat \<Rightarrow> jstr" where
  "json_u c = [92, 117, hex_digit (c div 4096 mod 16), hex_digit (c div 256 mod 16),
     hex_digit (c div 16 mod 16), hex_digit (c mod 16)]"

definition json_esc :: "nat \<Rightarrow> jstr" where
  "json_esc c = (if c = 8 then [92, 98] else if c = 9 then [92, 116] else if c = 10 then [92, 110]
     else if c = 12 then [92, 102] else if c = 13 then [92, 114]
     else if c = 34 then [92, 34] else if c = 92 then [92, 92]
     else if c < 32 then json_u c else [c])"

definition hi_surrogate :: "nat \<Rightarrow> bool" where
  "hi_surrogate c \<longleftrightarrow> 0xD800 \<le> c \<and> c \<le> 0xDBFF"

definition lo_surrogate :: "nat \<Rightarrow> bool" where
  "lo_surrogate c \<longleftrightarrow> 0xDC00 \<le> c \<and> c \<le> 0xDFFF"

fun json_body :: "jstr \<Rightarrow> jstr" where
  "json_body [] = []"
| "json_body [c] = (if hi_surrogate c \<or> lo_surrogate c then json_u c else json_esc c)"
| "json_body (c # d # s) =
     (if hi_surrogate c \<and> lo_surrogate d then c # d # json_body s
      else if hi_surrogate c \<or> lo_surrogate c then json_u c @ json_body (d # s)
      else json_esc c @ json_body (d # s))"

definition json_quote :: "jstr \<Rightarrow> jstr" where
  "json_quote s = 34 # json_body s @ [34]"

lemmas [js_eval] = S_def trim_def is_space_def startsWith_def endsWith_def slice_from_def

end
