(* ===== verification/CircuitBreaker.thy ===== *)
theory CircuitBreaker
  imports Prelude
begin

text \<open>
  The circuit breaker (\<open>src/resilience/circuitBreaker.ts\<close>) and the connection wrapped in it
  (\<open>src/upstream/resilientUpstreamConnection.ts\<close>). \<open>execute\<close> is an asynchronous method: what it
  does before the operation starts (\<open>execute_enter\<close>) and what it does when the operation
  settles (\<open>onSuccess\<close>, \<open>onFailure\<close>) are separate steps, because other calls run in between.
  \<open>cb_step\<close> is the resulting transition relation; the clock is an argument of each step and may
  jump, as \<open>Date.now()\<close> does.
\<close>

section \<open>State and operations\<close>

datatype breaker_state = CLOSED | OPEN | HALF_OPEN

record breaker =
  state :: breaker_state
  consecutiveFailures :: int
  lastFailureTime :: "int option"
  halfOpenCalls :: int
  totalSuccesses :: int
  totalFailures :: int
  totalShortCircuited :: int
  failureThreshold :: int
  resetTimeoutMs :: int
  halfOpenMaxCalls :: int
  serviceName :: jstr

record breaker_options =
  opt_failureThreshold :: "int option"
  opt_resetTimeoutMs :: "int option"
  opt_halfOpenMaxCalls :: "int option"

definition or_default :: "'a option \<Rightarrow> 'a \<Rightarrow> 'a" where
  "or_default x d = (case x of Some v \<Rightarrow> v | None \<Rightarrow> d)"

definition new_CircuitBreaker :: "jstr \<Rightarrow> breaker_options \<Rightarrow> breaker" where
  "new_CircuitBreaker name options =
     \<lparr>state = CLOSED, consecutiveFailures = 0, lastFailureTime = None, halfOpenCalls = 0,
      totalSuccesses = 0, totalFailures = 0, totalShortCircuited = 0,
      failureThreshold = max 1 (or_default (opt_failureThreshold options) 5),
      resetTimeoutMs = max 10 (or_default (opt_resetTimeoutMs options) 30000),
      halfOpenMaxCalls = max 1 (or_default (opt_halfOpenMaxCalls options) 1),
      serviceName = name\<rparr>"

text \<open>\<open>Math.ceil(ms / 1000)\<close> on an integral number of milliseconds.\<close>

definition ceil_seconds :: "int \<Rightarrow> int" where
  "ceil_seconds ms = - ((- ms) div 1000)"

definition CircuitBreakerOpenError :: "jstr \<Rightarrow> int \<Rightarrow> js_error" where
  "CircuitBreakerOpenError name retryAfterMs =
     \<lparr>err_name = S ''CircuitBreakerOpenError'',
      err_message = S ''Circuit breaker is OPEN for upstream service '' @ [39] @ name
        @ [39] @ S ''. Fast-failing request. Retry after '' @ dec_int (ceil_seconds retryAfterMs) @ S ''s.'',
      err_code = None, err_status = Some 503\<rparr>"

definition evaluateState :: "int \<Rightarrow> breaker \<Rightarrow> breaker" where
  "evaluateState now b =
     (case lastFailureTime b of
        Some t \<Rightarrow>
          if state b = OPEN \<and> now - t \<ge> resetTimeoutMs b
          then b\<lparr>state := HALF_OPEN, halfOpenCalls := 0\<rparr> else b
      | None \<Rightarrow> b)"

definition getState :: "int \<Rightarrow> breaker \<Rightarrow> breaker \<times> breaker_state" where
  "getState now b = (let b' = evaluateState now b in (b', state b'))"

record breaker_stats =
  st_state :: breaker_state
  st_consecutiveFailures :: int
  st_lastFailureTime :: "int option"
  st_totalSuccesses :: int
  st_totalFailures :: int
  st_totalShortCircuited :: int

definition getStats :: "int \<Rightarrow> breaker \<Rightarrow> breaker \<times> breaker_stats" where
  "getStats now b = (let b' = evaluateState now b in
     (b', \<lparr>st_state = state b', st_consecutiveFailures = consecutiveFailures b',
           st_lastFailureTime = lastFailureTime b', st_totalSuccesses = totalSuccesses b',
           st_totalFailures = totalFailures b', st_totalShortCircuited = totalShortCircuited b'\<rparr>))"

text \<open>
  \<open>execute\<close> up to the call of the operation. The clock is read once in \<open>evaluateState\<close> (\<open>now\<close>)
  and again for the retry hint (\<open>now'\<close>). \<open>Inr ()\<close>: the operation starts.
\<close>

definition execute_enter :: "int \<Rightarrow> int \<Rightarrow> breaker \<Rightarrow> breaker \<times> unit result" where
  "execute_enter now now' b0 =
     (let b = evaluateState now b0 in
      if state b = OPEN then
        let retryAfterMs = (case lastFailureTime b of
            Some t \<Rightarrow> max 0 (resetTimeoutMs b - (now' - t))
          | None \<Rightarrow> resetTimeoutMs b)
        in (b\<lparr>totalShortCircuited := totalShortCircuited b + 1\<rparr>,
            Inl (CircuitBreakerOpenError (serviceName b) retryAfterMs))
      else if state b = HALF_OPEN then
        if halfOpenCalls b \<ge> halfOpenMaxCalls b
        then (b\<lparr>totalShortCircuited := totalShortCircuited b + 1\<rparr>,
              Inl (CircuitBreakerOpenError (serviceName b) (resetTimeoutMs b)))
        else (b\<lparr>halfOpenCalls := halfOpenCalls b + 1\<rparr>, Inr ())
      else (b, Inr ()))"

definition onSuccess :: "breaker \<Rightarrow> breaker" where
  "onSuccess b = b\<lparr>totalSuccesses := totalSuccesses b + 1, consecutiveFailures := 0,
     halfOpenCalls := 0, state := CLOSED\<rparr>"

definition onFailure :: "int \<Rightarrow> breaker \<Rightarrow> breaker" where
  "onFailure now b =
     (let b' = b\<lparr>totalFailures := totalFailures b + 1,
                 consecutiveFailures := consecutiveFailures b + 1,
                 lastFailureTime := Some now\<rparr>
      in if state b' = HALF_OPEN \<or> consecutiveFailures b' \<ge> failureThreshold b'
         then b'\<lparr>state := OPEN\<rparr> else b')"

definition reset :: "breaker \<Rightarrow> breaker" where
  "reset b = b\<lparr>state := CLOSED, consecutiveFailures := 0, lastFailureTime := None, halfOpenCalls := 0\<rparr>"

text \<open>
  \<open>execute\<close> when nothing else runs between its steps: \<open>fn\<close> acts on a state of its own and
  returns a result or the error it throws; \<open>now''\<close> is the clock when it fails.
\<close>

definition execute :: "int \<Rightarrow> int \<Rightarrow> int \<Rightarrow> ('s \<Rightarrow> 's \<times> 'a result) \<Rightarrow> breaker \<times> 's \<Rightarrow> (breaker \<times> 's) \<times> 'a result" where
  "execute now now' now'' fn bs =
     (case execute_enter now now' (fst bs) of
        (b, Inl e) \<Rightarrow> ((b, snd bs), Inl e)
      | (b, Inr _) \<Rightarrow>
          (case fn (snd bs) of
             (s', Inr x) \<Rightarrow> ((onSuccess b, s'), Inr x)
           | (s', Inl e) \<Rightarrow> ((onFailure now'' b, s'), Inl e)))"

section \<open>The wrapped connection\<close>

text \<open>
  \<open>ResilientUpstreamConnection\<close>: the inner connection is a remote server behind the MCP client,
  a state with a \<open>listTools\<close>, a \<open>callTool\<close> and a \<open>close\<close>.
\<close>

record 's inner_ops =
  in_listTools :: "'s \<Rightarrow> 's \<times> jv list result"
  in_callTool :: "jstr \<Rightarrow> jv \<Rightarrow> 's \<Rightarrow> 's \<times> jv result"
  in_close :: "'s \<Rightarrow> 's \<times> unit result"

record 's resilient =
  rc_id :: jstr
  rc_toolPrefix :: jstr
  rc_breaker :: breaker
  rc_inner :: 's

definition new_Resilient :: "jstr \<Rightarrow> jstr \<Rightarrow> 's \<Rightarrow> breaker_options \<Rightarrow> 's resilient" where
  "new_Resilient innerId innerPrefix inner options =
     \<lparr>rc_id = innerId, rc_toolPrefix = innerPrefix,
      rc_breaker = new_CircuitBreaker innerId options, rc_inner = inner\<rparr>"

definition resilient_run :: "int \<times> int \<times> int \<Rightarrow> ('s \<Rightarrow> 's \<times> 'a result) \<Rightarrow> 's resilient \<Rightarrow> 's resilient \<times> 'a result" where
  "resilient_run clk fn rc =
     (case execute (fst clk) (fst (snd clk)) (snd (snd clk)) fn (rc_breaker rc, rc_inner rc) of
        ((b, s), r) \<Rightarrow> (rc\<lparr>rc_breaker := b, rc_inner := s\<rparr>, r))"

definition resilient_listTools :: "int \<times> int \<times> int \<Rightarrow> 's inner_ops \<Rightarrow> 's resilient \<Rightarrow> 's resilient \<times> jv list result" where
  "resilient_listTools clk ops rc = resilient_run clk (in_listTools ops) rc"

definition resilient_callTool :: "int \<times> int \<times> int \<Rightarrow> 's inner_ops \<Rightarrow> jstr \<Rightarrow> jv \<Rightarrow> 's resilient \<Rightarrow> 's resilient \<times> jv result" where
  "resilient_callTool clk ops name arguments rc = resilient_run clk (in_callTool ops name arguments) rc"

definition resilient_close :: "'s inner_ops \<Rightarrow> 's resilient \<Rightarrow> 's resilient \<times> unit result" where
  "resilient_close ops rc = (case in_close ops (rc_inner rc) of (s, r) \<Rightarrow> (rc\<lparr>rc_inner := s\<rparr>, r))"

section \<open>The transition system\<close>

text \<open>
  \<open>inflight\<close> counts the operations that started and have not settled; \<open>calls\<close> counts the calls
  of \<open>execute\<close>. Any started operation may settle at any time.
\<close>

record cb_sys =
  brk :: breaker
  inflight :: nat
  calls :: nat

inductive cb_step :: "cb_sys \<Rightarrow> cb_sys \<Rightarrow> bool" where
  admit: "execute_enter now now' (brk s) = (b, Inr ()) \<Longrightarrow>
     cb_step s (s\<lparr>brk := b, inflight := inflight s + 1, calls := calls s + 1\<rparr>)"
| reject: "execute_enter now now' (brk s) = (b, Inl e) \<Longrightarrow>
     cb_step s (s\<lparr>brk := b, calls := calls s + 1\<rparr>)"
| succeed: "0 < inflight s \<Longrightarrow>
     cb_step s (s\<lparr>brk := onSuccess (brk s), inflight := inflight s - 1\<rparr>)"
| fail: "0 < inflight s \<Longrightarrow>
     cb_step s (s\<lparr>brk := onFailure now (brk s), inflight := inflight s - 1\<rparr>)"
| observe: "cb_step s (s\<lparr>brk := evaluateState now (brk s)\<rparr>)"
| do_reset: "cb_step s (s\<lparr>brk := reset (brk s)\<rparr>)"

inductive cb_reachable :: "breaker \<Rightarrow> cb_sys \<Rightarrow> bool" for b0 where
  start: "cb_reachable b0 \<lparr>brk = b0, inflight = 0, calls = 0\<rparr>"
| step: "cb_reachable b0 s \<Longrightarrow> cb_step s t \<Longrightarrow> cb_reachable b0 t"

inductive_cases cb_stepE: "cb_step s t"

lemmas breaker_ops = evaluateState_def execute_enter_def onSuccess_def onFailure_def reset_def

section \<open>Invariants\<close>

definition breaker_inv :: "breaker \<Rightarrow> bool" where
  "breaker_inv b \<longleftrightarrow>
     1 \<le> failureThreshold b \<and> 10 \<le> resetTimeoutMs b \<and> 1 \<le> halfOpenMaxCalls b
     \<and> 0 \<le> consecutiveFailures b \<and> 0 \<le> halfOpenCalls b \<and> halfOpenCalls b \<le> halfOpenMaxCalls b
     \<and> (state b \<noteq> CLOSED \<longrightarrow> lastFailureTime b \<noteq> None \<and> 1 \<le> consecutiveFailures b)
     \<and> (state b = CLOSED \<longrightarrow> consecutiveFailures b < failureThreshold b \<and> halfOpenCalls b = 0)"

lemma new_inv: "breaker_inv (new_CircuitBreaker n opts)"
  by (auto simp: breaker_inv_def new_CircuitBreaker_def)

lemma evaluateState_inv [inv_intro]: "breaker_inv b \<Longrightarrow> breaker_inv (evaluateState now b)"
  by (auto simp: breaker_inv_def evaluateState_def split: option.splits)

lemma execute_enter_inv [inv_intro]:
  "breaker_inv b \<Longrightarrow> execute_enter now now' b = (b', r) \<Longrightarrow> breaker_inv b'"
  using evaluateState_inv [of b now]
  by (auto simp: execute_enter_def Let_def breaker_inv_def split: if_splits)

lemma onSuccess_inv [inv_intro]: "breaker_inv b \<Longrightarrow> breaker_inv (onSuccess b)"
  by (auto simp: breaker_inv_def onSuccess_def)

lemma onFailure_inv [inv_intro]: "breaker_inv b \<Longrightarrow> breaker_inv (onFailure now b)"
  by (cases "state b") (auto simp: breaker_inv_def onFailure_def Let_def)

lemma reset_inv [inv_intro]: "breaker_inv b \<Longrightarrow> breaker_inv (reset b)"
  by (auto simp: breaker_inv_def reset_def)

lemma cb_step_inv: "cb_step s t \<Longrightarrow> breaker_inv (brk s) \<Longrightarrow> breaker_inv (brk t)"
  by (erule cb_stepE) (auto intro: inv_intro)

lemma cb_reachable_inv: "cb_reachable (new_CircuitBreaker n opts) s \<Longrightarrow> breaker_inv (brk s)"
  by (induction rule: cb_reachable.induct) (auto simp: new_inv intro: cb_step_inv)

text \<open>Every call is accounted for.\<close>

definition accounted :: "cb_sys \<Rightarrow> bool" where
  "accounted s \<longleftrightarrow> int (calls s) =
     totalSuccesses (brk s) + totalFailures (brk s) + totalShortCircuited (brk s) + int (inflight s)"

lemma totals_evaluateState [simp]:
  "totalSuccesses (evaluateState now b) = totalSuccesses b"
  "totalFailures (evaluateState now b) = totalFailures b"
  "totalShortCircuited (evaluateState now b) = totalShortCircuited b"
  by (auto simp: evaluateState_def split: option.split)

lemma config_evaluateState [simp]:
  "failureThreshold (evaluateState now b) = failureThreshold b"
  "resetTimeoutMs (evaluateState now b) = resetTimeoutMs b"
  "halfOpenMaxCalls (evaluateState now b) = halfOpenMaxCalls b"
  "lastFailureTime (evaluateState now b) = lastFailureTime b"
  "consecutiveFailures (evaluateState now b) = consecutiveFailures b"
  "serviceName (evaluateState now b) = serviceName b"
  by (auto simp: evaluateState_def split: option.split)

lemma cb_step_accounted: "cb_step s t \<Longrightarrow> accounted s \<Longrightarrow> accounted t"
  by (erule cb_stepE)
     (auto simp: accounted_def execute_enter_def onSuccess_def onFailure_def reset_def Let_def
        split: if_splits)

lemma cb_reachable_accounted: "cb_reachable (new_CircuitBreaker n opts) s \<Longrightarrow> accounted s"
proof (induction rule: cb_reachable.induct)
  case start
  show ?case by (simp add: accounted_def new_CircuitBreaker_def)
next
  case (step s t)
  then show ?case by (blast intro: cb_step_accounted)
qed

section \<open>Behaviour\<close>

text \<open>Failures in a row, with no success between them, from a closed breaker.\<close>

fun failures :: "int list \<Rightarrow> breaker \<Rightarrow> breaker" where
  "failures [] b = b"
| "failures (now # ts) b = failures ts (onFailure now b)"

lemma onFailure_open [simp]: "state b = OPEN \<Longrightarrow> state (onFailure now b) = OPEN"
  by (simp add: onFailure_def Let_def)

lemma failures_stay_open: "state b = OPEN \<Longrightarrow> state (failures ts b) = OPEN"
  by (induction ts arbitrary: b) simp_all

lemma failures_state:
  assumes "breaker_inv b" and "state b = CLOSED"
  shows "state (failures ts b) =
    (if ts \<noteq> [] \<and> consecutiveFailures b + int (length ts) \<ge> failureThreshold b then OPEN else CLOSED)"
  using assms
proof (induction ts arbitrary: b)
  case Nil
  then show ?case by simp
next
  case (Cons t ts)
  show ?case
  proof (cases "consecutiveFailures b + 1 \<ge> failureThreshold b")
    case True
    then have "state (onFailure t b) = OPEN" by (simp add: onFailure_def Let_def)
    with Cons True show ?thesis by (auto simp: failures_stay_open)
  next
    case False
    with Cons have "state (onFailure t b) = CLOSED"
      and "consecutiveFailures (onFailure t b) = consecutiveFailures b + 1"
      and "failureThreshold (onFailure t b) = failureThreshold b"
      by (auto simp: onFailure_def Let_def)
    with Cons False show ?thesis by (auto simp: onFailure_inv)
  qed
qed

lemma enter_open:
  assumes "state b = OPEN" and "lastFailureTime b = Some t" and "now - t < resetTimeoutMs b"
  shows "execute_enter now now' b =
    (b\<lparr>totalShortCircuited := totalShortCircuited b + 1\<rparr>,
     Inl (CircuitBreakerOpenError (serviceName b) (max 0 (resetTimeoutMs b - (now' - t)))))"
  using assms by (simp add: execute_enter_def evaluateState_def Let_def)

lemma enter_after_timeout:
  assumes "breaker_inv b" and "state b = OPEN" and "lastFailureTime b = Some t"
    and "now - t \<ge> resetTimeoutMs b"
  shows "execute_enter now now' b = (b\<lparr>state := HALF_OPEN, halfOpenCalls := 1\<rparr>, Inr ())"
  using assms by (simp add: execute_enter_def evaluateState_def Let_def breaker_inv_def)

lemma enter_half_open:
  assumes "state b = HALF_OPEN"
  shows "execute_enter now now' b =
    (if halfOpenCalls b \<ge> halfOpenMaxCalls b
     then (b\<lparr>totalShortCircuited := totalShortCircuited b + 1\<rparr>,
           Inl (CircuitBreakerOpenError (serviceName b) (resetTimeoutMs b)))
     else (b\<lparr>halfOpenCalls := halfOpenCalls b + 1\<rparr>, Inr ()))"
  using assms by (simp add: execute_enter_def evaluateState_def Let_def split: option.split)

text \<open>Attempts to enter, one after another, while no started operation settles.\<close>

fun enter_all :: "(int \<times> int) list \<Rightarrow> breaker \<Rightarrow> breaker \<times> nat" where
  "enter_all [] b = (b, 0)"
| "enter_all (c # cs) b =
     (case execute_enter (fst c) (snd c) b of
        (b', Inl _) \<Rightarrow> enter_all cs b'
      | (b', Inr _) \<Rightarrow> (case enter_all cs b' of (b'', n) \<Rightarrow> (b'', n + 1)))"

lemma enter_all_half_open:
  assumes "state b = HALF_OPEN" and "halfOpenCalls b \<le> halfOpenMaxCalls b"
  shows "int (snd (enter_all cs b)) = min (int (length cs)) (halfOpenMaxCalls b - halfOpenCalls b)
    \<and> state (fst (enter_all cs b)) = HALF_OPEN"
  using assms
proof (induction cs arbitrary: b)
  case Nil
  then show ?case by simp
next
  case (Cons c cs)
  show ?case
  proof (cases "halfOpenCalls b \<ge> halfOpenMaxCalls b")
    case True
    with Cons.prems Cons.IH [of "b\<lparr>totalShortCircuited := totalShortCircuited b + 1\<rparr>"]
    show ?thesis by (simp add: enter_half_open)
  next
    case False
    with Cons.prems Cons.IH [of "b\<lparr>halfOpenCalls := halfOpenCalls b + 1\<rparr>"]
    show ?thesis by (auto simp: enter_half_open split: prod.split)
  qed
qed

section \<open>Properties\<close>

text \<open>
  In every state the breaker can reach, under any interleaving of calls, settlements,
  observations, resets and clock jumps: a breaker that is not closed knows when it last failed,
  a closed breaker has fewer consecutive failures than its threshold, and no more probes than
  \<open>halfOpenMaxCalls\<close> were admitted since it became half-open.
\<close>

theorem breaker_invariant:
  assumes "cb_reachable (new_CircuitBreaker name options) s"
  shows "(state (brk s) \<noteq> CLOSED \<longrightarrow> lastFailureTime (brk s) \<noteq> None)
    \<and> (state (brk s) = CLOSED \<longrightarrow> consecutiveFailures (brk s) < failureThreshold (brk s))
    \<and> 0 \<le> halfOpenCalls (brk s) \<and> halfOpenCalls (brk s) \<le> halfOpenMaxCalls (brk s)"
  using cb_reachable_inv [OF assms] by (simp add: breaker_inv_def)

definition demo_options :: breaker_options where
  "demo_options = \<lparr>opt_failureThreshold = Some 2, opt_resetTimeoutMs = Some 1000, opt_halfOpenMaxCalls = None\<rparr>"

definition demo_breaker :: breaker where
  "demo_breaker = new_CircuitBreaker (S ''up'') demo_options"

lemmas demo_defs = demo_breaker_def demo_options_def new_CircuitBreaker_def or_default_def

theorem breaker_invariant_witness:
  "halfOpenCalls (brk \<lparr>brk = demo_breaker, inflight = 0, calls = 0\<rparr>)
     \<le> halfOpenMaxCalls (brk \<lparr>brk = demo_breaker, inflight = 0, calls = 0\<rparr>)"
  using breaker_invariant [of "S ''up''" demo_options "\<lparr>brk = demo_breaker, inflight = 0, calls = 0\<rparr>"]
  by (simp add: demo_breaker_def cb_reachable.start)

text \<open>
  No call is lost: in every reachable state the number of calls of \<open>execute\<close> is the number of
  successes, failures and short-circuited calls the statistics report plus the operations in
  flight. A reset changes none of the totals.
\<close>

theorem breaker_accounting:
  assumes "cb_reachable (new_CircuitBreaker name options) s"
  shows "int (calls s) = totalSuccesses (brk s) + totalFailures (brk s)
    + totalShortCircuited (brk s) + int (inflight s)"
  using cb_reachable_accounted [OF assms] by (simp add: accounted_def)

theorem breaker_accounting_witness:
  "int 0 = totalSuccesses demo_breaker + totalFailures demo_breaker + totalShortCircuited demo_breaker + int 0"
  using breaker_accounting [of "S ''up''" demo_options "\<lparr>brk = demo_breaker, inflight = 0, calls = 0\<rparr>"]
  by (simp add: demo_breaker_def cb_reachable.start)

text \<open>
  A closed breaker trips exactly at the threshold: after \<open>n\<close> failures in a row it is open if
  and only if the failures counted before and these reach \<open>failureThreshold\<close>; and as long as less
  than \<open>resetTimeoutMs\<close> passed since the last failure, a call fails with the breaker's error and
  the operation is not run.
\<close>

theorem breaker_trips_and_fails_fast:
  assumes "breaker_inv b" and "state b = CLOSED" and "ts \<noteq> []"
  shows "(state (failures ts b) = OPEN \<longleftrightarrow>
      consecutiveFailures b + int (length ts) \<ge> failureThreshold b)
    \<and> (\<forall>c t now now' now'' fn s. state c = OPEN \<and> lastFailureTime c = Some t \<and> now - t < resetTimeoutMs c
        \<longrightarrow> execute now now' now'' fn (c, s) =
          ((c\<lparr>totalShortCircuited := totalShortCircuited c + 1\<rparr>, s),
           Inl (CircuitBreakerOpenError (serviceName c) (max 0 (resetTimeoutMs c - (now' - t))))))"
  using assms by (simp add: failures_state execute_def enter_open)

theorem breaker_trips_and_fails_fast_witness: "state (failures [0, 5] demo_breaker) = OPEN"
proof -
  have "breaker_inv demo_breaker" by (simp add: demo_breaker_def new_inv)
  from conjunct1 [OF breaker_trips_and_fails_fast [OF this, of "[0, 5]"]] show ?thesis
    by (simp add: demo_defs)
qed

text \<open>
  Half-open admission: however many calls arrive, and whatever the clock says, exactly
  \<open>halfOpenMaxCalls - halfOpenCalls\<close> of them are admitted before one of the admitted ones settles,
  and the breaker stays half-open, so a probe that never settles keeps the breaker rejecting.
\<close>

theorem half_open_admission:
  assumes "breaker_inv b" and "state b = HALF_OPEN"
  shows "int (snd (enter_all cs b)) = min (int (length cs)) (halfOpenMaxCalls b - halfOpenCalls b)
    \<and> state (fst (enter_all cs b)) = HALF_OPEN"
  using assms by (intro enter_all_half_open) (auto simp: breaker_inv_def)

theorem half_open_admission_witness:
  "int (snd (enter_all [(2000, 2000), (2001, 2001), (9000, 9000)]
      (evaluateState 2000 (failures [0, 5] demo_breaker)))) = 1"
proof -
  let ?b = "evaluateState 2000 (failures [0, 5] demo_breaker)"
  have "breaker_inv demo_breaker" by (simp add: demo_breaker_def new_inv)
  then have "breaker_inv ?b" by (auto intro!: inv_intro)
  moreover have "state ?b = HALF_OPEN" "halfOpenMaxCalls ?b = 1" "halfOpenCalls ?b = 0"
    by (simp_all add: demo_defs breaker_ops Let_def)
  ultimately show ?thesis
    using half_open_admission [of ?b "[(2000, 2000), (2001, 2001), (9000, 9000)]"] by simp
qed

text \<open>
  A call admitted while the breaker was still closed and succeeding after the breaker tripped
  closes it at once: the reset timeout has not passed and no probe was made.
\<close>

theorem stale_success_closes:
  assumes "state (brk s) = OPEN" and "0 < inflight s"
  shows "\<exists>t. cb_step s t \<and> state (brk t) = CLOSED \<and> consecutiveFailures (brk t) = 0
    \<and> (\<forall>now now'. snd (execute_enter now now' (brk t)) = Inr ())"
proof (intro exI conjI)
  show "cb_step s (s\<lparr>brk := onSuccess (brk s), inflight := inflight s - 1\<rparr>)"
    using assms(2) by (rule cb_step.succeed)
qed (auto simp: onSuccess_def execute_enter_def evaluateState_def Let_def split: option.split)

theorem stale_success_closes_witness:
  "\<exists>t. cb_step \<lparr>brk = failures [0, 5] demo_breaker, inflight = 1, calls = 3\<rparr> t \<and> state (brk t) = CLOSED"
  using stale_success_closes [of "\<lparr>brk = failures [0, 5] demo_breaker, inflight = 1, calls = 3\<rparr>"]
  by (auto simp: demo_defs breaker_ops Let_def)

end
