(* ===== verification/JsRegex.thy ===== *)
theory JsRegex
  imports Prelude
begin

text \<open>
  The fragment of ECMAScript regular expressions the source uses, as a backtracking matcher:
  character classes, sequence, ordered choice, greedy repetition, numbered groups, \<open>^\<close>, \<open>$\<close>,
  \<open>\b\<close> and negative lookahead. \<open>ends r p\<close> lists the positions at which a match of \<open>r\<close> started
  at \<open>p\<close> can end, in the order in which the backtracking matcher tries them, so its head is the
  match the engine reports. \<open>Matches\<close> is the declarative relation the matcher computes.
\<close>

section \<open>Patterns and positions\<close>

datatype re =
    REps
  | RCls "nat \<Rightarrow> bool"
  | RSeq re re
  | RAlt re re
  | RStar re
  | RCap nat re
  | RBol
  | REol
  | RWordB
  | RNegLook re

text \<open>A position: the code unit before it, the rest of the input, the groups captured so far.\<close>

datatype mpos = MPos (mprev: "nat option") (mrest: jstr) (mcaps: "(nat \<times> jstr) list")

definition word_char :: "nat \<Rightarrow> bool" where
  "word_char c \<longleftrightarrow> (48 \<le> c \<and> c \<le> 57) \<or> (65 \<le> c \<and> c \<le> 90) \<or> (97 \<le> c \<and> c \<le> 122) \<or> c = 95"

definition at_boundary :: "nat option \<Rightarrow> jstr \<Rightarrow> bool" where
  "at_boundary pr s \<longleftrightarrow>
     (case pr of None \<Rightarrow> False | Some c \<Rightarrow> word_char c) \<noteq> (case s of [] \<Rightarrow> False | c # _ \<Rightarrow> word_char c)"

section \<open>The matcher\<close>

text \<open>
  Greedy repetition: an iteration that consumes nothing is rejected, as the language prescribes,
  so the length of the rest bounds the number of iterations.
\<close>

primrec star_ends :: "(mpos \<Rightarrow> mpos list) \<Rightarrow> nat \<Rightarrow> mpos \<Rightarrow> mpos list" where
  "star_ends f 0 p = [p]"
| "star_ends f (Suc n) p =
     concat (map (star_ends f n) (filter (\<lambda>q. length (mrest q) < length (mrest p)) (f p))) @ [p]"

definition with_cap :: "nat \<Rightarrow> mpos \<Rightarrow> mpos \<Rightarrow> mpos" where
  "with_cap i p q = MPos (mprev q) (mrest q)
     ((i, take (length (mrest p) - length (mrest q)) (mrest p)) # mcaps q)"

primrec ends :: "re \<Rightarrow> mpos \<Rightarrow> mpos list" where
  "ends REps p = [p]"
| "ends (RCls P) p = (case mrest p of [] \<Rightarrow> [] | c # s \<Rightarrow> if P c then [MPos (Some c) s (mcaps p)] else [])"
| "ends (RSeq a b) p = concat (map (ends b) (ends a p))"
| "ends (RAlt a b) p = ends a p @ ends b p"
| "ends (RStar a) p = star_ends (ends a) (length (mrest p)) p"
| "ends (RCap i a) p = map (with_cap i p) (ends a p)"
| "ends RBol p = (if mprev p = None then [p] else [])"
| "ends REol p = (if mrest p = [] then [p] else [])"
| "ends RWordB p = (if at_boundary (mprev p) (mrest p) then [p] else [])"
| "ends (RNegLook a) p = (if ends a p = [] then [p] else [])"

subsection \<open>The relation the matcher computes\<close>

inductive Star :: "(mpos \<Rightarrow> mpos \<Rightarrow> bool) \<Rightarrow> mpos \<Rightarrow> mpos \<Rightarrow> bool" for R where
  Star_refl: "Star R p p"
| Star_step: "R p q \<Longrightarrow> length (mrest q) < length (mrest p) \<Longrightarrow> Star R q t \<Longrightarrow> Star R p t"

primrec Matches :: "re \<Rightarrow> mpos \<Rightarrow> mpos \<Rightarrow> bool" where
  "Matches REps p q = (q = p)"
| "Matches (RCls P) p q = (\<exists>c s. mrest p = c # s \<and> P c \<and> q = MPos (Some c) s (mcaps p))"
| "Matches (RSeq a b) p q = (\<exists>m. Matches a p m \<and> Matches b m q)"
| "Matches (RAlt a b) p q = (Matches a p q \<or> Matches b p q)"
| "Matches (RStar a) p q = Star (Matches a) p q"
| "Matches (RCap i a) p q = (\<exists>m. Matches a p m \<and> q = with_cap i p m)"
| "Matches RBol p q = (q = p \<and> mprev p = None)"
| "Matches REol p q = (q = p \<and> mrest p = [])"
| "Matches RWordB p q = (q = p \<and> at_boundary (mprev p) (mrest p))"
| "Matches (RNegLook a) p q = (q = p \<and> (\<forall>t. \<not> Matches a p t))"

lemma star_ends_iff:
  "length (mrest p) \<le> n \<Longrightarrow> q \<in> set (star_ends f n p) \<longleftrightarrow> Star (\<lambda>x y. y \<in> set (f x)) p q"
proof (induction n arbitrary: p)
  case 0
  then show ?case
    by (simp only: star_ends.simps list.set singleton_iff) (metis Star.cases Star_refl le_zero_eq not_less_zero)
next
  case (Suc n)
  have IH: "q \<in> set (star_ends f n m) \<longleftrightarrow> Star (\<lambda>x y. y \<in> set (f x)) m q"
    if "length (mrest m) < length (mrest p)" for m
    using that Suc.prems by (intro Suc.IH) linarith
  have "q \<in> set (star_ends f (Suc n) p) \<longleftrightarrow>
      (\<exists>m. m \<in> set (f p) \<and> length (mrest m) < length (mrest p) \<and> q \<in> set (star_ends f n m)) \<or> q = p"
    by (simp) blast
  also have "\<dots> \<longleftrightarrow> Star (\<lambda>x y. y \<in> set (f x)) p q"
    using IH by (metis Star.simps)
  finally show ?case .
qed

theorem ends_iff_Matches: "q \<in> set (ends r p) \<longleftrightarrow> Matches r p q"
proof (induction r arbitrary: p q)
  case (RCls P)
  then show ?case by (auto split: list.splits)
next
  case (RStar r)
  then show ?case by (simp add: star_ends_iff)
next
  case (RNegLook r)
  have "ends r p = [] \<longleftrightarrow> (\<forall>t. t \<notin> set (ends r p))" by (cases "ends r p") auto
  with RNegLook show ?case by auto
next
  case (RCap i r)
  then show ?case by (simp add: image_iff) blast
qed auto

lemma ends_empty_iff: "ends r p = [] \<longleftrightarrow> (\<forall>q. \<not> Matches r p q)"
  by (metis ends_iff_Matches list.set_intros(1) neq_Nil_conv empty_iff list.set(1))

subsection \<open>A match only moves forward\<close>

definition reaches :: "mpos \<Rightarrow> mpos \<Rightarrow> bool" where
  "reaches p q \<longleftrightarrow> suffix (mrest q) (mrest p)"

lemma reaches_refl [simp]: "reaches p p"
  by (simp add: reaches_def)

lemma reaches_trans [trans]: "reaches p q \<Longrightarrow> reaches q t \<Longrightarrow> reaches p t"
  unfolding reaches_def using suffix_order.trans by blast

lemma Star_reaches: "Star R p q \<Longrightarrow> (\<And>x y. R x y \<Longrightarrow> reaches x y) \<Longrightarrow> reaches p q"
  by (induction rule: Star.induct) (simp, meson reaches_trans)

lemma Matches_reaches: "Matches r p q \<Longrightarrow> reaches p q"
proof (induction r arbitrary: p q)
  case (RCls P)
  then show ?case by (auto simp: reaches_def suffix_def)
next
  case (RSeq a b)
  then show ?case by (simp) (meson reaches_trans)
next
  case (RStar r)
  then show ?case using Star_reaches by simp
next
  case (RCap i r)
  then show ?case by (auto simp: with_cap_def reaches_def)
qed auto

lemma ends_length: "q \<in> set (ends r p) \<Longrightarrow> length (mrest q) \<le> length (mrest p)"
  by (auto simp: ends_iff_Matches reaches_def dest!: Matches_reaches suffix_length_le)

section \<open>Searching and replacing\<close>

text \<open>\<open>test\<close> of an expression without the global flag: a match at some position.\<close>

primrec test_from :: "re \<Rightarrow> nat option \<Rightarrow> jstr \<Rightarrow> bool" where
  "test_from r pr [] = (ends r (MPos pr [] []) \<noteq> [])"
| "test_from r pr (c # s) = (ends r (MPos pr (c # s) []) \<noteq> [] \<or> test_from r (Some c) s)"

definition re_test :: "re \<Rightarrow> jstr \<Rightarrow> bool" where
  "re_test r s = test_from r None s"

text \<open>\<open>exec\<close> of an expression without the global flag: the groups of the first match.\<close>

primrec exec_from :: "re \<Rightarrow> nat option \<Rightarrow> jstr \<Rightarrow> (nat \<times> jstr) list option" where
  "exec_from r pr [] = (case ends r (MPos pr [] []) of [] \<Rightarrow> None | q # _ \<Rightarrow> Some (mcaps q))"
| "exec_from r pr (c # s) = (case ends r (MPos pr (c # s) []) of
     [] \<Rightarrow> exec_from r (Some c) s | q # _ \<Rightarrow> Some (mcaps q))"

definition re_exec :: "re \<Rightarrow> jstr \<Rightarrow> (nat \<times> jstr) list option" where
  "re_exec r s = exec_from r None s"

text \<open>
  The scan of a global expression cuts the input into the code units outside matches and the
  matches with their groups. An empty match advances by one code unit.
\<close>

datatype seg = Plain nat | Hit jstr "(nat \<times> jstr) list"

function segments :: "re \<Rightarrow> nat option \<Rightarrow> jstr \<Rightarrow> seg list" where
  "segments r pr s =
     (case ends r (MPos pr s []) of
        q # _ \<Rightarrow>
          if length (mrest q) < length s
          then Hit (take (length s - length (mrest q)) s) (mcaps q) # segments r (mprev q) (mrest q)
          else Hit [] (mcaps q) # (case s of [] \<Rightarrow> [] | c # cs \<Rightarrow> Plain c # segments r (Some c) cs)
      | [] \<Rightarrow> (case s of [] \<Rightarrow> [] | c # cs \<Rightarrow> Plain c # segments r (Some c) cs))"
  by pat_completeness auto
termination
  by (relation "measure (\<lambda>(r, pr, s). length s)") auto

declare segments.simps [simp del]

definition seg_text :: "seg \<Rightarrow> jstr" where
  "seg_text g = (case g of Plain c \<Rightarrow> [c] | Hit m _ \<Rightarrow> m)"

lemma seg_text_simps [simp]: "seg_text (Plain c) = [c]" "seg_text (Hit m k) = m"
  by (simp_all add: seg_text_def)

definition re_replace :: "re \<Rightarrow> (jstr \<Rightarrow> (nat \<times> jstr) list \<Rightarrow> jstr) \<Rightarrow> jstr \<Rightarrow> jstr" where
  "re_replace r f s =
     concat (map (\<lambda>g. case g of Plain c \<Rightarrow> [c] | Hit m k \<Rightarrow> f m k) (segments r None s))"

definition re_match_all :: "re \<Rightarrow> jstr \<Rightarrow> jstr list" where
  "re_match_all r s = concat (map (\<lambda>g. case g of Plain _ \<Rightarrow> [] | Hit m _ \<Rightarrow> [m]) (segments r None s))"

text \<open>The group \<open>$i\<close> of a match; a group that took no part reads as the empty string.\<close>

definition group :: "(nat \<times> jstr) list \<Rightarrow> nat \<Rightarrow> jstr" where
  "group k i = (case map_of k i of Some t \<Rightarrow> t | None \<Rightarrow> [])"

lemma ends_head_drop:
  assumes "ends r (MPos pr s []) = q # qs"
  shows "take (length s - length (mrest q)) s @ mrest q = s"
proof -
  from assms have "q \<in> set (ends r (MPos pr s []))" by simp
  then have "suffix (mrest q) s"
    by (auto simp: ends_iff_Matches reaches_def dest!: Matches_reaches)
  then show ?thesis by (auto simp: suffix_def)
qed

text \<open>The scan loses nothing: the segments spell the input.\<close>

lemma segments_text: "concat (map seg_text (segments r pr s)) = s"
proof (induction r pr s rule: segments.induct)
  case (1 r pr s)
  show ?case
  proof (cases "ends r (MPos pr s [])")
    case Nil
    with 1 show ?thesis by (subst segments.simps) (auto split: list.split)
  next
    case (Cons q qs)
    show ?thesis
    proof (cases "length (mrest q) < length s")
      case True
      then have IH: "concat (map seg_text (segments r (mprev q) (mrest q))) = mrest q"
        using 1 Cons by blast
      from True Cons IH ends_head_drop [OF Cons] show ?thesis
        by (subst segments.simps) simp
    next
      case False
      have "concat (map seg_text (segments r (Some c) cs)) = cs" if "s = c # cs" for c cs
        using 1 Cons False that by blast
      with False Cons show ?thesis
        by (subst segments.simps) (auto split: list.split)
    qed
  qed
qed

lemma re_replace_no_hit:
  assumes "\<And>m k. Hit m k \<in> set (segments r None s) \<Longrightarrow> f m k = m"
  shows "re_replace r f s = s"
proof -
  have eq: "map (\<lambda>g. case g of Plain c \<Rightarrow> [c] | Hit m k \<Rightarrow> f m k) (segments r None s)
      = map seg_text (segments r None s)"
    using assms by (intro map_cong) (auto split: seg.split)
  show ?thesis unfolding re_replace_def eq by (rule segments_text)
qed

lemma test_from_segments:
  "test_from r pr s \<longleftrightarrow> (\<exists>m k. Hit m k \<in> set (segments r pr s))"
proof (induction s arbitrary: pr)
  case Nil
  show ?case by (subst segments.simps) (auto split: list.splits)
next
  case (Cons c s)
  show ?case
  proof (cases "ends r (MPos pr (c # s) [])")
    case Nil
    with Cons show ?thesis by (subst segments.simps) auto
  next
    case (Cons q qs)
    then show ?thesis by (subst segments.simps) auto
  qed
qed

lemma re_replace_id: "\<not> re_test r s \<Longrightarrow> re_replace r f s = s"
  by (rule re_replace_no_hit) (auto simp: re_test_def test_from_segments)

text \<open>Every code unit of the result stems from the input or from a replacement.\<close>

lemma Hit_in_segments_set: "g \<in> set (segments r pr s) \<Longrightarrow> set (seg_text g) \<subseteq> set s"
  using segments_text [of r pr s] by (metis UN_upper set_concat set_map image_eqI)

section \<open>Building patterns\<close>

definition rchr :: "nat \<Rightarrow> re" where
  "rchr c = RCls (\<lambda>x. x = c)"

definition rchr_i :: "nat \<Rightarrow> re" where
  "rchr_i c = RCls (\<lambda>x. ascii_lower x = ascii_lower c)"

primrec rlit :: "jstr \<Rightarrow> re" where
  "rlit [] = REps"
| "rlit (c # s) = RSeq (rchr c) (rlit s)"

primrec rlit_i :: "jstr \<Rightarrow> re" where
  "rlit_i [] = REps"
| "rlit_i (c # s) = RSeq (rchr_i c) (rlit_i s)"

primrec ralts :: "re list \<Rightarrow> re" where
  "ralts [] = RCls (\<lambda>_. False)"
| "ralts (r # rs) = (if rs = [] then r else RAlt r (ralts rs))"

primrec rseqs :: "re list \<Rightarrow> re" where
  "rseqs [] = REps"
| "rseqs (r # rs) = (if rs = [] then r else RSeq r (rseqs rs))"

definition rplus :: "re \<Rightarrow> re" where
  "rplus r = RSeq r (RStar r)"

definition ropt :: "re \<Rightarrow> re" where
  "ropt r = RAlt r REps"

primrec rrep :: "nat \<Rightarrow> re \<Rightarrow> re" where
  "rrep 0 r = REps"
| "rrep (Suc n) r = RSeq r (rrep n r)"

definition rrep_min :: "nat \<Rightarrow> re \<Rightarrow> re" where
  "rrep_min n r = RSeq (rrep n r) (RStar r)"

primrec rupto :: "nat \<Rightarrow> re \<Rightarrow> re" where
  "rupto 0 r = REps"
| "rupto (Suc n) r = RAlt (RSeq r (rupto n r)) REps"

definition is_digit :: "nat \<Rightarrow> bool" where
  "is_digit c \<longleftrightarrow> 48 \<le> c \<and> c \<le> 57"

definition is_alpha :: "nat \<Rightarrow> bool" where
  "is_alpha c \<longleftrightarrow> (65 \<le> c \<and> c \<le> 90) \<or> (97 \<le> c \<and> c \<le> 122)"

definition is_alnum :: "nat \<Rightarrow> bool" where
  "is_alnum c \<longleftrightarrow> is_alpha c \<or> is_digit c"

definition is_hex_lower :: "nat \<Rightarrow> bool" where
  "is_hex_lower c \<longleftrightarrow> is_digit c \<or> (97 \<le> c \<and> c \<le> 102)"

definition one_of :: "string \<Rightarrow> nat \<Rightarrow> bool" where
  "one_of s c \<longleftrightarrow> c \<in> set (S s)"

text \<open>\<open>.\<close> matches any code unit but the line terminators.\<close>

definition is_line_term :: "nat \<Rightarrow> bool" where
  "is_line_term c \<longleftrightarrow> c = 10 \<or> c = 13 \<or> c = 0x2028 \<or> c = 0x2029"

definition rdot :: re where
  "rdot = RCls (\<lambda>c. \<not> is_line_term c)"

lemma Matches_rlit: "Matches (rlit t) (MPos pr s k) q \<longleftrightarrow>
   (\<exists>s'. s = t @ s' \<and> q = MPos (if t = [] then pr else Some (last t)) s' k)"
  by (induction t arbitrary: pr s) (auto simp: rchr_def)

text \<open>A whole-string class test \<open>/^[...]+$/\<close>.\<close>

lemma Star_unfold: "Star R p q \<longleftrightarrow>
   q = p \<or> (\<exists>m. R p m \<and> length (mrest m) < length (mrest p) \<and> Star R m q)"
  by (metis Star.simps)

lemma Star_cls: "Star (Matches (RCls P)) (MPos pr s k) (MPos pr' [] k') \<longleftrightarrow>
   k' = k \<and> list_all P s \<and> pr' = (if s = [] then pr else Some (last s))"
proof (induction s arbitrary: pr)
  case Nil
  show ?case by (subst Star_unfold) auto
next
  case (Cons c s)
  have step: "Matches (RCls P) (MPos pr (c # s) k) m \<longleftrightarrow> P c \<and> m = MPos (Some c) s k" for m
    by auto
  have unfold: "Star (Matches (RCls P)) (MPos pr (c # s) k) (MPos pr' [] k') \<longleftrightarrow>
      P c \<and> Star (Matches (RCls P)) (MPos (Some c) s k) (MPos pr' [] k')"
    by (subst Star_unfold) (simp add: step del: Matches.simps; blast)
  show ?case by (simp only: unfold Cons.IH) auto
qed

definition whole_plus :: "(nat \<Rightarrow> bool) \<Rightarrow> re" where
  "whole_plus P = RSeq RBol (RSeq (rplus (RCls P)) REol)"

lemma test_from_bol: "test_from (RSeq RBol r) (Some c) s = False"
  by (induction s arbitrary: c) auto

lemma re_test_bol: "re_test (RSeq RBol r) s \<longleftrightarrow> (\<exists>q. Matches r (MPos None s []) q)"
  by (cases s) (auto simp: re_test_def test_from_bol ends_empty_iff)

lemma re_test_whole_plus: "re_test (whole_plus P) s \<longleftrightarrow> s \<noteq> [] \<and> list_all P s"
proof -
  have "re_test (whole_plus P) s \<longleftrightarrow>
      (\<exists>pr k. Matches (rplus (RCls P)) (MPos None s []) (MPos pr [] k))"
    by (auto simp: whole_plus_def re_test_bol) (metis mpos.collapse)
  also have "\<dots> \<longleftrightarrow> s \<noteq> [] \<and> list_all P s"
    by (cases s) (auto simp: rplus_def Star_cls)
  finally show ?thesis .
qed

lemma exec_from_bol: "exec_from (RSeq RBol r) (Some c) s = None"
  by (induction s arbitrary: c) auto

lemma re_exec_bol: "re_exec (RSeq RBol r) s =
    (case ends r (MPos None s []) of [] \<Rightarrow> None | q # _ \<Rightarrow> Some (mcaps q))"
  by (cases s) (auto simp: re_exec_def exec_from_bol split: list.split)

end
