(* ===== verification/RegexFacts.thy ===== *)
theory RegexFacts
  imports JsRegex
begin

text \<open>
  What \<open>test\<close> means for the shapes of expression the argument checks use: a match somewhere in
  the text, a literal, a choice, a literal in a context.
\<close>

definition before :: "nat option \<Rightarrow> jstr \<Rightarrow> nat option" where
  "before pr a = (if a = [] then pr else Some (last a))"

lemma test_from_iff: "test_from r pr s \<longleftrightarrow> (\<exists>a b q. s = a @ b \<and> Matches r (MPos (before pr a) b []) q)"
proof (induction s arbitrary: pr)
  case Nil
  show ?case by (auto simp: ends_empty_iff before_def)
next
  case (Cons c s)
  have "test_from r pr (c # s) \<longleftrightarrow> (\<exists>q. Matches r (MPos pr (c # s) []) q) \<or>
      (\<exists>a b q. s = a @ b \<and> Matches r (MPos (before (Some c) a) b []) q)"
    by (simp add: ends_empty_iff Cons)
  also have "\<dots> \<longleftrightarrow> (\<exists>a b q. c # s = a @ b \<and> Matches r (MPos (before pr a) b []) q)" (is "?l \<longleftrightarrow> ?r")
  proof
    assume ?l
    then show ?r
    proof
      assume "\<exists>q. Matches r (MPos pr (c # s) []) q"
      then show ?r by (intro exI [of _ "[]"] exI [of _ "c # s"]) (simp add: before_def)
    next
      assume "\<exists>a b q. s = a @ b \<and> Matches r (MPos (before (Some c) a) b []) q"
      then obtain a b q where "s = a @ b" "Matches r (MPos (before (Some c) a) b []) q" by blast
      then show ?r
        by (intro exI [of _ "c # a"] exI [of _ b] exI [of _ q]) (auto simp: before_def split: if_splits)
    qed
  next
    assume ?r
    then obtain a b q where r: "c # s = a @ b" "Matches r (MPos (before pr a) b []) q" by blast
    then show ?l
    proof (cases a)
      case Nil
      with r show ?l by (auto simp: before_def)
    next
      case (Cons d a')
      with r have "s = a' @ b" "Matches r (MPos (before (Some c) a') b []) q"
        by (auto simp: before_def split: if_splits)
      then show ?l by blast
    qed
  qed
  finally show ?case .
qed

lemma re_test_iff: "re_test r s \<longleftrightarrow> (\<exists>a b q. s = a @ b \<and> Matches r (MPos (before None a) b []) q)"
  by (simp add: re_test_def test_from_iff)

lemma re_test_alt: "re_test (RAlt a b) s \<longleftrightarrow> re_test a s \<or> re_test b s"
  by (auto simp: re_test_iff)

lemma re_test_lit: "re_test (rlit t) s \<longleftrightarrow> sublist t s"
  by (auto simp: re_test_iff Matches_rlit sublist_def)

lemma re_test_chr: "re_test (rchr c) s \<longleftrightarrow> c \<in> set s"
  by (auto simp: re_test_iff rchr_def dest: split_list) (metis split_list)

lemma re_test_cls: "re_test (RCls P) s \<longleftrightarrow> (\<exists>c \<in> set s. P c)"
  by (auto simp: re_test_iff) (metis split_list)

lemma re_test_plus_cls: "re_test (rplus (RCls P)) s \<longleftrightarrow> (\<exists>c \<in> set s. P c)"
proof -
  have "(\<exists>q. Matches (rplus (RCls P)) m q) \<longleftrightarrow> (\<exists>q. Matches (RCls P) m q)" for m
    by (simp add: rplus_def del: Matches.simps(2)) (metis Star_refl)
  then have "re_test (rplus (RCls P)) s \<longleftrightarrow> re_test (RCls P) s"
    unfolding re_test_iff by metis
  then show ?thesis by (simp add: re_test_cls)
qed

text \<open>A member of one class directly before a member of another, with optional matter between.\<close>

lemma re_test_then_cls:
  "re_test (RSeq (rchr c) (RSeq (RStar (RCls sp)) (rplus (RCls (\<lambda>x. P x))))) s \<longleftrightarrow>
     (\<exists>a w d b. s = a @ c # w @ d # b \<and> list_all sp w \<and> P d)" (is "?l \<longleftrightarrow> ?r")
proof
  have star: "\<exists>w. mrest p = w @ mrest q \<and> list_all Q w \<and> mcaps q = mcaps p"
    if "Star (Matches (RCls Q)) p q" for Q p q
    using that
  proof (induction rule: Star.induct)
    case (Star_refl p)
    show ?case by simp
  next
    case (Star_step p q t)
    then obtain x w where "mrest p = x # mrest q" "Q x" "mrest q = w @ mrest t" "list_all Q w"
      "mcaps q = mcaps p" "mcaps t = mcaps q" by auto
    then show ?case by (intro exI [of _ "x # w"]) simp
  qed
  assume ?l
  then obtain a b q m where s: "s = a @ c # b" and m: "Star (Matches (RCls sp)) (MPos (Some c) b []) m"
    and q: "Matches (rplus (RCls P)) m q"
    by (auto simp: re_test_iff rchr_def)
  from star [OF m] obtain w where w: "b = w @ mrest m" "list_all sp w" by auto
  from q obtain d e where "mrest m = d # e" "P d" by (auto simp: rplus_def)
  with s w show ?r by (intro exI [of _ a] exI [of _ w] exI [of _ d] exI [of _ e]) simp
next
  have star: "Star (Matches (RCls sp)) (MPos pr (w @ r) k) (MPos (before pr w) r k)"
    if "list_all sp w" for pr w r k
    using that
  proof (induction w arbitrary: pr)
    case Nil
    show ?case by (simp add: before_def Star_refl)
  next
    case (Cons x w)
    then have s: "Star (Matches (RCls sp)) (MPos (Some x) (w @ r) k) (MPos (before (Some x) w) r k)"
      by (simp del: Matches.simps)
    have m: "Matches (RCls sp) (MPos pr ((x # w) @ r) k) (MPos (Some x) (w @ r) k)"
      using Cons.prems by simp
    have eq: "before pr (x # w) = before (Some x) w" by (simp add: before_def)
    show ?case unfolding eq by (rule Star_step [OF m _ s]) simp
  qed
  assume ?r
  then obtain a w d b where s: "s = a @ c # w @ d # b" and w: "list_all sp w" and d: "P d" by blast
  have "Matches (RSeq (rchr c) (RSeq (RStar (RCls sp)) (rplus (RCls P)))) (MPos (before None a) (c # w @ d # b) [])
      (MPos (Some d) b [])"
  proof -
    have "Matches (rplus (RCls P)) (MPos (before (Some c) w) (d # b) []) (MPos (Some d) b [])"
      using d by (auto simp: rplus_def intro: Star_refl)
    then have "Matches (RSeq (RStar (RCls sp)) (rplus (RCls P))) (MPos (Some c) (w @ d # b) []) (MPos (Some d) b [])"
      using star [OF w, of "Some c" "d # b" "[]"] by (simp only: Matches.simps(3,5)) blast
    then show ?thesis by (simp add: rchr_def del: Matches.simps(5))
  qed
  with s show ?l unfolding re_test_iff by blast
qed

lemma Matches_lit_then: "(\<exists>q. Matches (RSeq (rlit t) r) (MPos pr s k) q) \<longleftrightarrow>
    (\<exists>e q. s = t @ e \<and> Matches r (MPos (if t = [] then pr else Some (last t)) e k) q)"
  by (auto simp: Matches_rlit)

text \<open>A literal between two edges, each a separator or an end of the text.\<close>

lemma Matches_edge_start: "Matches (RSeq (RAlt RBol (RCls sep)) r) (MPos pr b k) q \<longleftrightarrow>
    (pr = None \<and> Matches r (MPos pr b k) q) \<or> (\<exists>x e. b = x # e \<and> sep x \<and> Matches r (MPos (Some x) e k) q)"
  by auto

lemma Matches_edge_end:
  "(\<exists>q. Matches (RAlt (RCls sep) REol) m q) \<longleftrightarrow> mrest m = [] \<or> sep (hd (mrest m))"
  by (cases "mrest m") auto

lemma Matches_lit_end: "(\<exists>q. Matches (RSeq (rlit t) (RAlt (RCls sep) REol)) (MPos pr s k) q) \<longleftrightarrow>
    (\<exists>e. s = t @ e \<and> (e = [] \<or> sep (hd e)))"
proof -
  have "(\<exists>q. Matches (RSeq (rlit t) (RAlt (RCls sep) REol)) (MPos pr s k) q) \<longleftrightarrow>
      (\<exists>m. Matches (rlit t) (MPos pr s k) m \<and> (\<exists>q. Matches (RAlt (RCls sep) REol) m q))"
    by (simp only: Matches.simps) blast
  also have "\<dots> \<longleftrightarrow> (\<exists>e. s = t @ e \<and> (e = [] \<or> sep (hd e)))"
    unfolding Matches_edge_end by (auto simp: Matches_rlit)
  finally show ?thesis .
qed

lemma re_test_segment:
  "re_test (RSeq (RAlt RBol (RCls sep)) (RSeq (rlit t) (RAlt (RCls sep) REol))) s \<longleftrightarrow>
     (\<exists>a b. s = a @ t @ b \<and> (a = [] \<or> sep (last a)) \<and> (b = [] \<or> sep (hd b)))" (is "?l \<longleftrightarrow> ?r")
proof -
  have "?l \<longleftrightarrow> (\<exists>e. s = t @ e \<and> (e = [] \<or> sep (hd e))) \<or>
      (\<exists>a x e. s = a @ x # t @ e \<and> sep x \<and> (e = [] \<or> sep (hd e)))" (is "_ \<longleftrightarrow> ?m")
  proof
    assume ?l
    then obtain a b q where s: "s = a @ b"
      and q: "Matches (RSeq (RAlt RBol (RCls sep)) (RSeq (rlit t) (RAlt (RCls sep) REol))) (MPos (before None a) b []) q"
      unfolding re_test_iff by blast
    from q show ?m unfolding Matches_edge_start
    proof
      assume l: "before None a = None \<and> Matches (RSeq (rlit t) (RAlt (RCls sep) REol)) (MPos (before None a) b []) q"
      then have "a = []" by (simp add: before_def split: if_splits)
      with l s Matches_lit_end [of t sep] show ?m by (metis append_Nil)
    next
      assume "\<exists>x e. b = x # e \<and> sep x \<and> Matches (RSeq (rlit t) (RAlt (RCls sep) REol)) (MPos (Some x) e []) q"
      with s Matches_lit_end [of t sep] show ?m by metis
    qed
  next
    assume ?m
    then show ?l
    proof
      assume "\<exists>e. s = t @ e \<and> (e = [] \<or> sep (hd e))"
      then obtain q where "Matches (RSeq (rlit t) (RAlt (RCls sep) REol)) (MPos None s []) q"
        using Matches_lit_end [of t sep None s "[]"] by blast
      then show ?l unfolding re_test_iff Matches_edge_start
        by (intro exI [of _ "[]"] exI [of _ s] exI [of _ q]) (simp add: before_def)
    next
      assume "\<exists>a x e. s = a @ x # t @ e \<and> sep x \<and> (e = [] \<or> sep (hd e))"
      then obtain a x e where s: "s = a @ x # t @ e" and x: "sep x" and e: "e = [] \<or> sep (hd e)" by blast
      then obtain q where "Matches (RSeq (rlit t) (RAlt (RCls sep) REol)) (MPos (Some x) (t @ e) []) q"
        using Matches_lit_end [of t sep "Some x" "t @ e" "[]"] by blast
      with s x show ?l unfolding re_test_iff Matches_edge_start by blast
    qed
  qed
  also have "?m \<longleftrightarrow> ?r"
  proof
    assume ?m
    then show ?r
    proof
      assume "\<exists>e. s = t @ e \<and> (e = [] \<or> sep (hd e))"
      then show ?r by (metis append_Nil)
    next
      assume "\<exists>a x e. s = a @ x # t @ e \<and> sep x \<and> (e = [] \<or> sep (hd e))"
      then obtain a x e where "s = a @ x # t @ e" "sep x" "e = [] \<or> sep (hd e)" by blast
      then show ?r by (intro exI [of _ "a @ [x]"] exI [of _ e]) simp
    qed
  next
    assume ?r
    then obtain a b where r: "s = a @ t @ b" "a = [] \<or> sep (last a)" "b = [] \<or> sep (hd b)" by blast
    then show ?m by (cases a rule: rev_cases) auto
  qed
  finally show ?thesis .
qed

end
