(* ===== verification/ToolPattern.thy ===== *)
theory ToolPattern
  imports RegexFacts
begin

text \<open>
  Tool patterns (\<open>src/domain/toolPattern.ts\<close>): validation, the translation of a wildcard
  pattern into a regular expression source, the parsing of that source by \<open>RegExp\<close>, and the
  match. The specification is the direct wildcard matcher \<open>glob_match\<close>.
\<close>

section \<open>The code\<close>

definition validateToolPattern :: "jstr \<Rightarrow> unit result" where
  "validateToolPattern pattern =
     (if length (trim pattern) = 0
      then Inl (plain_error (S ''Tool policy pattern must be a non-empty string''))
      else if re_test (RCls (\<lambda>c. c = 13 \<or> c = 10 \<or> c = 0)) pattern
      then Inl (plain_error (S ''Invalid characters in tool policy pattern: '' @ json_quote pattern))
      else Inr ())"

text \<open>The class \<open>[.+?^${}()|[\]\\]\<close> and the two textual replacements.\<close>

definition meta_char :: "nat \<Rightarrow> bool" where
  "meta_char c \<longleftrightarrow> one_of ''.+?^${}()|[]'' c \<or> c = 92"

definition escape_pattern :: "jstr \<Rightarrow> jstr" where
  "escape_pattern pattern = re_replace (RCls meta_char) (\<lambda>m _. 92 # m) pattern"

definition star_to_dotstar :: "jstr \<Rightarrow> jstr" where
  "star_to_dotstar s = concat (map (\<lambda>c. if c = 42 then [46, 42] else [c]) s)"

definition pattern_source :: "jstr \<Rightarrow> jstr" where
  "pattern_source pattern = 94 # star_to_dotstar (escape_pattern pattern) @ [36]"

text \<open>
  \<open>new RegExp(source)\<close> on the fragment without groups, classes and quantifiers other than \<open>*\<close>:
  assertions, the dot, escaped syntax characters, literal code units, and a star after an atom.
  \<open>None\<close> is a source outside the fragment.
\<close>

definition syntax_char :: "nat \<Rightarrow> bool" where
  "syntax_char c \<longleftrightarrow> one_of ''^$.*+?()[]{}|'' c \<or> c = 92"

fun parse_atoms :: "jstr \<Rightarrow> re list option" where
  "parse_atoms [] = Some []"
| "parse_atoms (c # s) =
     (if c = 94 then map_option ((#) RBol) (parse_atoms s)
      else if c = 36 then map_option ((#) REol) (parse_atoms s)
      else if c = 92 then
        (case s of
           [] \<Rightarrow> None
         | d # s' \<Rightarrow>
             if \<not> syntax_char d then None
             else (case s' of
                [] \<Rightarrow> Some [rchr d]
              | e # s'' \<Rightarrow> if e = 42 then map_option ((#) (RStar (rchr d))) (parse_atoms s'')
                          else map_option ((#) (rchr d)) (parse_atoms s')))
      else if c = 46 \<or> \<not> syntax_char c then
        (let a = (if c = 46 then rdot else rchr c) in
         case s of
           [] \<Rightarrow> Some [a]
         | e # s' \<Rightarrow> if e = 42 then map_option ((#) (RStar a)) (parse_atoms s')
                     else map_option ((#) a) (parse_atoms s))
      else None)"

definition seq_re :: "re list \<Rightarrow> re" where
  "seq_re rs = foldr RSeq rs REps"

definition RegExp_simple :: "jstr \<Rightarrow> re result" where
  "RegExp_simple src = (case parse_atoms src of
     Some rs \<Rightarrow> Inr (seq_re rs)
   | None \<Rightarrow> Inl (plain_error (S ''Invalid regular expression'')))"

definition compileToolPattern :: "jstr \<Rightarrow> re result" where
  "compileToolPattern pattern =
     bindE (validateToolPattern pattern) (\<lambda>_. RegExp_simple (pattern_source pattern))"

definition matchesToolPattern :: "jstr \<Rightarrow> jstr \<Rightarrow> bool result" where
  "matchesToolPattern pattern toolName =
     bindE (validateToolPattern pattern) (\<lambda>_.
       bindE (compileToolPattern pattern) (\<lambda>r. Inr (re_test r toolName)))"

section \<open>The specification\<close>

text \<open>A \<open>*\<close> stands for any text without line terminators, any other code unit for itself.\<close>

fun glob_match :: "jstr \<Rightarrow> jstr \<Rightarrow> bool" where
  "glob_match [] t = (t = [])"
| "glob_match (c # p) [] = (c = 42 \<and> glob_match p [])"
| "glob_match (c # p) (d # t) =
     (if c = 42 then glob_match p (d # t) \<or> (\<not> is_line_term d \<and> glob_match (c # p) t)
      else c = d \<and> glob_match p t)"

definition valid_pattern :: "jstr \<Rightarrow> bool" where
  "valid_pattern p \<longleftrightarrow> trim p \<noteq> [] \<and> 13 \<notin> set p \<and> 10 \<notin> set p \<and> 0 \<notin> set p"

section \<open>The translation is faithful\<close>

lemma segments_cls: "segments (RCls P) pr s = map (\<lambda>c. if P c then Hit [c] [] else Plain c) s"
  by (induction s arbitrary: pr) (subst segments.simps; simp)+

lemma re_replace_cls:
  "re_replace (RCls P) f s = concat (map (\<lambda>c. if P c then f [c] [] else [c]) s)"
  by (simp add: re_replace_def segments_cls comp_def if_distrib cong: if_cong)

lemma test_from_cls: "test_from (RCls P) pr s \<longleftrightarrow> (\<exists>c\<in>set s. P c)"
  by (induction s arbitrary: pr) auto

lemma validateToolPattern_iff: "validateToolPattern p = Inr () \<longleftrightarrow> valid_pattern p"
  by (auto simp: validateToolPattern_def valid_pattern_def re_test_cls)

lemma escape_pattern_eq:
  "escape_pattern p = concat (map (\<lambda>c. if meta_char c then [92, c] else [c]) p)"
  by (simp add: escape_pattern_def re_replace_cls)

lemma meta_char_codes: "meta_char c \<longleftrightarrow> c \<in> {46, 43, 63, 94, 36, 123, 125, 40, 41, 124, 91, 93, 92}"
  by (auto simp: meta_char_def one_of_def S_def)

lemma syntax_char_meta: "syntax_char c \<longleftrightarrow> meta_char c \<or> c = 42"
  by (auto simp: syntax_char_def meta_char_codes one_of_def S_def)

definition atom_source :: "nat \<Rightarrow> jstr" where
  "atom_source c = (if meta_char c then [92, c] else if c = 42 then [46, 42] else [c])"

definition atom_re :: "nat \<Rightarrow> re" where
  "atom_re c = (if c = 42 then RStar rdot else rchr c)"

lemma pattern_source_eq: "pattern_source p = 94 # concat (map atom_source p) @ [36]"
proof -
  have "star_to_dotstar (escape_pattern p) = concat (map atom_source p)"
    by (induction p)
       (auto simp: star_to_dotstar_def escape_pattern_eq atom_source_def meta_char_codes)
  then show ?thesis by (simp add: pattern_source_def)
qed

text \<open>No source of an atom, and no end of the source, begins with a star.\<close>

definition no_star :: "jstr \<Rightarrow> bool" where
  "no_star s \<longleftrightarrow> (case s of [] \<Rightarrow> True | c # _ \<Rightarrow> c \<noteq> 42)"

lemma no_star_source: "no_star (concat (map atom_source p) @ [36])"
  by (cases p) (auto simp: no_star_def atom_source_def)

lemma parse_atom:
  "no_star s \<Longrightarrow> parse_atoms (atom_source c @ s) = map_option ((#) (atom_re c)) (parse_atoms s)"
  by (cases s) (auto simp: atom_source_def atom_re_def no_star_def syntax_char_meta meta_char_codes
      Let_def)

lemma parse_source: "parse_atoms (concat (map atom_source p) @ [36]) = Some (map atom_re p @ [REol])"
  by (induction p) (simp_all add: parse_atom no_star_source)

lemma compile_shape:
  "compileToolPattern p = bindE (validateToolPattern p)
     (\<lambda>_. Inr (RSeq RBol (seq_re (map atom_re p @ [REol]))))"
  by (simp add: compileToolPattern_def RegExp_simple_def pattern_source_eq parse_source seq_re_def)

lemma Star_dot_cons:
  "Star (Matches rdot) (MPos pr (d # t) k) q \<longleftrightarrow>
     q = MPos pr (d # t) k \<or> (\<not> is_line_term d \<and> Star (Matches rdot) (MPos (Some d) t k) q)"
proof -
  have step: "Matches rdot (MPos pr (d # t) k) m \<longleftrightarrow> \<not> is_line_term d \<and> m = MPos (Some d) t k" for m
    by (auto simp: rdot_def)
  show ?thesis by (subst Star_unfold) (simp add: step; blast)
qed

lemma Star_dot_nil: "Star (Matches rdot) (MPos pr [] k) q \<longleftrightarrow> q = MPos pr [] k"
  by (subst Star_unfold) auto

definition accepts :: "re \<Rightarrow> mpos \<Rightarrow> bool" where
  "accepts r p \<longleftrightarrow> (\<exists>q. Matches r p q)"

lemma accepts_seq: "accepts (RSeq a b) p \<longleftrightarrow> (\<exists>m. Matches a p m \<and> accepts b m)"
  by (auto simp: accepts_def)

lemma accepts_seq_rchr:
  "accepts (RSeq (rchr c) r) (MPos pr (d # t) k) \<longleftrightarrow> c = d \<and> accepts r (MPos (Some d) t k)"
  "\<not> accepts (RSeq (rchr c) r) (MPos pr [] k)"
  by (auto simp: accepts_seq rchr_def)

lemma accepts_seq_star:
  "accepts (RSeq (RStar rdot) r) (MPos pr (d # t) k) \<longleftrightarrow>
     accepts r (MPos pr (d # t) k) \<or>
     (\<not> is_line_term d \<and> accepts (RSeq (RStar rdot) r) (MPos (Some d) t k))"
  "accepts (RSeq (RStar rdot) r) (MPos pr [] k) \<longleftrightarrow> accepts r (MPos pr [] k)"
  by (auto simp: accepts_seq Star_dot_cons Star_dot_nil)

lemma seq_re_Cons: "seq_re (r # rs) = RSeq r (seq_re rs)"
  by (simp add: seq_re_def)

lemma accepts_glob:
  "accepts (seq_re (map atom_re p @ [REol])) (MPos pr t k) \<longleftrightarrow> glob_match p t"
proof (induction p t arbitrary: pr rule: glob_match.induct)
  case (1 t)
  then show ?case by (auto simp: seq_re_def accepts_def)
next
  case (2 c p)
  then show ?case by (simp add: seq_re_Cons atom_re_def accepts_seq_rchr accepts_seq_star)
next
  case (3 c p d t)
  then show ?case
    by (cases "c = 42") (simp_all add: seq_re_Cons atom_re_def accepts_seq_rchr accepts_seq_star)
qed

text \<open>The compiled expression of a valid pattern accepts exactly what the wildcards mean.\<close>

theorem compileToolPattern_correct:
  "compileToolPattern p = Inr r \<Longrightarrow> re_test r t = glob_match p t"
  by (auto simp: compile_shape bindE_Inr_iff re_test_bol accepts_glob simp flip: accepts_def)

lemma compileToolPattern_total: "(\<exists>r. compileToolPattern p = Inr r) \<longleftrightarrow> valid_pattern p"
  by (auto simp: compile_shape bindE_Inr_iff simp flip: validateToolPattern_iff)

lemma matchesToolPattern_Inr_iff:
  "matchesToolPattern p t = Inr b \<longleftrightarrow> valid_pattern p \<and> b = glob_match p t"
  using compileToolPattern_total [of p] compileToolPattern_correct [of p _ t]
  by (auto simp: matchesToolPattern_def bindE_Inr_iff simp flip: validateToolPattern_iff)

lemma matchesToolPattern_valid: "valid_pattern p \<Longrightarrow> matchesToolPattern p t = Inr (glob_match p t)"
  by (simp add: matchesToolPattern_Inr_iff)

section \<open>Pattern containment\<close>

lemma glob_star_iff:
  "glob_match (42 # p) t \<longleftrightarrow> (\<exists>u v. t = u @ v \<and> list_all (\<lambda>c. \<not> is_line_term c) u \<and> glob_match p v)"
proof (induction t)
  case Nil
  then show ?case by simp
next
  case (Cons d t)
  have "glob_match (42 # p) (d # t) \<longleftrightarrow> glob_match p (d # t) \<or> (\<not> is_line_term d \<and> glob_match (42 # p) t)"
    by simp
  also have "\<dots> \<longleftrightarrow> (\<exists>u v. d # t = u @ v \<and> list_all (\<lambda>c. \<not> is_line_term c) u \<and> glob_match p v)"
    (is "?L \<longleftrightarrow> ?R")
  proof
    assume ?L
    then consider "glob_match p (d # t)"
      | u v where "\<not> is_line_term d" "t = u @ v" "list_all (\<lambda>c. \<not> is_line_term c) u" "glob_match p v"
      unfolding Cons.IH by blast
    then show ?R
    proof cases
      case 1
      then show ?thesis by (intro exI [of _ "[]"] exI [of _ "d # t"]) simp
    next
      case 2
      then show ?thesis by (intro exI [of _ "d # u"] exI [of _ v]) simp
    qed
  next
    assume ?R
    then show ?L unfolding Cons.IH by (auto simp: Cons_eq_append_conv) blast
  qed
  finally show ?case .
qed

lemma glob_star_absorb:
  "glob_match (42 # p) v \<Longrightarrow> list_all (\<lambda>c. \<not> is_line_term c) u \<Longrightarrow> glob_match (42 # p) (u @ v)"
  unfolding glob_star_iff by (metis append.assoc list_all_append)

text \<open>
  A pattern text that a granted pattern matches grants nothing more: whatever tool name the
  requested pattern matches, the granted one matches too.
\<close>

theorem glob_containment: "glob_match g r \<Longrightarrow> glob_match r t \<Longrightarrow> glob_match g t"
proof (induction g r arbitrary: t rule: glob_match.induct)
  case (1 r)
  then show ?case by simp
next
  case (2 c p)
  then show ?case by (cases t) auto
next
  case (3 c p d r)
  show ?case
  proof (cases "c = 42")
    case False
    with 3 show ?thesis by (cases t) (auto split: if_splits)
  next
    case True
    show ?thesis
    proof (cases "glob_match p (d # r)")
      case pr: True
      with 3 True have "glob_match p t" by blast
      then have "t = [] @ t \<and> list_all (\<lambda>c. \<not> is_line_term c) [] \<and> glob_match p t" by simp
      then show ?thesis unfolding True glob_star_iff by blast
    next
      case False
      with "3.prems"(1) True have d: "\<not> is_line_term d" and gr: "glob_match (c # p) r" by auto
      show ?thesis
      proof (cases "d = 42")
        case d42: True
        with "3.prems"(2) obtain u v where
          uv: "t = u @ v" "list_all (\<lambda>c. \<not> is_line_term c) u" "glob_match r v"
          unfolding d42 glob_star_iff by blast
        from 3 True gr uv have "glob_match (42 # p) v" by blast
        with uv show ?thesis unfolding True using glob_star_absorb by blast
      next
        case False
        with "3.prems"(2) obtain t' where t': "t = d # t'" "glob_match r t'" by (cases t) auto
        from 3 True gr t' have "glob_match (42 # p) t'" by blast
        with d t' True show ?thesis by simp
      qed
    qed
  qed
qed

section \<open>Property\<close>

text \<open>
  C14. \<open>matchesToolPattern\<close> decides the wildcard language and fails closed: a blank pattern and a
  pattern with CR, LF or NUL throw, and for every other pattern the escaping, the star rewriting,
  the regular expression built from the text and its match agree with the direct reading, in
  which \<open>*\<close> stands for any text without line terminators and every other character for itself.
\<close>

theorem tool_pattern_meaning:
  "matchesToolPattern p t =
     (if trim p = [] then Inl (plain_error (S ''Tool policy pattern must be a non-empty string''))
      else if 13 \<in> set p \<or> 10 \<in> set p \<or> 0 \<in> set p
      then Inl (plain_error (S ''Invalid characters in tool policy pattern: '' @ json_quote p))
      else Inr (glob_match p t))"
proof (cases "valid_pattern p")
  case True
  then show ?thesis by (auto simp: matchesToolPattern_valid valid_pattern_def)
next
  case False
  then show ?thesis
    by (auto simp: matchesToolPattern_def validateToolPattern_def valid_pattern_def re_test_cls)
qed

end
