(* ===== verification/AccessPolicy.thy ===== *)
theory AccessPolicy
  imports ToolPattern
begin

text \<open>
  The three access decisions of the gateway: \<open>ToolPolicy\<close> (\<open>src/policy/toolPolicy.ts\<close>),
  \<open>ScopeGuard\<close> (\<open>src/auth/scopeGuard.ts\<close>) and \<open>ToolAccessPolicy\<close>
  (\<open>src/domain/toolAccessPolicy.ts\<close>), each as a record and its methods, and the one contract
  they share as the locale \<open>tool_gate\<close>.
\<close>

section \<open>ToolPolicy\<close>

record tool_policy_config =
  cfg_allow :: "jstr list"
  cfg_deny :: "jstr list"

record tool_policy =
  tp_allowed :: "re list"
  tp_denied :: "re list"

definition new_ToolPolicy :: "tool_policy_config \<Rightarrow> tool_policy result" where
  "new_ToolPolicy config =
     bindE (mapE compileToolPattern (cfg_allow config)) (\<lambda>al.
     bindE (mapE compileToolPattern (cfg_deny config)) (\<lambda>de.
       Inr \<lparr>tp_allowed = al, tp_denied = de\<rparr>))"

definition ToolPolicy_allows :: "tool_policy \<Rightarrow> jstr \<Rightarrow> bool" where
  "ToolPolicy_allows tp toolName =
     (if list_ex (\<lambda>r. re_test r toolName) (tp_denied tp) then False
      else list_ex (\<lambda>r. re_test r toolName) (tp_allowed tp))"

definition ToolPolicy_allowPattern :: "tool_policy \<Rightarrow> jstr \<Rightarrow> tool_policy result" where
  "ToolPolicy_allowPattern tp glob =
     bindE (compileToolPattern glob) (\<lambda>r. Inr (tp\<lparr>tp_allowed := tp_allowed tp @ [r]\<rparr>))"

definition not_allowed_message :: "jstr \<Rightarrow> jstr" where
  "not_allowed_message toolName = S ''tool is not allowed by gateway policy: '' @ toolName"

definition ToolPolicy_enforce :: "tool_policy \<Rightarrow> jstr \<Rightarrow> (unit \<Rightarrow> 'a result) \<Rightarrow> 'a result" where
  "ToolPolicy_enforce tp toolName operation =
     (if \<not> ToolPolicy_allows tp toolName then Inl (plain_error (not_allowed_message toolName))
      else operation ())"

section \<open>ScopeGuard\<close>

record principal =
  p_userId :: jstr
  p_apiKeyId :: "jstr option"
  p_systemRole :: jstr
  p_scopes :: "jstr list"
  p_toolPatterns :: "jstr list"

definition scope_matches :: "jstr \<Rightarrow> jstr \<Rightarrow> bool result" where
  "scope_matches toolName scope =
     (if startsWith scope (S ''tool:'') then matchesToolPattern (slice_from scope 5) toolName
      else Inr False)"

definition ScopeGuard_allows :: "principal \<Rightarrow> jstr \<Rightarrow> bool result" where
  "ScopeGuard_allows p toolName =
     bindE (someE (\<lambda>pattern. matchesToolPattern pattern toolName) (p_toolPatterns p)) (\<lambda>b.
       if b then someE (scope_matches toolName) (p_scopes p) else Inr False)"

section \<open>ToolAccessPolicy\<close>

record access_policy =
  ap_allowedPatterns :: "re list"
  ap_deniedPatterns :: "re list"
  ap_allowedGlobs :: "jstr list"
  ap_deniedGlobs :: "jstr list"
  ap_principal :: "principal option"

definition new_ToolAccessPolicy :: "tool_policy_config \<Rightarrow> principal option \<Rightarrow> access_policy result" where
  "new_ToolAccessPolicy globalConfig princ =
     bindE (mapE compileToolPattern (cfg_allow globalConfig)) (\<lambda>al.
     bindE (mapE compileToolPattern (cfg_deny globalConfig)) (\<lambda>de.
       Inr \<lparr>ap_allowedPatterns = al, ap_deniedPatterns = de,
            ap_allowedGlobs = cfg_allow globalConfig, ap_deniedGlobs = cfg_deny globalConfig,
            ap_principal = princ\<rparr>))"

definition ToolAccessPolicy_allows :: "access_policy \<Rightarrow> jstr \<Rightarrow> bool result" where
  "ToolAccessPolicy_allows ap toolName =
     (if list_ex (\<lambda>r. re_test r toolName) (ap_deniedPatterns ap) then Inr False
      else let globallyAllowed = list_ex (\<lambda>r. re_test r toolName) (ap_allowedPatterns ap) in
        if \<not> globallyAllowed then Inr False
        else (case ap_principal ap of
            Some p \<Rightarrow>
              bindE (someE (\<lambda>pattern. matchesToolPattern pattern toolName) (p_toolPatterns p)) (\<lambda>mp.
              bindE (someE (scope_matches toolName) (p_scopes p)) (\<lambda>ms. Inr (mp \<and> ms)))
          | None \<Rightarrow> Inr True))"

definition ToolAccessPolicy_assertAllowed :: "access_policy \<Rightarrow> jstr \<Rightarrow> unit result" where
  "ToolAccessPolicy_assertAllowed ap toolName =
     bindE (ToolAccessPolicy_allows ap toolName) (\<lambda>ok.
       if \<not> ok then Inl ((plain_error (not_allowed_message toolName))\<lparr>err_status := Some 403\<rparr>)
       else Inr ())"

definition ToolAccessPolicy_withAllowedPattern :: "access_policy \<Rightarrow> jstr \<Rightarrow> access_policy result" where
  "ToolAccessPolicy_withAllowedPattern ap glob =
     new_ToolAccessPolicy \<lparr>cfg_allow = ap_allowedGlobs ap @ [glob], cfg_deny = ap_deniedGlobs ap\<rparr>
       (ap_principal ap)"

section \<open>The decisions in terms of patterns\<close>

definition any_glob :: "jstr list \<Rightarrow> jstr \<Rightarrow> bool" where
  "any_glob ps t \<longleftrightarrow> (\<exists>p\<in>set ps. glob_match p t)"

definition scope_patterns :: "jstr list \<Rightarrow> jstr list" where
  "scope_patterns scopes = map (\<lambda>s. slice_from s 5) (filter (\<lambda>s. startsWith s (S ''tool:'')) scopes)"

definition valid_principal :: "principal \<Rightarrow> bool" where
  "valid_principal p \<longleftrightarrow> list_all valid_pattern (p_toolPatterns p)
     \<and> list_all valid_pattern (scope_patterns (p_scopes p))"

lemma any_glob_append [simp]: "any_glob (ps @ qs) t \<longleftrightarrow> any_glob ps t \<or> any_glob qs t"
  by (auto simp: any_glob_def)

lemma mapE_compile_test:
  "mapE compileToolPattern ps = Inr rs \<Longrightarrow> list_ex (\<lambda>r. re_test r t) rs = any_glob ps t"
  by (induction ps arbitrary: rs)
     (auto simp: any_glob_def bindE_Inr_iff compileToolPattern_correct)

lemma mapE_compile_total: "(\<exists>rs. mapE compileToolPattern ps = Inr rs) \<longleftrightarrow> list_all valid_pattern ps"
  by (induction ps) (auto simp: bindE_Inr_iff simp flip: compileToolPattern_total)

lemma someE_pattern:
  "list_all valid_pattern ps \<Longrightarrow> someE (\<lambda>p. matchesToolPattern p t) ps = Inr (any_glob ps t)"
  unfolding any_glob_def
  by (rule someE_total) (auto simp: matchesToolPattern_Inr_iff list_all_iff)

lemma someE_pattern_True: "someE (\<lambda>p. matchesToolPattern p t) ps = Inr True \<Longrightarrow> any_glob ps t"
  by (auto dest!: someE_True simp: matchesToolPattern_Inr_iff any_glob_def)

lemma someE_scope:
  "list_all valid_pattern (scope_patterns ss) \<Longrightarrow>
     someE (scope_matches t) ss = Inr (any_glob (scope_patterns ss) t)"
proof -
  assume v: "list_all valid_pattern (scope_patterns ss)"
  have "someE (scope_matches t) ss =
      Inr (\<exists>s\<in>set ss. startsWith s (S ''tool:'') \<and> glob_match (slice_from s 5) t)"
    using v by (intro someE_total)
      (auto simp: scope_matches_def scope_patterns_def list_all_iff matchesToolPattern_valid)
  then show ?thesis by (auto simp: any_glob_def scope_patterns_def)
qed

lemma someE_scope_True: "someE (scope_matches t) ss = Inr True \<Longrightarrow> any_glob (scope_patterns ss) t"
  by (auto dest!: someE_True simp: scope_matches_def matchesToolPattern_Inr_iff any_glob_def
      scope_patterns_def split: if_splits)

definition policy_spec :: "tool_policy_config \<Rightarrow> jstr \<Rightarrow> bool" where
  "policy_spec cfg t \<longleftrightarrow> \<not> any_glob (cfg_deny cfg) t \<and> any_glob (cfg_allow cfg) t"

definition principal_spec :: "principal \<Rightarrow> jstr \<Rightarrow> bool" where
  "principal_spec p t \<longleftrightarrow> any_glob (p_toolPatterns p) t \<and> any_glob (scope_patterns (p_scopes p)) t"

lemma new_ToolPolicy_allows:
  "new_ToolPolicy cfg = Inr tp \<Longrightarrow> ToolPolicy_allows tp t = policy_spec cfg t"
  by (auto simp: new_ToolPolicy_def bindE_Inr_iff ToolPolicy_allows_def policy_spec_def
      mapE_compile_test)

lemma ScopeGuard_allows_True: "ScopeGuard_allows p t = Inr True \<Longrightarrow> principal_spec p t"
  by (auto simp: ScopeGuard_allows_def bindE_Inr_iff principal_spec_def
      dest: someE_pattern_True someE_scope_True split: if_splits)

lemma ScopeGuard_allows_valid:
  "valid_principal p \<Longrightarrow> ScopeGuard_allows p t = Inr (principal_spec p t)"
  by (auto simp: ScopeGuard_allows_def principal_spec_def valid_principal_def someE_pattern someE_scope)

lemma new_ToolAccessPolicy_allows:
  assumes "new_ToolAccessPolicy cfg (Some p) = Inr ap" and "valid_principal p"
  shows "ToolAccessPolicy_allows ap t = Inr (policy_spec cfg t \<and> principal_spec p t)"
  using assms
  by (auto simp: new_ToolAccessPolicy_def bindE_Inr_iff ToolAccessPolicy_allows_def policy_spec_def
      principal_spec_def valid_principal_def mapE_compile_test someE_pattern someE_scope Let_def)

lemma new_ToolAccessPolicy_anonymous:
  "new_ToolAccessPolicy cfg None = Inr ap \<Longrightarrow> ToolAccessPolicy_allows ap t = Inr (policy_spec cfg t)"
  by (auto simp: new_ToolAccessPolicy_def bindE_Inr_iff ToolAccessPolicy_allows_def policy_spec_def
      mapE_compile_test Let_def)

lemma new_ToolAccessPolicy_True:
  assumes "new_ToolAccessPolicy cfg pr = Inr ap" and "ToolAccessPolicy_allows ap t = Inr True"
  shows "policy_spec cfg t \<and> (\<forall>p. pr = Some p \<longrightarrow> principal_spec p t)"
  using assms
  by (auto simp: new_ToolAccessPolicy_def bindE_Inr_iff ToolAccessPolicy_allows_def policy_spec_def
      principal_spec_def mapE_compile_test Let_def split: if_splits option.splits
      dest: someE_pattern_True someE_scope_True)

lemma new_ToolAccessPolicy_fields:
  "new_ToolAccessPolicy cfg pr = Inr ap \<Longrightarrow>
     ap_allowedGlobs ap = cfg_allow cfg \<and> ap_deniedGlobs ap = cfg_deny cfg \<and> ap_principal ap = pr"
  by (auto simp: new_ToolAccessPolicy_def bindE_Inr_iff)

section \<open>The contract of a gate\<close>

text \<open>
  What the gateway server relies on, whichever of the policies it holds: a decision \<open>granted\<close>
  is bounded by a deny-first reading of a configuration, and asserting access succeeds exactly
  on granted names.
\<close>

locale tool_gate =
  fixes granted :: "'g \<Rightarrow> jstr \<Rightarrow> bool"
    and check :: "'g \<Rightarrow> jstr \<Rightarrow> unit result"
    and config :: "'g \<Rightarrow> tool_policy_config"
  assumes granted_config: "granted g t \<Longrightarrow> policy_spec (config g) t"
    and check_granted: "check g t = Inr () \<longleftrightarrow> granted g t"
begin

lemma denied_never_granted: "any_glob (cfg_deny (config g)) t \<Longrightarrow> \<not> granted g t"
  using granted_config by (auto simp: policy_spec_def)

lemma unlisted_never_granted: "\<not> any_glob (cfg_allow (config g)) t \<Longrightarrow> \<not> granted g t"
  using granted_config by (auto simp: policy_spec_def)

lemma check_guards: "check g t = Inr () \<Longrightarrow> policy_spec (config g) t"
  using check_granted granted_config by blast

lemma check_error: "\<not> granted g t \<Longrightarrow> \<exists>e. check g t = Inl e"
  using check_granted [of g t] by (cases "check g t") auto

end

text \<open>
  Both policies are gates. A gate is a policy built by its constructor from a configuration;
  the constructor's argument is kept beside the built object so that the contract can name it.
\<close>

typedef built_policy = "{(cfg, tp). new_ToolPolicy cfg = Inr tp}"
proof
  show "(\<lparr>cfg_allow = [], cfg_deny = []\<rparr>, \<lparr>tp_allowed = [], tp_denied = []\<rparr>)
      \<in> {(cfg, tp). new_ToolPolicy cfg = Inr tp}"
    by (simp add: new_ToolPolicy_def)
qed

typedef built_access = "{(cfg, ap). \<exists>pr. new_ToolAccessPolicy cfg pr = Inr ap}"
proof
  show "(\<lparr>cfg_allow = [], cfg_deny = []\<rparr>,
      \<lparr>ap_allowedPatterns = [], ap_deniedPatterns = [], ap_allowedGlobs = [], ap_deniedGlobs = [],
       ap_principal = None\<rparr>) \<in> {(cfg, ap). \<exists>pr. new_ToolAccessPolicy cfg pr = Inr ap}"
    by (simp add: new_ToolAccessPolicy_def)
qed

interpretation tp_gate: tool_gate
  "\<lambda>g. ToolPolicy_allows (snd (Rep_built_policy g))"
  "\<lambda>g t. ToolPolicy_enforce (snd (Rep_built_policy g)) t (\<lambda>_. Inr ())"
  "\<lambda>g. fst (Rep_built_policy g)"
proof
  fix g t
  have "new_ToolPolicy (fst (Rep_built_policy g)) = Inr (snd (Rep_built_policy g))"
    using Rep_built_policy [of g] by auto
  then show "ToolPolicy_allows (snd (Rep_built_policy g)) t \<Longrightarrow> policy_spec (fst (Rep_built_policy g)) t"
    by (simp add: new_ToolPolicy_allows)
qed (simp add: ToolPolicy_enforce_def)

interpretation ap_gate: tool_gate
  "\<lambda>g t. ToolAccessPolicy_allows (snd (Rep_built_access g)) t = Inr True"
  "\<lambda>g. ToolAccessPolicy_assertAllowed (snd (Rep_built_access g))"
  "\<lambda>g. fst (Rep_built_access g)"
proof
  fix g t
  obtain pr where "new_ToolAccessPolicy (fst (Rep_built_access g)) pr = Inr (snd (Rep_built_access g))"
    using Rep_built_access [of g] by auto
  then show "ToolAccessPolicy_allows (snd (Rep_built_access g)) t = Inr True \<Longrightarrow>
      policy_spec (fst (Rep_built_access g)) t"
    using new_ToolAccessPolicy_True by blast
qed (auto simp: ToolAccessPolicy_assertAllowed_def bindE_Inr_iff)

section \<open>Properties\<close>

text \<open>
  C16. The access policy of a request is deny-first and conjunctive: a tool passes exactly when no
  deny pattern of the gateway matches it, an allow pattern does, and, if there is a principal, one
  of its tool patterns and one of its \<open>tool:\<close> scopes match it; otherwise \<open>assertAllowed\<close> throws
  an error with status 403. The patterns of the principal are valid, as the check of the permission
  table and the prefix of a custom upstream make them.
\<close>

theorem access_policy_decision:
  assumes "new_ToolAccessPolicy cfg pr = Inr ap" and "pred_option valid_principal pr"
  shows "ToolAccessPolicy_assertAllowed ap t =
     (if policy_spec cfg t \<and> pred_option (\<lambda>p. principal_spec p t) pr then Inr ()
      else Inl \<lparr>err_name = S ''Error'', err_message = not_allowed_message t, err_code = None,
                err_status = Some 403\<rparr>)"
proof (cases pr)
  case None
  with assms show ?thesis
    by (simp add: ToolAccessPolicy_assertAllowed_def new_ToolAccessPolicy_anonymous plain_error_def)
next
  case (Some p)
  with assms show ?thesis
    by (simp add: ToolAccessPolicy_assertAllowed_def new_ToolAccessPolicy_allows plain_error_def)
qed

definition demo_config :: tool_policy_config where
  "demo_config = \<lparr>cfg_allow = [S ''github.*'', S ''jira.get''], cfg_deny = [S ''github.delete*'']\<rparr>"

definition demo_principal :: principal where
  "demo_principal = \<lparr>p_userId = S ''u1'', p_apiKeyId = None, p_systemRole = S ''USER'',
     p_scopes = [S ''tool:github.*'', S ''read''], p_toolPatterns = [S ''*'']\<rparr>"

lemmas access_eval = demo_config_def demo_principal_def valid_pattern_def valid_principal_def
  policy_spec_def principal_spec_def any_glob_def scope_patterns_def is_line_term_def

lemma demo_valid: "list_all valid_pattern [S ''github.*'', S ''jira.get'', S ''github.delete*'', S ''*'']"
  "valid_principal demo_principal"
  by (simp_all add: access_eval js_eval)

lemma demo_built: "\<exists>ap. new_ToolAccessPolicy demo_config pr = Inr ap"
proof -
  obtain al de where "mapE compileToolPattern (cfg_allow demo_config) = Inr al"
    and "mapE compileToolPattern (cfg_deny demo_config) = Inr de"
    using demo_valid(1) mapE_compile_total [of "cfg_allow demo_config"]
      mapE_compile_total [of "cfg_deny demo_config"]
    by (auto simp: demo_config_def)
  then show ?thesis by (simp add: new_ToolAccessPolicy_def)
qed

theorem access_policy_decision_witness:
  "\<exists>ap. new_ToolAccessPolicy demo_config (Some demo_principal) = Inr ap
     \<and> ToolAccessPolicy_assertAllowed ap (S ''github.issues'') = Inr ()
     \<and> ToolAccessPolicy_assertAllowed ap (S ''github.deleteRepo'') \<noteq> Inr ()
     \<and> ToolAccessPolicy_assertAllowed ap (S ''jira.get'') \<noteq> Inr ()"
proof -
  obtain ap where ap: "new_ToolAccessPolicy demo_config (Some demo_principal) = Inr ap"
    using demo_built by blast
  have "policy_spec demo_config (S ''github.issues'') \<and> principal_spec demo_principal (S ''github.issues'')"
    "\<not> policy_spec demo_config (S ''github.deleteRepo'')"
    "\<not> principal_spec demo_principal (S ''jira.get'')"
    by (simp_all add: access_eval js_eval)
  with ap access_policy_decision [OF ap] demo_valid(2) show ?thesis by auto
qed

text \<open>
  Adding allow patterns to a policy never opens what the gateway denies or what the principal
  was not granted: after any number of \<open>withAllowedPattern\<close> a tool passes exactly when it passes
  the rules of the enlarged allow list, with the same deny list and the same principal.
\<close>

theorem added_patterns_decision:
  assumes "new_ToolAccessPolicy cfg pr = Inr ap" and "pred_option valid_principal pr"
    and "for_each (\<lambda>g a. ToolAccessPolicy_withAllowedPattern a g) globs ap = Inr ap'"
  shows "ToolAccessPolicy_allows ap' t =
     Inr (\<not> any_glob (cfg_deny cfg) t \<and> (any_glob (cfg_allow cfg) t \<or> any_glob globs t)
          \<and> pred_option (\<lambda>p. principal_spec p t) pr)"
  using assms
proof (induction globs arbitrary: cfg ap)
  case Nil
  then show ?case
    by (cases pr)
       (auto simp: new_ToolAccessPolicy_allows new_ToolAccessPolicy_anonymous policy_spec_def any_glob_def)
next
  case (Cons g globs)
  let ?cfg = "\<lparr>cfg_allow = cfg_allow cfg @ [g], cfg_deny = cfg_deny cfg\<rparr>"
  from Cons.prems(3) obtain ap1 where
    s: "ToolAccessPolicy_withAllowedPattern ap g = Inr ap1"
       "for_each (\<lambda>g a. ToolAccessPolicy_withAllowedPattern a g) globs ap1 = Inr ap'"
    by (auto simp: bindE_Inr_iff)
  from s(1) new_ToolAccessPolicy_fields [OF Cons.prems(1)]
  have "new_ToolAccessPolicy ?cfg pr = Inr ap1" by (simp add: ToolAccessPolicy_withAllowedPattern_def)
  from Cons.IH [OF this Cons.prems(2) s(2)] show ?case by (auto simp: any_glob_def)
qed

theorem added_patterns_decision_witness:
  "\<exists>ap ap'. new_ToolAccessPolicy demo_config None = Inr ap
     \<and> for_each (\<lambda>g a. ToolAccessPolicy_withAllowedPattern a g) [S ''*''] ap = Inr ap'
     \<and> ToolAccessPolicy_allows ap' (S ''slack.post'') = Inr True
     \<and> ToolAccessPolicy_allows ap' (S ''github.deleteRepo'') = Inr False"
proof -
  obtain ap where ap: "new_ToolAccessPolicy demo_config None = Inr ap"
    using demo_built by blast
  let ?cfg = "\<lparr>cfg_allow = cfg_allow demo_config @ [S ''*''], cfg_deny = cfg_deny demo_config\<rparr>"
  obtain al de where "mapE compileToolPattern (cfg_allow ?cfg) = Inr al"
    and "mapE compileToolPattern (cfg_deny ?cfg) = Inr de"
    using demo_valid(1) mapE_compile_total [of "cfg_allow ?cfg"] mapE_compile_total [of "cfg_deny ?cfg"]
    by (auto simp: demo_config_def)
  then obtain ap' where
    ap': "for_each (\<lambda>g a. ToolAccessPolicy_withAllowedPattern a g) [S ''*''] ap = Inr ap'"
    using new_ToolAccessPolicy_fields [OF ap]
    by (simp add: ToolAccessPolicy_withAllowedPattern_def new_ToolAccessPolicy_def)
  have "any_glob [S ''*''] (S ''slack.post'') \<and> \<not> any_glob (cfg_deny demo_config) (S ''slack.post'')
      \<and> any_glob (cfg_deny demo_config) (S ''github.deleteRepo'')"
    by (simp add: access_eval js_eval)
  with ap ap' added_patterns_decision [OF ap _ ap'] show ?thesis by auto
qed

end
