(* ===== verification/Db.thy ===== *)
theory Db
  imports AccessPolicy
begin

text \<open>
  The stores behind the gateway: the PostgreSQL tables the source reads and writes
  (\<open>src/database/migrations.ts\<close>) and the Redis keyspace. A table with a primary key that the
  source only looks up by that key is a map; a table whose rows are selected by other columns is
  the list of its rows. Timestamps that nothing reads (\<open>created_at\<close>, \<open>updated_at\<close>) are left out.
  Every statement may also fail for a reason outside the model (a lost connection, a length
  limit): a fault oracle says which of the numbered statements of an operation does.
\<close>

section \<open>Tables\<close>

datatype lifecycle_status = ACTIVE | BLOCKED | WITHDRAWN

datatype access_status = ACCESS_ACTIVE | ACCESS_DISABLED | ACCESS_WITHDRAWN

record user_row =
  u_id :: jstr
  u_email :: jstr
  u_name :: jstr
  u_system_role :: jstr
  u_external_provider :: "jstr option"
  u_external_subject_id :: "jstr option"
  u_is_active :: bool
  u_tenant_id :: jstr
  u_lifecycle_status :: lifecycle_status
  u_user_version :: int

record key_row =
  k_id :: jstr
  k_user_id :: jstr
  k_name :: jstr
  k_key_prefix :: jstr
  k_key_hash :: jstr
  k_allowed_scopes :: "jstr list"
  k_rate_limit_per_minute :: int
  k_is_active :: bool
  k_expires_at :: "int option"

record upstream_row =
  m_id :: jstr
  m_user_id :: jstr
  m_tool_prefix :: jstr
  m_endpoint_url :: jstr
  m_auth_type :: jstr
  m_auth_header_name :: jstr
  m_encrypted_auth_value :: "jstr option"
  m_encryption_iv :: "jstr option"
  m_encryption_tag :: "jstr option"
  m_is_enabled :: bool
  m_description :: "jstr option"

record permission_row =
  tp_id :: jstr
  tp_user_id :: jstr
  tp_tool_pattern :: jstr

record lifecycle_state =
  ls_status :: lifecycle_status
  ls_user_version :: int
  ls_last_event_id :: jstr

record access_state =
  as_status :: access_status
  as_access_version :: int
  as_last_event_id :: jstr

record lifecycle_receipt =
  lr_tenant_id :: jstr
  lr_subject_id :: jstr
  lr_user_version :: int

record access_receipt =
  ar_tenant_id :: jstr
  ar_subject_id :: jstr
  ar_client_id :: jstr
  ar_access_version :: int

record db =
  users :: "user_row list"
  api_keys :: "key_row list"
  user_mcp_upstreams :: "upstream_row list"
  user_tool_permissions :: "permission_row list"
  lifecycle_states :: "jstr \<times> jstr \<Rightarrow> lifecycle_state option"
  lifecycle_events :: "jstr \<Rightarrow> lifecycle_receipt option"
  lifecycle_last_seen :: "int option"
  access_states :: "jstr \<times> jstr \<times> jstr \<Rightarrow> access_state option"
  access_events :: "jstr \<Rightarrow> access_receipt option"
  access_last_seen :: "int option"

text \<open>The provider name that the statements of the source write out.\<close>

definition provider :: jstr where
  "provider = S ''snappytory_auth''"

definition is_identity :: "jstr \<Rightarrow> jstr \<Rightarrow> user_row \<Rightarrow> bool" where
  "is_identity tenant subject r \<longleftrightarrow> u_tenant_id r = tenant \<and> u_external_provider r = Some provider
     \<and> u_external_subject_id r = Some subject"

text \<open>\<open>UPDATE api_keys SET is_active = FALSE WHERE user_id = ...\<close>\<close>

definition deactivate_keys :: "(jstr \<Rightarrow> bool) \<Rightarrow> db \<Rightarrow> db" where
  "deactivate_keys P d = d\<lparr>api_keys := map (\<lambda>k. if P (k_user_id k) then k\<lparr>k_is_active := False\<rparr> else k) (api_keys d)\<rparr>"

text \<open>
  The constraints of the tables that the properties use: the primary keys, the unique e-mail
  address, and the unique external identity of a tenant.
\<close>

definition external_identity :: "user_row \<Rightarrow> (jstr \<times> jstr \<times> jstr) option" where
  "external_identity r = (case (u_external_provider r, u_external_subject_id r) of
     (Some p, Some s) \<Rightarrow> Some (u_tenant_id r, p, s) | _ \<Rightarrow> None)"

definition unique_identities :: "user_row list \<Rightarrow> bool" where
  "unique_identities rs \<longleftrightarrow> distinct (map external_identity (filter (\<lambda>r. external_identity r \<noteq> None) rs))"

definition db_ok :: "db \<Rightarrow> bool" where
  "db_ok d \<longleftrightarrow> distinct (map u_id (users d)) \<and> distinct (map u_email (users d))
     \<and> unique_identities (users d) \<and> distinct (map k_id (api_keys d)) \<and> distinct (map k_key_hash (api_keys d))"

lemma external_identity_iff:
  "external_identity r = Some (t, provider, s) \<longleftrightarrow> is_identity t s r"
  by (auto simp: external_identity_def is_identity_def split: option.splits)

lemma distinct_map_filter_unique:
  assumes "distinct (map f (filter P rs))" and "x \<in> set rs" and "y \<in> set rs" and "P x" and "P y" and "f x = f y"
  shows "x = y"
proof -
  from assms have "x \<in> set (filter P rs)" "y \<in> set (filter P rs)" by auto
  with assms show ?thesis by (meson distinct_map inj_onD)
qed

lemma identity_unique:
  assumes "unique_identities rs" and "a \<in> set rs" and "b \<in> set rs"
    and "is_identity t s a" and "is_identity t s b"
  shows "a = b"
proof -
  from assms(4,5) have "external_identity a = Some (t, provider, s)" "external_identity b = Some (t, provider, s)"
    by (simp_all add: external_identity_iff)
  with assms(1-3) show ?thesis
    unfolding unique_identities_def by (auto intro: distinct_map_filter_unique)
qed

section \<open>Statements and transactions\<close>

type_synonym faults = "nat \<Rightarrow> js_error option"
type_synonym 'a dbm = "(db, js_error, 'a) stm"

definition no_faults :: faults where
  "no_faults = (\<lambda>_. None)"

lemma query_no_faults [simp]: "query no_faults i m = m"
  by (rule ext) (simp add: query_def no_faults_def)

lemma commit_no_faults [simp]: "commit no_faults i x = retQ x"
  by (simp add: commit_def)

lemmas dbm_iff = bindQ_Inr_iff query_Inr_iff retQ_Inr_iff commit_Inr_iff

text \<open>A unique constraint that a statement violates.\<close>

definition unique_violation :: js_error where
  "unique_violation = \<lparr>err_name = S ''error'', err_message = S ''duplicate key value violates unique constraint'',
     err_code = Some (S ''23505''), err_status = None\<rparr>"

definition store_users :: "user_row list \<Rightarrow> db \<Rightarrow> db \<times> unit result" where
  "store_users rs d =
     (if distinct (map u_email rs) \<and> distinct (map u_id rs) \<and> unique_identities rs
      then (d\<lparr>users := rs\<rparr>, Inr ()) else (d, Inl unique_violation))"

section \<open>Redis\<close>

text \<open>
  A key holds a text, the JSON text of a principal, a set or a counter, with an expiry time. A key
  whose time has come is absent. A command on a key of another type fails.
\<close>

datatype rval = RText jstr | RPrincipal principal | RMembers "jstr list" | RCount int

type_synonym redis = "jstr \<Rightarrow> (rval \<times> int option) option"

definition live :: "int \<Rightarrow> redis \<Rightarrow> jstr \<Rightarrow> rval option" where
  "live now r k = (case r k of None \<Rightarrow> None
     | Some (v, None) \<Rightarrow> Some v
     | Some (v, Some e) \<Rightarrow> if now < e then Some v else None)"

definition expiry :: "redis \<Rightarrow> jstr \<Rightarrow> int option" where
  "expiry r k = (case r k of None \<Rightarrow> None | Some (v, e) \<Rightarrow> e)"

definition wrong_type :: js_error where
  "wrong_type = plain_error (S ''WRONGTYPE Operation against a key holding the wrong kind of value'')"

definition r_set_ex :: "int \<Rightarrow> jstr \<Rightarrow> rval \<Rightarrow> int \<Rightarrow> redis \<Rightarrow> redis" where
  "r_set_ex now k v seconds r = r(k \<mapsto> (v, Some (now + 1000 * seconds)))"

definition r_del :: "jstr list \<Rightarrow> redis \<Rightarrow> redis" where
  "r_del ks r = (\<lambda>k. if k \<in> set ks then None else r k)"

definition r_expire :: "int \<Rightarrow> jstr \<Rightarrow> int \<Rightarrow> redis \<Rightarrow> redis" where
  "r_expire now k seconds r = (case live now r k of None \<Rightarrow> r
     | Some v \<Rightarrow> r(k \<mapsto> (v, Some (now + 1000 * seconds))))"

definition r_smembers :: "int \<Rightarrow> jstr \<Rightarrow> redis \<Rightarrow> jstr list result" where
  "r_smembers now k r = (case live now r k of None \<Rightarrow> Inr []
     | Some (RMembers ms) \<Rightarrow> Inr ms | Some _ \<Rightarrow> Inl wrong_type)"

definition r_sadd :: "int \<Rightarrow> jstr \<Rightarrow> jstr \<Rightarrow> redis \<Rightarrow> redis \<times> unit result" where
  "r_sadd now k m r = (case live now r k of
       None \<Rightarrow> (r(k \<mapsto> (RMembers [m], None)), Inr ())
     | Some (RMembers ms) \<Rightarrow> (r(k \<mapsto> (RMembers (if m \<in> set ms then ms else m # ms), expiry r k)), Inr ())
     | Some _ \<Rightarrow> (r, Inl wrong_type))"

definition r_incr :: "int \<Rightarrow> jstr \<Rightarrow> redis \<Rightarrow> redis \<times> int result" where
  "r_incr now k r = (case live now r k of
       None \<Rightarrow> (r(k \<mapsto> (RCount 1, None)), Inr 1)
     | Some (RCount n) \<Rightarrow> (r(k \<mapsto> (RCount (n + 1), expiry r k)), Inr (n + 1))
     | Some _ \<Rightarrow> (r, Inl wrong_type))"

lemma live_del [simp]: "live now (r_del ks r) k = (if k \<in> set ks then None else live now r k)"
  by (simp add: live_def r_del_def)

text \<open>A command that the oracle lets fail does nothing.\<close>

definition rcall :: "js_error option \<Rightarrow> (redis \<Rightarrow> redis \<times> 'a result) \<Rightarrow> redis \<Rightarrow> redis \<times> 'a result" where
  "rcall flt m r = (case flt of Some e \<Rightarrow> (r, Inl e) | None \<Rightarrow> m r)"

definition bindR :: "redis \<times> 'a result \<Rightarrow> ('a \<Rightarrow> redis \<Rightarrow> redis \<times> 'b result) \<Rightarrow> redis \<times> 'b result" where
  "bindR p f = (case p of (r, Inl e) \<Rightarrow> (r, Inl e) | (r, Inr x) \<Rightarrow> f x r)"

lemma bindR_simps [simp]: "bindR (r, Inl e) f = (r, Inl e)" "bindR (r, Inr x) f = f x r"
  by (simp_all add: bindR_def)

lemma rcall_simps [simp]: "rcall None m r = m r" "rcall (Some e) m r = (r, Inl e)"
  by (simp_all add: rcall_def)

text \<open>
  \<open>sMembers\<close> of an index, \<open>del\<close> of its members, \<open>del\<close> of the index: the invalidation that the
  verifier and the session managers share (each with its own prefix of the index name).
\<close>

definition drop_indexed :: "faults \<Rightarrow> int \<Rightarrow> jstr \<Rightarrow> redis \<Rightarrow> redis \<times> unit result" where
  "drop_indexed flt now idx r =
     bindR (rcall (flt 0) (\<lambda>r. (r, r_smembers now idx r)) r) (\<lambda>keys r.
     bindR (if keys \<noteq> [] then rcall (flt 1) (\<lambda>r. (r_del keys r, Inr ())) r else (r, Inr ())) (\<lambda>_ r.
       rcall (flt 2) (\<lambda>r. (r_del [idx] r, Inr ())) r))"

lemma drop_indexed_ok:
  assumes "r_smembers now idx r = Inr ms"
  shows "drop_indexed no_faults now idx r = (r_del (idx # ms) r, Inr ())"
proof -
  have "r_del [idx] r = r_del (idx # ms) r" if "ms = []" using that by simp
  moreover have "r_del [idx] (r_del ms r) = r_del (idx # ms) r" by (auto simp: r_del_def fun_eq_iff)
  ultimately show ?thesis using assms by (auto simp: drop_indexed_def no_faults_def)
qed

end
