(* ===== verification/KeyVerifier.thy ===== *)
theory KeyVerifier
  imports Db
begin

text \<open>
  API key verification (\<open>src/auth/keyVerifier.ts\<close>): the bearer token of a header, the lookup of a
  key in the database, the cache of principals in Redis and its invalidation by user.
\<close>

section \<open>The code\<close>

definition bearer_re :: re where
  "bearer_re = RSeq RBol (RSeq (rlit (S ''Bearer '')) (RSeq (RCap 1 (rplus (RCls (\<lambda>c. \<not> is_space c)))) REol))"

text \<open>A header that is absent or repeated is not a string: \<open>None\<close>.\<close>

definition bearerToken :: "jstr option \<Rightarrow> jstr option" where
  "bearerToken header = (case header of None \<Rightarrow> None
     | Some h \<Rightarrow> (case re_exec bearer_re h of None \<Rightarrow> None | Some k \<Rightarrow> map_of k 1))"

record verifier_cfg =
  v_enforcement :: bool
  v_clientId :: jstr

definition cacheTtlSeconds :: int where
  "cacheTtlSeconds = 60"

definition healthy :: "int \<Rightarrow> int option \<Rightarrow> bool" where
  "healthy now last_seen = (case last_seen of None \<Rightarrow> False | Some t \<Rightarrow> t > now - 60000)"

text \<open>
  The conditions of the \<open>SELECT\<close> on a key and its user. A user without an external subject has no
  service access state.
\<close>

definition access_blocked :: "db \<Rightarrow> jstr \<Rightarrow> user_row \<Rightarrow> bool" where
  "access_blocked d clientId u = (case u_external_subject_id u of None \<Rightarrow> False
     | Some s \<Rightarrow> (case access_states d (u_tenant_id u, s, clientId) of None \<Rightarrow> False
        | Some st \<Rightarrow> as_status st \<noteq> ACCESS_ACTIVE))"

definition key_usable :: "verifier_cfg \<Rightarrow> int \<Rightarrow> db \<Rightarrow> jstr \<Rightarrow> jstr \<Rightarrow> key_row \<Rightarrow> user_row \<Rightarrow> bool" where
  "key_usable cfg now d pref hash k u \<longleftrightarrow>
     u_id u = k_user_id k \<and> k_key_prefix k = pref \<and> k_key_hash k = hash
     \<and> k_is_active k \<and> u_is_active u \<and> u_lifecycle_status u = ACTIVE
     \<and> healthy now (lifecycle_last_seen d)
     \<and> (v_enforcement cfg \<longrightarrow> healthy now (access_last_seen d) \<and> \<not> access_blocked d (v_clientId cfg) u)
     \<and> (case k_expires_at k of None \<Rightarrow> True | Some e \<Rightarrow> e > now)"

text \<open>The two aggregates; the order of \<open>array_agg(DISTINCT ...)\<close> is immaterial to every reader.\<close>

definition principal_of :: "db \<Rightarrow> key_row \<Rightarrow> user_row \<Rightarrow> principal" where
  "principal_of d k u =
     \<lparr>p_userId = u_id u, p_apiKeyId = Some (k_id k), p_systemRole = u_system_role u,
      p_scopes = k_allowed_scopes k,
      p_toolPatterns =
        remdups (map tp_tool_pattern (filter (\<lambda>p. tp_user_id p = u_id u) (user_tool_permissions d)))
        @ remdups (map (\<lambda>m. m_tool_prefix m @ S ''.*'')
            (filter (\<lambda>m. m_user_id m = u_id u \<and> m_is_enabled m) (user_mcp_upstreams d)))\<rparr>"

definition verify_rows :: "verifier_cfg \<Rightarrow> int \<Rightarrow> jstr \<Rightarrow> jstr \<Rightarrow> db \<Rightarrow> principal list" where
  "verify_rows cfg now pref hash d =
     concat (map (\<lambda>k. map (principal_of d k) (filter (key_usable cfg now d pref hash k) (users d))) (api_keys d))"

definition cache_key :: "jstr \<Rightarrow> jstr" where
  "cache_key hash = S ''tg:auth:key:'' @ hash"

definition user_index :: "jstr \<Rightarrow> jstr" where
  "user_index userId = S ''tg:auth:user:'' @ userId"

definition well_formed_key :: "jstr \<Rightarrow> bool" where
  "well_formed_key rawKey \<longleftrightarrow> startsWith rawKey (S ''tg_live_'') \<and> \<not> length rawKey < 32"

text \<open>Only \<open>verify\<close> writes under \<open>tg:auth:key:\<close>, so a cached text is the text of a principal.\<close>

definition cached_principal :: "int \<Rightarrow> jstr \<Rightarrow> redis \<Rightarrow> principal option result" where
  "cached_principal now hash r = (case live now r (cache_key hash) of
       None \<Rightarrow> Inr None | Some (RPrincipal p) \<Rightarrow> Inr (Some p) | Some _ \<Rightarrow> Inl wrong_type)"

definition store_principal :: "faults \<Rightarrow> int \<Rightarrow> jstr \<Rightarrow> principal \<Rightarrow> redis \<Rightarrow> redis \<times> unit result" where
  "store_principal flt now hash p r =
     bindR (rcall (flt 2) (\<lambda>r. (r_set_ex now (cache_key hash) (RPrincipal p) cacheTtlSeconds r, Inr ())) r) (\<lambda>_ r.
     bindR (rcall (flt 3) (r_sadd now (user_index (p_userId p)) (cache_key hash)) r) (\<lambda>_ r.
       rcall (flt 4) (\<lambda>r. (r_expire now (user_index (p_userId p)) (cacheTtlSeconds + 5) r, Inr ())) r))"

text \<open>\<open>sha_hex\<close> is the SHA-256 hexadecimal digest of the crypto library.\<close>

definition verify :: "verifier_cfg \<Rightarrow> (jstr \<Rightarrow> jstr) \<Rightarrow> faults \<Rightarrow> int \<Rightarrow> jstr \<Rightarrow> db \<Rightarrow> redis \<Rightarrow> redis \<times> principal option result" where
  "verify cfg sha_hex flt now rawKey d r =
     (if \<not> well_formed_key rawKey then (r, Inr None)
      else let hash = sha_hex rawKey in
        bindR (rcall (flt 0) (\<lambda>r. (r, cached_principal now hash r)) r) (\<lambda>cached r.
          case cached of
            Some p \<Rightarrow> (r, Inr (Some p))
          | None \<Rightarrow>
              (case flt 1 of
                 Some e \<Rightarrow> (r, Inl e)
               | None \<Rightarrow>
                   (case verify_rows cfg now (take 16 rawKey) hash d of
                      [] \<Rightarrow> (r, Inr None)
                    | p # _ \<Rightarrow> bindR (store_principal flt now hash p r) (\<lambda>_ r. (r, Inr (Some p)))))))"

definition invalidateUser :: "faults \<Rightarrow> int \<Rightarrow> jstr \<Rightarrow> redis \<Rightarrow> redis \<times> unit result" where
  "invalidateUser flt now userId r = drop_indexed flt now (user_index userId) r"

section \<open>The invariant of the cache\<close>

text \<open>
  Every live entry is a principal, expires within the time to live, and is listed in the index of
  its user, which lives at least as long.
\<close>

definition cache_inv :: "int \<Rightarrow> redis \<Rightarrow> bool" where
  "cache_inv now r \<longleftrightarrow>
     (\<forall>h v. live now r (cache_key h) = Some v \<longrightarrow>
        (\<exists>p e ms e'. r (cache_key h) = Some (RPrincipal p, Some e) \<and> e \<le> now + 60000
           \<and> r (user_index (p_userId p)) = Some (RMembers ms, Some e') \<and> cache_key h \<in> set ms \<and> e \<le> e'))
     \<and> (\<forall>u v. live now r (user_index u) = Some v \<longrightarrow> (\<exists>ms. v = RMembers ms \<and> set ms \<subseteq> range cache_key))"

lemma key_names [simp]:
  "cache_key h = cache_key h' \<longleftrightarrow> h = h'" "user_index u = user_index u' \<longleftrightarrow> u = u'"
  "cache_key h \<noteq> user_index u" "user_index u \<noteq> cache_key h"
  by (auto simp: cache_key_def user_index_def S_def)

lemma live_Some: "live now r k = Some v \<longleftrightarrow> (\<exists>e. r k = Some (v, e) \<and> (case e of None \<Rightarrow> True | Some x \<Rightarrow> now < x))"
  by (auto simp: live_def split: option.splits prod.splits)

lemma live_later: "live t' r k = Some v \<Longrightarrow> t \<le> t' \<Longrightarrow> live t r k = Some v"
  by (auto simp: live_Some split: option.splits)

lemma cache_inv_empty [simp]: "cache_inv now (\<lambda>_. None)"
  by (simp add: cache_inv_def live_def)

lemma cache_inv_later: "cache_inv t r \<Longrightarrow> t \<le> t' \<Longrightarrow> cache_inv t' r"
  unfolding cache_inv_def by (meson live_later order_trans add_right_mono)

lemma cache_invD:
  assumes "cache_inv now r" and "live now r (cache_key h) = Some v"
  obtains p e ms e' where "v = RPrincipal p" "r (cache_key h) = Some (RPrincipal p, Some e)" "now < e"
    "e \<le> now + 60000" "r (user_index (p_userId p)) = Some (RMembers ms, Some e')" "cache_key h \<in> set ms" "e \<le> e'"
proof -
  from assms obtain p e ms e' where a: "r (cache_key h) = Some (RPrincipal p, Some e)" "e \<le> now + 60000"
    "r (user_index (p_userId p)) = Some (RMembers ms, Some e')" "cache_key h \<in> set ms" "e \<le> e'"
    unfolding cache_inv_def by blast
  with assms(2) have "v = RPrincipal p" "now < e" by (auto simp: live_Some)
  with a that show thesis by blast
qed

lemma live_upd: "live now (r(k \<mapsto> (v, Some e))) k' = (if k' = k then (if now < e then Some v else None) else live now r k')"
  by (simp add: live_def)

lemma live_upd_forever: "live now (r(k \<mapsto> (v, None))) k' = (if k' = k then Some v else live now r k')"
  by (simp add: live_def)

lemma cache_inv_index: "cache_inv now r \<Longrightarrow> live now r (user_index u) = Some v \<Longrightarrow>
    \<exists>ms. v = RMembers ms \<and> set ms \<subseteq> range cache_key"
  unfolding cache_inv_def by blast

lemma index_members:
  assumes "cache_inv now r"
  obtains ms where "r_smembers now (user_index u) r = Inr ms" and "set ms \<subseteq> range cache_key"
    and "\<And>h p. live now r (cache_key h) = Some (RPrincipal p) \<Longrightarrow> p_userId p = u \<Longrightarrow> cache_key h \<in> set ms"
proof (cases "live now r (user_index u)")
  case None
  have "False" if l: "live now r (cache_key h) = Some (RPrincipal p)" and u: "p_userId p = u" for h p
  proof -
    from l obtain q e ms e' where "RPrincipal p = RPrincipal q" "now < e"
      "r (user_index (p_userId q)) = Some (RMembers ms, Some e')" "e \<le> e'"
      by (rule cache_invD [OF assms])
    with u have "live now r (user_index u) = Some (RMembers ms)" by (simp add: live_def)
    with None show False by simp
  qed
  moreover from None have "r_smembers now (user_index u) r = Inr []" by (simp add: r_smembers_def)
  ultimately show thesis using that [of "[]"] by auto
next
  case (Some v)
  from cache_inv_index [OF assms this] obtain ms where v: "v = RMembers ms" "set ms \<subseteq> range cache_key" by blast
  have "cache_key h \<in> set ms" if l: "live now r (cache_key h) = Some (RPrincipal p)" and u: "p_userId p = u" for h p
  proof -
    from l obtain q e ms' e' where "RPrincipal p = RPrincipal q" "now < e"
      "r (user_index (p_userId q)) = Some (RMembers ms', Some e')" "cache_key h \<in> set ms'" "e \<le> e'"
      by (rule cache_invD [OF assms])
    moreover from this u Some v have "ms' = ms" by (simp add: live_def)
    ultimately show ?thesis by simp
  qed
  moreover from Some v have "r_smembers now (user_index u) r = Inr ms" by (simp add: r_smembers_def)
  ultimately show thesis using that v by blast
qed

lemma store_shape:
  assumes "\<And>v. live now r (user_index (p_userId p)) = Some v \<Longrightarrow> \<exists>ms. v = RMembers ms \<and> set ms \<subseteq> range cache_key"
  obtains ms where
    "store_principal no_faults now h p r =
       (r(cache_key h \<mapsto> (RPrincipal p, Some (now + 60000)),
          user_index (p_userId p) \<mapsto> (RMembers ms, Some (now + 65000))), Inr ())"
    and "cache_key h \<in> set ms" and "set ms \<subseteq> range cache_key"
    and "\<And>ms0. live now r (user_index (p_userId p)) = Some (RMembers ms0) \<Longrightarrow> set ms0 \<subseteq> set ms"
proof (cases "live now r (user_index (p_userId p))")
  case None
  then have "store_principal no_faults now h p r =
       (r(cache_key h \<mapsto> (RPrincipal p, Some (now + 60000)),
          user_index (p_userId p) \<mapsto> (RMembers [cache_key h], Some (now + 65000))), Inr ())"
    by (simp add: store_principal_def no_faults_def r_set_ex_def r_sadd_def cacheTtlSeconds_def
        r_expire_def live_upd live_upd_forever)
  with None that [of "[cache_key h]"] show thesis by simp
next
  case (Some v)
  with assms obtain ms0 where v: "v = RMembers ms0" "set ms0 \<subseteq> range cache_key" by blast
  let ?ms = "if cache_key h \<in> set ms0 then ms0 else cache_key h # ms0"
  obtain e where e: "r (user_index (p_userId p)) = Some (RMembers ms0, e)" "case e of None \<Rightarrow> True | Some x \<Rightarrow> now < x"
    using Some v by (auto simp: live_Some)
  have "store_principal no_faults now h p r =
       (r(cache_key h \<mapsto> (RPrincipal p, Some (now + 60000)),
          user_index (p_userId p) \<mapsto> (RMembers ?ms, Some (now + 65000))), Inr ())"
    using e Some v
    by (cases e) (simp_all add: store_principal_def no_faults_def r_set_ex_def r_sadd_def cacheTtlSeconds_def
        r_expire_def live_upd live_upd_forever expiry_def)
  then show thesis by (rule that) (use Some v in \<open>auto split: if_splits\<close>)
qed

lemma store_keeps_inv:
  assumes inv: "cache_inv now r"
  obtains r' where "store_principal no_faults now h p r = (r', Inr ())" and "cache_inv now r'"
    and "live now r' (cache_key h) = Some (RPrincipal p)"
proof -
  have idx: "\<And>v. live now r (user_index (p_userId p)) = Some v \<Longrightarrow>
      \<exists>ms. v = RMembers ms \<and> set ms \<subseteq> range cache_key"
    by (rule cache_inv_index [OF inv])
  obtain ms where st: "store_principal no_faults now h p r =
       (r(cache_key h \<mapsto> (RPrincipal p, Some (now + 60000)),
          user_index (p_userId p) \<mapsto> (RMembers ms, Some (now + 65000))), Inr ())"
    and m: "cache_key h \<in> set ms" "set ms \<subseteq> range cache_key"
    and old: "\<And>ms0. live now r (user_index (p_userId p)) = Some (RMembers ms0) \<Longrightarrow> set ms0 \<subseteq> set ms"
    by (rule store_shape [where h = h and p = p and now = now and r = r])
      (rule idx, assumption, (rule that; blast))
  define r' where "r' = r(cache_key h \<mapsto> (RPrincipal p, Some (now + 60000)),
          user_index (p_userId p) \<mapsto> (RMembers ms, Some (now + 65000)))"
  have "cache_inv now r'"
    unfolding cache_inv_def
  proof (intro conjI allI impI)
    fix h' v
    assume l: "live now r' (cache_key h') = Some v"
    show "\<exists>q e ms e'. r' (cache_key h') = Some (RPrincipal q, Some e) \<and> e \<le> now + 60000
           \<and> r' (user_index (p_userId q)) = Some (RMembers ms, Some e') \<and> cache_key h' \<in> set ms \<and> e \<le> e'"
    proof (cases "h' = h")
      case True
      with m show ?thesis by (simp add: r'_def)
    next
      case False
      with l have "live now r (cache_key h') = Some v" by (simp add: r'_def live_upd)
      then obtain q e msq e' where q:
        "r (cache_key h') = Some (RPrincipal q, Some e)" "now < e" "e \<le> now + 60000"
        "r (user_index (p_userId q)) = Some (RMembers msq, Some e')" "cache_key h' \<in> set msq" "e \<le> e'"
        by (rule cache_invD [OF inv])
      show ?thesis
      proof (cases "p_userId q = p_userId p")
        case True
        with q have "live now r (user_index (p_userId p)) = Some (RMembers msq)" by (simp add: live_def)
        with old q have "cache_key h' \<in> set ms" by blast
        with q True False show ?thesis by (simp add: r'_def)
      next
        case nq: False
        with q False show ?thesis by (simp add: r'_def)
      qed
    qed
  next
    fix u v
    assume "live now r' (user_index u) = Some v"
    then show "\<exists>ms. v = RMembers ms \<and> set ms \<subseteq> range cache_key"
      using cache_inv_index [OF inv, of u v] m by (auto simp: r'_def live_upd split: if_splits)
  qed
  moreover have "live now r' (cache_key h) = Some (RPrincipal p)" by (simp add: r'_def live_upd)
  ultimately show thesis using that st r'_def by blast
qed

lemma cache_inv_del:
  assumes inv: "cache_inv now r" and ms: "set ms \<subseteq> range cache_key"
    and all: "\<And>h p. live now r (cache_key h) = Some (RPrincipal p) \<Longrightarrow> p_userId p = u \<Longrightarrow> cache_key h \<in> set ms"
  shows "cache_inv now (r_del (user_index u # ms) r)"
  unfolding cache_inv_def
proof (intro conjI allI impI)
  have no_index: "user_index w \<notin> set ms" for w using ms by auto
  fix h v
  assume "live now (r_del (user_index u # ms) r) (cache_key h) = Some v"
  then have l: "live now r (cache_key h) = Some v" and n: "cache_key h \<notin> set ms" by (simp_all split: if_splits)
  from l obtain q e mq e' where q: "v = RPrincipal q" "r (cache_key h) = Some (RPrincipal q, Some e)" "e \<le> now + 60000"
    "r (user_index (p_userId q)) = Some (RMembers mq, Some e')" "cache_key h \<in> set mq" "e \<le> e'"
    by (rule cache_invD [OF inv])
  from all l n q have "p_userId q \<noteq> u" by blast
  with q n no_index show "\<exists>q e mq e'. r_del (user_index u # ms) r (cache_key h) = Some (RPrincipal q, Some e)
      \<and> e \<le> now + 60000 \<and> r_del (user_index u # ms) r (user_index (p_userId q)) = Some (RMembers mq, Some e')
      \<and> cache_key h \<in> set mq \<and> e \<le> e'"
    by (simp add: r_del_def)
next
  fix w v
  assume "live now (r_del (user_index u # ms) r) (user_index w) = Some v"
  then show "\<exists>ms. v = RMembers ms \<and> set ms \<subseteq> range cache_key"
    using cache_inv_index [OF inv, of w v] by (simp split: if_splits)
qed

lemma invalidate_shape:
  assumes "cache_inv now r"
  obtains r' where "invalidateUser no_faults now u r = (r', Inr ())" and "cache_inv now r'"
    and "\<And>h v. live now r' (cache_key h) = Some v \<Longrightarrow>
           live now r (cache_key h) = Some v \<and> (\<exists>p. v = RPrincipal p \<and> p_userId p \<noteq> u)"
proof -
  obtain ms where ms: "r_smembers now (user_index u) r = Inr ms" "set ms \<subseteq> range cache_key"
    and all: "\<And>h p. live now r (cache_key h) = Some (RPrincipal p) \<Longrightarrow> p_userId p = u \<Longrightarrow> cache_key h \<in> set ms"
    by (rule index_members [OF assms, of u]) (rule that; blast)
  define r' where "r' = r_del (user_index u # ms) r"
  have kept: "live now r (cache_key h) = Some v \<and> (\<exists>p. v = RPrincipal p \<and> p_userId p \<noteq> u)"
    if "live now r' (cache_key h) = Some v" for h v
  proof -
    from that have l: "live now r (cache_key h) = Some v" and n: "cache_key h \<notin> set ms"
      by (simp_all add: r'_def split: if_splits)
    from l obtain q where "v = RPrincipal q" by (rule cache_invD [OF assms])
    with l n all show ?thesis by blast
  qed
  have "invalidateUser no_faults now u r = (r', Inr ())"
    unfolding invalidateUser_def r'_def by (rule drop_indexed_ok [OF ms(1)])
  moreover have "cache_inv now r'" unfolding r'_def by (rule cache_inv_del [OF assms ms(2) all])
  ultimately show thesis using that kept by blast
qed

section \<open>Interleaved verifications\<close>

text \<open>
  Verifications of many requests run at once, and each is three awaits apart from its lookup: the
  cache entry is written some time after the row was read. \<open>kv_flight\<close> holds the verifications
  between their lookup and their write, \<open>kv_approved\<close> and \<open>kv_grants\<close> log when the database
  approved a key and when \<open>verify\<close> returned a principal. \<open>latency\<close> bounds the time between a lookup
  and its write. The database may change in any way at any time.
\<close>

record kv_sys =
  kv_db :: db
  kv_redis :: redis
  kv_now :: int
  kv_flight :: "(jstr \<times> principal \<times> int) list"
  kv_approved :: "(jstr \<times> principal \<times> int) list"
  kv_grants :: "(jstr \<times> principal \<times> int) list"

inductive kv_step :: "verifier_cfg \<Rightarrow> (jstr \<Rightarrow> jstr) \<Rightarrow> int \<Rightarrow> kv_sys \<Rightarrow> kv_sys \<Rightarrow> bool"
  for cfg sha_hex latency where
  tick: "kv_now s \<le> t \<Longrightarrow> list_all (\<lambda>(h, p, t0). t \<le> t0 + latency) (kv_flight s) \<Longrightarrow>
     kv_step cfg sha_hex latency s (s\<lparr>kv_now := t\<rparr>)"
| change: "kv_step cfg sha_hex latency s (s\<lparr>kv_db := d\<rparr>)"
| hit: "well_formed_key k \<Longrightarrow> cached_principal (kv_now s) (sha_hex k) (kv_redis s) = Inr (Some p) \<Longrightarrow>
     kv_step cfg sha_hex latency s (s\<lparr>kv_grants := (sha_hex k, p, kv_now s) # kv_grants s\<rparr>)"
| lookup: "well_formed_key k \<Longrightarrow> cached_principal (kv_now s) (sha_hex k) (kv_redis s) = Inr None \<Longrightarrow>
     verify_rows cfg (kv_now s) (take 16 k) (sha_hex k) (kv_db s) = p # ps \<Longrightarrow>
     kv_step cfg sha_hex latency s
       (s\<lparr>kv_flight := (sha_hex k, p, kv_now s) # kv_flight s,
          kv_approved := (sha_hex k, p, kv_now s) # kv_approved s\<rparr>)"
| cache_write: "(h, p, t0) \<in> set (kv_flight s) \<Longrightarrow>
     kv_step cfg sha_hex latency s
       (s\<lparr>kv_redis := r_set_ex (kv_now s) (cache_key h) (RPrincipal p) cacheTtlSeconds (kv_redis s),
          kv_flight := remove1 (h, p, t0) (kv_flight s),
          kv_grants := (h, p, kv_now s) # kv_grants s\<rparr>)"
| index: "r_sadd (kv_now s) (user_index u) (cache_key h) (kv_redis s) = (r', Inr ()) \<Longrightarrow>
     kv_step cfg sha_hex latency s (s\<lparr>kv_redis := r'\<rparr>)"
| prolong: "kv_step cfg sha_hex latency s
     (s\<lparr>kv_redis := r_expire (kv_now s) (user_index u) (cacheTtlSeconds + 5) (kv_redis s)\<rparr>)"
| invalidate: "invalidateUser flt (kv_now s) u (kv_redis s) = (r', res) \<Longrightarrow>
     kv_step cfg sha_hex latency s (s\<lparr>kv_redis := r'\<rparr>)"

inductive kv_reachable :: "verifier_cfg \<Rightarrow> (jstr \<Rightarrow> jstr) \<Rightarrow> int \<Rightarrow> kv_sys \<Rightarrow> bool" for cfg sha_hex latency where
  kv_start: "kv_reachable cfg sha_hex latency
     \<lparr>kv_db = d, kv_redis = (\<lambda>_. None), kv_now = t, kv_flight = [], kv_approved = [], kv_grants = []\<rparr>"
| kv_next: "kv_reachable cfg sha_hex latency s \<Longrightarrow> kv_step cfg sha_hex latency s s' \<Longrightarrow>
     kv_reachable cfg sha_hex latency s'"

definition approved_within :: "int \<Rightarrow> kv_sys \<Rightarrow> jstr \<Rightarrow> principal \<Rightarrow> int \<Rightarrow> bool" where
  "approved_within bound s h p t \<longleftrightarrow> (\<exists>t0. (h, p, t0) \<in> set (kv_approved s) \<and> t0 \<le> t \<and> t \<le> t0 + bound)"

definition entries_ok :: "int \<Rightarrow> kv_sys \<Rightarrow> bool" where
  "entries_ok latency s \<longleftrightarrow>
     (\<forall>h v e. kv_redis s (cache_key h) = Some (v, e) \<longrightarrow>
        (\<exists>p t0 x. v = RPrincipal p \<and> e = Some x \<and> (h, p, t0) \<in> set (kv_approved s)
           \<and> t0 \<le> kv_now s \<and> x \<le> t0 + latency + 60000))"

definition kv_inv :: "int \<Rightarrow> kv_sys \<Rightarrow> bool" where
  "kv_inv latency s \<longleftrightarrow> entries_ok latency s
     \<and> (\<forall>(h, p, t0) \<in> set (kv_flight s). (h, p, t0) \<in> set (kv_approved s) \<and> t0 \<le> kv_now s \<and> kv_now s \<le> t0 + latency)
     \<and> (\<forall>(h, p, t) \<in> set (kv_grants s). approved_within (latency + 60000) s h p t)"

lemma r_sadd_cache: "r_sadd now (user_index u) m r = (r', res) \<Longrightarrow> r' (cache_key h) = r (cache_key h)"
  by (auto simp: r_sadd_def split: option.splits rval.splits)

lemma r_expire_cache: "r_expire now (user_index u) n r (cache_key h) = r (cache_key h)"
  by (auto simp: r_expire_def split: option.splits)

lemma drop_indexed_sub: "drop_indexed flt now i r = (r', res) \<Longrightarrow> r' k = r k \<or> r' k = None"
proof -
  have del: "fst (rcall f (\<lambda>r. (r_del ks r, Inr ())) r) k \<in> {r k, None}" for f ks r
    by (cases f) (auto simp: r_del_def)
  assume "drop_indexed flt now i r = (r', res)"
  then show ?thesis
    by (cases "flt 0"; cases "flt 1"; cases "flt 2"; cases "r_smembers now i r")
       (auto simp: drop_indexed_def r_del_def split: if_splits)
qed

lemma kv_step_inv:
  assumes "kv_step cfg sha_hex latency s s'" and "kv_inv latency s" and "0 \<le> latency"
  shows "kv_inv latency s'"
  using assms(1)
proof (cases rule: kv_step.cases)
  case (tick t)
  with assms(2) show ?thesis
    by (fastforce simp: kv_inv_def entries_ok_def approved_within_def list_all_iff)
next
  case (change d)
  with assms(2) show ?thesis by (simp add: kv_inv_def entries_ok_def approved_within_def)
next
  case (hit k p)
  then obtain e where "kv_redis s (cache_key (sha_hex k)) = Some (RPrincipal p, e)"
    and live: "case e of None \<Rightarrow> True | Some x \<Rightarrow> kv_now s < x"
    by (auto simp: cached_principal_def live_Some split: option.splits rval.splits)
  with assms(2) obtain t0 x where "e = Some x" "(sha_hex k, p, t0) \<in> set (kv_approved s)"
      "t0 \<le> kv_now s" "x \<le> t0 + latency + 60000"
    unfolding kv_inv_def entries_ok_def by blast
  with live have "approved_within (latency + 60000) s (sha_hex k) p (kv_now s)"
    by (auto simp: approved_within_def)
  with hit assms(2) show ?thesis by (auto simp: kv_inv_def entries_ok_def approved_within_def)
next
  case (lookup k p ps)
  with assms(2,3) show ?thesis
    by (auto simp: kv_inv_def entries_ok_def approved_within_def) (meson order_refl)+
next
  case (cache_write h p t0)
  with assms(2) have f: "(h, p, t0) \<in> set (kv_approved s)" "t0 \<le> kv_now s" "kv_now s \<le> t0 + latency"
    unfolding kv_inv_def by auto
  then have "approved_within (latency + 60000) s h p (kv_now s)" by (auto simp: approved_within_def)
  moreover have "set (remove1 (h, p, t0) (kv_flight s)) \<subseteq> set (kv_flight s)" by (rule set_remove1_subset)
  moreover have "entries_ok latency s'"
    using assms(2) f cache_write
    by (auto simp: kv_inv_def entries_ok_def r_set_ex_def cacheTtlSeconds_def)
  ultimately show ?thesis
    using cache_write assms(2) by (auto simp: kv_inv_def approved_within_def)
next
  case (index u h r')
  with assms(2) show ?thesis
    by (auto simp: kv_inv_def entries_ok_def approved_within_def r_sadd_cache)
next
  case (prolong u)
  with assms(2) show ?thesis
    by (auto simp: kv_inv_def entries_ok_def approved_within_def r_expire_cache)
next
  case (invalidate flt u r' res)
  have "r' k = kv_redis s k \<or> r' k = None" for k
    using invalidate(2) unfolding invalidateUser_def by (rule drop_indexed_sub)
  then have sub: "r' k = Some x \<Longrightarrow> kv_redis s k = Some x" for k x by (metis option.distinct(1))
  from assms(2) have "entries_ok latency s" by (simp add: kv_inv_def)
  then have "entries_ok latency s'"
    unfolding entries_ok_def invalidate(1) by (auto dest: sub)
  with assms(2) show ?thesis
    unfolding kv_inv_def approved_within_def invalidate(1) by simp
qed

lemma kv_reachable_inv: "kv_reachable cfg sha_hex latency s \<Longrightarrow> 0 \<le> latency \<Longrightarrow> kv_inv latency s"
proof (induction rule: kv_reachable.induct)
  case (kv_start d t)
  then show ?case by (simp add: kv_inv_def entries_ok_def)
next
  case (kv_next s s')
  then show ?case using kv_step_inv by blast
qed

section \<open>Properties\<close>

lemma verify_cases:
  assumes "verify cfg sha_hex no_faults now key d r = (r', Inr (Some p))"
  obtains "well_formed_key key" "live now r (cache_key (sha_hex key)) = Some (RPrincipal p)" "r' = r"
  | k u where "well_formed_key key" "live now r (cache_key (sha_hex key)) = None"
      "k \<in> set (api_keys d)" "u \<in> set (users d)" "key_usable cfg now d (take 16 key) (sha_hex key) k u"
      "p = principal_of d k u" "store_principal no_faults now (sha_hex key) p r = (r', Inr ())"
proof (cases "cached_principal now (sha_hex key) r")
  case (Inl e)
  with assms show thesis
    by (auto simp: verify_def Let_def no_faults_def split: if_splits)
next
  case (Inr c)
  from assms have w: "well_formed_key key" by (auto simp: verify_def split: if_splits)
  show thesis
  proof (cases c)
    case (Some q)
    with Inr assms w have "q = p" "r' = r" by (auto simp: verify_def Let_def no_faults_def)
    with Some Inr w that(1) show thesis by (auto simp: cached_principal_def split: option.splits rval.splits)
  next
    case None
    from None Inr have l: "live now r (cache_key (sha_hex key)) = None"
      by (auto simp: cached_principal_def split: option.splits rval.splits)
    show thesis
    proof (cases "verify_rows cfg now (take 16 key) (sha_hex key) d")
      case Nil
      with None Inr assms w show thesis by (auto simp: verify_def Let_def no_faults_def)
    next
      case (Cons q qs)
      then have "q \<in> set (verify_rows cfg now (take 16 key) (sha_hex key) d)" by simp
      then obtain k u where ku: "k \<in> set (api_keys d)" "u \<in> set (users d)"
        "key_usable cfg now d (take 16 key) (sha_hex key) k u" "q = principal_of d k u"
        by (auto simp: verify_rows_def)
      have "bindR (store_principal no_faults now (sha_hex key) q r) (\<lambda>_ r. (r, Inr (Some q))) = (r', Inr (Some p))"
        using Cons None Inr assms w by (auto simp: verify_def Let_def no_faults_def)
      then have "q = p \<and> store_principal no_faults now (sha_hex key) q r = (r', Inr ())"
        by (auto simp: bindR_def split: prod.splits sum.splits)
      with that(2) w l ku show thesis by blast
    qed
  qed
qed

section \<open>Verifications one after the other\<close>

text \<open>
  A history of the cache in which every verification runs from its lookup to its last write, without a
  failing Redis command, before the next operation starts; the database of a verification satisfies \<open>P\<close>.
\<close>

inductive cache_run :: "verifier_cfg \<Rightarrow> (jstr \<Rightarrow> jstr) \<Rightarrow> (db \<Rightarrow> bool) \<Rightarrow> int \<times> redis \<Rightarrow> int \<times> redis \<Rightarrow> bool" for cfg sha_hex P c where
  run_nil: "cache_run cfg sha_hex P c c"
| run_later: "cache_run cfg sha_hex P c (t, r) \<Longrightarrow> t \<le> t' \<Longrightarrow> cache_run cfg sha_hex P c (t', r)"
| run_verify: "cache_run cfg sha_hex P c (t, r) \<Longrightarrow> P d \<Longrightarrow> verify cfg sha_hex no_faults t key d r = (r', x) \<Longrightarrow>
     cache_run cfg sha_hex P c (t, r')"
| run_invalidate: "cache_run cfg sha_hex P c (t, r) \<Longrightarrow> invalidateUser no_faults t u r = (r', x) \<Longrightarrow> cache_run cfg sha_hex P c (t, r')"

definition no_active_key :: "jstr \<Rightarrow> db \<Rightarrow> bool" where
  "no_active_key u d \<longleftrightarrow> (\<forall>k \<in> set (api_keys d). k_user_id k = u \<longrightarrow> \<not> k_is_active k)"

definition no_entry :: "jstr \<Rightarrow> int \<Rightarrow> redis \<Rightarrow> bool" where
  "no_entry u now r \<longleftrightarrow> (\<forall>h p. live now r (cache_key h) = Some (RPrincipal p) \<longrightarrow> p_userId p \<noteq> u)"

lemma cache_frame:
  assumes "\<And>h. r' (cache_key h) = r (cache_key h)" and "\<And>u. r' (user_index u) = r (user_index u)"
  shows "cache_inv now r' \<longleftrightarrow> cache_inv now r" and "no_entry u now r' \<longleftrightarrow> no_entry u now r"
  by (simp_all add: cache_inv_def no_entry_def live_def assms)

lemma no_entry_later: "no_entry u t r \<Longrightarrow> t \<le> t' \<Longrightarrow> no_entry u t' r"
  by (auto simp: no_entry_def dest: live_later)

lemma no_active_rows: "no_active_key u d \<Longrightarrow> k \<in> set (api_keys d) \<Longrightarrow> key_usable cfg now d pref hash k w \<Longrightarrow> p_userId (principal_of d k w) \<noteq> u"
  by (auto simp: no_active_key_def key_usable_def principal_of_def)

lemma verify_outcome:
  assumes "cache_inv now r" and "verify cfg sha_hex no_faults now key d r = (r', x)"
  shows "r' = r \<or> (\<exists>p. x = Inr (Some p))"
proof (cases "verify_rows cfg now (take 16 key) (sha_hex key) d")
  case Nil
  then show ?thesis using assms(2) by (auto simp: verify_def Let_def no_faults_def bindR_def split: if_splits prod.splits sum.splits option.splits)
next
  case (Cons p ps)
  obtain r'' where "store_principal no_faults now (sha_hex key) p r = (r'', Inr ())"
    by (rule store_keeps_inv [OF assms(1), of "sha_hex key" p])
  then show ?thesis
    using assms(2) Cons by (auto simp: verify_def Let_def no_faults_def bindR_def split: if_splits prod.splits sum.splits option.splits)
qed

lemma verify_keeps_inv:
  assumes "cache_inv now r" and "verify cfg sha_hex no_faults now key d r = (r', x)"
  shows "cache_inv now r'" and "no_entry u now r \<Longrightarrow> no_active_key u d \<Longrightarrow> no_entry u now r'"
proof -
  have "cache_inv now r' \<and> (no_entry u now r \<and> no_active_key u d \<longrightarrow> no_entry u now r')"
  proof (cases "r' = r")
    case True
    then show ?thesis using assms(1) by simp
  next
    case False
    with verify_outcome [OF assms] obtain p where "verify cfg sha_hex no_faults now key d r = (r', Inr (Some p))" using assms(2) by blast
    then show ?thesis
    proof (cases rule: verify_cases)
      case 1
      with False show ?thesis by simp
    next
      case (2 k w)
      have idx: "\<And>v. live now r (user_index (p_userId p)) = Some v \<Longrightarrow> \<exists>ms. v = RMembers ms \<and> set ms \<subseteq> range cache_key"
        by (rule cache_inv_index [OF assms(1)])
      obtain ms where "store_principal no_faults now (sha_hex key) p r =
         (r(cache_key (sha_hex key) \<mapsto> (RPrincipal p, Some (now + 60000)), user_index (p_userId p) \<mapsto> (RMembers ms, Some (now + 65000))), Inr ())"
        by (rule store_shape [where h = "sha_hex key" and p = p and now = now and r = r]) (rule idx, assumption, (rule that; blast))
      then have "live now r' (cache_key h) = (if h = sha_hex key then Some (RPrincipal p) else live now r (cache_key h))" for h
        using 2(7) by (auto simp: live_upd)
      then have "no_entry u now r \<and> no_active_key u d \<longrightarrow> no_entry u now r'"
        using 2(3,5,6) no_active_rows by (auto simp: no_entry_def)
      moreover obtain r'' where "store_principal no_faults now (sha_hex key) p r = (r'', Inr ())" "cache_inv now r''"
        by (rule store_keeps_inv [OF assms(1), of "sha_hex key" p])
      ultimately show ?thesis using 2(7) by simp
    qed
  qed
  then show "cache_inv now r'" "no_entry u now r \<Longrightarrow> no_active_key u d \<Longrightarrow> no_entry u now r'" by blast+
qed

lemma invalidate_keeps_inv:
  assumes "cache_inv now r" and "invalidateUser no_faults now u r = (r', x)"
  shows "cache_inv now r'" and "no_entry u now r'" and "no_entry w now r \<Longrightarrow> no_entry w now r'"
proof -
  obtain r'' where "invalidateUser no_faults now u r = (r'', Inr ())" "cache_inv now r''"
    and gone: "\<And>h v. live now r'' (cache_key h) = Some v \<Longrightarrow> live now r (cache_key h) = Some v \<and> (\<exists>p. v = RPrincipal p \<and> p_userId p \<noteq> u)"
    by (rule invalidate_shape [OF assms(1), of u]) (rule that; blast)
  with assms(2) show "cache_inv now r'" "no_entry u now r'" "no_entry w now r \<Longrightarrow> no_entry w now r'" by (auto simp: no_entry_def)
qed

lemma cache_run_inv:
  "cache_run cfg sha_hex P c c' \<Longrightarrow> cache_inv (fst c) (snd c) \<Longrightarrow>
    cache_inv (fst c') (snd c') \<and> (no_entry u (fst c) (snd c) \<longrightarrow> (\<forall>d. P d \<longrightarrow> no_active_key u d) \<longrightarrow> no_entry u (fst c') (snd c'))"
proof (induction rule: cache_run.induct)
  case (run_later t r t')
  then show ?case using cache_inv_later no_entry_later by fastforce
next
  case (run_verify t r d key r' x)
  then show ?case using verify_keeps_inv [of t r cfg sha_hex key d r' x] by fastforce
next
  case (run_invalidate t r u r' x)
  then show ?case using invalidate_keeps_inv [of t r u r' x] by fastforce
qed simp


lemma verify_keeps_cache_lemma:
  assumes "cache_inv now r" and "well_formed_key key"
    and "live now r (cache_key (sha_hex key)) = None"
    and "verify_rows cfg now (take 16 key) (sha_hex key) d = p # ps"
  shows "\<exists>r'. verify cfg sha_hex no_faults now key d r = (r', Inr (Some p)) \<and> cache_inv now r'
     \<and> (\<forall>t d'. now \<le> t \<and> t < now + 60000 \<longrightarrow> verify cfg sha_hex no_faults t key d' r' = (r', Inr (Some p)))"
proof -
  obtain r' where st: "store_principal no_faults now (sha_hex key) p r = (r', Inr ())" and inv: "cache_inv now r'"
    and e: "r' (cache_key (sha_hex key)) = Some (RPrincipal p, Some (now + 60000))"
  proof -
    have idx: "\<And>v. live now r (user_index (p_userId p)) = Some v \<Longrightarrow>
        \<exists>ms. v = RMembers ms \<and> set ms \<subseteq> range cache_key"
      by (rule cache_inv_index [OF assms(1)])
    obtain ms where "store_principal no_faults now (sha_hex key) p r =
       (r(cache_key (sha_hex key) \<mapsto> (RPrincipal p, Some (now + 60000)),
          user_index (p_userId p) \<mapsto> (RMembers ms, Some (now + 65000))), Inr ())"
      by (rule store_shape [where h = "sha_hex key" and p = p and now = now and r = r])
         (rule idx, assumption, (rule that; blast))
    moreover obtain r'' where "store_principal no_faults now (sha_hex key) p r = (r'', Inr ())" "cache_inv now r''"
      by (rule store_keeps_inv [OF assms(1), of "sha_hex key" p])
    ultimately show thesis using that by simp
  qed
  have "cached_principal now (sha_hex key) r = Inr None"
    using assms(3) by (simp add: cached_principal_def)
  with st assms(2,4) have "verify cfg sha_hex no_faults now key d r = (r', Inr (Some p))"
    by (simp add: verify_def Let_def no_faults_def)
  moreover have "verify cfg sha_hex no_faults t key d' r' = (r', Inr (Some p))"
    if "now \<le> t" "t < now + 60000" for t d'
  proof -
    from e that have "cached_principal t (sha_hex key) r' = Inr (Some p)"
      by (simp add: cached_principal_def live_def)
    with assms(2) show ?thesis by (simp add: verify_def Let_def no_faults_def)
  qed
  ultimately show ?thesis using inv by blast
qed

text \<open>
  Sequential verifications and invalidations keep the cache invariant: every live cache entry
  is a principal that expires within a minute and is listed in the index of its user, so that no
  entry escapes an invalidation. A verification of a usable key succeeds, and returns the same
  principal from the cache as from the database.
\<close>

theorem verify_keeps_cache_inv:
  assumes "cache_inv now r" and "well_formed_key key"
    and "live now r (cache_key (sha_hex key)) = None"
    and "verify_rows cfg now (take 16 key) (sha_hex key) d = p # ps"
  shows "\<exists>r'. verify cfg sha_hex no_faults now key d r = (r', Inr (Some p)) \<and> cache_inv now r'
     \<and> (\<forall>t d'. now \<le> t \<and> t < now + 60000 \<longrightarrow> verify cfg sha_hex no_faults t key d' r' = (r', Inr (Some p)))"
  using assms by (rule verify_keeps_cache_lemma)

text \<open>
  C26. Bounded staleness: under any interleaving of verifications, cache expiry, invalidations and
  database changes, every principal \<open>verify\<close> ever returned for a key had been approved by the
  database, for this key and with this content, at most the time to live of the cache (60 s) plus
  the latency of a verification before.
\<close>

theorem stale_grant_bound:
  assumes "kv_reachable cfg sha_hex latency s" and "0 \<le> latency"
    and "(h, p, t) \<in> set (kv_grants s)"
  shows "\<exists>t0. (h, p, t0) \<in> set (kv_approved s) \<and> t0 \<le> t \<and> t \<le> t0 + latency + 60000"
  using kv_reachable_inv [OF assms(1,2)] assms(3)
  unfolding kv_inv_def approved_within_def by (fastforce simp: add.assoc)

lemma Matches_rplus_cls:
  "Matches (rplus (RCls P)) (MPos pr s k) (MPos pr' [] k') \<longleftrightarrow>
     s \<noteq> [] \<and> list_all P s \<and> k' = k \<and> pr' = Some (last s)"
  by (cases s) (auto simp: rplus_def Star_cls)

lemma Matches_bearer:
  "Matches (RSeq (rlit (S ''Bearer '')) (RSeq (RCap 1 (rplus (RCls P))) REol)) (MPos None h []) q \<longleftrightarrow>
     (\<exists>t. h = S ''Bearer '' @ t \<and> t \<noteq> [] \<and> list_all P t \<and> q = MPos (Some (last t)) [] [(1, t)])"
proof -
  have "Matches (RSeq (RCap 1 (rplus (RCls P))) REol) (MPos pr t []) q \<longleftrightarrow>
      t \<noteq> [] \<and> list_all P t \<and> q = MPos (Some (last t)) [] [(1, t)]" for pr t
  proof -
    have "Matches (RSeq (RCap 1 (rplus (RCls P))) REol) (MPos pr t []) q \<longleftrightarrow>
        (\<exists>pr' k'. Matches (rplus (RCls P)) (MPos pr t []) (MPos pr' [] k')
          \<and> q = with_cap 1 (MPos pr t []) (MPos pr' [] k'))"
      by (auto simp: with_cap_def) (metis mpos.collapse)
    then show ?thesis unfolding Matches_rplus_cls by (auto simp: with_cap_def)
  qed
  then show ?thesis by (auto simp: Matches_rlit simp del: Matches.simps(4))
qed

text \<open>
  \<open>bearerToken\<close> accepts exactly the headers made of \<open>Bearer\<close>, one space and a non-empty token
  without white space, and returns that token; a missing or repeated header gives none.
\<close>

theorem bearer_token_spec:
  "bearerToken header = (case header of None \<Rightarrow> None
     | Some h \<Rightarrow> if startsWith h (S ''Bearer '') \<and> drop 7 h \<noteq> [] \<and> list_all (\<lambda>c. \<not> is_space c) (drop 7 h)
                then Some (drop 7 h) else None)"
proof (cases header)
  case None
  then show ?thesis by (simp add: bearerToken_def)
next
  case (Some h)
  let ?P = "\<lambda>c. \<not> is_space c"
  let ?r = "RSeq (rlit (S ''Bearer '')) (RSeq (RCap 1 (rplus (RCls ?P))) REol)"
  have sw: "startsWith h (S ''Bearer '') \<longleftrightarrow> h = S ''Bearer '' @ drop 7 h"
  proof -
    have "length (S ''Bearer '') = 7" by simp
    then show ?thesis by (simp only: startsWith_slice slice_from_def)
  qed
  have m: "q \<in> set (ends ?r (MPos None h [])) \<longleftrightarrow>
      (\<exists>t. h = S ''Bearer '' @ t \<and> t \<noteq> [] \<and> list_all ?P t \<and> q = MPos (Some (last t)) [] [(1, t)])" for q
    unfolding ends_iff_Matches by (rule Matches_bearer)
  show ?thesis
  proof (cases "ends ?r (MPos None h [])")
    case Nil
    then have "\<not> (startsWith h (S ''Bearer '') \<and> drop 7 h \<noteq> [] \<and> list_all ?P (drop 7 h))"
      using m unfolding sw by (metis empty_iff list.set(1))
    with Some Nil show ?thesis by (simp add: bearerToken_def bearer_re_def re_exec_bol del: ends.simps)
  next
    case (Cons q qs)
    then obtain t where t: "h = S ''Bearer '' @ t" "t \<noteq> []" "list_all ?P t" "q = MPos (Some (last t)) [] [(1, t)]"
      using m [of q] by (auto simp del: ends.simps)
    moreover from t have "drop 7 h = t" by simp
    ultimately show ?thesis
      using Some Cons by (simp add: bearerToken_def bearer_re_def re_exec_bol del: ends.simps)
  qed
qed

section \<open>Concrete inputs\<close>

definition demo_key :: jstr where
  "demo_key = S ''tg_live_0123456789abcdefghijklmn''"

definition demo_db :: db where
  "demo_db = \<lparr>users = [\<lparr>u_id = S ''u1'', u_email = S ''a@b.c'', u_name = S ''A'', u_system_role = S ''USER'',
       u_external_provider = Some provider, u_external_subject_id = Some (S ''s1''), u_is_active = True,
       u_tenant_id = S ''t1'', u_lifecycle_status = ACTIVE, u_user_version = 1\<rparr>],
     api_keys = [\<lparr>k_id = S ''k1'', k_user_id = S ''u1'', k_name = S ''key'', k_key_prefix = take 16 demo_key,
       k_key_hash = demo_key, k_allowed_scopes = [S ''tool:*''], k_rate_limit_per_minute = 60,
       k_is_active = True, k_expires_at = None\<rparr>],
     user_mcp_upstreams = [], user_tool_permissions = [\<lparr>tp_id = S ''p1'', tp_user_id = S ''u1'', tp_tool_pattern = S ''jira.*''\<rparr>],
     lifecycle_states = (\<lambda>_. None), lifecycle_events = (\<lambda>_. None), lifecycle_last_seen = Some 0,
     access_states = (\<lambda>_. None), access_events = (\<lambda>_. None), access_last_seen = Some 0\<rparr>"

definition demo_cfg :: verifier_cfg where
  "demo_cfg = \<lparr>v_enforcement = True, v_clientId = S ''gw''\<rparr>"

definition demo_p :: principal where
  "demo_p = \<lparr>p_userId = S ''u1'', p_apiKeyId = Some (S ''k1''), p_systemRole = S ''USER'',
     p_scopes = [S ''tool:*''], p_toolPatterns = [S ''jira.*'']\<rparr>"

lemma demo_rows: "verify_rows demo_cfg 0 (take 16 demo_key) demo_key demo_db = [demo_p]"
  by (simp add: verify_rows_def demo_db_def key_usable_def principal_of_def demo_cfg_def demo_p_def
      healthy_def access_blocked_def)

lemma demo_key_ok: "well_formed_key demo_key"
  by (simp add: well_formed_key_def demo_key_def js_eval)

theorem verify_keeps_cache_inv_witness:
  "\<exists>r'. verify demo_cfg id no_faults 0 demo_key demo_db (\<lambda>_. None) = (r', Inr (Some demo_p))
     \<and> verify demo_cfg id no_faults 59999 demo_key demo_db r' = (r', Inr (Some demo_p))"
proof -
  obtain r' where "verify demo_cfg id no_faults 0 demo_key demo_db (\<lambda>_. None) = (r', Inr (Some demo_p))"
    and later: "\<And>t d'. 0 \<le> t \<and> t < 60000 \<Longrightarrow> verify demo_cfg id no_faults t demo_key d' r' = (r', Inr (Some demo_p))"
    using verify_keeps_cache_inv [where sha_hex = id and now = 0 and r = "\<lambda>_. None" and d = demo_db and cfg = demo_cfg
      and key = demo_key and p = demo_p and ps = "[]"] demo_rows demo_key_ok
    by (auto simp: live_def)
  moreover have "verify demo_cfg id no_faults 59999 demo_key demo_db r' = (r', Inr (Some demo_p))"
    by (rule later) simp
  ultimately show ?thesis by blast
qed

text \<open>
  The key of \<open>u1\<close> is verified and cached, \<open>u1\<close> loses the key: the cache still answers until the
  invalidation, and no longer afterwards.
\<close>

definition demo_keyless :: db where
  "demo_keyless = demo_db\<lparr>api_keys := map (\<lambda>k. k\<lparr>k_is_active := False\<rparr>) (api_keys demo_db)\<rparr>"


theorem stale_grant_bound_witness:
  "\<exists>s. kv_reachable demo_cfg id 7 s \<and> kv_grants s = [(demo_key, demo_p, 0)]
     \<and> (\<exists>t0. (demo_key, demo_p, t0) \<in> set (kv_approved s) \<and> t0 \<le> 0 \<and> 0 \<le> t0 + 7 + 60000)"
proof -
  let ?s0 = "\<lparr>kv_db = demo_db, kv_redis = (\<lambda>_. None), kv_now = 0, kv_flight = [], kv_approved = [], kv_grants = []\<rparr>"
  let ?s1 = "?s0\<lparr>kv_flight := [(id demo_key, demo_p, 0)], kv_approved := [(id demo_key, demo_p, 0)]\<rparr>"
  let ?s2 = "?s1\<lparr>kv_redis := r_set_ex 0 (cache_key demo_key) (RPrincipal demo_p) cacheTtlSeconds (\<lambda>_. None),
     kv_flight := [], kv_grants := [(demo_key, demo_p, 0)]\<rparr>"
  have "kv_step demo_cfg id 7 ?s0 ?s1"
    using lookup [of demo_key ?s0 id demo_cfg demo_p "[]" 7] demo_rows demo_key_ok
    by (simp add: cached_principal_def live_def)
  moreover have "kv_step demo_cfg id 7 ?s1 ?s2"
    using cache_write [of demo_key demo_p 0 ?s1 demo_cfg id 7] by simp
  ultimately have r: "kv_reachable demo_cfg id 7 ?s2"
    using kv_next [OF kv_next [OF kv_start [of demo_cfg id 7 demo_db 0]]] by blast
  from stale_grant_bound [OF r, of demo_key demo_p 0] have
    "\<exists>t0. (demo_key, demo_p, t0) \<in> set (kv_approved ?s2) \<and> t0 \<le> 0 \<and> 0 \<le> t0 + 7 + 60000" by simp
  with r show ?thesis by (intro exI [of _ ?s2]) simp
qed

end
