(* ===== verification/Inbox.thy ===== *)
theory Inbox
  imports Db
begin

text \<open>
  The contract of a versioned inbox, which the two event consumers share: events carry an id and a
  version, a receipt makes every event count once, and the state of a subject is overwritten by a
  newer event only, and never after a final one. The client's result is that at-least-once
  delivery, in any order and with failed attempts in between, converges to the newest event.
\<close>

definition newest_by :: "('e \<Rightarrow> int) \<Rightarrow> 'e set \<Rightarrow> 'e \<Rightarrow> bool" where
  "newest_by ver C m \<longleftrightarrow> m \<in> C \<and> (\<forall>ev \<in> C. ver ev \<le> ver m)"

text \<open>A set of events of one subject: distinct ids and versions, and nothing newer than a final event.\<close>

definition history_by :: "('e \<Rightarrow> jstr) \<Rightarrow> ('e \<Rightarrow> int) \<Rightarrow> ('e \<Rightarrow> bool) \<Rightarrow> 'e set \<Rightarrow> bool" where
  "history_by eid ver final E \<longleftrightarrow> inj_on eid E \<and> inj_on ver E
     \<and> (\<forall>ev \<in> E. final ev \<longrightarrow> (\<forall>ev' \<in> E. ver ev' \<le> ver ev))"

locale inbox =
  fixes attempt :: "'x \<Rightarrow> 'e \<Rightarrow> 'd \<Rightarrow> 'd"
    and state :: "'d \<Rightarrow> 's option"
    and seen :: "'d \<Rightarrow> jstr \<Rightarrow> bool"
    and mine :: "'e \<Rightarrow> bool"
    and eid :: "'e \<Rightarrow> jstr"
    and ver :: "'e \<Rightarrow> int"
    and final :: "'e \<Rightarrow> bool"
    and mk :: "'e \<Rightarrow> 's"
    and sver :: "'s \<Rightarrow> int"
    and sfinal :: "'s \<Rightarrow> bool"
  assumes attempt: "mine ev \<Longrightarrow> attempt x ev d = d \<or>
      (\<not> seen d (eid ev) \<and> seen (attempt x ev d) (eid ev)
       \<and> (\<forall>i. i \<noteq> eid ev \<longrightarrow> seen (attempt x ev d) i = seen d i)
       \<and> state (attempt x ev d) = (case state d of None \<Rightarrow> Some (mk ev)
           | Some st \<Rightarrow> if sver st < ver ev \<and> \<not> sfinal st then Some (mk ev) else Some st))"
    and mk_sel: "sver (mk ev) = ver ev" "sfinal (mk ev) = final ev"
begin

definition counted :: "'e set \<Rightarrow> 'd \<Rightarrow> 'e set" where
  "counted E d = {ev \<in> E. seen d (eid ev)}"

definition tracks :: "'e set \<Rightarrow> 'd \<Rightarrow> bool" where
  "tracks E d \<longleftrightarrow> (case state d of None \<Rightarrow> counted E d = {}
     | Some st \<Rightarrow> \<exists>m. newest_by ver (counted E d) m \<and> st = mk m)"

lemma counted_attempt:
  assumes "history_by eid ver final E" and "ev \<in> E"
    and "seen d' (eid ev)" and "\<And>i. i \<noteq> eid ev \<Longrightarrow> seen d' i = seen d i"
  shows "counted E d' = insert ev (counted E d)"
proof -
  have "seen d' (eid e) = seen d (eid e)" if "e \<in> E" "e \<noteq> ev" for e
    using assms that by (auto simp: history_by_def inj_on_def)
  then have "e \<in> counted E d' \<longleftrightarrow> e \<in> insert ev (counted E d)" for e
    using assms(2,3) by (cases "e = ev") (auto simp: counted_def)
  then show ?thesis by blast
qed

lemma tracks_attempt:
  assumes h: "history_by eid ver final E" and ev: "ev \<in> E" "mine ev" and t: "tracks E d"
  shows "tracks E (attempt x ev d)"
proof (cases "attempt x ev d = d")
  case True
  with t show ?thesis by simp
next
  case False
  let ?d = "attempt x ev d"
  from attempt [OF ev(2), of x d] False have
    s: "\<not> seen d (eid ev)" "seen ?d (eid ev)" "\<And>i. i \<noteq> eid ev \<Longrightarrow> seen ?d i = seen d i"
    and st': "state ?d = (case state d of None \<Rightarrow> Some (mk ev)
           | Some st \<Rightarrow> if sver st < ver ev \<and> \<not> sfinal st then Some (mk ev) else Some st)" by auto
  have c: "counted E ?d = insert ev (counted E d)" by (rule counted_attempt [OF h ev(1) s(2,3)])
  show ?thesis
  proof (cases "state d")
    case None
    with t have "counted E d = {}" by (simp add: tracks_def)
    with None st' c show ?thesis by (auto simp: tracks_def newest_by_def)
  next
    case (Some st)
    with t obtain m where m: "newest_by ver (counted E d) m" "st = mk m" by (auto simp: tracks_def)
    then have mE: "m \<in> E" "m \<noteq> ev" using s(1) by (auto simp: newest_by_def counted_def)
    with h ev have ne: "ver m \<noteq> ver ev" by (auto simp: history_by_def inj_on_def)
    show ?thesis
    proof (cases "ver m < ver ev")
      case True
      with h ev mE have "\<not> final m" unfolding history_by_def by force
      with True Some m st' have "state ?d = Some (mk ev)" by (simp add: mk_sel)
      moreover have "newest_by ver (insert ev (counted E d)) ev" using True m by (force simp: newest_by_def)
      ultimately show ?thesis using c by (auto simp: tracks_def)
    next
      case False
      with Some m st' have "state ?d = Some (mk m)" by (simp add: mk_sel)
      moreover have "newest_by ver (insert ev (counted E d)) m" using False m by (auto simp: newest_by_def)
      ultimately show ?thesis using c by (auto simp: tracks_def)
    qed
  qed
qed

lemma tracks_fold:
  assumes "history_by eid ver final E" and "\<forall>a \<in> set as. snd a \<in> E \<and> mine (snd a)" and "tracks E d"
  shows "tracks E (fold (\<lambda>a. attempt (fst a) (snd a)) as d)"
  using assms(2,3) by (induction as arbitrary: d) (simp_all add: tracks_attempt [OF assms(1)])

lemma converges:
  assumes "history_by eid ver final E" and "newest_by ver E m"
    and "state d = None" and "\<forall>ev \<in> E. \<not> seen d (eid ev)"
    and "\<forall>a \<in> set as. snd a \<in> E \<and> mine (snd a)"
    and "seen (fold (\<lambda>a. attempt (fst a) (snd a)) as d) (eid m)"
  shows "state (fold (\<lambda>a. attempt (fst a) (snd a)) as d) = Some (mk m)"
proof -
  let ?d = "fold (\<lambda>a. attempt (fst a) (snd a)) as d"
  have m: "m \<in> counted E ?d" using assms(2,6) by (simp add: counted_def newest_by_def)
  have "tracks E d" using assms(3,4) by (simp add: tracks_def counted_def)
  from tracks_fold [OF assms(1,5) this] have "tracks E ?d" .
  with m obtain n where n: "newest_by ver (counted E ?d) n" "state ?d = Some (mk n)"
    by (auto simp: tracks_def split: option.splits)
  from n m have "ver m \<le> ver n" by (auto simp: newest_by_def)
  moreover from n have "n \<in> E" by (auto simp: newest_by_def counted_def)
  ultimately have "n = m"
    using assms(1,2) by (auto simp: history_by_def newest_by_def inj_on_def intro!: order_antisym)
  with n show ?thesis by simp
qed

end

end
