(* ===== verification/Lifecycle.thy ===== *)
theory Lifecycle
  imports KeyVerifier Inbox
begin

text \<open>
  User lifecycle events from the identity provider: their parsing
  (\<open>src/events/userLifecycleEvent.ts\<close>), their transactional application, and the stream consumer
  with its retries and dead letters (\<open>src/events/userLifecycleConsumer.ts\<close>). The checks of the
  validation library on e-mail addresses, URLs and dates are parameters.
\<close>

section \<open>Parsing\<close>

datatype event_type = USER_CREATED | USER_UPDATED | USER_DISABLED | USER_REENABLED | USER_DELETED

record zod_checks =
  z_email :: "jstr \<Rightarrow> bool"
  z_url :: "jstr \<Rightarrow> bool"
  z_datetime :: "jstr \<Rightarrow> bool"

record profile =
  pf_email :: jstr
  pf_name :: jstr

record user_event =
  ue_eventId :: jstr
  ue_eventType :: event_type
  ue_occurredAt :: jstr
  ue_issuer :: jstr
  ue_tenantId :: jstr
  ue_subjectId :: jstr
  ue_userVersion :: int
  ue_profile :: "profile option"

definition ZodError :: js_error where
  "ZodError = (plain_error (S ''invalid input''))\<lparr>err_name := S ''ZodError''\<rparr>"

text \<open>The field parsers: a literal, a non-empty string, a string with a check, a positive safe integer.\<close>

definition z_string :: "(jstr \<Rightarrow> bool) \<Rightarrow> jv \<Rightarrow> jstr option" where
  "z_string P v = (case v of JStr s \<Rightarrow> (if P s then Some s else None) | _ \<Rightarrow> None)"

definition z_nonempty :: "jv \<Rightarrow> jstr option" where
  "z_nonempty v = z_string (\<lambda>s. s \<noteq> []) v"

definition z_positive :: "jv \<Rightarrow> int option" where
  "z_positive v = (case v of JNum (NInt i) \<Rightarrow> (if i \<le> max_safe_integer \<and> 0 < i then Some i else None) | _ \<Rightarrow> None)"

definition z_enum :: "(jstr \<times> 'a) list \<Rightarrow> jv \<Rightarrow> 'a option" where
  "z_enum table v = (case v of JStr s \<Rightarrow> map_of table s | _ \<Rightarrow> None)"

text \<open>A strict object has no other keys than the listed ones.\<close>

definition z_strict :: "jstr list \<Rightarrow> jv \<Rightarrow> (jstr \<times> jv) list option" where
  "z_strict keys v = (case v of JObj kvs \<Rightarrow> (if fst ` set kvs \<subseteq> set keys then Some kvs else None) | _ \<Rightarrow> None)"

definition event_types :: "(jstr \<times> event_type) list" where
  "event_types = [(S ''USER_CREATED'', USER_CREATED), (S ''USER_UPDATED'', USER_UPDATED),
     (S ''USER_DISABLED'', USER_DISABLED), (S ''USER_REENABLED'', USER_REENABLED),
     (S ''USER_DELETED'', USER_DELETED)]"

definition parse_profile :: "zod_checks \<Rightarrow> jv \<Rightarrow> profile option" where
  "parse_profile z v =
     Option.bind (z_strict [S ''email'', S ''name''] v) (\<lambda>o'.
     Option.bind (z_string (z_email z) (jget o' (S ''email''))) (\<lambda>e.
     Option.bind (z_nonempty (jget o' (S ''name''))) (\<lambda>n.
       Some \<lparr>pf_email = e, pf_name = n\<rparr>)))"

text \<open>An optional field: absent, or parsed.\<close>

definition z_optional :: "(jv \<Rightarrow> 'a option) \<Rightarrow> jv \<Rightarrow> 'a option option" where
  "z_optional f v = (if v = JUndef then Some None else map_option Some (f v))"

definition carries_profile :: "event_type \<Rightarrow> bool" where
  "carries_profile t \<longleftrightarrow> t = USER_CREATED \<or> t = USER_UPDATED"

definition parse_fields :: "zod_checks \<Rightarrow> jv \<Rightarrow> user_event option" where
  "parse_fields z input =
     Option.bind (z_strict [S ''schema'', S ''eventId'', S ''eventType'', S ''occurredAt'', S ''issuer'',
        S ''tenantId'', S ''subjectId'', S ''userVersion'', S ''profile''] input) (\<lambda>o'.
     Option.bind (z_string (\<lambda>s. s = S ''iam.user.v1'') (jget o' (S ''schema''))) (\<lambda>_.
     Option.bind (z_nonempty (jget o' (S ''eventId''))) (\<lambda>eid.
     Option.bind (z_enum event_types (jget o' (S ''eventType''))) (\<lambda>ty.
     Option.bind (z_string (z_datetime z) (jget o' (S ''occurredAt''))) (\<lambda>occ.
     Option.bind (z_string (z_url z) (jget o' (S ''issuer''))) (\<lambda>iss.
     Option.bind (z_nonempty (jget o' (S ''tenantId''))) (\<lambda>ten.
     Option.bind (z_nonempty (jget o' (S ''subjectId''))) (\<lambda>sub.
     Option.bind (z_positive (jget o' (S ''userVersion''))) (\<lambda>ver.
     Option.bind (z_optional (parse_profile z) (jget o' (S ''profile''))) (\<lambda>prof.
       Some \<lparr>ue_eventId = eid, ue_eventType = ty, ue_occurredAt = occ, ue_issuer = iss, ue_tenantId = ten,
             ue_subjectId = sub, ue_userVersion = ver, ue_profile = prof\<rparr>))))))))))"

definition parseUserLifecycleEvent :: "zod_checks \<Rightarrow> jv \<Rightarrow> user_event result" where
  "parseUserLifecycleEvent z input = (case parse_fields z input of
     None \<Rightarrow> Inl ZodError
   | Some event \<Rightarrow>
       if carries_profile (ue_eventType event) \<noteq> (ue_profile event \<noteq> None) then Inl ZodError else Inr event)"

section \<open>Application\<close>

record issuer_tenant =
  ex_issuer :: jstr
  ex_tenantId :: jstr

definition status_of :: "event_type \<Rightarrow> lifecycle_status" where
  "status_of t = (case t of USER_DISABLED \<Rightarrow> BLOCKED | USER_DELETED \<Rightarrow> WITHDRAWN | _ \<Rightarrow> ACTIVE)"

definition insert_receipt :: "user_event \<Rightarrow> bool dbm" where
  "insert_receipt ev d =
     (if lifecycle_events d (ue_eventId ev) \<noteq> None then (d, Inr False)
      else (d\<lparr>lifecycle_events := (lifecycle_events d)(ue_eventId ev \<mapsto>
              \<lparr>lr_tenant_id = ue_tenantId ev, lr_subject_id = ue_subjectId ev,
               lr_user_version = ue_userVersion ev\<rparr>)\<rparr>, Inr True))"

definition event_state :: "user_event \<Rightarrow> lifecycle_state" where
  "event_state ev = \<lparr>ls_status = status_of (ue_eventType ev), ls_user_version = ue_userVersion ev,
     ls_last_event_id = ue_eventId ev\<rparr>"

definition upsert_state :: "user_event \<Rightarrow> bool dbm" where
  "upsert_state ev d =
     (let k = (ue_tenantId ev, ue_subjectId ev);
          d' = d\<lparr>lifecycle_states := (lifecycle_states d)(k \<mapsto> event_state ev)\<rparr> in
      case lifecycle_states d k of
        None \<Rightarrow> (d', Inr True)
      | Some st \<Rightarrow> if ls_user_version st < ue_userVersion ev \<and> ls_status st \<noteq> WITHDRAWN
                   then (d', Inr True) else (d, Inr False))"

text \<open>The rows that the two \<open>UPDATE users\<close> statements select.\<close>

definition stale_user :: "user_event \<Rightarrow> user_row \<Rightarrow> bool" where
  "stale_user ev u \<longleftrightarrow> is_identity (ue_tenantId ev) (ue_subjectId ev) u \<and> u_user_version u < ue_userVersion ev"

definition update_profile :: "user_event \<Rightarrow> profile \<Rightarrow> unit dbm" where
  "update_profile ev pf d = store_users
     (map (\<lambda>u. if stale_user ev u
               then u\<lparr>u_email := pf_email pf, u_name := pf_name pf, u_user_version := ue_userVersion ev\<rparr> else u) (users d)) d"

definition update_status :: "user_event \<Rightarrow> jstr list dbm" where
  "update_status ev d =
     (let status = status_of (ue_eventType ev) in
      (d\<lparr>users := map (\<lambda>u. if stale_user ev u
          then u\<lparr>u_lifecycle_status := status, u_is_active := (status = ACTIVE), u_user_version := ue_userVersion ev\<rparr>
          else u) (users d)\<rparr>,
       Inr (map u_id (filter (stale_user ev) (users d)))))"

text \<open>\<open>rows[0]?.id\<close>, and its use as a condition.\<close>

definition first_id :: "jstr list \<Rightarrow> jstr option" where
  "first_id ids = (case ids of [] \<Rightarrow> None | i # _ \<Rightarrow> Some i)"

definition present :: "jstr option \<Rightarrow> bool" where
  "present i \<longleftrightarrow> (case i of None \<Rightarrow> False | Some s \<Rightarrow> s \<noteq> [])"

text \<open>
  The statements on \<open>users\<close> and \<open>api_keys\<close> after the state was written: the profile of an update,
  or the status of any other event but a creation, and the keys of a user no longer active.
\<close>

definition sync_user_rows :: "faults \<Rightarrow> user_event \<Rightarrow> bool \<Rightarrow> jstr option dbm" where
  "sync_user_rows flt ev applied =
     (if applied \<and> ue_eventType ev = USER_UPDATED \<and> ue_profile ev \<noteq> None
      then bindQ (query flt 4 (update_profile ev (the (ue_profile ev)))) (\<lambda>_. retQ None)
      else if applied \<and> ue_eventType ev \<noteq> USER_CREATED
      then bindQ (query flt 5 (update_status ev)) (\<lambda>ids.
             let userId = first_id ids in
             if present userId \<and> status_of (ue_eventType ev) \<noteq> ACTIVE
             then bindQ (query flt 6 (\<lambda>d. (deactivate_keys (\<lambda>u. Some u = userId) d, Inr ()))) (\<lambda>_. retQ userId)
             else retQ userId)
      else retQ None)"

definition lifecycle_tx :: "faults \<Rightarrow> user_event \<Rightarrow> (bool \<times> jstr option) dbm" where
  "lifecycle_tx flt ev =
     bindQ (query flt 1 (insert_receipt ev)) (\<lambda>fresh.
     if \<not> fresh then commit flt 2 (False, None)
     else
     bindQ (query flt 3 (upsert_state ev)) (\<lambda>applied.
     bindQ (sync_user_rows flt ev applied) (\<lambda>userId.
       commit flt 7 (applied, userId))))"

text \<open>
  \<open>applyUserLifecycleEvent\<close>: the transaction, and after it the two invalidations that the caller
  passes in, each of which may fail.
\<close>

type_synonym invalidator = "jstr \<Rightarrow> redis \<Rightarrow> redis \<times> unit result"

definition invalidate_after :: "invalidator \<Rightarrow> invalidator \<Rightarrow> jstr option \<Rightarrow> jstr \<Rightarrow> redis \<Rightarrow> redis \<times> unit result" where
  "invalidate_after invUser invSessions userId subject r =
     bindR (case userId of Some i \<Rightarrow> (if i \<noteq> [] then invUser i r else (r, Inr ())) | None \<Rightarrow> (r, Inr ()))
       (\<lambda>_ r. invSessions subject r)"

definition applyUserLifecycleEvent ::
  "faults \<Rightarrow> invalidator \<Rightarrow> invalidator \<Rightarrow> issuer_tenant \<Rightarrow> user_event \<Rightarrow> db \<times> redis \<Rightarrow> (db \<times> redis) \<times> bool result" where
  "applyUserLifecycleEvent flt invUser invSessions expected ev dr =
     (if ue_issuer ev \<noteq> ex_issuer expected \<or> ue_tenantId ev \<noteq> ex_tenantId expected then (dr, Inr False)
      else case transaction flt (lifecycle_tx flt ev) (fst dr) of
          (d, Inl e) \<Rightarrow> ((d, snd dr), Inl e)
        | (d, Inr (applied, userId)) \<Rightarrow>
            if applied \<and> ue_eventType ev \<noteq> USER_UPDATED \<and> ue_eventType ev \<noteq> USER_CREATED
            then (case invalidate_after invUser invSessions userId (ue_subjectId ev) (snd dr) of
                (r, Inl e) \<Rightarrow> ((d, r), Inl e)
              | (r, Inr _) \<Rightarrow> ((d, r), Inr applied))
            else ((d, snd dr), Inr applied))"

section \<open>The stream consumer\<close>

text \<open>
  The stream group's view of a message: acknowledged ids, and dead letters with their reason. The
  retry counter is a Redis key. \<open>io\<close> is the oracle of the commands around the application.
\<close>

record stream_state =
  ss_db :: db
  ss_redis :: redis
  ss_acked :: "jstr list"
  ss_dlq :: "(jstr \<times> jstr) list"

definition maxAttempts :: int where
  "maxAttempts = 5"

definition retry_key :: "jstr \<Rightarrow> jstr \<Rightarrow> jstr" where
  "retry_key grp i = grp @ S '':retry:'' @ i"

definition SyntaxError :: js_error where
  "SyntaxError = (plain_error (S ''Unexpected token''))\<lparr>err_name := S ''SyntaxError''\<rparr>"

definition dlq_reason :: "js_error \<Rightarrow> jstr" where
  "dlq_reason e = (if err_name e = S ''SyntaxError'' then S ''INVALID_JSON'' else S ''PROCESSING_FAILED'')"

text \<open>The \<open>catch\<close> branch of \<open>process\<close>, which both consumers share.\<close>

definition handle_failure :: "faults \<Rightarrow> int \<Rightarrow> jstr \<Rightarrow> jstr \<Rightarrow> js_error \<Rightarrow> stream_state \<Rightarrow> stream_state \<times> unit result" where
  "handle_failure io now grp i e s =
     (case rcall (io 2) (r_incr now (retry_key grp i)) (ss_redis s) of
        (r, Inl e') \<Rightarrow> (s\<lparr>ss_redis := r\<rparr>, Inl e')
      | (r, Inr attempts) \<Rightarrow>
          (case io 3 of Some e' \<Rightarrow> (s\<lparr>ss_redis := r\<rparr>, Inl e') | None \<Rightarrow>
            let s1 = s\<lparr>ss_redis := r_expire now (retry_key grp i) 86400 r\<rparr> in
            if attempts \<ge> maxAttempts then
              (case io 4 of Some e' \<Rightarrow> (s1, Inl e') | None \<Rightarrow>
                let s2 = s1\<lparr>ss_dlq := ss_dlq s1 @ [(i, dlq_reason e)]\<rparr> in
                (case io 5 of Some e' \<Rightarrow> (s2, Inl e') | None \<Rightarrow> (s2\<lparr>ss_acked := i # ss_acked s2\<rparr>, Inr ())))
            else (s1, Inr ())))"

text \<open>
  \<open>process\<close> with the application of the parsed message as an argument: \<open>try\<close> it, acknowledge and
  drop the retry counter; any error of these steps goes to the \<open>catch\<close> branch. \<open>data\<close> is what
  \<open>JSON.parse\<close> makes of the message text, \<open>None\<close> when it throws.
\<close>

definition process_message ::
  "faults \<Rightarrow> int \<Rightarrow> jstr \<Rightarrow> (jv \<Rightarrow> db \<times> redis \<Rightarrow> (db \<times> redis) \<times> bool result) \<Rightarrow> jstr \<Rightarrow> jv option \<Rightarrow>
   stream_state \<Rightarrow> stream_state \<times> unit result" where
  "process_message io now grp app i data s =
     (case data of None \<Rightarrow> handle_failure io now grp i SyntaxError s
      | Some v \<Rightarrow>
        (case app v (ss_db s, ss_redis s) of
           ((d, r), res) \<Rightarrow>
             let s1 = s\<lparr>ss_db := d, ss_redis := r\<rparr> in
             (case res of
                Inl e \<Rightarrow> handle_failure io now grp i e s1
              | Inr _ \<Rightarrow>
                  (case io 0 of Some e \<Rightarrow> handle_failure io now grp i e s1 | None \<Rightarrow>
                    let s2 = s1\<lparr>ss_acked := i # ss_acked s1\<rparr> in
                    (case io 1 of Some e \<Rightarrow> handle_failure io now grp i e s2 | None \<Rightarrow>
                      (s2\<lparr>ss_redis := r_del [retry_key grp i] (ss_redis s2)\<rparr>, Inr ()))))))"

definition lifecycle_group :: jstr where
  "lifecycle_group = S ''tools-gateway-user-lifecycle-v1''"

definition web_index :: "jstr \<Rightarrow> jstr" where
  "web_index subject = S ''tg:web:user:'' @ subject"

definition lifecycle_invalidateSessions :: "faults \<Rightarrow> int \<Rightarrow> invalidator" where
  "lifecycle_invalidateSessions flt now subject r = drop_indexed flt now (web_index subject) r"

text \<open>The oracles of one delivery: the statements, the two invalidations, and the stream commands.\<close>

record delivery =
  dl_sql :: faults
  dl_user :: faults
  dl_sessions :: faults
  dl_io :: faults

definition lifecycle_apply_json ::
  "zod_checks \<Rightarrow> delivery \<Rightarrow> int \<Rightarrow> issuer_tenant \<Rightarrow> jv \<Rightarrow> db \<times> redis \<Rightarrow> (db \<times> redis) \<times> bool result" where
  "lifecycle_apply_json z dl now expected v dr = (case parseUserLifecycleEvent z v of
     Inl e \<Rightarrow> (dr, Inl e)
   | Inr ev \<Rightarrow> applyUserLifecycleEvent (dl_sql dl) (invalidateUser (dl_user dl) now)
       (lifecycle_invalidateSessions (dl_sessions dl) now) expected ev dr)"

definition lifecycle_process ::
  "zod_checks \<Rightarrow> delivery \<Rightarrow> int \<Rightarrow> issuer_tenant \<Rightarrow> jstr \<Rightarrow> jv option \<Rightarrow> stream_state \<Rightarrow> stream_state \<times> unit result" where
  "lifecycle_process z dl now expected i data s =
     process_message (dl_io dl) now lifecycle_group (lifecycle_apply_json z dl now expected) i data s"

text \<open>
  One round of \<open>loop\<close>: the reclaimed messages, the heartbeat, the new messages. An error ends the
  round and is only logged.
\<close>

definition deliver_all :: "('m \<Rightarrow> stream_state \<Rightarrow> stream_state \<times> unit result) \<Rightarrow> 'm list \<Rightarrow> stream_state \<Rightarrow> stream_state \<times> unit result" where
  "deliver_all f ms s = foldl (\<lambda>sr m. case sr of (s, Inl e) \<Rightarrow> (s, Inl e) | (s, Inr _) \<Rightarrow> f m s) (s, Inr ()) ms"

definition lifecycle_round ::
  "zod_checks \<Rightarrow> int \<Rightarrow> issuer_tenant \<Rightarrow> js_error option \<Rightarrow> (delivery \<times> jstr \<times> jv option) list \<Rightarrow>
   (delivery \<times> jstr \<times> jv option) list \<Rightarrow> stream_state \<Rightarrow> stream_state" where
  "lifecycle_round z now expected heartbeat claimed batch s =
     (let f = (\<lambda>(dl, i, data). lifecycle_process z dl now expected i data) in
      case deliver_all f claimed s of
        (s1, Inl e) \<Rightarrow> s1
      | (s1, Inr _) \<Rightarrow>
          (case heartbeat of Some e \<Rightarrow> s1 | None \<Rightarrow>
            let s2 = s1\<lparr>ss_db := (ss_db s1)\<lparr>lifecycle_last_seen :=
                 map_option (\<lambda>_. now) (lifecycle_last_seen (ss_db s1))\<rparr>\<rparr> in
            fst (deliver_all f batch s2)))"

section \<open>What a delivery does to the tables\<close>

definition newer :: "db \<Rightarrow> user_event \<Rightarrow> bool" where
  "newer d ev \<longleftrightarrow> (case lifecycle_states d (ue_tenantId ev, ue_subjectId ev) of None \<Rightarrow> True
     | Some st \<Rightarrow> ls_user_version st < ue_userVersion ev \<and> ls_status st \<noteq> WITHDRAWN)"

text \<open>The tables that the events of the inbox live in, which the other statements leave alone.\<close>

definition same_inbox :: "db \<Rightarrow> db \<Rightarrow> bool" where
  "same_inbox d d' \<longleftrightarrow> lifecycle_states d' = lifecycle_states d \<and> lifecycle_events d' = lifecycle_events d"

lemma same_inbox_ops:
  "store_users rs d = (d', x) \<Longrightarrow> same_inbox d d'"
  "update_status ev d = (d', y) \<Longrightarrow> same_inbox d d'"
  "same_inbox d (deactivate_keys P d)"
  by (auto simp: same_inbox_def store_users_def update_status_def Let_def deactivate_keys_def split: if_splits)

lemma insert_receipt_Inr: "insert_receipt ev d = (d1, Inr fresh) \<longleftrightarrow>
    (fresh \<longleftrightarrow> lifecycle_events d (ue_eventId ev) = None)
    \<and> d1 = (if fresh then d\<lparr>lifecycle_events := (lifecycle_events d)(ue_eventId ev \<mapsto>
              \<lparr>lr_tenant_id = ue_tenantId ev, lr_subject_id = ue_subjectId ev, lr_user_version = ue_userVersion ev\<rparr>)\<rparr> else d)"
  by (auto simp: insert_receipt_def)

lemma upsert_state_Inr: "upsert_state ev d = (d1, Inr applied) \<longleftrightarrow>
    (applied \<longleftrightarrow> newer d ev)
    \<and> d1 = (if applied then d\<lparr>lifecycle_states := (lifecycle_states d)((ue_tenantId ev, ue_subjectId ev) \<mapsto> event_state ev)\<rparr> else d)"
  by (auto simp: upsert_state_def newer_def Let_def split: option.splits)

lemma newer_receipt [simp]: "newer (d\<lparr>lifecycle_events := f\<rparr>) ev = newer d ev"
  by (simp add: newer_def)

lemma sync_user_rows_inbox: "sync_user_rows flt ev applied d = (d', Inr uid) \<Longrightarrow> same_inbox d d'"
proof -
  assume a: "sync_user_rows flt ev applied d = (d', Inr uid)"
  consider "d' = d" | y where "update_profile ev (the (ue_profile ev)) d = (d', Inr y)"
    | d1 ids where "update_status ev d = (d1, Inr ids)" "d' = d1 \<or> d' = deactivate_keys (\<lambda>u. Some u = first_id ids) d1"
    using a by (fastforce simp: sync_user_rows_def dbm_iff Let_def split: if_splits)
  then show ?thesis
  proof cases
    case 1
    then show ?thesis by (simp add: same_inbox_def)
  next
    case (2 y)
    then show ?thesis unfolding update_profile_def by (rule same_inbox_ops)
  next
    case (3 d1 ids)
    from same_inbox_ops(2) [OF 3(1)] 3(2) show ?thesis
      by (auto simp: same_inbox_def deactivate_keys_def)
  qed
qed

lemma lifecycle_tx_duplicate:
  assumes "lifecycle_events d (ue_eventId ev) \<noteq> None" and "lifecycle_tx flt ev d = (d', Inr x)"
  shows "d' = d \<and> x = (False, None)"
  using assms by (auto simp: lifecycle_tx_def dbm_iff insert_receipt_Inr)

lemma lifecycle_tx_fresh:
  assumes "lifecycle_events d (ue_eventId ev) = None" and "lifecycle_tx flt ev d = (d', Inr (applied, uid))"
  obtains d2 where "applied = newer d ev" and "sync_user_rows flt ev applied d2 = (d', Inr uid)"
    and "d2 = d\<lparr>lifecycle_events := (lifecycle_events d)(ue_eventId ev \<mapsto>
            \<lparr>lr_tenant_id = ue_tenantId ev, lr_subject_id = ue_subjectId ev, lr_user_version = ue_userVersion ev\<rparr>),
          lifecycle_states := (if newer d ev
            then (lifecycle_states d)((ue_tenantId ev, ue_subjectId ev) \<mapsto> event_state ev) else lifecycle_states d)\<rparr>"
proof -
  let ?f = "(lifecycle_events d)(ue_eventId ev \<mapsto>
            \<lparr>lr_tenant_id = ue_tenantId ev, lr_subject_id = ue_subjectId ev, lr_user_version = ue_userVersion ev\<rparr>)"
  from assms obtain d2 where d2: "upsert_state ev (d\<lparr>lifecycle_events := ?f\<rparr>) = (d2, Inr applied)"
    and sync: "sync_user_rows flt ev applied d2 = (d', Inr uid)"
    by (auto simp: lifecycle_tx_def dbm_iff insert_receipt_Inr)
  from d2 have a: "applied = newer d ev" by (simp add: upsert_state_Inr)
  show thesis
  proof (rule that [OF a sync])
    show "d2 = d\<lparr>lifecycle_events := ?f,
          lifecycle_states := (if newer d ev
            then (lifecycle_states d)((ue_tenantId ev, ue_subjectId ev) \<mapsto> event_state ev) else lifecycle_states d)\<rparr>"
      using d2 by (auto simp: upsert_state_Inr)
  qed
qed

lemma lifecycle_tx_inbox:
  assumes "lifecycle_events d (ue_eventId ev) = None" and "lifecycle_tx flt ev d = (d', Inr (applied, uid))"
  shows "applied = newer d ev" and "lifecycle_events d' (ue_eventId ev) \<noteq> None"
    and "i \<noteq> ue_eventId ev \<Longrightarrow> lifecycle_events d' i = lifecycle_events d i"
    and "lifecycle_states d' = (if newer d ev
          then (lifecycle_states d)((ue_tenantId ev, ue_subjectId ev) \<mapsto> event_state ev) else lifecycle_states d)"
proof -
  obtain d2 where a: "applied = newer d ev" and sync: "sync_user_rows flt ev applied d2 = (d', Inr uid)"
    and d2: "d2 = d\<lparr>lifecycle_events := (lifecycle_events d)(ue_eventId ev \<mapsto>
            \<lparr>lr_tenant_id = ue_tenantId ev, lr_subject_id = ue_subjectId ev, lr_user_version = ue_userVersion ev\<rparr>),
          lifecycle_states := (if newer d ev
            then (lifecycle_states d)((ue_tenantId ev, ue_subjectId ev) \<mapsto> event_state ev) else lifecycle_states d)\<rparr>"
    by (rule lifecycle_tx_fresh [OF assms])
  have s: "same_inbox d2 d'" by (rule sync_user_rows_inbox [OF sync])
  show "applied = newer d ev" by (rule a)
  show "lifecycle_events d' (ue_eventId ev) \<noteq> None"
    using s by (simp add: same_inbox_def d2)
  show "lifecycle_events d' i = lifecycle_events d i" if "i \<noteq> ue_eventId ev"
    using s that by (simp add: same_inbox_def d2)
  show "lifecycle_states d' = (if newer d ev
          then (lifecycle_states d)((ue_tenantId ev, ue_subjectId ev) \<mapsto> event_state ev) else lifecycle_states d)"
    using s by (simp add: same_inbox_def d2)
qed

text \<open>The database after \<open>applyUserLifecycleEvent\<close>, whatever the invalidations do.\<close>

lemma apply_db:
  "fst (fst (applyUserLifecycleEvent flt iu is ex ev dr)) =
     (if ue_issuer ev \<noteq> ex_issuer ex \<or> ue_tenantId ev \<noteq> ex_tenantId ex then fst dr
      else fst (transaction flt (lifecycle_tx flt ev) (fst dr)))"
  by (auto simp: applyUserLifecycleEvent_def split: prod.split sum.split)

section \<open>Delivery in any order, repeatedly, with failures\<close>

record attempt =
  at_faults :: faults
  at_user :: invalidator
  at_sessions :: invalidator
  at_event :: user_event

definition run_attempt :: "issuer_tenant \<Rightarrow> attempt \<Rightarrow> db \<times> redis \<Rightarrow> db \<times> redis" where
  "run_attempt ex a dr = fst (applyUserLifecycleEvent (at_faults a) (at_user a) (at_sessions a) ex (at_event a) dr)"

text \<open>The events of one subject that the consumer is responsible for.\<close>

definition history :: "jstr \<Rightarrow> issuer_tenant \<Rightarrow> user_event set \<Rightarrow> bool" where
  "history sub ex E \<longleftrightarrow> history_by ue_eventId ue_userVersion (\<lambda>ev. ue_eventType ev = USER_DELETED) E
     \<and> (\<forall>ev \<in> E. ue_subjectId ev = sub \<and> ue_tenantId ev = ex_tenantId ex \<and> ue_issuer ev = ex_issuer ex)"

definition tx_attempt :: "faults \<Rightarrow> user_event \<Rightarrow> db \<Rightarrow> db" where
  "tx_attempt flt ev d = fst (transaction flt (lifecycle_tx flt ev) d)"

lemma tx_attempt_cases:
  "tx_attempt flt ev d = d \<or> (\<exists>applied uid. lifecycle_tx flt ev d = (tx_attempt flt ev d, Inr (applied, uid))
     \<and> lifecycle_events d (ue_eventId ev) = None)"
proof (cases "transaction flt (lifecycle_tx flt ev) d")
  case (Pair d' res)
  show ?thesis
  proof (cases res)
    case (Inl e)
    with Pair have "d' = d" by (auto dest: transaction_Inl)
    with Pair show ?thesis by (simp add: tx_attempt_def)
  next
    case (Inr x)
    with Pair have tx: "lifecycle_tx flt ev d = (d', Inr (fst x, snd x))" by (simp add: transaction_Inr_iff)
    with lifecycle_tx_duplicate [OF _ tx] Pair show ?thesis by (auto simp: tx_attempt_def)
  qed
qed

interpretation lc: inbox tx_attempt "\<lambda>d. lifecycle_states d (ten, sub)" "\<lambda>d i. lifecycle_events d i \<noteq> None"
  "\<lambda>ev. ue_tenantId ev = ten \<and> ue_subjectId ev = sub" ue_eventId ue_userVersion
  "\<lambda>ev. ue_eventType ev = USER_DELETED" event_state ls_user_version "\<lambda>st. ls_status st = WITHDRAWN"
  for ten sub
proof
  fix ev :: user_event and flt d
  assume mine: "ue_tenantId ev = ten \<and> ue_subjectId ev = sub"
  let ?d = "tx_attempt flt ev d"
  from tx_attempt_cases [of flt ev d] show "?d = d \<or>
      (\<not> lifecycle_events d (ue_eventId ev) \<noteq> None \<and> lifecycle_events ?d (ue_eventId ev) \<noteq> None
       \<and> (\<forall>i. i \<noteq> ue_eventId ev \<longrightarrow> (lifecycle_events ?d i \<noteq> None) = (lifecycle_events d i \<noteq> None))
       \<and> lifecycle_states ?d (ten, sub) = (case lifecycle_states d (ten, sub) of None \<Rightarrow> Some (event_state ev)
           | Some st \<Rightarrow> if ls_user_version st < ue_userVersion ev \<and> \<not> ls_status st = WITHDRAWN
                        then Some (event_state ev) else Some st))"
  proof (elim disjE exE conjE)
    fix applied uid
    assume tx: "lifecycle_tx flt ev d = (?d, Inr (applied, uid))" and fresh: "lifecycle_events d (ue_eventId ev) = None"
    from lifecycle_tx_inbox [OF fresh tx] fresh mine show ?thesis
      by (auto simp: newer_def split: option.split)
  qed simp
qed (simp_all add: event_state_def status_of_def split: event_type.split)

lemma run_attempts_db:
  assumes "\<forall>a \<in> set as. ue_issuer (at_event a) = ex_issuer ex \<and> ue_tenantId (at_event a) = ex_tenantId ex"
  shows "fst (fold (run_attempt ex) as dr) =
    fold (\<lambda>a. tx_attempt (fst a) (snd a)) (map (\<lambda>a. (at_faults a, at_event a)) as) (fst dr)"
  using assms
  by (induction as arbitrary: dr) (simp_all add: run_attempt_def apply_db tx_attempt_def)

lemma sync_user_rows_no_faults:
  "sync_user_rows flt ev applied d = (d', Inr x) \<Longrightarrow> sync_user_rows no_faults ev applied d = (d', Inr x)"
  unfolding sync_user_rows_def
  by (auto simp: dbm_iff Let_def split: if_split_asm simp del: not_None_eq)

lemma lifecycle_tx_no_faults: "lifecycle_tx flt ev d = (d', Inr x) \<Longrightarrow> lifecycle_tx no_faults ev d = (d', Inr x)"
proof -
  assume a: "lifecycle_tx flt ev d = (d', Inr x)"
  then obtain d1 fresh where d1: "insert_receipt ev d = (d1, Inr fresh)"
    and b: "(if \<not> fresh then commit flt 2 (False, None)
      else bindQ (query flt 3 (upsert_state ev)) (\<lambda>applied.
        bindQ (sync_user_rows flt ev applied) (\<lambda>userId. commit flt 7 (applied, userId)))) d1 = (d', Inr x)"
    unfolding lifecycle_tx_def bindQ_Inr_iff [of "query flt 1 _"] query_Inr_iff by blast
  show ?thesis
  proof (cases fresh)
    case True
    with b obtain d2 applied uid where "upsert_state ev d1 = (d2, Inr applied)"
      "sync_user_rows flt ev applied d2 = (d', Inr uid)" "x = (applied, uid)"
      by (auto simp: dbm_iff)
    with True d1 sync_user_rows_no_faults show ?thesis
      by (auto simp: lifecycle_tx_def bindQ_def retQ_def)
  next
    case False
    with d1 b show ?thesis by (auto simp: lifecycle_tx_def bindQ_def retQ_def commit_Inr_iff)
  qed
qed

section \<open>Revocation\<close>

lemma first_selected:
  assumes "unique_identities rs" and "u \<in> set rs" and "is_identity t s u"
    and "\<And>x. P x \<Longrightarrow> is_identity t s x" and "P u"
  shows "first_id (map u_id (filter P rs)) = Some (u_id u)"
proof (cases "filter P rs")
  case Nil
  with assms show ?thesis by (auto simp: filter_empty_conv)
next
  case (Cons v vs)
  then have "v \<in> set (filter P rs)" by simp
  then have "v \<in> set rs" "is_identity t s v" using assms(4) by auto
  with assms have "v = u" by (blast intro: identity_unique)
  with Cons show ?thesis by (simp add: first_id_def)
qed

lemma sync_revokes:
  assumes "unique_identities (users d)" and "u \<in> set (users d)" and "stale_user ev u" and "u_id u \<noteq> []"
    and "ue_eventType ev = USER_DISABLED \<or> ue_eventType ev = USER_DELETED"
    and "sync_user_rows flt ev True d = (d', Inr uid)"
  shows "uid = Some (u_id u) \<and> (\<forall>k \<in> set (api_keys d'). k_user_id k = u_id u \<longrightarrow> \<not> k_is_active k)"
proof -
  let ?i = "first_id (map u_id (filter (stale_user ev) (users d)))"
  have i: "?i = Some (u_id u)" using assms(3)
    by (intro first_selected [OF assms(1,2), of "ue_tenantId ev" "ue_subjectId ev"]) (auto simp: stale_user_def)
  obtain d1 where d1: "update_status ev d = (d1, Inr (map u_id (filter (stale_user ev) (users d))))"
    by (simp add: update_status_def Let_def)
  have st: "status_of (ue_eventType ev) \<noteq> ACTIVE" using assms(5) by (auto simp: status_of_def)
  have "uid = Some (u_id u) \<and> d' = deactivate_keys (\<lambda>x. Some x = Some (u_id u)) d1"
    using assms(4-6) d1 i st by (auto simp: sync_user_rows_def dbm_iff Let_def present_def)
  then show ?thesis by (auto simp: deactivate_keys_def)
qed

definition revoking :: "event_type \<Rightarrow> bool" where
  "revoking t \<longleftrightarrow> t = USER_DISABLED \<or> t = USER_DELETED"

lemma sessions_shape:
  assumes "lifecycle_invalidateSessions flt now sub r = (r', res)"
  shows "r' k = r k \<or> r' k = None"
  using assms unfolding lifecycle_invalidateSessions_def by (rule drop_indexed_sub)

lemma apply_revoking_cases:
  assumes "applyUserLifecycleEvent flt iu is ex ev (d, r) = ((d', r'), Inr True)" and "revoking (ue_eventType ev)"
  obtains uid r1 where "transaction flt (lifecycle_tx flt ev) d = (d', Inr (True, uid))"
    and "case uid of Some i \<Rightarrow> (if i \<noteq> [] then iu i r = (r1, Inr ()) else r1 = r) | None \<Rightarrow> r1 = r"
    and "is (ue_subjectId ev) r1 = (r', Inr ())"
proof -
  have ne: "ue_eventType ev \<noteq> USER_UPDATED" "ue_eventType ev \<noteq> USER_CREATED"
    using assms(2) by (auto simp: revoking_def)
  have "\<exists>uid. transaction flt (lifecycle_tx flt ev) d = (d', Inr (True, uid))
      \<and> invalidate_after iu is uid (ue_subjectId ev) r = (r', Inr ())"
    using assms(1) ne by (auto simp: applyUserLifecycleEvent_def split: if_splits prod.splits sum.splits)
  then obtain uid where t: "transaction flt (lifecycle_tx flt ev) d = (d', Inr (True, uid))"
    and inv: "invalidate_after iu is uid (ue_subjectId ev) r = (r', Inr ())" by blast
  from inv have "\<exists>r1. (case uid of Some i \<Rightarrow> (if i \<noteq> [] then iu i r = (r1, Inr ()) else r1 = r) | None \<Rightarrow> r1 = r)
      \<and> is (ue_subjectId ev) r1 = (r', Inr ())"
    by (auto simp: invalidate_after_def bindR_def split: option.splits if_splits prod.splits sum.splits)
  with t that show thesis by blast
qed

section \<open>Properties\<close>

text \<open>
  C35. At-least-once delivery converges: however often, in whatever order and with whatever failures
  of statements and invalidations the events of a subject are delivered, once the newest of them
  was committed the subject's lifecycle state is that event's, and no older or repeated delivery
  changes it again. (Versions are distinct, and nothing is newer than a deletion.)
\<close>

theorem lifecycle_converges:
  assumes "history sub ex E" and "newest_by ue_userVersion E m"
    and "lifecycle_states d (ex_tenantId ex, sub) = None" and "\<forall>ev \<in> E. lifecycle_events d (ue_eventId ev) = None"
    and "\<forall>a \<in> set as. at_event a \<in> E"
    and "lifecycle_events (fst (fold (run_attempt ex) as (d, r))) (ue_eventId m) \<noteq> None"
  shows "lifecycle_states (fst (fold (run_attempt ex) as (d, r))) (ex_tenantId ex, sub) = Some (event_state m)"
proof -
  have key: "\<forall>ev \<in> E. ue_tenantId ev = ex_tenantId ex \<and> ue_subjectId ev = sub \<and> ue_issuer ev = ex_issuer ex"
    and h: "history_by ue_eventId ue_userVersion (\<lambda>ev. ue_eventType ev = USER_DELETED) E"
    using assms(1) by (auto simp: history_def)
  have run: "fst (fold (run_attempt ex) as (d, r)) =
      fold (\<lambda>a. tx_attempt (fst a) (snd a)) (map (\<lambda>a. (at_faults a, at_event a)) as) d"
    using run_attempts_db [of as ex "(d, r)"] assms(5) key by auto
  show ?thesis
    unfolding run
    by (rule lc.converges [OF h assms(2,3)]) (use assms(4-6) key run in auto)
qed

text \<open>
  Atomicity and idempotence: an attempt either leaves the database as it was or commits the
  whole effect of the event, and after a commit any further delivery of the event, whatever fails
  in it, leaves the database alone.
\<close>

theorem lifecycle_once:
  assumes "applyUserLifecycleEvent flt iu is ex ev (d, r) = ((d', r'), res)" and "d' \<noteq> d"
  shows "lifecycle_events d (ue_eventId ev) = None \<and> lifecycle_events d' (ue_eventId ev) \<noteq> None
    \<and> d' = fst (lifecycle_tx no_faults ev d)
    \<and> fst (fst (applyUserLifecycleEvent flt2 iu2 is2 ex2 ev (d', r2))) = d'"
proof -
  have d': "d' = fst (transaction flt (lifecycle_tx flt ev) d)"
    using assms apply_db [of flt iu "is" ex ev "(d, r)"] by (auto split: if_splits)
  with assms(2) obtain x where x: "transaction flt (lifecycle_tx flt ev) d = (d', Inr x)"
    by (metis prod.collapse sum.exhaust_sel transaction_Inl sumE)
  then have tx: "lifecycle_tx flt ev d = (d', Inr (fst x, snd x))" by (simp add: transaction_Inr_iff)
  have fresh: "lifecycle_events d (ue_eventId ev) = None"
    using lifecycle_tx_duplicate [OF _ tx] assms(2) by blast
  have dn: "lifecycle_events d' (ue_eventId ev) \<noteq> None" by (rule lifecycle_tx_inbox(2) [OF fresh tx])
  have nof: "lifecycle_tx no_faults ev d = (d', Inr (fst x, snd x))"
    using tx by (rule lifecycle_tx_no_faults)
  have "fst (fst (applyUserLifecycleEvent flt2 iu2 is2 ex2 ev (d', r2))) = d'"
  proof (cases "transaction flt2 (lifecycle_tx flt2 ev) d'")
    case (Pair d2 res2)
    have "d2 = d'"
    proof (cases res2)
      case (Inl e)
      with Pair show ?thesis by (auto dest: transaction_Inl)
    next
      case (Inr y)
      with Pair have "lifecycle_tx flt2 ev d' = (d2, Inr y)" by (simp add: transaction_Inr_iff)
      with lifecycle_tx_duplicate [OF dn] show ?thesis by blast
    qed
    with Pair show ?thesis by (simp add: apply_db)
  qed
  with fresh dn nof show ?thesis by simp
qed

definition session_name :: "jstr \<Rightarrow> bool" where
  "session_name k \<longleftrightarrow> startsWith k (S ''tg:web:session:'')"

lemma web_names [simp]: "web_index s \<noteq> cache_key h" "web_index s \<noteq> user_index u" "cache_key h \<noteq> web_index s" "user_index u \<noteq> web_index s"
    "\<not> session_name (cache_key h)" "\<not> session_name (user_index u)" "\<not> session_name (web_index s)"
  by (auto simp: web_index_def cache_key_def user_index_def session_name_def startsWith_def S_def)

text \<open>Both invalidations without faults: the sessions that the index lists are gone, and no entry of the user is left.\<close>

lemma both_invalidations:
  assumes "cache_inv now r" and "invalidateUser no_faults now u r = (r1, Inr ())"
    and "lifecycle_invalidateSessions no_faults now sub r1 = (r', Inr ())"
    and "r_smembers now (web_index sub) r = Inr ms" and "\<forall>k \<in> set ms. session_name k"
  shows "cache_inv now r'" and "no_entry u now r'" and "k \<in> insert (web_index sub) (set ms) \<Longrightarrow> r' k = None"
proof -
  obtain cs where cs: "r_smembers now (user_index u) r = Inr cs" "set cs \<subseteq> range cache_key"
    by (rule index_members [OF assms(1), of u]) (rule that; blast)
  have r1: "r1 = r_del (user_index u # cs) r"
    using drop_indexed_ok [OF cs(1)] assms(2) by (simp add: invalidateUser_def)
  have "r1 (web_index sub) = r (web_index sub)" using cs(2) unfolding r1 r_del_def by auto
  then have "r_smembers now (web_index sub) r1 = Inr ms" using assms(4) by (simp add: r_smembers_def live_def)
  from drop_indexed_ok [OF this] have r': "r' = r_del (web_index sub # ms) r1"
    using assms(3) by (simp add: lifecycle_invalidateSessions_def)
  have kept: "r' (cache_key h) = r1 (cache_key h)" "r' (user_index w) = r1 (user_index w)" for h w
    using assms(5) web_names unfolding r' r_del_def by (auto dest!: bspec)
  from invalidate_keeps_inv [OF assms(1,2)] show "cache_inv now r'" "no_entry u now r'"
    unfolding cache_frame [of r' r1, OF kept] by blast+
  show "k \<in> insert (web_index sub) (set ms) \<Longrightarrow> r' k = None" unfolding r' r_del_def by auto
qed


section \<open>Consumer\<close>

lemma handle_failure_acked:
  assumes "handle_failure io now grp i e s = (s', res)" and "i \<in> set (ss_acked s')" and "i \<notin> set (ss_acked s)"
  shows "\<exists>r n. r_incr now (retry_key grp i) (ss_redis s) = (r, Inr n) \<and> maxAttempts \<le> n
    \<and> ss_dlq s' = ss_dlq s @ [(i, dlq_reason e)] \<and> ss_db s' = ss_db s"
  using assms
  by (auto simp: handle_failure_def rcall_def Let_def split: prod.splits sum.splits option.splits if_splits)

lemma handle_failure_frame:
  assumes "handle_failure io now grp i e s = (s', res)"
  shows "ss_db s' = ss_db s" and "k \<noteq> retry_key grp i \<Longrightarrow> ss_redis s' k = ss_redis s k"
  using assms
  by (auto simp: handle_failure_def rcall_def Let_def r_incr_def r_expire_def
      split: prod.splits sum.splits option.splits if_splits rval.splits)

text \<open>
  No message is lost: a message that a delivery acknowledges was either applied without error,
  or put on the dead letter stream with its id and a reason after at least five attempts.
\<close>

theorem acked_only_if_handled:
  assumes "process_message io now grp app i data s = (s', res)"
    and "i \<in> set (ss_acked s')" and "i \<notin> set (ss_acked s)"
  shows "(\<exists>v dr b. data = Some v \<and> app v (ss_db s, ss_redis s) = (dr, Inr b) \<and> ss_db s' = fst dr)
    \<or> (\<exists>e r n r'. ss_dlq s' = ss_dlq s @ [(i, dlq_reason e)]
         \<and> r_incr now (retry_key grp i) r = (r', Inr n) \<and> 5 \<le> n)"
proof (cases data)
  case None
  then have "handle_failure io now grp i SyntaxError s = (s', res)"
    using assms(1) by (simp add: process_message_def)
  from handle_failure_acked [OF this assms(2,3)] show ?thesis by (auto simp: maxAttempts_def)
next
  case (Some v)
  obtain d r x where a: "app v (ss_db s, ss_redis s) = ((d, r), x)" by (metis prod.collapse)
  let ?s1 = "s\<lparr>ss_db := d, ss_redis := r\<rparr>"
  show ?thesis
  proof (cases x)
    case (Inl e)
    with a Some assms(1) have "handle_failure io now grp i e ?s1 = (s', res)"
      by (simp add: process_message_def)
    from handle_failure_acked [OF this assms(2)] assms(3) show ?thesis by (auto simp: maxAttempts_def)
  next
    case (Inr b)
    have "ss_db s' = d"
      using a Some Inr assms(1)
      by (auto simp: process_message_def Let_def split: option.splits dest: handle_failure_frame(1))
    with a Some Inr show ?thesis by auto
  qed
qed

text \<open>
  A message that always fails is delivered five times: it stays pending, with the database
  untouched, through four attempts, and the fifth puts it on the dead letter stream and
  acknowledges it, once.
\<close>

definition redeliver :: "int \<Rightarrow> jstr \<Rightarrow> (jv \<Rightarrow> db \<times> redis \<Rightarrow> (db \<times> redis) \<times> bool result) \<Rightarrow> jstr \<Rightarrow> jv option \<Rightarrow> nat \<Rightarrow> stream_state \<Rightarrow> stream_state" where
  "redeliver now grp app i data n s = ((\<lambda>s. fst (process_message no_faults now grp app i data s)) ^^ n) s"

definition failing_error :: "(jv \<Rightarrow> db \<times> redis \<Rightarrow> (db \<times> redis) \<times> bool result) \<Rightarrow> jv option \<Rightarrow> js_error \<Rightarrow> bool" where
  "failing_error app data e \<longleftrightarrow>
     (case data of None \<Rightarrow> e = SyntaxError | Some v \<Rightarrow> \<forall>dr. app v dr = (dr, Inl e))"

lemma failing_process: "failing_error app data e \<Longrightarrow>
    process_message io now grp app i data s = handle_failure io now grp i e s"
  by (cases data) (auto simp: failing_error_def process_message_def)

lemma incr_counter:
  assumes "live now r0 k = (if n = 0 then None else Some (RCount n))"
  obtains r where "r_incr now k r0 = (r, Inr (n + 1))" and "live now r k = Some (RCount (n + 1))"
proof (cases "n = 0")
  case True
  with assms that show thesis by (simp add: r_incr_def live_upd_forever)
next
  case False
  with assms obtain e where e: "r0 k = Some (RCount n, e)" "case e of None \<Rightarrow> True | Some x \<Rightarrow> now < x"
    by (auto simp: live_Some)
  then have "live now r0 k = Some (RCount n)" by (auto simp: live_Some)
  with e that show thesis
    by (cases e) (simp_all add: r_incr_def expiry_def live_upd live_upd_forever)
qed

lemma failing_once:
  assumes "failing_error app data e"
    and "live now (ss_redis s) (retry_key grp i) = (if n = 0 then None else Some (RCount n))" and "0 \<le> n"
  shows "\<exists>s'. process_message no_faults now grp app i data s = (s', Inr ()) \<and> ss_db s' = ss_db s
    \<and> live now (ss_redis s') (retry_key grp i) = Some (RCount (n + 1))
    \<and> ss_dlq s' = (if 5 \<le> n + 1 then ss_dlq s @ [(i, dlq_reason e)] else ss_dlq s)
    \<and> ss_acked s' = (if 5 \<le> n + 1 then i # ss_acked s else ss_acked s)"
proof -
  obtain r where r: "r_incr now (retry_key grp i) (ss_redis s) = (r, Inr (n + 1))"
    and l: "live now r (retry_key grp i) = Some (RCount (n + 1))"
    using assms(2) by (rule incr_counter)
  have "live now (r_expire now (retry_key grp i) 86400 r) (retry_key grp i) = Some (RCount (n + 1))"
    using l by (simp add: r_expire_def live_upd)
  with r show ?thesis
    by (simp add: failing_process [OF assms(1)] handle_failure_def no_faults_def Let_def maxAttempts_def)
qed

theorem poison_message_five_attempts:
  assumes "failing_error app data e" and "live now (ss_redis s) (retry_key grp i) = None" and "n \<le> 5"
  shows "ss_db (redeliver now grp app i data n s) = ss_db s
    \<and> ss_dlq (redeliver now grp app i data n s) = (if n = 5 then ss_dlq s @ [(i, dlq_reason e)] else ss_dlq s)
    \<and> ss_acked (redeliver now grp app i data n s) = (if n = 5 then i # ss_acked s else ss_acked s)"
proof -
  have "n \<le> 5 \<longrightarrow> ss_db (redeliver now grp app i data n s) = ss_db s
    \<and> live now (ss_redis (redeliver now grp app i data n s)) (retry_key grp i) = (if int n = 0 then None else Some (RCount (int n)))
    \<and> ss_dlq (redeliver now grp app i data n s) = (if n = 5 then ss_dlq s @ [(i, dlq_reason e)] else ss_dlq s)
    \<and> ss_acked (redeliver now grp app i data n s) = (if n = 5 then i # ss_acked s else ss_acked s)"
  proof (induction n)
    case 0
    then show ?case using assms(2) by (simp add: redeliver_def)
  next
    case (Suc n)
    let ?s = "redeliver now grp app i data n s"
    have step: "redeliver now grp app i data (Suc n) s = fst (process_message no_faults now grp app i data ?s)"
      by (simp add: redeliver_def)
    show ?case
    proof
      assume n: "Suc n \<le> 5"
      with Suc have IH: "ss_db ?s = ss_db s"
        "live now (ss_redis ?s) (retry_key grp i) = (if int n = 0 then None else Some (RCount (int n)))"
        "ss_dlq ?s = ss_dlq s" "ss_acked ?s = ss_acked s" by auto
      from failing_once [OF assms(1) IH(2)] obtain s' where
        "process_message no_faults now grp app i data ?s = (s', Inr ())" "ss_db s' = ss_db ?s"
        "live now (ss_redis s') (retry_key grp i) = Some (RCount (int n + 1))"
        "ss_dlq s' = (if 5 \<le> int n + 1 then ss_dlq ?s @ [(i, dlq_reason e)] else ss_dlq ?s)"
        "ss_acked s' = (if 5 \<le> int n + 1 then i # ss_acked ?s else ss_acked ?s)" by auto
      moreover have "5 \<le> int n + 1 \<longleftrightarrow> Suc n = 5" using n by linarith
      ultimately show "ss_db (redeliver now grp app i data (Suc n) s) = ss_db s
        \<and> live now (ss_redis (redeliver now grp app i data (Suc n) s)) (retry_key grp i)
            = (if int (Suc n) = 0 then None else Some (RCount (int (Suc n))))
        \<and> ss_dlq (redeliver now grp app i data (Suc n) s) = (if Suc n = 5 then ss_dlq s @ [(i, dlq_reason e)] else ss_dlq s)
        \<and> ss_acked (redeliver now grp app i data (Suc n) s) = (if Suc n = 5 then i # ss_acked s else ss_acked s)"
        using IH by (auto simp: step add.commute)
    qed
  qed
  with assms(3) show ?thesis by simp
qed

text \<open>
  An invalidation that fails is never retried: when a delivery fails after its transaction was
  committed, the next delivery finds the receipt, is acknowledged without a dead letter, and
  leaves every Redis entry but the retry counter as the failed attempt left it, so the user's cached
  principals and web sessions stay.
\<close>

definition reliable :: delivery where
  "reliable = \<lparr>dl_sql = no_faults, dl_user = no_faults, dl_sessions = no_faults, dl_io = no_faults\<rparr>"

theorem failed_invalidation_not_retried:
  assumes "parseUserLifecycleEvent z v = Inr ev"
    and "ue_issuer ev = ex_issuer ex" and "ue_tenantId ev = ex_tenantId ex"
    and "dl_io dl = no_faults"
    and "applyUserLifecycleEvent (dl_sql dl) (invalidateUser (dl_user dl) now)
           (lifecycle_invalidateSessions (dl_sessions dl) now) ex ev (ss_db s, ss_redis s) = ((d, r), Inl e)"
    and "d \<noteq> ss_db s"
    and "lifecycle_process z dl now ex i (Some v) s = (s1, res1)"
    and "lifecycle_process z reliable t ex i (Some v) s1 = (s2, res2)"
  shows "i \<in> set (ss_acked s2) \<and> ss_dlq s2 = ss_dlq s1 \<and> ss_db s2 = d \<and> res2 = Inr ()
    \<and> (\<forall>k. k \<noteq> retry_key lifecycle_group i \<longrightarrow> ss_redis s2 k = r k)"
proof -
  have "lifecycle_apply_json z dl now ex v (ss_db s, ss_redis s) = ((d, r), Inl e)"
    using assms(1,5) by (simp add: lifecycle_apply_json_def)
  then have h: "handle_failure (dl_io dl) now lifecycle_group i e (s\<lparr>ss_db := d, ss_redis := r\<rparr>) = (s1, res1)"
    using assms(7) by (simp add: lifecycle_process_def process_message_def)
  have s1: "ss_db s1 = d" "k \<noteq> retry_key lifecycle_group i \<Longrightarrow> ss_redis s1 k = r k" for k
    using handle_failure_frame [OF h] by auto
  have tx: "fst (transaction (dl_sql dl) (lifecycle_tx (dl_sql dl) ev) (ss_db s)) = d"
    using apply_db [of "dl_sql dl" "invalidateUser (dl_user dl) now"
        "lifecycle_invalidateSessions (dl_sessions dl) now" ex ev "(ss_db s, ss_redis s)"] assms(2,3,5) by simp
  have dn: "lifecycle_events d (ue_eventId ev) \<noteq> None"
  proof (cases "transaction (dl_sql dl) (lifecycle_tx (dl_sql dl) ev) (ss_db s)")
    case (Pair d' x)
    with tx have "d' = d" by simp
    show ?thesis
    proof (cases x)
      case (Inl e')
      with Pair assms(6) \<open>d' = d\<close> show ?thesis by (auto dest: transaction_Inl)
    next
      case (Inr y)
      with Pair have b: "lifecycle_tx (dl_sql dl) ev (ss_db s) = (d, Inr (fst y, snd y))"
        using \<open>d' = d\<close> by (simp add: transaction_Inr_iff)
      with lifecycle_tx_duplicate assms(6) have "lifecycle_events (ss_db s) (ue_eventId ev) = None" by blast
      from lifecycle_tx_inbox(2) [OF this b] show ?thesis .
    qed
  qed
  then obtain rc where "lifecycle_events d (ue_eventId ev) = Some rc" by blast
  then have "lifecycle_tx no_faults ev d = (d, Inr (False, None))"
    by (simp add: lifecycle_tx_def insert_receipt_def bindQ_def retQ_def)
  then have "transaction no_faults (lifecycle_tx no_faults ev) d = (d, Inr (False, None))"
    by (simp add: transaction_Inr_iff no_faults_def)
  then have "lifecycle_apply_json z reliable t ex v (d, ss_redis s1) = ((d, ss_redis s1), Inr False)"
    using assms(1-3) by (simp add: lifecycle_apply_json_def applyUserLifecycleEvent_def reliable_def)
  then have "s2 = s1\<lparr>ss_acked := i # ss_acked s1, ss_redis := r_del [retry_key lifecycle_group i] (ss_redis s1)\<rparr>
      \<and> res2 = Inr ()"
    using assms(8) s1(1) by (auto simp: lifecycle_process_def process_message_def reliable_def no_faults_def)
  with s1 show ?thesis by (auto simp: r_del_def)
qed

section \<open>Concrete events\<close>

definition demo_ex :: issuer_tenant where
  "demo_ex = \<lparr>ex_issuer = S ''iss'', ex_tenantId = S ''t1''\<rparr>"

definition demo_event :: "string \<Rightarrow> event_type \<Rightarrow> int \<Rightarrow> user_event" where
  "demo_event i ty n = \<lparr>ue_eventId = S i, ue_eventType = ty, ue_occurredAt = [], ue_issuer = S ''iss'',
     ue_tenantId = S ''t1'', ue_subjectId = S ''s1'', ue_userVersion = n, ue_profile = None\<rparr>"

definition demo_attempt :: "user_event \<Rightarrow> attempt" where
  "demo_attempt ev = \<lparr>at_faults = no_faults, at_user = invalidateUser no_faults 0,
     at_sessions = lifecycle_invalidateSessions no_faults 0, at_event = ev\<rparr>"

definition demo_json :: jv where
  "demo_json = JObj [(S ''schema'', JStr (S ''iam.user.v1'')), (S ''eventId'', JStr (S ''e1'')),
     (S ''eventType'', JStr (S ''USER_DISABLED'')), (S ''occurredAt'', JStr []), (S ''issuer'', JStr (S ''iss'')),
     (S ''tenantId'', JStr (S ''t1'')), (S ''subjectId'', JStr (S ''s1'')), (S ''userVersion'', JNum (NInt 2))]"

definition demo_z :: zod_checks where
  "demo_z = \<lparr>z_email = (\<lambda>_. True), z_url = (\<lambda>_. True), z_datetime = (\<lambda>_. True)\<rparr>"

definition demo_stream :: stream_state where
  "demo_stream = \<lparr>ss_db = demo_db, ss_redis = (\<lambda>_. None), ss_acked = [], ss_dlq = []\<rparr>"

theorem lifecycle_converges_witness:
  "lifecycle_states (fst (fold (run_attempt demo_ex)
       (map demo_attempt [demo_event ''e2'' USER_DELETED 3, demo_event ''e1'' USER_DISABLED 2, demo_event ''e2'' USER_DELETED 3])
       (demo_db, (\<lambda>_. None)))) (S ''t1'', S ''s1'')
     = Some (event_state (demo_event ''e2'' USER_DELETED 3))"
proof -
  let ?a = "demo_event ''e1'' USER_DISABLED 2" and ?b = "demo_event ''e2'' USER_DELETED 3"
  have "history (S ''s1'') demo_ex {?a, ?b}" by (simp add: history_def history_by_def demo_event_def demo_ex_def)
  moreover have "newest_by ue_userVersion {?a, ?b} ?b" by (simp add: newest_by_def demo_event_def)
  moreover have "lifecycle_states demo_db (ex_tenantId demo_ex, S ''s1'') = None" by (simp add: demo_db_def)
  moreover have "\<forall>ev \<in> {?a, ?b}. lifecycle_events demo_db (ue_eventId ev) = None" by (simp add: demo_db_def)
  moreover have "\<forall>a \<in> set (map demo_attempt [?b, ?a, ?b]). at_event a \<in> {?a, ?b}" by (simp add: demo_attempt_def)
  moreover have "lifecycle_events (fst (fold (run_attempt demo_ex) (map demo_attempt [?b, ?a, ?b]) (demo_db, (\<lambda>_. None))))
      (ue_eventId ?b) \<noteq> None"
    by code_simp
  ultimately have "lifecycle_states (fst (fold (run_attempt demo_ex) (map demo_attempt [?b, ?a, ?b]) (demo_db, (\<lambda>_. None))))
      (ex_tenantId demo_ex, S ''s1'') = Some (event_state ?b)"
    by (rule lifecycle_converges)
  then show ?thesis by (simp add: demo_ex_def)
qed

definition demo_disabled :: db where
  "demo_disabled = fst (lifecycle_tx no_faults (demo_event ''e1'' USER_DISABLED 2) demo_db)"

lemma demo_tx: "lifecycle_tx no_faults (demo_event ''e1'' USER_DISABLED 2) demo_db = (demo_disabled, Inr (True, Some (S ''u1'')))"
proof -
  have "snd (lifecycle_tx no_faults (demo_event ''e1'' USER_DISABLED 2) demo_db) = Inr (True, Some (S ''u1''))"
    by code_simp
  then show ?thesis by (metis demo_disabled_def prod.collapse)
qed

lemma demo_receipt: "lifecycle_events demo_disabled (S ''e1'') \<noteq> None \<and> lifecycle_events demo_db (S ''e1'') = None"
  by code_simp

lemma demo_disabled_ne: "demo_disabled \<noteq> demo_db"
  using demo_receipt by auto

theorem lifecycle_once_witness:
  "demo_disabled \<noteq> demo_db
     \<and> fst (fst (applyUserLifecycleEvent no_faults (\<lambda>_ r. (r, Inr ())) (\<lambda>_ r. (r, Inr ())) demo_ex
          (demo_event ''e1'' USER_DISABLED 2) (demo_disabled, (\<lambda>_. None)))) = demo_disabled"
proof -
  have "transaction no_faults (lifecycle_tx no_faults (demo_event ''e1'' USER_DISABLED 2)) demo_db
      = (demo_disabled, Inr (True, Some (S ''u1'')))"
    by (simp add: transaction_Inr_iff demo_tx) (simp add: no_faults_def)
  then have "applyUserLifecycleEvent no_faults (\<lambda>_ r. (r, Inr ())) (\<lambda>_ r. (r, Inr ())) demo_ex
      (demo_event ''e1'' USER_DISABLED 2) (demo_db, (\<lambda>_. None)) = ((demo_disabled, (\<lambda>_. None)), Inr True)"
    by (simp add: applyUserLifecycleEvent_def invalidate_after_def) (simp add: demo_ex_def demo_event_def)
  from lifecycle_once [OF this demo_disabled_ne] demo_disabled_ne show ?thesis by blast
qed

text \<open>A second user, without keys.\<close>

definition two_users :: db where
  "two_users = demo_db\<lparr>users := users demo_db @ [\<lparr>u_id = S ''u2'', u_email = S ''d@b.c'', u_name = S ''B'',
       u_system_role = S ''USER'', u_external_provider = Some provider, u_external_subject_id = Some (S ''s2''),
       u_is_active = True, u_tenant_id = S ''t1'', u_lifecycle_status = ACTIVE, u_user_version = 1\<rparr>]\<rparr>"

text \<open>
  The user \<open>u1\<close> of the demonstration has a key that was verified and is cached, and a web session; the
  disabling event ends both.
\<close>

definition demo_session :: jstr where
  "demo_session = S ''tg:web:session:a1''"

definition demo_signed_in :: redis where
  "demo_signed_in = (fst (verify demo_cfg id no_faults 0 demo_key demo_db (\<lambda>_. None)))
     (web_index (S ''s1'') \<mapsto> (RMembers [demo_session], Some 9000), demo_session \<mapsto> (RText (S ''x''), Some 9000))"

lemma demo_signed_in_ok: "cache_inv 0 demo_signed_in"
  "verify demo_cfg id no_faults 5 demo_key demo_disabled demo_signed_in = (demo_signed_in, Inr (Some demo_p))"
  "r_smembers 0 (web_index (S ''s1'')) demo_signed_in = Inr [demo_session]" "live 0 demo_signed_in demo_session = Some (RText (S ''x''))"
proof -
  obtain r where r: "verify demo_cfg id no_faults 0 demo_key demo_db (\<lambda>_. None) = (r, Inr (Some demo_p))" "cache_inv 0 r"
    and later: "\<forall>t d'. 0 \<le> t \<and> t < 60000 \<longrightarrow> verify demo_cfg id no_faults t demo_key d' r = (r, Inr (Some demo_p))"
    using verify_keeps_cache_lemma [OF cache_inv_empty demo_key_ok, where sha_hex = id and now = 0 and d = demo_db and cfg = demo_cfg
      and p = demo_p and ps = "[]"] demo_rows by (auto simp: live_def)
  have s: "session_name demo_session" by (simp add: session_name_def demo_session_def startsWith_def S_def)
  then have ne: "demo_session \<noteq> cache_key h" "demo_session \<noteq> user_index u" "demo_session \<noteq> web_index w" for h u w
    using web_names by metis+
  have d: "demo_signed_in = r(web_index (S ''s1'') \<mapsto> (RMembers [demo_session], Some 9000), demo_session \<mapsto> (RText (S ''x''), Some 9000))"
    by (simp add: demo_signed_in_def r)
  have kept: "demo_signed_in (cache_key h) = r (cache_key h)" "demo_signed_in (user_index u) = r (user_index u)" for h u
    using ne [symmetric] by (simp_all add: d)
  show "cache_inv 0 demo_signed_in" using r(2) cache_frame(1) [of demo_signed_in r, OF kept] by simp
  show "r_smembers 0 (web_index (S ''s1'')) demo_signed_in = Inr [demo_session]" "live 0 demo_signed_in demo_session = Some (RText (S ''x''))"
    using ne(3) [symmetric] by (simp_all add: d r_smembers_def live_def)
  have "verify demo_cfg id no_faults 5 demo_key demo_disabled r = (r, Inr (Some demo_p))" using later by simp
  then have "live 5 r (cache_key demo_key) = Some (RPrincipal demo_p)"
  proof (cases rule: verify_cases)
    case (2 k u)
    have "cache_inv 5 r" using cache_inv_later [OF r(2), of 5] by simp
    then obtain r'' where "store_principal no_faults 5 (id demo_key) demo_p r = (r'', Inr ())"
      "live 5 r'' (cache_key (id demo_key)) = Some (RPrincipal demo_p)" by (rule store_keeps_inv)
    with 2(7) show ?thesis by simp
  qed simp
  then have "cached_principal 5 (id demo_key) demo_signed_in = Inr (Some demo_p)"
    using kept(1) by (simp add: cached_principal_def live_def)
  then show "verify demo_cfg id no_faults 5 demo_key demo_disabled demo_signed_in = (demo_signed_in, Inr (Some demo_p))"
    using demo_key_ok by (simp add: verify_def Let_def no_faults_def)
qed


theorem acked_only_if_handled_witness:
  "process_message no_faults 0 lifecycle_group (\<lambda>_ dr. (dr, Inr True)) (S ''m'') (Some JNull) demo_stream
     = (demo_stream\<lparr>ss_acked := [S ''m''], ss_redis := r_del [retry_key lifecycle_group (S ''m'')] (\<lambda>_. None)\<rparr>, Inr ())
   \<and> (\<exists>v dr b. Some JNull = Some v \<and> ((ss_db demo_stream, (\<lambda>_. None) :: redis), Inr True) = (dr, Inr b) \<and> demo_db = fst dr)"
proof -
  have p: "process_message no_faults 0 lifecycle_group (\<lambda>_ dr. (dr, Inr True)) (S ''m'') (Some JNull) demo_stream
     = (demo_stream\<lparr>ss_acked := [S ''m''], ss_redis := r_del [retry_key lifecycle_group (S ''m'')] (\<lambda>_. None)\<rparr>, Inr ())"
    by (simp add: process_message_def no_faults_def demo_stream_def)
  from acked_only_if_handled [OF p] p show ?thesis by (simp add: demo_stream_def)
qed

theorem poison_message_five_attempts_witness:
  "ss_dlq (redeliver 0 lifecycle_group (\<lambda>_ dr. (dr, Inr True)) (S ''m'') None 5 demo_stream) = [(S ''m'', S ''INVALID_JSON'')]
   \<and> ss_acked (redeliver 0 lifecycle_group (\<lambda>_ dr. (dr, Inr True)) (S ''m'') None 4 demo_stream) = []"
proof -
  have f: "failing_error (\<lambda>_ dr. (dr, Inr True)) None SyntaxError" by (simp add: failing_error_def)
  have l: "live 0 (ss_redis demo_stream) (retry_key lifecycle_group (S ''m'')) = None"
    by (simp add: demo_stream_def live_def)
  from poison_message_five_attempts [OF f l, of 5] poison_message_five_attempts [OF f l, of 4]
  show ?thesis by (simp add: demo_stream_def dlq_reason_def SyntaxError_def)
qed

lemma demo_parse: "parseUserLifecycleEvent demo_z demo_json = Inr (demo_event ''e1'' USER_DISABLED 2)"
  by code_simp

theorem failed_invalidation_not_retried_witness:
  "\<exists>s1 s2. lifecycle_process demo_z (reliable\<lparr>dl_user := (\<lambda>_. Some wrong_type)\<rparr>) 0 demo_ex (S ''m'') (Some demo_json) demo_stream = (s1, Inr ())
     \<and> lifecycle_process demo_z reliable 9 demo_ex (S ''m'') (Some demo_json) s1 = (s2, Inr ())
     \<and> S ''m'' \<in> set (ss_acked s2)"
proof -
  let ?dl = "reliable\<lparr>dl_user := (\<lambda>_. Some wrong_type)\<rparr>"
  let ?ev = "demo_event ''e1'' USER_DISABLED 2"
  have ap: "applyUserLifecycleEvent (dl_sql ?dl) (invalidateUser (dl_user ?dl) 0)
        (lifecycle_invalidateSessions (dl_sessions ?dl) 0) demo_ex ?ev (ss_db demo_stream, ss_redis demo_stream)
      = ((demo_disabled, (\<lambda>_. None)), Inl wrong_type)"
  proof -
    have "transaction no_faults (lifecycle_tx no_faults ?ev) demo_db = (demo_disabled, Inr (True, Some (S ''u1'')))"
      by (simp add: transaction_Inr_iff demo_tx) (simp add: no_faults_def)
    then show ?thesis
      by (simp add: applyUserLifecycleEvent_def invalidate_after_def invalidateUser_def drop_indexed_def reliable_def
          demo_stream_def) (simp add: demo_ex_def demo_event_def)
  qed
  have keys: "ue_issuer ?ev = ex_issuer demo_ex" "ue_tenantId ?ev = ex_tenantId demo_ex" "dl_io ?dl = no_faults"
    by (simp_all add: demo_event_def demo_ex_def reliable_def)
  have ne: "demo_disabled \<noteq> ss_db demo_stream" using demo_disabled_ne by (simp add: demo_stream_def)
  obtain s1 res1 where p1: "lifecycle_process demo_z ?dl 0 demo_ex (S ''m'') (Some demo_json) demo_stream = (s1, res1)"
    by force
  obtain s2 res2 where p2: "lifecycle_process demo_z reliable 9 demo_ex (S ''m'') (Some demo_json) s1 = (s2, res2)"
    by force
  have "lifecycle_process demo_z ?dl 0 demo_ex (S ''m'') (Some demo_json) demo_stream =
      handle_failure no_faults 0 lifecycle_group (S ''m'') wrong_type (demo_stream\<lparr>ss_db := demo_disabled\<rparr>)"
    using ap demo_parse
    by (simp add: lifecycle_process_def process_message_def lifecycle_apply_json_def reliable_def demo_stream_def)
  then have "res1 = Inr ()"
    using p1 by (auto simp: handle_failure_def no_faults_def r_incr_def live_def demo_stream_def Let_def maxAttempts_def)
  with failed_invalidation_not_retried [OF demo_parse keys ap ne p1 p2] p1 p2 show ?thesis by blast
qed

end
