(* ===== verification/ServiceAccess.thy ===== *)
theory ServiceAccess
  imports Lifecycle
begin

text \<open>
  Per-service access events (\<open>src/events/userServiceAccessEvent.ts\<close>,
  \<open>src/events/userServiceAccessConsumer.ts\<close>): the same inbox as the lifecycle events, keyed by
  tenant, subject and client, with its own effects on keys, sessions and the blacklist.
\<close>

section \<open>Parsing\<close>

datatype access_event_type = SERVICE_ENABLED | SERVICE_DISABLED | SERVICE_WITHDRAWN

record access_event =
  ae_eventId :: jstr
  ae_eventType :: access_event_type
  ae_occurredAt :: jstr
  ae_issuer :: jstr
  ae_tenantId :: jstr
  ae_subjectId :: jstr
  ae_clientId :: jstr
  ae_accessVersion :: int
  ae_status :: access_status

definition access_event_types :: "(jstr \<times> access_event_type) list" where
  "access_event_types = [(S ''USER_SERVICE_ENABLED'', SERVICE_ENABLED),
     (S ''USER_SERVICE_DISABLED'', SERVICE_DISABLED), (S ''USER_SERVICE_WITHDRAWN'', SERVICE_WITHDRAWN)]"

definition access_statuses :: "(jstr \<times> access_status) list" where
  "access_statuses = [(S ''ACTIVE'', ACCESS_ACTIVE), (S ''DISABLED'', ACCESS_DISABLED),
     (S ''WITHDRAWN'', ACCESS_WITHDRAWN)]"

definition expected_status :: "access_event_type \<Rightarrow> access_status" where
  "expected_status t = (case t of SERVICE_ENABLED \<Rightarrow> ACCESS_ACTIVE | SERVICE_DISABLED \<Rightarrow> ACCESS_DISABLED
     | SERVICE_WITHDRAWN \<Rightarrow> ACCESS_WITHDRAWN)"

definition parse_access_fields :: "zod_checks \<Rightarrow> jv \<Rightarrow> access_event option" where
  "parse_access_fields z input =
     Option.bind (z_strict [S ''schema'', S ''eventId'', S ''eventType'', S ''occurredAt'', S ''issuer'',
        S ''tenantId'', S ''subjectId'', S ''clientId'', S ''accessVersion'', S ''status''] input) (\<lambda>o'.
     Option.bind (z_string (\<lambda>s. s = S ''iam.user-service-access.v1'') (jget o' (S ''schema''))) (\<lambda>_.
     Option.bind (z_nonempty (jget o' (S ''eventId''))) (\<lambda>eid.
     Option.bind (z_enum access_event_types (jget o' (S ''eventType''))) (\<lambda>ty.
     Option.bind (z_string (z_datetime z) (jget o' (S ''occurredAt''))) (\<lambda>occ.
     Option.bind (z_string (z_url z) (jget o' (S ''issuer''))) (\<lambda>iss.
     Option.bind (z_nonempty (jget o' (S ''tenantId''))) (\<lambda>ten.
     Option.bind (z_nonempty (jget o' (S ''subjectId''))) (\<lambda>sub.
     Option.bind (z_nonempty (jget o' (S ''clientId''))) (\<lambda>cl.
     Option.bind (z_positive (jget o' (S ''accessVersion''))) (\<lambda>ver.
     Option.bind (z_enum access_statuses (jget o' (S ''status''))) (\<lambda>st.
       Some \<lparr>ae_eventId = eid, ae_eventType = ty, ae_occurredAt = occ, ae_issuer = iss, ae_tenantId = ten,
             ae_subjectId = sub, ae_clientId = cl, ae_accessVersion = ver, ae_status = st\<rparr>)))))))))))"

definition parseUserServiceAccessEvent :: "zod_checks \<Rightarrow> jv \<Rightarrow> access_event result" where
  "parseUserServiceAccessEvent z input = (case parse_access_fields z input of
     None \<Rightarrow> Inl ZodError
   | Some event \<Rightarrow>
       if ae_status event \<noteq> expected_status (ae_eventType event) then Inl ZodError else Inr event)"

section \<open>Application\<close>

record access_expected =
  ax_issuer :: jstr
  ax_tenantId :: jstr
  ax_clientId :: jstr
  ax_additionalClientIds :: "jstr list"

definition access_key :: "access_event \<Rightarrow> jstr \<times> jstr \<times> jstr" where
  "access_key ev = (ae_tenantId ev, ae_subjectId ev, ae_clientId ev)"

definition insert_access_receipt :: "access_event \<Rightarrow> bool dbm" where
  "insert_access_receipt ev d =
     (if access_events d (ae_eventId ev) \<noteq> None then (d, Inr False)
      else (d\<lparr>access_events := (access_events d)(ae_eventId ev \<mapsto>
              \<lparr>ar_tenant_id = ae_tenantId ev, ar_subject_id = ae_subjectId ev, ar_client_id = ae_clientId ev,
               ar_access_version = ae_accessVersion ev\<rparr>)\<rparr>, Inr True))"

definition access_event_state :: "access_event \<Rightarrow> access_state" where
  "access_event_state ev = \<lparr>as_status = ae_status ev, as_access_version = ae_accessVersion ev,
     as_last_event_id = ae_eventId ev\<rparr>"

definition upsert_access_state :: "access_event \<Rightarrow> bool dbm" where
  "upsert_access_state ev d =
     (let d' = d\<lparr>access_states := (access_states d)(access_key ev \<mapsto> access_event_state ev)\<rparr> in
      case access_states d (access_key ev) of
        None \<Rightarrow> (d', Inr True)
      | Some st \<Rightarrow> if as_access_version st < ae_accessVersion ev \<and> as_status st \<noteq> ACCESS_WITHDRAWN
                   then (d', Inr True) else (d, Inr False))"

definition select_user :: "access_event \<Rightarrow> jstr list dbm" where
  "select_user ev d = (d, Inr (map u_id (filter (is_identity (ae_tenantId ev) (ae_subjectId ev)) (users d))))"

definition deny_status :: "access_status \<Rightarrow> bool" where
  "deny_status st \<longleftrightarrow> st = ACCESS_DISABLED \<or> st = ACCESS_WITHDRAWN"

definition revoke_keys :: "faults \<Rightarrow> access_event \<Rightarrow> bool \<Rightarrow> jstr option dbm" where
  "revoke_keys flt ev applied =
     (if applied \<and> deny_status (ae_status ev)
      then bindQ (query flt 4 (select_user ev)) (\<lambda>ids.
             let userId = first_id ids in
             if present userId
             then bindQ (query flt 5 (\<lambda>d. (deactivate_keys (\<lambda>u. Some u = userId) d, Inr ()))) (\<lambda>_. retQ userId)
             else retQ userId)
      else retQ None)"

definition access_tx :: "faults \<Rightarrow> access_event \<Rightarrow> (bool \<times> jstr option) dbm" where
  "access_tx flt ev =
     bindQ (query flt 1 (insert_access_receipt ev)) (\<lambda>fresh.
     if \<not> fresh then commit flt 2 (False, None)
     else
     bindQ (query flt 3 (upsert_access_state ev)) (\<lambda>applied.
     bindQ (revoke_keys flt ev applied) (\<lambda>userId.
       commit flt 6 (applied, userId))))"

definition applyUserServiceAccessEvent ::
  "faults \<Rightarrow> invalidator \<Rightarrow> invalidator \<Rightarrow> access_expected \<Rightarrow> access_event \<Rightarrow> db \<times> redis \<Rightarrow> (db \<times> redis) \<times> bool result" where
  "applyUserServiceAccessEvent flt invUser invSessions expected ev dr =
     (if ae_issuer ev \<noteq> ax_issuer expected \<or> ae_tenantId ev \<noteq> ax_tenantId expected then (dr, Inr False)
      else if ae_clientId ev \<noteq> ax_clientId expected \<and> ae_clientId ev \<notin> set (ax_additionalClientIds expected)
      then (dr, Inr False)
      else case transaction flt (access_tx flt ev) (fst dr) of
          (d, Inl e) \<Rightarrow> ((d, snd dr), Inl e)
        | (d, Inr (applied, userId)) \<Rightarrow>
            if applied \<and> deny_status (ae_status ev)
            then (case invalidate_after invUser invSessions userId (ae_subjectId ev) (snd dr) of
                (r, Inl e) \<Rightarrow> ((d, r), Inl e)
              | (r, Inr _) \<Rightarrow> ((d, r), Inr applied))
            else ((d, snd dr), Inr applied))"

section \<open>The stream consumer\<close>

definition access_group :: jstr where
  "access_group = S ''tools-gateway-service-access-v1''"

definition blacklist_key :: "jstr \<Rightarrow> jstr" where
  "blacklist_key subject = S ''auth:blacklist:user:'' @ subject"

definition access_invalidateSessions :: "faults \<Rightarrow> int \<Rightarrow> invalidator" where
  "access_invalidateSessions flt now subject r =
     bindR (drop_indexed flt now (web_index subject) r) (\<lambda>_ r.
       rcall (flt 3) (\<lambda>r. (r_set_ex now (blacklist_key subject) (RText (S ''revoked'')) 86400 r, Inr ())) r)"

definition access_apply_json ::
  "zod_checks \<Rightarrow> delivery \<Rightarrow> int \<Rightarrow> access_expected \<Rightarrow> jv \<Rightarrow> db \<times> redis \<Rightarrow> (db \<times> redis) \<times> bool result" where
  "access_apply_json z dl now expected v dr = (case parseUserServiceAccessEvent z v of
     Inl e \<Rightarrow> (dr, Inl e)
   | Inr ev \<Rightarrow> applyUserServiceAccessEvent (dl_sql dl) (invalidateUser (dl_user dl) now)
       (access_invalidateSessions (dl_sessions dl) now) expected ev dr)"

definition access_process ::
  "zod_checks \<Rightarrow> delivery \<Rightarrow> int \<Rightarrow> access_expected \<Rightarrow> jstr \<Rightarrow> jv option \<Rightarrow> stream_state \<Rightarrow> stream_state \<times> unit result" where
  "access_process z dl now expected i data s =
     process_message (dl_io dl) now access_group (access_apply_json z dl now expected) i data s"

definition access_round ::
  "zod_checks \<Rightarrow> int \<Rightarrow> access_expected \<Rightarrow> js_error option \<Rightarrow> (delivery \<times> jstr \<times> jv option) list \<Rightarrow>
   (delivery \<times> jstr \<times> jv option) list \<Rightarrow> stream_state \<Rightarrow> stream_state" where
  "access_round z now expected heartbeat claimed batch s =
     (let f = (\<lambda>(dl, i, data). access_process z dl now expected i data) in
      case deliver_all f claimed s of
        (s1, Inl e) \<Rightarrow> s1
      | (s1, Inr _) \<Rightarrow>
          (case heartbeat of Some e \<Rightarrow> s1 | None \<Rightarrow>
            let s2 = s1\<lparr>ss_db := (ss_db s1)\<lparr>access_last_seen :=
                 map_option (\<lambda>_. now) (access_last_seen (ss_db s1))\<rparr>\<rparr> in
            fst (deliver_all f batch s2)))"

section \<open>What a delivery does to the tables\<close>

definition access_newer :: "db \<Rightarrow> access_event \<Rightarrow> bool" where
  "access_newer d ev \<longleftrightarrow> (case access_states d (access_key ev) of None \<Rightarrow> True
     | Some st \<Rightarrow> as_access_version st < ae_accessVersion ev \<and> as_status st \<noteq> ACCESS_WITHDRAWN)"

lemma insert_access_receipt_Inr: "insert_access_receipt ev d = (d1, Inr fresh) \<longleftrightarrow>
    (fresh \<longleftrightarrow> access_events d (ae_eventId ev) = None)
    \<and> d1 = (if fresh then d\<lparr>access_events := (access_events d)(ae_eventId ev \<mapsto>
              \<lparr>ar_tenant_id = ae_tenantId ev, ar_subject_id = ae_subjectId ev, ar_client_id = ae_clientId ev,
               ar_access_version = ae_accessVersion ev\<rparr>)\<rparr> else d)"
  by (auto simp: insert_access_receipt_def)

lemma upsert_access_state_Inr: "upsert_access_state ev d = (d1, Inr applied) \<longleftrightarrow>
    (applied \<longleftrightarrow> access_newer d ev)
    \<and> d1 = (if applied then d\<lparr>access_states := (access_states d)(access_key ev \<mapsto> access_event_state ev)\<rparr> else d)"
  by (auto simp: upsert_access_state_def access_newer_def Let_def split: option.splits)

lemma access_newer_receipt [simp]: "access_newer (d\<lparr>access_events := f\<rparr>) ev = access_newer d ev"
  by (simp add: access_newer_def)

lemma access_tx_duplicate:
  assumes "access_events d (ae_eventId ev) \<noteq> None" and "access_tx flt ev d = (d', Inr x)"
  shows "d' = d \<and> x = (False, None)"
  using assms by (auto simp: access_tx_def dbm_iff insert_access_receipt_Inr)

lemma access_tx_fresh:
  assumes "access_events d (ae_eventId ev) = None" and "access_tx flt ev d = (d', Inr (applied, uid))"
  obtains d2 where "applied = access_newer d ev"
    and "d2 = d\<lparr>access_events := (access_events d)(ae_eventId ev \<mapsto>
              \<lparr>ar_tenant_id = ae_tenantId ev, ar_subject_id = ae_subjectId ev, ar_client_id = ae_clientId ev,
               ar_access_version = ae_accessVersion ev\<rparr>),
          access_states := (if access_newer d ev
            then (access_states d)(access_key ev \<mapsto> access_event_state ev) else access_states d)\<rparr>"
    and "uid = (if applied \<and> deny_status (ae_status ev)
       then first_id (map u_id (filter (is_identity (ae_tenantId ev) (ae_subjectId ev)) (users d))) else None)"
    and "d' = (if present uid then deactivate_keys (\<lambda>u. Some u = uid) d2 else d2)"
proof -
  let ?f = "(access_events d)(ae_eventId ev \<mapsto>
              \<lparr>ar_tenant_id = ae_tenantId ev, ar_subject_id = ae_subjectId ev, ar_client_id = ae_clientId ev,
               ar_access_version = ae_accessVersion ev\<rparr>)"
  from assms obtain d2 where d2: "upsert_access_state ev (d\<lparr>access_events := ?f\<rparr>) = (d2, Inr applied)"
    and tail: "revoke_keys flt ev applied d2 = (d', Inr uid)"
    by (auto simp: access_tx_def dbm_iff insert_access_receipt_Inr)
  from d2 have a: "applied = access_newer d ev" by (simp add: upsert_access_state_Inr)
  from d2 have d2': "d2 = d\<lparr>access_events := ?f, access_states := (if access_newer d ev
            then (access_states d)(access_key ev \<mapsto> access_event_state ev) else access_states d)\<rparr>"
    by (auto simp: upsert_access_state_Inr)
  have u: "users d2 = users d" using d2' by simp
  have "uid = (if applied \<and> deny_status (ae_status ev)
       then first_id (map u_id (filter (is_identity (ae_tenantId ev) (ae_subjectId ev)) (users d))) else None)
     \<and> d' = (if present uid then deactivate_keys (\<lambda>u. Some u = uid) d2 else d2)"
    using tail u by (auto simp: revoke_keys_def dbm_iff select_user_def Let_def present_def split: if_splits option.splits)
  with that a d2' show thesis by blast
qed

lemma access_tx_inbox:
  assumes "access_events d (ae_eventId ev) = None" and "access_tx flt ev d = (d', Inr (applied, uid))"
  shows "access_events d' (ae_eventId ev) \<noteq> None"
    and "i \<noteq> ae_eventId ev \<Longrightarrow> access_events d' i = access_events d i"
    and "access_states d' = (if access_newer d ev
          then (access_states d)(access_key ev \<mapsto> access_event_state ev) else access_states d)"
proof -
  obtain d2 where d2: "d2 = d\<lparr>access_events := (access_events d)(ae_eventId ev \<mapsto>
              \<lparr>ar_tenant_id = ae_tenantId ev, ar_subject_id = ae_subjectId ev, ar_client_id = ae_clientId ev,
               ar_access_version = ae_accessVersion ev\<rparr>),
          access_states := (if access_newer d ev
            then (access_states d)(access_key ev \<mapsto> access_event_state ev) else access_states d)\<rparr>"
    and d': "d' = (if present uid then deactivate_keys (\<lambda>u. Some u = uid) d2 else d2)"
    by (rule access_tx_fresh [OF assms])
  show "access_events d' (ae_eventId ev) \<noteq> None"
    by (simp add: d' d2 deactivate_keys_def)
  show "access_events d' i = access_events d i" if "i \<noteq> ae_eventId ev"
    using that by (simp add: d' d2 deactivate_keys_def)
  show "access_states d' = (if access_newer d ev
          then (access_states d)(access_key ev \<mapsto> access_event_state ev) else access_states d)"
    by (simp add: d' d2 deactivate_keys_def)
qed

definition access_attempt :: "faults \<Rightarrow> access_event \<Rightarrow> db \<Rightarrow> db" where
  "access_attempt flt ev d = fst (transaction flt (access_tx flt ev) d)"

lemma access_attempt_cases:
  "access_attempt flt ev d = d \<or> (\<exists>applied uid. access_tx flt ev d = (access_attempt flt ev d, Inr (applied, uid))
     \<and> access_events d (ae_eventId ev) = None)"
proof (cases "transaction flt (access_tx flt ev) d")
  case (Pair d' res)
  show ?thesis
  proof (cases res)
    case (Inl e)
    with Pair have "d' = d" by (auto dest: transaction_Inl)
    with Pair show ?thesis by (simp add: access_attempt_def)
  next
    case (Inr x)
    with Pair have tx: "access_tx flt ev d = (d', Inr (fst x, snd x))" by (simp add: transaction_Inr_iff)
    with access_tx_duplicate [OF _ tx] Pair show ?thesis by (auto simp: access_attempt_def)
  qed
qed

interpretation ac: inbox access_attempt "\<lambda>d. access_states d (ten, sub, cl)" "\<lambda>d i. access_events d i \<noteq> None"
  "\<lambda>ev. access_key ev = (ten, sub, cl)" ae_eventId ae_accessVersion
  "\<lambda>ev. ae_status ev = ACCESS_WITHDRAWN" access_event_state as_access_version "\<lambda>st. as_status st = ACCESS_WITHDRAWN"
  for ten sub cl
proof
  fix ev :: access_event and flt d
  assume mine: "access_key ev = (ten, sub, cl)"
  let ?d = "access_attempt flt ev d"
  from access_attempt_cases [of flt ev d] show "?d = d \<or>
      (\<not> access_events d (ae_eventId ev) \<noteq> None \<and> access_events ?d (ae_eventId ev) \<noteq> None
       \<and> (\<forall>i. i \<noteq> ae_eventId ev \<longrightarrow> (access_events ?d i \<noteq> None) = (access_events d i \<noteq> None))
       \<and> access_states ?d (ten, sub, cl) = (case access_states d (ten, sub, cl) of None \<Rightarrow> Some (access_event_state ev)
           | Some st \<Rightarrow> if as_access_version st < ae_accessVersion ev \<and> \<not> as_status st = ACCESS_WITHDRAWN
                        then Some (access_event_state ev) else Some st))"
  proof (elim disjE exE conjE)
    fix applied uid
    assume tx: "access_tx flt ev d = (?d, Inr (applied, uid))" and fresh: "access_events d (ae_eventId ev) = None"
    from access_tx_inbox [OF fresh tx] fresh mine show ?thesis
      by (auto simp: access_newer_def split: option.split)
  qed simp
qed (simp_all add: access_event_state_def)

section \<open>Properties\<close>

lemma access_apply_db:
  "fst (fst (applyUserServiceAccessEvent flt iu is ex ev dr)) =
     (if ae_issuer ev \<noteq> ax_issuer ex \<or> ae_tenantId ev \<noteq> ax_tenantId ex
         \<or> (ae_clientId ev \<noteq> ax_clientId ex \<and> ae_clientId ev \<notin> set (ax_additionalClientIds ex)) then fst dr
      else access_attempt flt ev (fst dr))"
  by (auto simp: applyUserServiceAccessEvent_def access_attempt_def split: prod.split sum.split)

text \<open>The events of one subject and client that the consumer is responsible for.\<close>

definition access_history :: "jstr \<Rightarrow> jstr \<Rightarrow> access_expected \<Rightarrow> access_event set \<Rightarrow> bool" where
  "access_history sub cl ex E \<longleftrightarrow>
     history_by ae_eventId ae_accessVersion (\<lambda>ev. ae_status ev = ACCESS_WITHDRAWN) E
     \<and> (cl = ax_clientId ex \<or> cl \<in> set (ax_additionalClientIds ex))
     \<and> (\<forall>ev \<in> E. access_key ev = (ax_tenantId ex, sub, cl) \<and> ae_issuer ev = ax_issuer ex)"

definition run_access :: "access_expected \<Rightarrow> faults \<times> invalidator \<times> invalidator \<times> access_event \<Rightarrow> db \<times> redis \<Rightarrow> db \<times> redis" where
  "run_access ex a dr = (case a of (flt, iu, si, ev) \<Rightarrow> fst (applyUserServiceAccessEvent flt iu si ex ev dr))"

lemma run_access_db:
  assumes "\<forall>a \<in> set as. snd (snd (snd a)) \<in> E" and "access_history sub cl ex E"
  shows "fst (fold (run_access ex) as dr) =
    fold (\<lambda>a. access_attempt (fst a) (snd a)) (map (\<lambda>a. (fst a, snd (snd (snd a)))) as) (fst dr)"
  using assms(1)
proof (induction as arbitrary: dr)
  case Nil
  then show ?case by simp
next
  case (Cons a as)
  obtain flt iu si ev where a: "a = (flt, iu, si, ev)" by (cases a) auto
  with Cons.prems assms(2) have "ae_issuer ev = ax_issuer ex" "access_key ev = (ax_tenantId ex, sub, cl)"
    "cl = ax_clientId ex \<or> cl \<in> set (ax_additionalClientIds ex)" by (auto simp: access_history_def)
  then have "fst (run_access ex a dr) = access_attempt flt ev (fst dr)"
    by (auto simp: a run_access_def access_apply_db access_key_def)
  with Cons a show ?case by simp
qed

text \<open>
  Service access events converge like lifecycle events, for every client of the gateway: once
  the newest event of a subject and client was committed, its status is the stored one, whatever
  order, repetitions and failures the deliveries had.
\<close>

theorem access_converges:
  assumes "access_history sub cl ex E" and "newest_by ae_accessVersion E m"
    and "access_states d (ax_tenantId ex, sub, cl) = None" and "\<forall>ev \<in> E. access_events d (ae_eventId ev) = None"
    and "\<forall>a \<in> set as. snd (snd (snd a)) \<in> E"
    and "access_events (fst (fold (run_access ex) as (d, r))) (ae_eventId m) \<noteq> None"
  shows "access_states (fst (fold (run_access ex) as (d, r))) (ax_tenantId ex, sub, cl) = Some (access_event_state m)"
proof -
  have key: "\<forall>ev \<in> E. access_key ev = (ax_tenantId ex, sub, cl)"
    and h: "history_by ae_eventId ae_accessVersion (\<lambda>ev. ae_status ev = ACCESS_WITHDRAWN) E"
    using assms(1) by (auto simp: access_history_def)
  have run: "fst (fold (run_access ex) as (d, r)) =
      fold (\<lambda>a. access_attempt (fst a) (snd a)) (map (\<lambda>a. (fst a, snd (snd (snd a)))) as) d"
    using run_access_db [OF assms(5,1), of "(d, r)"] by simp
  show ?thesis
    unfolding run
    by (rule ac.converges [OF h assms(2,3)]) (use assms(4-6) key run in auto)
qed

lemma apply_deny_cases:
  assumes "applyUserServiceAccessEvent flt iu is ex ev (d, r) = ((d', r'), Inr True)" and "deny_status (ae_status ev)"
  obtains uid r1 where "transaction flt (access_tx flt ev) d = (d', Inr (True, uid))"
    and "case uid of Some i \<Rightarrow> (if i \<noteq> [] then iu i r = (r1, Inr ()) else r1 = r) | None \<Rightarrow> r1 = r"
    and "is (ae_subjectId ev) r1 = (r', Inr ())"
proof -
  have "\<exists>uid. transaction flt (access_tx flt ev) d = (d', Inr (True, uid))
      \<and> invalidate_after iu is uid (ae_subjectId ev) r = (r', Inr ())"
    using assms by (auto simp: applyUserServiceAccessEvent_def split: if_splits prod.splits sum.splits)
  then obtain uid where t: "transaction flt (access_tx flt ev) d = (d', Inr (True, uid))"
    and inv: "invalidate_after iu is uid (ae_subjectId ev) r = (r', Inr ())" by blast
  from inv have "\<exists>r1. (case uid of Some i \<Rightarrow> (if i \<noteq> [] then iu i r = (r1, Inr ()) else r1 = r) | None \<Rightarrow> r1 = r)
      \<and> is (ae_subjectId ev) r1 = (r', Inr ())"
    by (auto simp: invalidate_after_def bindR_def split: option.splits if_splits prod.splits sum.splits)
  with t that show thesis by blast
qed

lemma access_sessions_shape:
  assumes "access_invalidateSessions no_faults now sub r = (r', Inr ())"
  shows "r' (cache_key h) = r (cache_key h) \<or> r' (cache_key h) = None"
    and "r' (blacklist_key sub) = Some (RText (S ''revoked''), Some (now + 86400000))"
proof -
  obtain r1 x where r1: "drop_indexed no_faults now (web_index sub) r = (r1, x)" by force
  with assms have r': "r' = r1(blacklist_key sub \<mapsto> (RText (S ''revoked''), Some (now + 86400000)))"
    by (cases x) (auto simp: access_invalidateSessions_def no_faults_def r_set_ex_def)
  have "cache_key h \<noteq> blacklist_key sub" by (simp add: cache_key_def blacklist_key_def S_def)
  with r' drop_indexed_sub [OF r1, of "cache_key h"]
  show "r' (cache_key h) = r (cache_key h) \<or> r' (cache_key h) = None" by simp
  show "r' (blacklist_key sub) = Some (RText (S ''revoked''), Some (now + 86400000))" by (simp add: r')
qed

text \<open>
  Losing access to the service revokes at once: after a disabling or withdrawing event was
  applied, no key verifies as the user, from cache or database, at any later time, and the subject
  is on the blacklist for a day.
\<close>

theorem access_revokes:
  assumes "db_ok d" and "cache_inv now r" and "deny_status (ae_status ev)"
    and "applyUserServiceAccessEvent no_faults (invalidateUser no_faults now) (access_invalidateSessions no_faults now)
           ex ev (d, r) = ((d', r'), Inr True)"
    and "u \<in> set (users d)" and "is_identity (ae_tenantId ev) (ae_subjectId ev) u" and "u_id u \<noteq> []"
    and "now \<le> t" and "verify cfg sha_hex no_faults t key d' r' = (r2, Inr (Some p))"
  shows "p_userId p \<noteq> u_id u \<and> r' (blacklist_key (ae_subjectId ev)) = Some (RText (S ''revoked''), Some (now + 86400000))"
proof -
  obtain uid r1 where tx: "transaction no_faults (access_tx no_faults ev) d = (d', Inr (True, uid))"
    and iu: "case uid of Some i \<Rightarrow> (if i \<noteq> [] then invalidateUser no_faults now i r = (r1, Inr ()) else r1 = r) | None \<Rightarrow> r1 = r"
    and si: "access_invalidateSessions no_faults now (ae_subjectId ev) r1 = (r', Inr ())"
    by (rule apply_deny_cases [OF assms(4,3)])
  from tx have body: "access_tx no_faults ev d = (d', Inr (True, uid))" by (simp add: transaction_Inr_iff)
  have fresh: "access_events d (ae_eventId ev) = None"
    using access_tx_duplicate [OF _ body] by blast
  have "unique_identities (users d)" using assms(1) by (simp add: db_ok_def)
  from first_selected [OF this assms(5,6), of "is_identity (ae_tenantId ev) (ae_subjectId ev)"] assms(6)
  have sel: "first_id (map u_id (filter (is_identity (ae_tenantId ev) (ae_subjectId ev)) (users d))) = Some (u_id u)"
    by blast
  obtain d2 where rows: "uid = Some (u_id u)"
    "d' = deactivate_keys (\<lambda>x. Some x = uid) d2"
    by (rule access_tx_fresh [OF fresh body]) (rule that; use assms(3,7) sel in \<open>simp add: present_def\<close>)
  with iu assms(7) have inv: "invalidateUser no_faults now (u_id u) r = (r1, Inr ())" by simp
  from assms(9) have "p_userId p \<noteq> u_id u"
  proof (cases rule: verify_cases)
    case 1
    then have "live t r1 (cache_key (sha_hex key)) = Some (RPrincipal p)"
      using access_sessions_shape(1) [OF si, of "sha_hex key"] by (auto simp: live_def)
    with live_later [OF _ assms(8)] have l: "live now r1 (cache_key (sha_hex key)) = Some (RPrincipal p)" by blast
    obtain r1' where "invalidateUser no_faults now (u_id u) r = (r1', Inr ())"
      and gone: "\<And>h v. live now r1' (cache_key h) = Some v \<Longrightarrow> (\<exists>p. v = RPrincipal p \<and> p_userId p \<noteq> u_id u)"
      by (rule invalidate_shape [OF assms(2), of "u_id u"]) (rule that; blast)
    with inv l show ?thesis by auto
  next
    case (2 k w)
    with rows show ?thesis by (auto simp: key_usable_def principal_of_def deactivate_keys_def split: if_splits)
  qed
  with access_sessions_shape(2) [OF si] show ?thesis by simp
qed

section \<open>Concrete events\<close>

definition demo_ax :: access_expected where
  "demo_ax = \<lparr>ax_issuer = S ''iss'', ax_tenantId = S ''t1'', ax_clientId = S ''gw'', ax_additionalClientIds = []\<rparr>"

definition demo_access :: "string \<Rightarrow> access_status \<Rightarrow> int \<Rightarrow> access_event" where
  "demo_access i st n = \<lparr>ae_eventId = S i, ae_eventType = SERVICE_DISABLED, ae_occurredAt = [], ae_issuer = S ''iss'',
     ae_tenantId = S ''t1'', ae_subjectId = S ''s2'', ae_clientId = S ''gw'', ae_accessVersion = n, ae_status = st\<rparr>"

theorem access_converges_witness:
  "access_states (fst (fold (run_access demo_ax)
      (map (\<lambda>ev. (no_faults, invalidateUser no_faults 0, access_invalidateSessions no_faults 0, ev))
         [demo_access ''e2'' ACCESS_DISABLED 3, demo_access ''e1'' ACCESS_ACTIVE 2])
      (two_users, (\<lambda>_. None)))) (S ''t1'', S ''s2'', S ''gw'') = Some (access_event_state (demo_access ''e2'' ACCESS_DISABLED 3))"
proof -
  let ?a = "demo_access ''e1'' ACCESS_ACTIVE 2" and ?b = "demo_access ''e2'' ACCESS_DISABLED 3"
  let ?as = "map (\<lambda>ev. (no_faults, invalidateUser no_faults 0, access_invalidateSessions no_faults 0, ev)) [?b, ?a]"
  have "access_history (S ''s2'') (S ''gw'') demo_ax {?a, ?b}"
    by (simp add: access_history_def history_by_def demo_access_def demo_ax_def access_key_def)
  moreover have "newest_by ae_accessVersion {?a, ?b} ?b" by (simp add: newest_by_def demo_access_def)
  moreover have "access_states two_users (ax_tenantId demo_ax, S ''s2'', S ''gw'') = None"
    by (simp add: two_users_def demo_db_def)
  moreover have "\<forall>ev \<in> {?a, ?b}. access_events two_users (ae_eventId ev) = None" by (simp add: two_users_def demo_db_def)
  moreover have "\<forall>a \<in> set ?as. snd (snd (snd a)) \<in> {?a, ?b}" by simp
  moreover have "access_events (fst (fold (run_access demo_ax) ?as (two_users, (\<lambda>_. None)))) (ae_eventId ?b) \<noteq> None"
    by code_simp
  ultimately have "access_states (fst (fold (run_access demo_ax) ?as (two_users, (\<lambda>_. None))))
      (ax_tenantId demo_ax, S ''s2'', S ''gw'') = Some (access_event_state ?b)"
    by (rule access_converges)
  then show ?thesis by (simp add: demo_ax_def)
qed

theorem access_revokes_witness:
  "\<exists>d' r' r2 p. applyUserServiceAccessEvent no_faults (invalidateUser no_faults 0) (access_invalidateSessions no_faults 0)
       demo_ax (demo_access ''e1'' ACCESS_DISABLED 2) (two_users, (\<lambda>_. None)) = ((d', r'), Inr True)
     \<and> verify demo_cfg id no_faults 1 demo_key d' r' = (r2, Inr (Some p)) \<and> p_userId p \<noteq> S ''u2''"
proof -
  let ?ev = "demo_access ''e1'' ACCESS_DISABLED 2"
  let ?ap = "applyUserServiceAccessEvent no_faults (invalidateUser no_faults 0) (access_invalidateSessions no_faults 0)
       demo_ax ?ev (two_users, (\<lambda>_. None))"
  obtain d' r' where ap: "?ap = ((d', r'), Inr True)"
  proof -
    have "snd ?ap = Inr True" by code_simp
    with that show thesis by (metis prod.collapse)
  qed
  have "snd (verify demo_cfg id no_faults 1 demo_key (fst (fst ?ap)) (snd (fst ?ap))) = Inr (Some demo_p)"
    by code_simp
  with ap obtain r2 where v: "verify demo_cfg id no_faults 1 demo_key d' r' = (r2, Inr (Some demo_p))"
    by (metis fst_conv snd_conv prod.collapse)
  let ?u = "users two_users ! 1"
  have ok: "db_ok two_users"
    by (simp add: db_ok_def two_users_def demo_db_def unique_identities_def external_identity_def)
  have u: "?u \<in> set (users two_users)" "is_identity (ae_tenantId ?ev) (ae_subjectId ?ev) ?u" "u_id ?u \<noteq> []"
    by (simp_all add: two_users_def demo_db_def demo_access_def is_identity_def)
  have rv: "deny_status (ae_status ?ev)" by (simp add: demo_access_def deny_status_def)
  from access_revokes [OF ok cache_inv_empty rv ap u _ v]
  have "p_userId demo_p \<noteq> u_id ?u" by simp
  then have "p_userId demo_p \<noteq> S ''u2''" by (simp add: two_users_def demo_db_def)
  with ap v show ?thesis by blast
qed

end
