(* ===== verification/LocalUser.thy ===== *)
theory LocalUser
  imports ServiceAccess
begin

text \<open>
  Admission of a verified identity (\<open>src/users/ensureLocalUser.ts\<close>): the checks on the token, and
  the one statement that inserts the local user or refreshes it, guarded by the lifecycle and
  service access inboxes and their heartbeats. \<open>uuid\<close> is what \<open>randomUUID()\<close> returns.
\<close>

section \<open>The code\<close>

record identity =
  vi_tenantId :: jstr
  vi_subject :: jstr
  vi_email :: jstr
  vi_name :: "jstr option"
  vi_userVersion :: jv
  vi_serviceAccessVersion :: jv

record local_cfg =
  lu_tenantId :: jstr
  lu_enforcement :: bool
  lu_clientId :: jstr

text \<open>\<open>Number.isSafeInteger(v) && v >= 1\<close>, with the number.\<close>

definition positive_version :: "jv \<Rightarrow> int option" where
  "positive_version v = (case v of JNum (NInt i) \<Rightarrow>
     (if is_safe_integer v \<and> \<not> i < 1 then Some i else None) | _ \<Rightarrow> None)"

definition local_id :: "jstr \<Rightarrow> jstr" where
  "local_id uuid = S ''tg_usr_'' @ uuid"

definition lifecycle_bars :: "db \<Rightarrow> jstr \<Rightarrow> jstr \<Rightarrow> int \<Rightarrow> bool" where
  "lifecycle_bars d ten sub ver \<longleftrightarrow> (case lifecycle_states d (ten, sub) of None \<Rightarrow> False
     | Some s \<Rightarrow> ls_status s \<noteq> ACTIVE \<or> ls_user_version s > ver)"

definition access_bars :: "db \<Rightarrow> jstr \<Rightarrow> jstr \<Rightarrow> jstr \<Rightarrow> int \<Rightarrow> bool" where
  "access_bars d ten sub cl ver \<longleftrightarrow> (case access_states d (ten, sub, cl) of None \<Rightarrow> False
     | Some a \<Rightarrow> as_status a \<noteq> ACCESS_ACTIVE \<or> as_access_version a > ver)"

definition admissible :: "local_cfg \<Rightarrow> int \<Rightarrow> jstr \<Rightarrow> jstr \<Rightarrow> int \<Rightarrow> int \<Rightarrow> db \<Rightarrow> bool" where
  "admissible cfg now ten sub ver aver d \<longleftrightarrow>
     \<not> lifecycle_bars d ten sub ver \<and> healthy now (lifecycle_last_seen d)
     \<and> (lu_enforcement cfg \<longrightarrow>
          \<not> access_bars d ten sub (lu_clientId cfg) aver \<and> healthy now (access_last_seen d))"

definition refresh_user :: "jstr \<Rightarrow> jstr \<Rightarrow> int \<Rightarrow> user_row \<Rightarrow> user_row" where
  "refresh_user email name ver u =
     u\<lparr>u_email := email, u_name := name, u_user_version := max (u_user_version u) ver\<rparr>"

definition new_user :: "jstr \<Rightarrow> jstr \<Rightarrow> jstr \<Rightarrow> jstr \<Rightarrow> jstr \<Rightarrow> int \<Rightarrow> user_row" where
  "new_user i email name ten sub ver =
     \<lparr>u_id = i, u_email = email, u_name = name, u_system_role = S ''USER'',
      u_external_provider = Some provider, u_external_subject_id = Some sub, u_is_active = True,
      u_tenant_id = ten, u_lifecycle_status = ACTIVE, u_user_version = ver\<rparr>"

text \<open>\<open>INSERT ... SELECT ... WHERE ... ON CONFLICT ... DO UPDATE ... WHERE ... RETURNING id\<close>.\<close>

definition upsert_user :: "local_cfg \<Rightarrow> int \<Rightarrow> jstr \<Rightarrow> jstr \<Rightarrow> jstr \<Rightarrow> jstr \<Rightarrow> jstr \<Rightarrow> int \<Rightarrow> int \<Rightarrow> jstr list dbm" where
  "upsert_user cfg now i email name sub ten ver aver d =
     (if \<not> admissible cfg now ten sub ver aver d then (d, Inr [])
      else case find (is_identity ten sub) (users d) of
          Some u \<Rightarrow>
            if u_is_active u \<and> u_lifecycle_status u = ACTIVE
            then bindQ (store_users (map (\<lambda>r. if is_identity ten sub r then refresh_user email name ver r else r) (users d)))
                   (\<lambda>_. retQ [u_id u]) d
            else (d, Inr [])
        | None \<Rightarrow> bindQ (store_users (users d @ [new_user i email name ten sub ver])) (\<lambda>_. retQ [i]) d)"

definition ensureLocalUser :: "local_cfg \<Rightarrow> faults \<Rightarrow> int \<Rightarrow> jstr \<Rightarrow> identity \<Rightarrow> jstr dbm" where
  "ensureLocalUser cfg flt now uuid identity d =
     (if vi_tenantId identity \<noteq> lu_tenantId cfg \<or> vi_subject identity = [] \<or> vi_email identity = []
         \<or> positive_version (vi_userVersion identity) = None
      then (d, Inl (plain_error (S ''Verified user identity does not belong to Tools Gateway'')))
      else if lu_enforcement cfg \<and> positive_version (vi_serviceAccessVersion identity) = None
      then (d, Inl (plain_error (S ''Token is missing required service_access_version claim'')))
      else bindQ (query flt 0 (upsert_user cfg now (local_id uuid) (vi_email identity)
             (case vi_name identity of Some n \<Rightarrow> n | None \<Rightarrow> vi_email identity)
             (vi_subject identity) (vi_tenantId identity) (the (positive_version (vi_userVersion identity)))
             (case positive_version (vi_serviceAccessVersion identity) of Some a \<Rightarrow> a | None \<Rightarrow> 0)))
           (\<lambda>rows d. if present (first_id rows) then (d, Inr (the (first_id rows)))
                     else (d, Inl (plain_error (S ''Tools Gateway user is inactive or token state is stale''))))
           d)"

section \<open>Lemmas\<close>

lemma store_users_Inr: "store_users rs d = (d', Inr x) \<longleftrightarrow>
    distinct (map u_email rs) \<and> distinct (map u_id rs) \<and> unique_identities rs \<and> d' = d\<lparr>users := rs\<rparr>"
  by (auto simp: store_users_def)

lemma store_users_ok: "store_users rs d = (d', Inr x) \<Longrightarrow> db_ok d \<Longrightarrow> db_ok d'"
  by (auto simp: store_users_Inr db_ok_def)

lemma is_identity_refresh [simp]: "is_identity t s (refresh_user e n v u) = is_identity t s u"
  by (simp add: refresh_user_def is_identity_def)

lemma ensure_cases:
  assumes "ensureLocalUser cfg flt now uuid idn d = (d', Inr uid)"
  obtains ver aver where "vi_tenantId idn = lu_tenantId cfg" "positive_version (vi_userVersion idn) = Some ver"
    "aver = (case positive_version (vi_serviceAccessVersion idn) of Some a \<Rightarrow> a | None \<Rightarrow> 0)"
    "lu_enforcement cfg \<Longrightarrow> positive_version (vi_serviceAccessVersion idn) = Some aver"
    "upsert_user cfg now (local_id uuid) (vi_email idn)
        (case vi_name idn of Some n \<Rightarrow> n | None \<Rightarrow> vi_email idn) (vi_subject idn) (vi_tenantId idn) ver aver d = (d', Inr [uid])"
proof -
  obtain ver where ver: "vi_tenantId idn = lu_tenantId cfg" "positive_version (vi_userVersion idn) = Some ver"
    "lu_enforcement cfg \<Longrightarrow> positive_version (vi_serviceAccessVersion idn) \<noteq> None"
    using assms by (auto simp: ensureLocalUser_def split: if_splits)
  define aver where "aver = (case positive_version (vi_serviceAccessVersion idn) of Some a \<Rightarrow> a | None \<Rightarrow> 0)"
  obtain rows where up: "upsert_user cfg now (local_id uuid) (vi_email idn)
        (case vi_name idn of Some n \<Rightarrow> n | None \<Rightarrow> vi_email idn) (vi_subject idn) (vi_tenantId idn) ver aver d = (d', Inr rows)"
    and "present (first_id rows)" "uid = the (first_id rows)"
    using assms ver by (auto simp: ensureLocalUser_def bindQ_Inr_iff query_Inr_iff aver_def split: if_splits)
  moreover have "length rows \<le> 1"
    using up by (auto simp: upsert_user_def bindQ_Inr_iff retQ_def split: if_splits option.splits)
  ultimately have "rows = [uid]"
    by (cases rows) (auto simp: first_id_def present_def)
  with that ver up aver_def show thesis by fastforce
qed

text \<open>What the statement did when it returned a row.\<close>

lemma upsert_user_Inr:
  assumes "upsert_user cfg now i email name sub ten ver aver d = (d', Inr [uid])"
  obtains u where "admissible cfg now ten sub ver aver d"
      "u \<in> set (users d)" "is_identity ten sub u" "u_is_active u" "u_lifecycle_status u = ACTIVE" "uid = u_id u"
      "store_users (map (\<lambda>r. if is_identity ten sub r then refresh_user email name ver r else r) (users d)) d = (d', Inr ())"
  | "admissible cfg now ten sub ver aver d" "\<forall>u \<in> set (users d). \<not> is_identity ten sub u" "uid = i"
      "store_users (users d @ [new_user i email name ten sub ver]) d = (d', Inr ())"
proof -
  from assms have adm: "admissible cfg now ten sub ver aver d" by (auto simp: upsert_user_def split: if_splits)
  show thesis
  proof (cases "find (is_identity ten sub) (users d)")
    case None
    then have "\<forall>u \<in> set (users d). \<not> is_identity ten sub u" by (auto simp: find_None_iff)
    with None assms adm that(2) show thesis
      by (auto simp: upsert_user_def bindQ_Inr_iff retQ_def)
  next
    case (Some u)
    then have "u \<in> set (users d)" "is_identity ten sub u" by (auto simp: find_Some_iff)
    with Some assms adm that(1) show thesis
      by (auto simp: upsert_user_def bindQ_Inr_iff retQ_def split: if_splits)
  qed
qed

lemma filter_map_unchanged: "(\<And>x. P x \<Longrightarrow> f x = x) \<Longrightarrow> (\<And>x. P (f x) = P x) \<Longrightarrow> filter P (map f xs) = filter P xs"
  by (induction xs) auto

section \<open>Properties\<close>

text \<open>
  C39. Who is admitted: \<open>ensureLocalUser\<close> returns an id only for a token of the tenant whose
  version is not older than the subject's lifecycle state, which must be active, with a fresh
  heartbeat of the consumer (and likewise for service access when it is enforced); the id is that
  of the one active local row of the subject, the same as before if there was one, whose version
  never decreases; no row of another subject changes and the table constraints keep holding.
\<close>

theorem ensure_local_user_admits:
  assumes "ensureLocalUser cfg flt now uuid idn d = (d', Inr uid)" and "db_ok d"
  shows "\<exists>ver aver. positive_version (vi_userVersion idn) = Some ver \<and> vi_tenantId idn = lu_tenantId cfg
    \<and> (lu_enforcement cfg \<longrightarrow> positive_version (vi_serviceAccessVersion idn) = Some aver)
    \<and> (\<forall>st. lifecycle_states d (vi_tenantId idn, vi_subject idn) = Some st \<longrightarrow>
         ls_status st = ACTIVE \<and> ls_user_version st \<le> ver)
    \<and> (\<exists>seen. lifecycle_last_seen d = Some seen \<and> now - 60000 < seen)
    \<and> (lu_enforcement cfg \<longrightarrow>
         (\<forall>a. access_states d (vi_tenantId idn, vi_subject idn, lu_clientId cfg) = Some a \<longrightarrow>
            as_status a = ACCESS_ACTIVE \<and> as_access_version a \<le> aver)
         \<and> (\<exists>seen. access_last_seen d = Some seen \<and> now - 60000 < seen))
    \<and> db_ok d'
    \<and> (\<exists>u \<in> set (users d'). is_identity (vi_tenantId idn) (vi_subject idn) u \<and> u_id u = uid \<and> u_is_active u
         \<and> u_lifecycle_status u = ACTIVE \<and> ver \<le> u_user_version u
         \<and> (\<forall>u0 \<in> set (users d). is_identity (vi_tenantId idn) (vi_subject idn) u0 \<longrightarrow>
              u_id u0 = uid \<and> u_user_version u0 \<le> u_user_version u))
    \<and> filter (\<lambda>r. \<not> is_identity (vi_tenantId idn) (vi_subject idn) r) (users d')
      = filter (\<lambda>r. \<not> is_identity (vi_tenantId idn) (vi_subject idn) r) (users d)"
proof -
  let ?id = "is_identity (vi_tenantId idn) (vi_subject idn)"
  obtain ver aver where v: "vi_tenantId idn = lu_tenantId cfg" "positive_version (vi_userVersion idn) = Some ver"
    "lu_enforcement cfg \<Longrightarrow> positive_version (vi_serviceAccessVersion idn) = Some aver"
    and up: "upsert_user cfg now (local_id uuid) (vi_email idn)
        (case vi_name idn of Some n \<Rightarrow> n | None \<Rightarrow> vi_email idn) (vi_subject idn) (vi_tenantId idn) ver aver d = (d', Inr [uid])"
    by (rule ensure_cases [OF assms(1)]) blast
  have adm: "(\<forall>st. lifecycle_states d (vi_tenantId idn, vi_subject idn) = Some st \<longrightarrow>
         ls_status st = ACTIVE \<and> ls_user_version st \<le> ver)"
    "\<exists>seen. lifecycle_last_seen d = Some seen \<and> now - 60000 < seen"
    "lu_enforcement cfg \<longrightarrow>
         (\<forall>a. access_states d (vi_tenantId idn, vi_subject idn, lu_clientId cfg) = Some a \<longrightarrow>
            as_status a = ACCESS_ACTIVE \<and> as_access_version a \<le> aver)
         \<and> (\<exists>seen. access_last_seen d = Some seen \<and> now - 60000 < seen)"
    using up by (auto simp: upsert_user_def admissible_def lifecycle_bars_def access_bars_def healthy_def
        split: if_splits option.splits)
  from v(3) have v3: "lu_enforcement cfg \<longrightarrow> positive_version (vi_serviceAccessVersion idn) = Some aver" by blast
  from up show ?thesis
  proof (cases rule: upsert_user_Inr)
    case (1 u)
    let ?f = "\<lambda>r. if ?id r then refresh_user (vi_email idn) (case vi_name idn of Some n \<Rightarrow> n | None \<Rightarrow> vi_email idn) ver r else r"
    from 1 have d': "users d' = map ?f (users d)" by (auto simp: store_users_Inr)
    have same: "u0 = u" if "u0 \<in> set (users d)" "?id u0" for u0
      using assms(2) 1 that by (auto simp: db_ok_def intro: identity_unique)
    have w: "?f u \<in> set (users d')" "?id (?f u)" "u_id (?f u) = uid" "u_is_active (?f u)"
      "u_lifecycle_status (?f u) = ACTIVE" "ver \<le> u_user_version (?f u)" "u_user_version u \<le> u_user_version (?f u)"
      using 1 d' by (auto simp: refresh_user_def is_identity_def)
    have "filter (\<lambda>r. \<not> ?id r) (users d') = filter (\<lambda>r. \<not> ?id r) (users d)"
      unfolding d' by (rule filter_map_unchanged) auto
    moreover have "\<forall>u0 \<in> set (users d). ?id u0 \<longrightarrow> u_id u0 = uid \<and> u_user_version u0 \<le> u_user_version (?f u)"
      using same 1(6) w(3,7) by (auto simp: refresh_user_def)
    moreover note v(1,2) v3 adm w store_users_ok [OF 1(7) assms(2)]
    ultimately show ?thesis
      by - (rule exI [of _ ver], rule exI [of _ aver], intro conjI bexI [of _ "?f u"]; assumption)
  next
    case 2
    let ?n = "new_user (local_id uuid) (vi_email idn) (case vi_name idn of Some n \<Rightarrow> n | None \<Rightarrow> vi_email idn)
        (vi_tenantId idn) (vi_subject idn) ver"
    from 2 have d': "users d' = users d @ [?n]" by (auto simp: store_users_Inr)
    then have w: "?n \<in> set (users d')" by simp
    have n: "?id ?n" "u_id ?n = uid" "u_is_active ?n" "u_lifecycle_status ?n = ACTIVE" "ver \<le> u_user_version ?n"
      using 2 by (auto simp: new_user_def is_identity_def)
    have "filter (\<lambda>r. \<not> ?id r) (users d') = filter (\<lambda>r. \<not> ?id r) (users d)"
      using n(1) by (simp add: d')
    moreover have "\<forall>u0 \<in> set (users d). ?id u0 \<longrightarrow> u_id u0 = uid \<and> u_user_version u0 \<le> u_user_version ?n"
      using 2(2) by blast
    moreover note v(1,2) v3 adm w n store_users_ok [OF 2(4) assms(2)]
    ultimately show ?thesis
      by - (rule exI [of _ ver], rule exI [of _ aver], intro conjI bexI [of _ ?n]; assumption)
  qed
qed

text \<open>
  A blocked, withdrawn or deactivated local user is never let in again by logging in: the call
  fails and changes nothing, whatever the token says and however the inboxes stand.
\<close>

theorem inactive_user_stays_out:
  assumes "db_ok d" and "u \<in> set (users d)" and "is_identity (vi_tenantId idn) (vi_subject idn) u"
    and "\<not> (u_is_active u \<and> u_lifecycle_status u = ACTIVE)"
  shows "\<exists>e. ensureLocalUser cfg flt now uuid idn d = (d, Inl e)"
proof -
  have find: "find (is_identity (vi_tenantId idn) (vi_subject idn)) (users d) = Some u"
  proof (cases "find (is_identity (vi_tenantId idn) (vi_subject idn)) (users d)")
    case None
    with assms show ?thesis by (auto simp: find_None_iff)
  next
    case (Some w)
    then have "w \<in> set (users d)" "is_identity (vi_tenantId idn) (vi_subject idn) w"
      by (auto simp: find_Some_iff)
    with assms have "w = u" by (auto simp: db_ok_def intro: identity_unique)
    with Some show ?thesis by simp
  qed
  have up: "upsert_user cfg now i email name (vi_subject idn) ten ver aver d = (d, Inr [])"
    if "ten = vi_tenantId idn" for i email name ten ver aver
    using find assms(4) that by (auto simp: upsert_user_def)
  show ?thesis
    by (auto simp: ensureLocalUser_def bindQ_def query_def up first_id_def present_def split: option.split)
qed

text \<open>
  The order of the two inboxes' writers matters for a subject without a local row: a disabling
  event bars it, but the profile update that follows, being newer, stores the status \<open>ACTIVE\<close>
  again, and a login with the new version then creates an active user although the subject was
  never re-enabled.
\<close>

definition first_login :: "local_cfg \<Rightarrow> identity \<Rightarrow> jstr \<Rightarrow> int \<Rightarrow> db \<Rightarrow> bool" where
  "first_login cfg idn uuid ver d \<longleftrightarrow> \<not> lu_enforcement cfg \<and> db_ok d \<and> vi_tenantId idn = lu_tenantId cfg
     \<and> vi_subject idn \<noteq> [] \<and> vi_email idn \<noteq> [] \<and> positive_version (vi_userVersion idn) = Some ver
     \<and> (\<forall>u \<in> set (users d). \<not> is_identity (vi_tenantId idn) (vi_subject idn) u
          \<and> u_email u \<noteq> vi_email idn \<and> u_id u \<noteq> local_id uuid)"

definition same_subject :: "identity \<Rightarrow> user_event \<Rightarrow> bool" where
  "same_subject idn ev \<longleftrightarrow> ue_tenantId ev = vi_tenantId idn \<and> ue_subjectId ev = vi_subject idn"

lemma no_row_tx:
  assumes "\<forall>u \<in> set (users d). \<not> is_identity (ue_tenantId ev) (ue_subjectId ev) u"
    and "lifecycle_events d (ue_eventId ev) = None" and "newer d ev" and "db_ok d"
  shows "tx_attempt no_faults ev d = d\<lparr>lifecycle_events := (lifecycle_events d)(ue_eventId ev \<mapsto>
            \<lparr>lr_tenant_id = ue_tenantId ev, lr_subject_id = ue_subjectId ev, lr_user_version = ue_userVersion ev\<rparr>),
          lifecycle_states := (lifecycle_states d)((ue_tenantId ev, ue_subjectId ev) \<mapsto> event_state ev)\<rparr>"
proof -
  let ?d1 = "d\<lparr>lifecycle_events := (lifecycle_events d)(ue_eventId ev \<mapsto>
            \<lparr>lr_tenant_id = ue_tenantId ev, lr_subject_id = ue_subjectId ev, lr_user_version = ue_userVersion ev\<rparr>)\<rparr>"
  let ?d2 = "?d1\<lparr>lifecycle_states := (lifecycle_states d)((ue_tenantId ev, ue_subjectId ev) \<mapsto> event_state ev)\<rparr>"
  have none: "\<not> stale_user ev u" if "u \<in> set (users d)" for u
    using assms(1) that by (simp add: stale_user_def)
  have rows: "map (\<lambda>u. if stale_user ev u then f u else u) (users d) = users d" for f
    using none by (simp add: map_idI)
  have "\<exists>uid. sync_user_rows no_faults ev True ?d2 = (?d2, Inr uid)"
  proof -
    have "update_profile ev pf ?d2 = (?d2, Inr ())" for pf
      using rows assms(4) by (simp add: update_profile_def store_users_def db_ok_def)
    moreover have "update_status ev ?d2 = (?d2, Inr [])"
      using none by (simp add: update_status_def Let_def rows filter_empty_conv)
    ultimately show ?thesis
      by (simp add: sync_user_rows_def bindQ_def retQ_def first_id_def present_def)
  qed
  then obtain uid where "sync_user_rows no_faults ev True ?d2 = (?d2, Inr uid)" by blast
  moreover have "upsert_state ev ?d1 = (?d2, Inr True)"
    using assms(3) by (auto simp: upsert_state_Inr)
  moreover have "insert_receipt ev d = (?d1, Inr True)" using assms(2) by (auto simp: insert_receipt_Inr)
  ultimately have "lifecycle_tx no_faults ev d = (?d2, Inr (True, uid))"
    by (simp add: lifecycle_tx_def bindQ_def retQ_def)
  then have "transaction no_faults (lifecycle_tx no_faults ev) d = (?d2, Inr (True, uid))"
    by (simp add: transaction_Inr_iff no_faults_def)
  then show ?thesis by (simp add: tx_attempt_def)
qed

theorem profile_update_reopens:
  assumes "first_login cfg idn uuid (ue_userVersion e2) d" and "same_subject idn e1" and "same_subject idn e2"
    and "ue_eventType e1 = USER_DISABLED" and "ue_eventType e2 = USER_UPDATED"
    and "ue_userVersion e1 < ue_userVersion e2" and "ue_eventId e1 \<noteq> ue_eventId e2"
    and "lifecycle_events d (ue_eventId e1) = None" and "lifecycle_events d (ue_eventId e2) = None"
    and "lifecycle_states d (vi_tenantId idn, vi_subject idn) = None"
    and "healthy now (lifecycle_last_seen d)"
  shows "(\<exists>e. ensureLocalUser cfg no_faults now uuid idn (tx_attempt no_faults e1 d)
            = (tx_attempt no_faults e1 d, Inl e))
    \<and> (\<exists>d'. ensureLocalUser cfg no_faults now uuid idn (tx_attempt no_faults e2 (tx_attempt no_faults e1 d))
            = (d', Inr (local_id uuid)))"
proof -
  have fl: "\<not> lu_enforcement cfg" "db_ok d" "vi_tenantId idn = lu_tenantId cfg" "vi_subject idn \<noteq> []" "vi_email idn \<noteq> []"
    "positive_version (vi_userVersion idn) = Some (ue_userVersion e2)"
    "\<forall>u \<in> set (users d). \<not> is_identity (vi_tenantId idn) (vi_subject idn) u"
    "\<forall>u \<in> set (users d). u_email u \<noteq> vi_email idn \<and> u_id u \<noteq> local_id uuid"
    using assms(1) by (auto simp: first_login_def)
  have k: "ue_tenantId e1 = vi_tenantId idn" "ue_subjectId e1 = vi_subject idn"
    "ue_tenantId e2 = vi_tenantId idn" "ue_subjectId e2 = vi_subject idn"
    using assms(2,3) by (auto simp: same_subject_def)
  let ?d1 = "tx_attempt no_faults e1 d"
  have d1: "?d1 = d\<lparr>lifecycle_events := (lifecycle_events d)(ue_eventId e1 \<mapsto>
            \<lparr>lr_tenant_id = ue_tenantId e1, lr_subject_id = ue_subjectId e1, lr_user_version = ue_userVersion e1\<rparr>),
          lifecycle_states := (lifecycle_states d)((vi_tenantId idn, vi_subject idn) \<mapsto> event_state e1)\<rparr>"
    using no_row_tx [of d e1] fl k assms(8,10) by (simp add: newer_def)
  let ?d2 = "tx_attempt no_faults e2 ?d1"
  have "?d2 = ?d1\<lparr>lifecycle_events := (lifecycle_events ?d1)(ue_eventId e2 \<mapsto>
            \<lparr>lr_tenant_id = ue_tenantId e2, lr_subject_id = ue_subjectId e2, lr_user_version = ue_userVersion e2\<rparr>),
          lifecycle_states := (lifecycle_states ?d1)((vi_tenantId idn, vi_subject idn) \<mapsto> event_state e2)\<rparr>"
    using no_row_tx [of ?d1 e2] fl k assms(4,6,7,9)
    by (simp add: d1 newer_def event_state_def status_of_def db_ok_def)
  then have d2: "lifecycle_states ?d2 (vi_tenantId idn, vi_subject idn) = Some (event_state e2)"
    "users ?d2 = users d" "lifecycle_last_seen ?d2 = lifecycle_last_seen d"
    by (simp_all add: d1)
  have "lifecycle_bars ?d1 (vi_tenantId idn) (vi_subject idn) (ue_userVersion e2)"
    by (simp add: d1 lifecycle_bars_def event_state_def status_of_def assms(4))
  then have one: "\<exists>e. ensureLocalUser cfg no_faults now uuid idn ?d1 = (?d1, Inl e)"
    using fl by (simp add: ensureLocalUser_def bindQ_def upsert_user_def admissible_def first_id_def present_def)
  have adm: "admissible cfg now (vi_tenantId idn) (vi_subject idn) (ue_userVersion e2) a ?d2" for a
    using d2 fl(1) assms(5,11)
    by (simp add: admissible_def lifecycle_bars_def event_state_def status_of_def)
  have nf: "find (is_identity (vi_tenantId idn) (vi_subject idn)) (users ?d2) = None"
    using fl(7) by (simp add: d2 find_None_iff)
  have up: "\<exists>d'. upsert_user cfg now (local_id uuid) (vi_email idn) n (vi_subject idn) (vi_tenantId idn)
      (ue_userVersion e2) a ?d2 = (d', Inr [local_id uuid])" for n a
  proof -
    let ?n = "new_user (local_id uuid) (vi_email idn) n (vi_tenantId idn) (vi_subject idn) (ue_userVersion e2)"
    have "unique_identities (users d @ [?n])"
    proof -
      have "external_identity ?n \<notin> external_identity ` set (filter (\<lambda>r. external_identity r \<noteq> None) (users d))"
        using fl(7) by (auto simp: new_user_def external_identity_iff [symmetric] external_identity_def [of "new_user _ _ _ _ _ _"]
            dest: sym) (simp add: external_identity_def)
      with fl(2) show ?thesis by (simp add: db_ok_def unique_identities_def)
    qed
    then have "store_users (users ?d2 @ [?n]) ?d2 = (?d2\<lparr>users := users d @ [?n]\<rparr>, Inr ())"
      using fl(2,8) by (auto simp: store_users_def d2 new_user_def db_ok_def)
    with adm nf show ?thesis by (simp add: upsert_user_def bindQ_def retQ_def)
  qed
  have "\<exists>d'. ensureLocalUser cfg no_faults now uuid idn ?d2 = (d', Inr (local_id uuid))"
  proof -
    let ?n = "case vi_name idn of Some n \<Rightarrow> n | None \<Rightarrow> vi_email idn"
    let ?a = "case positive_version (vi_serviceAccessVersion idn) of Some a \<Rightarrow> a | None \<Rightarrow> 0"
    obtain d' where "upsert_user cfg now (local_id uuid) (vi_email idn) ?n (vi_subject idn) (vi_tenantId idn)
        (ue_userVersion e2) ?a ?d2 = (d', Inr [local_id uuid])" using up by blast
    moreover have "present (Some (local_id uuid))" by (simp add: present_def local_id_def)
    ultimately show ?thesis
      using fl(1,3-6) by (simp add: ensureLocalUser_def bindQ_def first_id_def)
  qed
  with one show ?thesis by blast
qed

section \<open>Concrete identities\<close>

definition demo_lcfg :: local_cfg where
  "demo_lcfg = \<lparr>lu_tenantId = S ''t1'', lu_enforcement = False, lu_clientId = S ''gw''\<rparr>"

definition demo_idn :: "string \<Rightarrow> int \<Rightarrow> identity" where
  "demo_idn sub n = \<lparr>vi_tenantId = S ''t1'', vi_subject = S sub, vi_email = S ''x@b.c'', vi_name = None,
     vi_userVersion = JNum (NInt n), vi_serviceAccessVersion = JUndef\<rparr>"

lemma demo_db_ok: "db_ok demo_db"
  by (simp add: db_ok_def demo_db_def unique_identities_def external_identity_def)

lemma demo_admissible: "admissible demo_lcfg 0 ten sub ver aver demo_db"
  by (simp add: admissible_def demo_lcfg_def demo_db_def lifecycle_bars_def healthy_def)

theorem ensure_local_user_admits_witness:
  "\<exists>d'. ensureLocalUser demo_lcfg no_faults 0 (S ''7'') (demo_idn ''s1'' 4) demo_db = (d', Inr (S ''u1''))
     \<and> (\<exists>u \<in> set (users d'). u_id u = S ''u1'' \<and> u_is_active u \<and> 4 \<le> u_user_version u)"
proof -
  have "snd (ensureLocalUser demo_lcfg no_faults 0 (S ''7'') (demo_idn ''s1'' 4) demo_db) = Inr (S ''u1'')"
    by code_simp
  then obtain d' where e: "ensureLocalUser demo_lcfg no_faults 0 (S ''7'') (demo_idn ''s1'' 4) demo_db = (d', Inr (S ''u1''))"
    by (metis prod.collapse)
  have "positive_version (vi_userVersion (demo_idn ''s1'' 4)) = Some 4"
    by (simp add: positive_version_def demo_idn_def max_safe_integer_def)
  with ensure_local_user_admits [OF e demo_db_ok] e show ?thesis by auto
qed

theorem inactive_user_stays_out_witness:
  "\<exists>e. ensureLocalUser demo_lcfg no_faults 0 (S ''7'') (demo_idn ''s1'' 4)
      (deactivate_keys (\<lambda>_. True) (demo_db\<lparr>users := map (\<lambda>u. u\<lparr>u_is_active := False\<rparr>) (users demo_db)\<rparr>))
    = (deactivate_keys (\<lambda>_. True) (demo_db\<lparr>users := map (\<lambda>u. u\<lparr>u_is_active := False\<rparr>) (users demo_db)\<rparr>), Inl e)"
  by (rule inactive_user_stays_out [where u = "(hd (users demo_db))\<lparr>u_is_active := False\<rparr>"])
     (simp_all add: db_ok_def demo_db_def deactivate_keys_def unique_identities_def external_identity_def
        is_identity_def demo_idn_def)

definition demo_update :: user_event where
  "demo_update = (demo_event ''e2'' USER_UPDATED 5)\<lparr>ue_subjectId := S ''s9'',
     ue_profile := Some \<lparr>pf_email = S ''x@b.c'', pf_name = S ''X''\<rparr>\<rparr>"

theorem profile_update_reopens_witness:
  "\<exists>d'. ensureLocalUser demo_lcfg no_faults 0 (S ''7'') (demo_idn ''s9'' 5)
      (tx_attempt no_faults demo_update (tx_attempt no_faults
         ((demo_event ''e1'' USER_DISABLED 4)\<lparr>ue_subjectId := S ''s9''\<rparr>) demo_db))
    = (d', Inr (local_id (S ''7'')))"
proof -
  let ?i = "demo_idn ''s9'' 5" and ?e = "(demo_event ''e1'' USER_DISABLED 4)\<lparr>ue_subjectId := S ''s9''\<rparr>"
  have "first_login demo_lcfg ?i (S ''7'') (ue_userVersion demo_update) demo_db"
    by (simp add: first_login_def demo_db_ok demo_update_def demo_event_def demo_lcfg_def demo_idn_def
        positive_version_def max_safe_integer_def demo_db_def is_identity_def local_id_def)
       (use demo_db_ok in \<open>simp add: demo_db_def S_def\<close>)
  from profile_update_reopens [OF this, of ?e 0] show ?thesis
    by (simp add: same_subject_def demo_update_def demo_event_def demo_idn_def demo_db_def healthy_def)
qed

end
