(* ===== verification/UserSync.thy ===== *)
theory UserSync
  imports LocalUser
begin

text \<open>
  The earlier synchronisation stream (\<open>src/events/userSyncConsumer.ts\<close>): unversioned events that
  update or deactivate the rows of an external subject in every tenant.
\<close>

section \<open>The code\<close>

record sync_event =
  se_eventId :: jstr
  se_eventType :: event_type
  se_occurredAt :: jstr
  se_subject_id :: jstr
  se_email :: jstr
  se_name :: jstr

definition sync_event_types :: "(jstr \<times> event_type) list" where
  "sync_event_types = [(S ''USER_CREATED'', USER_CREATED), (S ''USER_UPDATED'', USER_UPDATED),
     (S ''USER_DISABLED'', USER_DISABLED), (S ''USER_DELETED'', USER_DELETED)]"

text \<open>Objects that are not strict: other keys are dropped.\<close>

definition z_object :: "jv \<Rightarrow> (jstr \<times> jv) list option" where
  "z_object v = (case v of JObj kvs \<Rightarrow> Some kvs | _ \<Rightarrow> None)"

definition parse_sync :: "zod_checks \<Rightarrow> jv \<Rightarrow> sync_event option" where
  "parse_sync z input =
     Option.bind (z_object input) (\<lambda>o'.
     Option.bind (z_string (\<lambda>s. s = S ''auth.user.v1'') (jget o' (S ''schema''))) (\<lambda>_.
     Option.bind (z_nonempty (jget o' (S ''eventId''))) (\<lambda>eid.
     Option.bind (z_enum sync_event_types (jget o' (S ''eventType''))) (\<lambda>ty.
     Option.bind (z_string (z_datetime z) (jget o' (S ''occurredAt''))) (\<lambda>occ.
     Option.bind (z_object (jget o' (S ''subject''))) (\<lambda>sub.
     Option.bind (z_nonempty (jget sub (S ''id''))) (\<lambda>i.
     Option.bind (z_string (z_email z) (jget sub (S ''email''))) (\<lambda>em.
     Option.bind (z_nonempty (jget sub (S ''name''))) (\<lambda>nm.
       Some \<lparr>se_eventId = eid, se_eventType = ty, se_occurredAt = occ, se_subject_id = i,
             se_email = em, se_name = nm\<rparr>)))))))))"

definition is_subject :: "jstr \<Rightarrow> user_row \<Rightarrow> bool" where
  "is_subject s r \<longleftrightarrow> u_external_provider r = Some provider \<and> u_external_subject_id r = Some s"

definition sync_tx :: "faults \<Rightarrow> sync_event \<Rightarrow> unit dbm" where
  "sync_tx flt ev =
     bindQ (if se_eventType ev = USER_UPDATED
       then query flt 1 (\<lambda>d. store_users (map (\<lambda>u. if is_subject (se_subject_id ev) u
              then u\<lparr>u_email := se_email ev, u_name := se_name ev\<rparr> else u) (users d)) d)
       else if se_eventType ev = USER_DISABLED \<or> se_eventType ev = USER_DELETED
       then bindQ (query flt 2 (\<lambda>d. (d\<lparr>users := map (\<lambda>u. if is_subject (se_subject_id ev) u
              then u\<lparr>u_is_active := False\<rparr> else u) (users d)\<rparr>, Inr ()))) (\<lambda>_.
            query flt 3 (\<lambda>d. (deactivate_keys (\<lambda>i. i \<in> u_id ` set (filter (is_subject (se_subject_id ev)) (users d))) d, Inr ())))
       else retQ ()) (\<lambda>_. commit flt 4 ())"

definition applyUserSyncEvent :: "zod_checks \<Rightarrow> faults \<Rightarrow> invalidator \<Rightarrow> jv \<Rightarrow> db \<times> redis \<Rightarrow> (db \<times> redis) \<times> unit result" where
  "applyUserSyncEvent z flt invUser input dr =
     (case parse_sync z input of
        None \<Rightarrow> (dr, Inl ZodError)
      | Some ev \<Rightarrow>
          (case transaction flt (sync_tx flt ev) (fst dr) of
             (d, Inl e) \<Rightarrow> ((d, snd dr), Inl e)
           | (d, Inr _) \<Rightarrow>
               if se_eventType ev = USER_DISABLED \<or> se_eventType ev = USER_DELETED
               then (case invUser (local_id (se_subject_id ev)) (snd dr) of (r, res) \<Rightarrow> ((d, r), res))
               else ((d, snd dr), Inr ())))"

text \<open>
  One message of \<open>loop\<close>: invalid messages go to the dead letters and are acknowledged; after any
  other error the message stays pending and nothing retries it.
\<close>

definition sync_process :: "zod_checks \<Rightarrow> faults \<Rightarrow> invalidator \<Rightarrow> faults \<Rightarrow> jstr \<Rightarrow> jv option \<Rightarrow> stream_state \<Rightarrow> stream_state \<times> unit result" where
  "sync_process z flt invUser io i data s =
     (let (s1, res) = (case data of None \<Rightarrow> (s, Inl SyntaxError)
        | Some v \<Rightarrow> (case applyUserSyncEvent z flt invUser v (ss_db s, ss_redis s) of
             ((d, r), res) \<Rightarrow> (s\<lparr>ss_db := d, ss_redis := r\<rparr>, res)));
          acked = (case res of Inl e \<Rightarrow> (s1, Inl e)
            | Inr _ \<Rightarrow> (case io 0 of Some e \<Rightarrow> (s1, Inl e) | None \<Rightarrow> (s1\<lparr>ss_acked := i # ss_acked s1\<rparr>, Inr ())))
      in case acked of
          (s2, Inr _) \<Rightarrow> (s2, Inr ())
        | (s2, Inl e) \<Rightarrow>
            if err_name e = S ''ZodError'' \<or> err_name e = S ''SyntaxError'' then
              (case io 1 of Some e' \<Rightarrow> (s2, Inl e') | None \<Rightarrow>
                let s3 = s2\<lparr>ss_dlq := ss_dlq s2 @ [(i, S ''INVALID_EVENT'')]\<rparr> in
                (case io 2 of Some e' \<Rightarrow> (s3, Inl e') | None \<Rightarrow> (s3\<lparr>ss_acked := i # ss_acked s3\<rparr>, Inr ())))
            else (s2, Inr ()))"

section \<open>Properties\<close>

definition own_entries :: "int \<Rightarrow> redis \<Rightarrow> bool" where
  "own_entries now r \<longleftrightarrow> (\<forall>w ms h p. live now r (user_index w) = Some (RMembers ms) \<longrightarrow> cache_key h \<in> set ms \<longrightarrow>
     live now r (cache_key h) = Some (RPrincipal p) \<longrightarrow> p_userId p = w)"

lemma other_index_kept:
  assumes inv: "cache_inv now r" and "invalidateUser no_faults now w r = (r', Inr ())"
    and l: "live now r (cache_key h) = Some (RPrincipal p)" and "p_userId p \<noteq> w" and ok: "own_entries now r"
  shows "r' (cache_key h) = r (cache_key h)"
proof -
  obtain ms where ms: "r_smembers now (user_index w) r = Inr ms" "set ms \<subseteq> range cache_key"
    by (rule index_members [OF inv, of w]) (rule that; blast)
  have r': "r' = r_del (user_index w # ms) r"
    using assms(2) drop_indexed_ok [OF ms(1)] by (simp add: invalidateUser_def)
  have "cache_key h \<notin> set ms"
  proof
    assume "cache_key h \<in> set ms"
    with ms(1) have "live now r (user_index w) = Some (RMembers ms)"
      by (auto simp: r_smembers_def split: option.splits rval.splits)
    with ok l \<open>cache_key h \<in> set ms\<close> assms(4) show False unfolding own_entries_def by blast
  qed
  then show ?thesis by (simp add: r' r_del_def)
qed

text \<open>
  A disabling or deleting synchronisation event deactivates every row of the subject and all
  their keys, but it invalidates the cache of the id built from the subject, which is not the
  random id that \<open>ensureLocalUser\<close> gave the row: a key of the deactivated user that was cached
  keeps verifying until its cache entry expires.
\<close>

theorem sync_disable_leaves_cache:
  assumes "parse_sync z input = Some ev"
    and "se_eventType ev = USER_DISABLED \<or> se_eventType ev = USER_DELETED"
    and "applyUserSyncEvent z no_faults (invalidateUser no_faults now) input (d, r) = ((d', r'), Inr ())"
    and "cache_inv now r" and "own_entries now r"
    and "u \<in> set (users d)" and "is_subject (se_subject_id ev) u" and "u_id u \<noteq> local_id (se_subject_id ev)"
    and "r (cache_key (sha_hex key)) = Some (RPrincipal p, Some e)" and "p_userId p = u_id u"
    and "well_formed_key key" and "now \<le> t" and "t < e"
  shows "u\<lparr>u_is_active := False\<rparr> \<in> set (users d')
    \<and> (\<forall>k \<in> set (api_keys d'). k_user_id k = u_id u \<longrightarrow> \<not> k_is_active k)
    \<and> verify cfg sha_hex no_faults t key d' r' = (r', Inr (Some p))"
proof -
  let ?P = "is_subject (se_subject_id ev)"
  let ?d1 = "d\<lparr>users := map (\<lambda>u. if ?P u then u\<lparr>u_is_active := False\<rparr> else u) (users d)\<rparr>"
  let ?d2 = "deactivate_keys (\<lambda>i. i \<in> u_id ` set (filter ?P (users ?d1))) ?d1"
  have "sync_tx no_faults ev d = (?d2, Inr ())"
    using assms(2) by (auto simp: sync_tx_def bindQ_def retQ_def commit_def)
  then have "transaction no_faults (sync_tx no_faults ev) d = (?d2, Inr ())"
    by (simp add: transaction_Inr_iff no_faults_def)
  with assms(1-3) have d': "d' = ?d2" and inv: "invalidateUser no_faults now (local_id (se_subject_id ev)) r = (r', Inr ())"
    by (auto simp: applyUserSyncEvent_def split: prod.splits)
  have P: "?P (u\<lparr>u_is_active := b\<rparr>) = ?P u" for b and u :: user_row by (simp add: is_subject_def)
  have u1: "u\<lparr>u_is_active := False\<rparr> \<in> set (users ?d1)" using assms(6,7) by force
  then have "u\<lparr>u_is_active := False\<rparr> \<in> set (filter ?P (users ?d1))"
    unfolding set_filter using P assms(7) by blast
  then have "u_id (u\<lparr>u_is_active := False\<rparr>) \<in> u_id ` set (filter ?P (users ?d1))" by (rule imageI)
  then have active: "u_id u \<in> u_id ` set (filter ?P (users ?d1))" by simp
  have "\<forall>k \<in> set (api_keys d'). k_user_id k = u_id u \<longrightarrow> \<not> k_is_active k"
    unfolding d' deactivate_keys_def using active by (simp del: set_filter set_map) fastforce
  moreover have "u\<lparr>u_is_active := False\<rparr> \<in> set (users d')" using u1 by (simp add: d' deactivate_keys_def)
  moreover have "verify cfg sha_hex no_faults t key d' r' = (r', Inr (Some p))"
  proof -
    have "live now r (cache_key (sha_hex key)) = Some (RPrincipal p)"
      using assms(9,12,13) by (simp add: live_def)
    from other_index_kept [OF assms(4) inv this _ assms(5)] assms(8-10)
    have "r' (cache_key (sha_hex key)) = Some (RPrincipal p, Some e)" by simp
    then have "cached_principal t (sha_hex key) r' = Inr (Some p)"
      using assms(13) by (simp add: cached_principal_def live_def)
    with assms(11) show ?thesis by (simp add: verify_def Let_def no_faults_def)
  qed
  ultimately show ?thesis by blast
qed

definition demo_sync_json :: jv where
  "demo_sync_json = JObj [(S ''schema'', JStr (S ''auth.user.v1'')), (S ''eventId'', JStr (S ''e1'')),
     (S ''eventType'', JStr (S ''USER_DISABLED'')), (S ''occurredAt'', JStr []),
     (S ''subject'', JObj [(S ''id'', JStr (S ''s1'')), (S ''email'', JStr (S ''a@b.c'')), (S ''name'', JStr (S ''A''))])]"

definition demo_cache :: redis where
  "demo_cache = [cache_key demo_key \<mapsto> (RPrincipal demo_p, Some 60000),
     user_index (S ''u1'') \<mapsto> (RMembers [cache_key demo_key], Some 65000)]"

lemma demo_cache_ok: "cache_inv 0 demo_cache" "own_entries 0 demo_cache"
  by (auto simp: cache_inv_def own_entries_def demo_cache_def live_def demo_p_def split: if_splits)

theorem sync_disable_leaves_cache_witness:
  "\<exists>d' r'. applyUserSyncEvent demo_z no_faults (invalidateUser no_faults 0) demo_sync_json (demo_db, demo_cache) = ((d', r'), Inr ())
     \<and> (\<forall>k \<in> set (api_keys d'). k_user_id k = S ''u1'' \<longrightarrow> \<not> k_is_active k)
     \<and> verify demo_cfg id no_faults 59999 demo_key d' r' = (r', Inr (Some demo_p))"
proof -
  let ?ev = "\<lparr>se_eventId = S ''e1'', se_eventType = USER_DISABLED, se_occurredAt = [], se_subject_id = S ''s1'',
      se_email = S ''a@b.c'', se_name = S ''A''\<rparr>"
  have parse: "parse_sync demo_z demo_sync_json = Some ?ev" by code_simp
  have "snd (applyUserSyncEvent demo_z no_faults (invalidateUser no_faults 0) demo_sync_json (demo_db, demo_cache)) = Inr ()"
    by code_simp
  then obtain d' r' where ap: "applyUserSyncEvent demo_z no_faults (invalidateUser no_faults 0) demo_sync_json (demo_db, demo_cache) = ((d', r'), Inr ())"
    by (metis prod.collapse)
  let ?u = "hd (users demo_db)"
  have u: "?u \<in> set (users demo_db)" "is_subject (se_subject_id ?ev) ?u" "u_id ?u \<noteq> local_id (se_subject_id ?ev)"
    by (simp_all add: demo_db_def is_subject_def local_id_def S_def)
  have c: "demo_cache (cache_key (id demo_key)) = Some (RPrincipal demo_p, Some 60000)" "p_userId demo_p = u_id ?u"
    by (simp_all add: demo_cache_def demo_p_def demo_db_def)
  have "u_id ?u = S ''u1''" by (simp add: demo_db_def)
  with sync_disable_leaves_cache [where cfg = demo_cfg and t = 59999 and sha_hex = id and key = demo_key, OF parse _ ap demo_cache_ok u c demo_key_ok] ap
  show ?thesis by auto
qed

end
