(* ===== verification/JsValue.thy ===== *)
theory JsValue
  imports Prelude
begin

text \<open>
  Recursion over JavaScript values: the size facts that make a traversal of nested arrays and
  objects terminate, loops that stop at the first exception, property assignment on a plain
  object, and the reading of a value the traversals of the policy layer are specified with: its
  string leaves with their paths, and its shape.
\<close>

section \<open>Termination of traversals\<close>

lemma jv_size_elem [termination_simp]: "x \<in> set xs \<Longrightarrow> size x < Suc (size_list size xs)"
  by (induction xs) auto

lemma jv_size_indexed [termination_simp]:
  "(i, x) \<in> set (List.enumerate n xs) \<Longrightarrow> size x < Suc (size_list size xs)"
  by (rule jv_size_elem) (metis in_set_enumerate_eq nth_mem snd_conv fst_conv add_diff_cancel_left' less_diff_conv2 le_add_diff_inverse2 add.commute less_imp_le)

lemma jv_size_field [termination_simp]:
  "(k, x) \<in> set kvs \<Longrightarrow> size x < Suc (size_list (\<lambda>x. Suc (size (snd x))) kvs)"
  by (induction kvs) auto

section \<open>Loops over checks that may throw\<close>

fun check_each :: "('a \<Rightarrow> 'e + unit) \<Rightarrow> 'a list \<Rightarrow> 'e + unit" where
  "check_each f [] = Inr ()"
| "check_each f (x # xs) = bindE (f x) (\<lambda>_. check_each f xs)"

lemma check_each_cong [fundef_cong]:
  "xs = ys \<Longrightarrow> (\<And>x. x \<in> set ys \<Longrightarrow> f x = g x) \<Longrightarrow> check_each f xs = check_each g ys"
  by (induction xs arbitrary: ys) auto

lemma check_each_ok: "check_each f xs = Inr () \<longleftrightarrow> (\<forall>x \<in> set xs. f x = Inr ())"
  by (induction xs) (auto simp: bindE_Inr_iff)

lemma check_each_append: "check_each f (xs @ ys) = bindE (check_each f xs) (\<lambda>_. check_each f ys)"
  by (induction xs) (auto simp: bindE_def split: sum.splits)

lemma check_each_concat: "check_each f (concat xss) = check_each (check_each f) xss"
  by (induction xss) (auto simp: check_each_append)

lemma check_each_map: "check_each f (map g xs) = check_each (f \<circ> g) xs"
  by (induction xs) auto

lemma check_each_error: "check_each f xs = Inl e \<longleftrightarrow>
    (\<exists>ys x zs. xs = ys @ x # zs \<and> f x = Inl e \<and> (\<forall>y \<in> set ys. f y = Inr ()))"
proof (induction xs)
  case Nil
  then show ?case by simp
next
  case (Cons a xs)
  show ?case
  proof (cases "f a")
    case (Inl e')
    show ?thesis
    proof
      assume "check_each f (a # xs) = Inl e"
      with Inl show "\<exists>ys x zs. a # xs = ys @ x # zs \<and> f x = Inl e \<and> (\<forall>y \<in> set ys. f y = Inr ())"
        by (intro exI [of _ "[]"]) simp
    next
      assume "\<exists>ys x zs. a # xs = ys @ x # zs \<and> f x = Inl e \<and> (\<forall>y \<in> set ys. f y = Inr ())"
      with Inl show "check_each f (a # xs) = Inl e" by (auto simp: Cons_eq_append_conv)
    qed
  next
    case (Inr u)
    have "(\<exists>ys x zs. a # xs = ys @ x # zs \<and> f x = Inl e \<and> (\<forall>y \<in> set ys. f y = Inr ())) \<longleftrightarrow>
        (\<exists>ys x zs. xs = ys @ x # zs \<and> f x = Inl e \<and> (\<forall>y \<in> set ys. f y = Inr ()))"
      (is "?l \<longleftrightarrow> ?r")
    proof
      assume ?l
      then obtain ys x zs where l: "a # xs = ys @ x # zs" "f x = Inl e" "\<forall>y \<in> set ys. f y = Inr ()" by blast
      with Inr show ?r by (cases ys) auto
    next
      assume ?r
      then obtain ys x zs where l: "xs = ys @ x # zs" "f x = Inl e" "\<forall>y \<in> set ys. f y = Inr ()" by blast
      with Inr show ?l by (intro exI [of _ "a # ys"]) auto
    qed
    with Inr Cons show ?thesis by simp
  qed
qed

lemma check_each_errorD: "check_each f xs = Inl e \<Longrightarrow> \<exists>x \<in> set xs. f x = Inl e"
  by (auto simp: check_each_error)

section \<open>Plain objects\<close>

text \<open>
  Assignment \<open>o[k] = v\<close> to a plain object: the property is replaced in place or added at the end.
  The key \<open>__proto__\<close> sets the prototype and adds no own property. The loops of the source copy
  the entries of an object in their order, so that integer keys, which \<open>Object.entries\<close> lists
  first, are assigned in the order the copy lists them.
\<close>

definition proto_key :: jstr where
  "proto_key = S ''__proto__''"

fun jput :: "(jstr \<times> jv) list \<Rightarrow> jstr \<Rightarrow> jv \<Rightarrow> (jstr \<times> jv) list" where
  "jput [] k v = [(k, v)]"
| "jput ((k', v') # kvs) k v = (if k' = k then (k', v) # kvs else (k', v') # jput kvs k v)"

definition jassign :: "(jstr \<times> jv) list \<Rightarrow> jstr \<times> jv \<Rightarrow> (jstr \<times> jv) list" where
  "jassign kvs kv = (if fst kv = proto_key then kvs else jput kvs (fst kv) (snd kv))"

definition assign_all :: "(jstr \<times> jv) list \<Rightarrow> jv" where
  "assign_all kvs = JObj (foldl jassign [] kvs)"

definition own_fields :: "(jstr \<times> jv) list \<Rightarrow> (jstr \<times> jv) list" where
  "own_fields kvs = filter (\<lambda>kv. fst kv \<noteq> proto_key) kvs"

lemma set_own_fields [termination_simp]: "kv \<in> set (own_fields kvs) \<longleftrightarrow> kv \<in> set kvs \<and> fst kv \<noteq> proto_key"
  by (auto simp: own_fields_def)

lemma jput_new: "k \<notin> fst ` set kvs \<Longrightarrow> jput kvs k v = kvs @ [(k, v)]"
  by (induction kvs k v rule: jput.induct) auto

lemma foldl_jassign:
  "distinct (map fst (acc @ kvs)) \<Longrightarrow> foldl jassign acc kvs = acc @ own_fields kvs"
proof (induction kvs arbitrary: acc)
  case Nil
  then show ?case by (simp add: own_fields_def)
next
  case (Cons kv kvs)
  obtain k v where kv: "kv = (k, v)" by (cases kv)
  show ?case
  proof (cases "k = proto_key")
    case True
    with Cons kv show ?thesis by (simp add: jassign_def own_fields_def)
  next
    case False
    from Cons.prems kv have "k \<notin> fst ` set acc" by auto
    then have "jassign acc kv = acc @ [(k, v)]"
      using False kv by (simp add: jassign_def jput_new)
    with Cons kv False show ?thesis by (simp add: own_fields_def)
  qed
qed

lemma assign_all_distinct: "distinct (map fst kvs) \<Longrightarrow> assign_all kvs = JObj (own_fields kvs)"
  using foldl_jassign [of "[]" kvs] by (simp add: assign_all_def)

text \<open>A value as the engine holds it: the keys of every object are distinct.\<close>

fun wf_jv :: "jv \<Rightarrow> bool" where
  "wf_jv (JArr xs) = (\<forall>x \<in> set xs. wf_jv x)"
| "wf_jv (JObj kvs) = (distinct (map fst kvs) \<and> (\<forall>kv \<in> set kvs. wf_jv (snd kv)))"
| "wf_jv _ = True"

section \<open>Shape and leaves\<close>

text \<open>The shape of a value: its structure, keys and non-string leaves.\<close>

fun shape :: "jv \<Rightarrow> jv" where
  "shape (JStr s) = JStr []"
| "shape (JArr xs) = JArr (map shape xs)"
| "shape (JObj kvs) = JObj (map (\<lambda>(k, v). (k, shape v)) (own_fields kvs))"
| "shape v = v"

text \<open>Paths as the messages of the policy layer write them, and the string leaves in document order.\<close>

definition index_path :: "jstr \<Rightarrow> nat \<Rightarrow> jstr" where
  "index_path path i = path @ S ''['' @ dec_nat i @ S '']''"

definition key_path :: "jstr \<Rightarrow> jstr \<Rightarrow> jstr" where
  "key_path path key = (if path \<noteq> [] then path @ S ''.'' @ key else key)"

fun leaves :: "jstr \<Rightarrow> jv \<Rightarrow> (jstr \<times> jstr) list" where
  "leaves path (JStr s) = [(path, s)]"
| "leaves path (JArr xs) = concat (map (\<lambda>(i, x). leaves (index_path path i) x) (List.enumerate 0 xs))"
| "leaves path (JObj kvs) = concat (map (\<lambda>(k, x). leaves (key_path path k) x) kvs)"
| "leaves path _ = []"

fun str_leaves :: "jv \<Rightarrow> jstr list" where
  "str_leaves (JStr s) = [s]"
| "str_leaves (JArr xs) = concat (map str_leaves xs)"
| "str_leaves (JObj kvs) = concat (map (\<lambda>(k, x). str_leaves x) kvs)"
| "str_leaves _ = []"

lemma leaves_str_leaves: "map snd (leaves path v) = str_leaves v"
proof (induction path v rule: leaves.induct)
  case (2 path xs)
  have "map snd (leaves path (JArr xs)) = concat (map (\<lambda>(i, x). str_leaves x) (List.enumerate 0 xs))"
    using 2 by (auto simp: map_concat intro!: arg_cong [of _ _ concat])
  also have "map (\<lambda>(i, x). str_leaves x) (List.enumerate 0 xs) = map str_leaves (map snd (List.enumerate 0 xs))"
    by (simp only: map_map) (auto simp: comp_def)
  finally show ?case by simp
next
  case (3 path kvs)
  then show ?case by (auto simp: map_concat intro!: arg_cong [of _ _ concat])
qed auto

section \<open>Reading values\<close>

text \<open>A sequence of checks, of which the first failure is the exception.\<close>

definition checks :: "('e + unit) list \<Rightarrow> 'e + unit" where
  "checks cs = check_each (\<lambda>c. c) cs"

definition ensure :: "'e \<Rightarrow> bool \<Rightarrow> 'e + unit" where
  "ensure e b = (if b then Inr () else Inl e)"

lemma checks_ok: "checks cs = Inr () \<longleftrightarrow> (\<forall>c \<in> set cs. c = Inr ())"
  by (simp add: checks_def check_each_ok)

lemma ensure_ok [simp]: "ensure e b = Inr () \<longleftrightarrow> b"
  by (simp add: ensure_def)

definition fields_of :: "jv \<Rightarrow> (jstr \<times> jv) list" where
  "fields_of v = (case v of JObj kvs \<Rightarrow> kvs | _ \<Rightarrow> [])"

definition is_record :: "jv \<Rightarrow> bool" where
  "is_record v = (case v of JObj _ \<Rightarrow> True | _ \<Rightarrow> False)"

definition text_of :: "jv \<Rightarrow> jstr" where
  "text_of v = (case v of JStr s \<Rightarrow> s | _ \<Rightarrow> [])"

definition is_text :: "(jstr \<Rightarrow> bool) \<Rightarrow> jv \<Rightarrow> bool" where
  "is_text P v = (case v of JStr s \<Rightarrow> P s | _ \<Rightarrow> False)"

definition is_one_of :: "string list \<Rightarrow> jv \<Rightarrow> bool" where
  "is_one_of names v \<longleftrightarrow> is_text (\<lambda>s. s \<in> set (map S names)) v"

definition only_keys :: "string list \<Rightarrow> (jstr \<times> jv) list \<Rightarrow> bool" where
  "only_keys allowed kvs \<longleftrightarrow> (\<forall>k \<in> fst ` set kvs. k \<in> set (map S allowed))"

end
