(* ===== verification/PiiMasker.thy ===== *)
theory PiiMasker
  imports JsRegex JsValue
begin

text \<open>
  Masking of personal data in text (\<open>src/policy/piiMasker.ts\<close>): the four expressions, the four
  replacements in their order, and the recursion over JavaScript values.
\<close>

definition digits :: "nat \<Rightarrow> re" where
  "digits n = rrep n (RCls is_digit)"

definition sep_opt :: re where
  "sep_opt = ropt (RCls (one_of ''- ''))"

definition KOREAN_RRN_REGEX :: re where
  "KOREAN_RRN_REGEX = rseqs [RWordB, RCap 1 (digits 6), sep_opt,
     RCap 2 (RSeq (RCls (\<lambda>c. 49 \<le> c \<and> c \<le> 56)) (digits 6)), RWordB]"

definition KR_PHONE_REGEX :: re where
  "KR_PHONE_REGEX = rseqs
     [RAlt (rseqs [ropt (rchr 43), rlit (S ''82''), sep_opt]) (rchr 48),
      RCap 1 (ralts [RSeq (rchr 49) (RCls is_digit), rchr 50,
        RSeq (RCls (\<lambda>c. 51 \<le> c \<and> c \<le> 54)) (RCls (\<lambda>c. 49 \<le> c \<and> c \<le> 53)), rlit (S ''70'')]),
      sep_opt, RCap 2 (RSeq (digits 3) (ropt (RCls is_digit))), sep_opt, RCap 3 (digits 4), RWordB]"

definition EMAIL_REGEX :: re where
  "EMAIL_REGEX = rseqs [RWordB, RCap 1 (rplus (RCls (\<lambda>c. is_alnum c \<or> one_of ''_.+-'' c))), rchr 64,
     RCap 2 (rseqs [rplus (RCls (\<lambda>c. is_alnum c \<or> c = 45)), rchr 46,
       rplus (RCls (\<lambda>c. is_alnum c \<or> one_of ''-.'' c))]), RWordB]"

definition CREDIT_CARD_REGEX :: re where
  "CREDIT_CARD_REGEX = rseqs [RWordB, RCap 1 (digits 4), sep_opt, RCap 2 (digits 4), sep_opt,
     RCap 3 (digits 4), sep_opt, RCap 4 (digits 4), RWordB]"

definition mask_card :: "jstr \<Rightarrow> (nat \<times> jstr) list \<Rightarrow> jstr" where
  "mask_card m k = group k 1 @ S ''-****-****-'' @ group k 4"

definition mask_rrn :: "jstr \<Rightarrow> (nat \<times> jstr) list \<Rightarrow> jstr" where
  "mask_rrn m k = group k 1 @ S ''-*******''"

definition mask_phone :: "jstr \<Rightarrow> (nat \<times> jstr) list \<Rightarrow> jstr" where
  "mask_phone m k = (let maskedMid = replicate (length (group k 2)) 42;
       normalizedPrefix = (if startsWith (group k 1) (S ''0'') then group k 1 else S ''0'' @ group k 1)
     in normalizedPrefix @ S ''-'' @ maskedMid @ S ''-'' @ group k 3)"

definition mask_email :: "jstr \<Rightarrow> (nat \<times> jstr) list \<Rightarrow> jstr" where
  "mask_email m k = (let user = group k 1; domain = group k 2 in
     if length user \<le> 1 then user @ S ''***@'' @ domain
     else [hd user] @ S ''***'' @ [last user] @ S ''@'' @ domain)"

definition maskPii :: "jstr \<Rightarrow> jstr" where
  "maskPii text =
     (if text = [] then text
      else re_replace EMAIL_REGEX mask_email
        (re_replace KR_PHONE_REGEX mask_phone
          (re_replace KOREAN_RRN_REGEX mask_rrn
            (re_replace CREDIT_CARD_REGEX mask_card text))))"

fun deepMaskPii :: "jv \<Rightarrow> jv" where
  "deepMaskPii (JStr s) = JStr (maskPii s)"
| "deepMaskPii (JArr xs) = JArr (map deepMaskPii xs)"
| "deepMaskPii (JObj kvs) = assign_all (map (\<lambda>(k, v). (k, deepMaskPii v)) kvs)"
| "deepMaskPii v = v"

lemmas pii_regexes = KOREAN_RRN_REGEX_def KR_PHONE_REGEX_def EMAIL_REGEX_def CREDIT_CARD_REGEX_def

section \<open>Shape\<close>

lemma own_fields_map: "own_fields (map (\<lambda>(k, v). (k, f v)) kvs) = map (\<lambda>(k, v). (k, f v)) (own_fields kvs)"
  for f :: "jv \<Rightarrow> jv"
  by (induction kvs) (auto simp: own_fields_def)

lemma own_fields_idem: "own_fields (own_fields kvs) = own_fields kvs"
  by (simp add: own_fields_def)

lemma map_fst_fields: "map fst (map (\<lambda>(k, v). (k, f v)) kvs) = map fst kvs"
  by (induction kvs) auto

text \<open>A copy loop that transforms every field keeps the shape when the transformation does.\<close>

lemma shape_assign_all:
  fixes f :: "jv \<Rightarrow> jv"
  assumes "distinct (map fst kvs)" and "\<And>k v. (k, v) \<in> set kvs \<Longrightarrow> shape (f v) = shape v"
  shows "shape (assign_all (map (\<lambda>(k, v). (k, f v)) kvs)) = shape (JObj kvs)"
proof -
  have "distinct (map fst (map (\<lambda>(k, v). (k, f v)) kvs))"
    by (simp only: map_fst_fields assms(1))
  then have "shape (assign_all (map (\<lambda>(k, v). (k, f v)) kvs))
      = JObj (map (\<lambda>(k, v). (k, shape v)) (map (\<lambda>(k, v). (k, f v)) (own_fields kvs)))"
    by (simp only: assign_all_distinct shape.simps own_fields_map own_fields_idem)
  also have "\<dots> = shape (JObj kvs)"
    using assms(2) by (auto simp: set_own_fields)
  finally show ?thesis .
qed

lemma str_leaves_assign_all:
  fixes f :: "jv \<Rightarrow> jv"
  assumes "distinct (map fst kvs)"
  shows "set (str_leaves (assign_all (map (\<lambda>(k, v). (k, f v)) kvs)))
    \<subseteq> (\<Union>kv \<in> set kvs. set (str_leaves (f (snd kv))))"
proof -
  have "distinct (map fst (map (\<lambda>(k, v). (k, f v)) kvs))"
    by (simp only: map_fst_fields assms(1))
  then have "str_leaves (assign_all (map (\<lambda>(k, v). (k, f v)) kvs))
      = str_leaves (JObj (map (\<lambda>(k, v). (k, f v)) (own_fields kvs)))"
    by (simp only: assign_all_distinct own_fields_map)
  then show ?thesis by (force simp: set_own_fields)
qed

lemma deepMaskPii_shape: "wf_jv v \<Longrightarrow> shape (deepMaskPii v) = shape v"
  by (induction v rule: deepMaskPii.induct) (auto intro!: shape_assign_all simp del: shape.simps(3))

section \<open>Examples\<close>

lemma mask_card_example:
  "maskPii (S ''card 1234-5678-9012-3456.'') = S ''card 1234-****-****-3456.''"
  by code_simp

lemma mask_phone_example: "maskPii (S ''+82-10-1234-5678'') = S ''010-****-5678''"
  by code_simp

lemma mask_email_example: "maskPii (S ''a@test.com'') = S ''a***@test.com''"
  by code_simp

text \<open>
  The scan of one expression does not look at its own output: digits that follow a masked card
  number can complete another card number with the group the mask kept.
\<close>

lemma card_rescan_example:
  "maskPii (S ''1111-2222-3333-4444-5555-6666-7777'') = S ''1111-****-****-4444-5555-6666-7777''"
  by code_simp

end
