(* ===== verification/Runs.thy ===== *)
theory Runs
  imports JsRegex
begin

text \<open>
  Global matching of \<open>/[...]{n,}/g\<close>: the matches are exactly the maximal runs of class members
  that are at least \<open>n\<close> long. The token scanners of the source are of this form.
\<close>

definition run_re :: "nat \<Rightarrow> (nat \<Rightarrow> bool) \<Rightarrow> re" where
  "run_re n P = rrep_min n (RCls P)"

lemma dropWhile_Cons_length: "dropWhile P s = c # cs \<Longrightarrow> length cs < length s"
  using length_dropWhile_le [of P s] by simp

lemma dropWhile_head: "dropWhile P s = c # cs \<Longrightarrow> \<not> P c"
  using hd_dropWhile [of P s] by auto

lemma star_cls_head:
  "length s \<le> m \<Longrightarrow> \<exists>pr' qs. star_ends (ends (RCls P)) m (MPos pr s k) = MPos pr' (dropWhile P s) k # qs"
proof (induction m arbitrary: pr s)
  case 0
  then show ?case by simp
next
  case (Suc m)
  show ?case
  proof (cases s)
    case Nil
    then show ?thesis by simp
  next
    case (Cons c cs)
    with Suc.prems have "length cs \<le> m" by simp
    from Suc.IH [OF this, of "Some c"] obtain pr' qs where
      "star_ends (ends (RCls P)) m (MPos (Some c) cs k) = MPos pr' (dropWhile P cs) k # qs" by blast
    moreover have "star_ends (ends (RCls P)) (Suc m) (MPos pr (c # cs) k) =
        (if P c then star_ends (ends (RCls P)) m (MPos (Some c) cs k) else []) @ [MPos pr (c # cs) k]"
    proof -
      have "ends (RCls P) (MPos pr (c # cs) k) = (if P c then [MPos (Some c) cs k] else [])" by simp
      then show ?thesis by (simp del: ends.simps)
    qed
    ultimately show ?thesis using Cons by (simp del: ends.simps star_ends.simps)
  qed
qed

lemma rrep_cls:
  "ends (rrep n (RCls P)) (MPos pr s k) =
     (if n \<le> length (takeWhile P s)
      then [MPos (if n = 0 then pr else Some (s ! (n - 1))) (drop n s) k] else [])"
proof (induction n arbitrary: pr s)
  case 0
  then show ?case by simp
next
  case (Suc n)
  show ?case
  proof (cases s)
    case Nil
    then show ?thesis by simp
  next
    case (Cons c cs)
    then show ?thesis by (auto simp: Suc.IH nth_Cons')
  qed
qed

lemma dropWhile_drop: "n \<le> length (takeWhile P s) \<Longrightarrow> dropWhile P (drop n s) = dropWhile P s"
  by (induction s arbitrary: n) (auto simp: drop_Cons' split: if_splits)

lemma run_re_ends:
  "length (takeWhile P s) < n \<Longrightarrow> ends (run_re n P) (MPos pr s k) = []"
  "n \<le> length (takeWhile P s) \<Longrightarrow>
     \<exists>pr' qs. ends (run_re n P) (MPos pr s k) = MPos pr' (dropWhile P s) k # qs"
proof -
  show "ends (run_re n P) (MPos pr s k) = []" if "length (takeWhile P s) < n"
    using that by (simp add: run_re_def rrep_min_def rrep_cls)
  assume n: "n \<le> length (takeWhile P s)"
  obtain pr' qs where
    "star_ends (ends (RCls P)) (length (drop n s))
       (MPos (if n = 0 then pr else Some (s ! (n - 1))) (drop n s) k) = MPos pr' (dropWhile P (drop n s)) k # qs"
    using star_cls_head [OF order_refl] by blast
  with n show "\<exists>pr' qs. ends (run_re n P) (MPos pr s k) = MPos pr' (dropWhile P s) k # qs"
    by (simp add: run_re_def rrep_min_def rrep_cls dropWhile_drop)
qed

text \<open>The scan by maximal runs.\<close>

function run_segs :: "nat \<Rightarrow> (nat \<Rightarrow> bool) \<Rightarrow> jstr \<Rightarrow> seg list" where
  "run_segs n P s =
     (let u = takeWhile P s; v = dropWhile P s in
      (if n \<le> length u then [Hit u []] else map Plain u)
      @ (case v of [] \<Rightarrow> [] | c # cs \<Rightarrow> Plain c # run_segs n P cs))"
  by pat_completeness auto
termination
  by (relation "measure (\<lambda>(n, P, s). length s)") (auto dest: dropWhile_Cons_length dropWhile_Cons_length [OF sym])

declare run_segs.simps [simp del]

lemma run_segs_Nil [simp]: "0 < n \<Longrightarrow> run_segs n P [] = []"
  by (subst run_segs.simps) simp

lemma run_segs_stop: "0 < n \<Longrightarrow> \<not> P c \<Longrightarrow> run_segs n P (c # cs) = Plain c # run_segs n P cs"
  by (subst run_segs.simps) simp

lemma run_segs_short:
  assumes "0 < n" and "P c" and "length (takeWhile P (c # cs)) < n"
  shows "run_segs n P (c # cs) = Plain c # run_segs n P cs"
proof -
  have "run_segs n P cs = map Plain (takeWhile P cs) @
      (case dropWhile P cs of [] \<Rightarrow> [] | d # ds \<Rightarrow> Plain d # run_segs n P ds)"
    using assms by (subst run_segs.simps) (simp add: Let_def)
  moreover have "run_segs n P (c # cs) = Plain c # map Plain (takeWhile P cs) @
      (case dropWhile P cs of [] \<Rightarrow> [] | d # ds \<Rightarrow> Plain d # run_segs n P ds)"
    using assms by (subst run_segs.simps) (simp add: Let_def)
  ultimately show ?thesis by simp
qed

lemma segments_run_re: "0 < n \<Longrightarrow> segments (run_re n P) pr s = run_segs n P s"
proof (induction "length s" arbitrary: pr s rule: less_induct)
  case less
  show ?case
  proof (cases "n \<le> length (takeWhile P s)")
    case False
    then have e: "ends (run_re n P) (MPos pr s []) = []" by (simp add: run_re_ends)
    show ?thesis
    proof (cases s)
      case Nil
      with e less.prems show ?thesis by (subst segments.simps) simp
    next
      case (Cons c cs)
      have "run_segs n P (c # cs) = Plain c # run_segs n P cs"
        using False Cons less.prems by (cases "P c") (auto intro: run_segs_stop run_segs_short)
      moreover from Cons less have "segments (run_re n P) (Some c) cs = run_segs n P cs" by simp
      ultimately show ?thesis
        using e Cons by (subst segments.simps) simp
    qed
  next
    case True
    from run_re_ends(2) [OF True] obtain pr' qs where
      e: "ends (run_re n P) (MPos pr s []) = MPos pr' (dropWhile P s) [] # qs" by blast
    have split: "length s = length (takeWhile P s) + length (dropWhile P s)"
      by (metis length_append takeWhile_dropWhile_id)
    with True less.prems have lt: "length (dropWhile P s) < length s" by linarith
    have tk: "take (length s - length (dropWhile P s)) s = takeWhile P s"
      using split by (metis add_diff_cancel_right' append_eq_conv_conj takeWhile_dropWhile_id)
    have "segments (run_re n P) pr' (dropWhile P s) = run_segs n P (dropWhile P s)"
      using less.hyps [OF lt less.prems] .
    moreover have "run_segs n P (dropWhile P s) =
        (case dropWhile P s of [] \<Rightarrow> [] | c # cs \<Rightarrow> Plain c # run_segs n P cs)"
      using less.prems dropWhile_head [of P s]
      by (cases "dropWhile P s") (simp_all add: run_segs_stop del: dropWhile_eq_Nil_conv)
    ultimately show ?thesis
      using e lt tk True by (subst segments.simps, subst run_segs.simps) (simp add: Let_def)
  qed
qed

text \<open>The matches and the result of a replacement, by maximal runs.\<close>

function run_list :: "nat \<Rightarrow> (nat \<Rightarrow> bool) \<Rightarrow> jstr \<Rightarrow> jstr list" where
  "run_list n P s =
     (if n \<le> length (takeWhile P s) then [takeWhile P s] else [])
      @ (case dropWhile P s of [] \<Rightarrow> [] | c # cs \<Rightarrow> run_list n P cs)"
  by pat_completeness auto
termination
  by (relation "measure (\<lambda>(n, P, s). length s)") (auto dest: dropWhile_Cons_length dropWhile_Cons_length [OF sym])

function run_map :: "nat \<Rightarrow> (nat \<Rightarrow> bool) \<Rightarrow> (jstr \<Rightarrow> jstr) \<Rightarrow> jstr \<Rightarrow> jstr" where
  "run_map n P f s =
     (if n \<le> length (takeWhile P s) then f (takeWhile P s) else takeWhile P s)
      @ (case dropWhile P s of [] \<Rightarrow> [] | c # cs \<Rightarrow> c # run_map n P f cs)"
  by pat_completeness auto
termination
  by (relation "measure (\<lambda>(n, P, f, s). length s)") (auto dest: dropWhile_Cons_length dropWhile_Cons_length [OF sym])

declare run_list.simps [simp del] run_map.simps [simp del]

definition seg_map :: "(jstr \<Rightarrow> jstr) \<Rightarrow> seg \<Rightarrow> jstr" where
  "seg_map f g = (case g of Plain c \<Rightarrow> [c] | Hit m k \<Rightarrow> f m)"

definition seg_hits :: "seg \<Rightarrow> jstr list" where
  "seg_hits g = (case g of Plain _ \<Rightarrow> [] | Hit m _ \<Rightarrow> [m])"

lemma seg_fun_simps [simp]: "seg_map f (Plain c) = [c]" "seg_map f (Hit m k) = f m"
  "seg_hits (Plain c) = []" "seg_hits (Hit m k) = [m]"
  by (simp_all add: seg_map_def seg_hits_def)

lemma concat_Plain [simp]: "concat (map (seg_map f \<circ> Plain) u) = u" "concat (map (seg_hits \<circ> Plain) u) = []"
  by (induction u) auto

lemma run_segs_map: "concat (map (seg_map f) (run_segs n P s)) = run_map n P f s"
proof (induction n P s rule: run_segs.induct)
  case (1 n P s)
  then show ?case
    by (cases "dropWhile P s") (simp_all add: run_segs.simps [of n P s] run_map.simps [of n P f s] Let_def
        del: dropWhile_eq_Nil_conv)
qed

lemma run_segs_hits: "concat (map seg_hits (run_segs n P s)) = run_list n P s"
proof (induction n P s rule: run_segs.induct)
  case (1 n P s)
  then show ?case
    by (cases "dropWhile P s") (simp_all add: run_segs.simps [of n P s] run_list.simps [of n P s] Let_def
        del: dropWhile_eq_Nil_conv)
qed

theorem re_replace_run: "0 < n \<Longrightarrow> re_replace (run_re n P) (\<lambda>m _. f m) s = run_map n P f s"
  unfolding re_replace_def segments_run_re seg_map_def [symmetric] by (rule run_segs_map)

theorem re_match_all_run: "0 < n \<Longrightarrow> re_match_all (run_re n P) s = run_list n P s"
  unfolding re_match_all_def segments_run_re seg_hits_def [symmetric] by (rule run_segs_hits)

lemma run_list_member:
  "u \<in> set (run_list n P s) \<Longrightarrow> list_all P u \<and> n \<le> length u \<and> set u \<subseteq> set s \<and> length u \<le> length s"
proof (induction n P s rule: run_list.induct)
  case (1 n P s)
  let ?v = "dropWhile P s"
  have dw: "set ?v \<subseteq> set s" "length ?v \<le> length s"
    by (auto dest: set_dropWhileD simp: length_dropWhile_le)
  show ?case
  proof (cases "u = takeWhile P s \<and> n \<le> length u")
    case True
    then show ?thesis
      by (auto simp: list_all_iff length_takeWhile_le dest: set_takeWhileD)
  next
    case False
    with "1.prems" obtain c cs where v: "?v = c # cs" and u: "u \<in> set (run_list n P cs)"
      unfolding run_list.simps [of n P s] by (cases "dropWhile P s") (auto split: if_splits simp del: dropWhile_eq_Nil_conv)
    from "1.IH" [OF v u] dw v show ?thesis by auto
  qed
qed

text \<open>Cutting the input before a code unit outside the class.\<close>

definition cut_before :: "(nat \<Rightarrow> bool) \<Rightarrow> jstr \<Rightarrow> bool" where
  "cut_before P s \<longleftrightarrow> (case s of [] \<Rightarrow> True | c # _ \<Rightarrow> \<not> P c)"

lemma takeWhile_cut: "list_all P u \<Longrightarrow> cut_before P v \<Longrightarrow>
    takeWhile P (u @ v) = u \<and> dropWhile P (u @ v) = v"
  by (induction u) (auto simp: cut_before_def split: list.splits)

lemma run_map_cut:
  assumes "list_all P u" and "cut_before P v" and "0 < n"
  shows "run_map n P f (u @ v) = (if n \<le> length u then f u else u) @ run_map n P f v"
proof -
  have "run_map n P f v = (case v of [] \<Rightarrow> [] | c # cs \<Rightarrow> c # run_map n P f cs)"
    using assms by (subst run_map.simps) (auto simp: cut_before_def split: list.splits)
  with assms show ?thesis by (subst run_map.simps) (simp add: takeWhile_cut)
qed

lemma run_list_cut:
  assumes "list_all P u" and "cut_before P v" and "0 < n"
  shows "run_list n P (u @ v) = (if n \<le> length u then [u] else []) @ run_list n P v"
proof -
  have "run_list n P v = (case v of [] \<Rightarrow> [] | c # cs \<Rightarrow> run_list n P cs)"
    using assms by (subst run_list.simps) (auto simp: cut_before_def split: list.splits)
  with assms show ?thesis by (subst run_list.simps) (simp add: takeWhile_cut)
qed

lemma run_list_stop: "0 < n \<Longrightarrow> \<not> P c \<Longrightarrow> run_list n P (c # cs) = run_list n P cs"
  by (subst run_list.simps) simp

lemma run_map_stop: "0 < n \<Longrightarrow> \<not> P c \<Longrightarrow> run_map n P f (c # cs) = c # run_map n P f cs"
  by (subst run_map.simps) simp

lemma run_map_Nil [simp]: "0 < n \<Longrightarrow> run_map n P f [] = []"
  by (subst run_map.simps) simp

lemma run_list_Nil [simp]: "0 < n \<Longrightarrow> run_list n P [] = []"
  by (subst run_list.simps) simp

text \<open>
  Masking the runs that a predicate selects with a bracketed marker removes every selected run,
  provided the text between the brackets is a run that is not selected.
\<close>

locale run_masking =
  fixes P :: "nat \<Rightarrow> bool" and n :: nat and sel :: "jstr \<Rightarrow> bool" and lb rb :: nat and inner :: jstr
  assumes pos: "0 < n" and lb: "\<not> P lb" and rb: "\<not> P rb"
    and inner: "list_all P inner" and inner_unsel: "\<not> sel inner"
begin

definition mask_run :: "jstr \<Rightarrow> jstr" where
  "mask_run u = (if sel u then lb # inner @ [rb] else u)"

lemma cut_mask: "cut_before P v \<Longrightarrow> cut_before P (run_map n P mask_run v)"
  using pos by (cases v) (auto simp: cut_before_def run_map_stop)

lemma masked_runs_unselected: "u \<in> set (run_list n P (run_map n P mask_run s)) \<Longrightarrow> \<not> sel u"
proof (induction "length s" arbitrary: s rule: less_induct)
  case less
  let ?u = "takeWhile P s" and ?v = "dropWhile P s"
  have all: "list_all P ?u" by (auto simp: list_all_iff dest: set_takeWhileD)
  have cut: "cut_before P ?v" using dropWhile_head [of P s] by (auto simp: cut_before_def split: list.split)
  let ?w = "run_map n P mask_run ?v"
  have eq: "run_map n P mask_run s = (if n \<le> length ?u then mask_run ?u else ?u) @ ?w"
    using run_map_cut [OF all cut pos, of mask_run] by simp
  have runs: "run_list n P (run_map n P mask_run s) =
      (if n \<le> length ?u then (if sel ?u then (if n \<le> length inner then [inner] else []) else [?u]) else [])
      @ run_list n P ?w"
  proof (cases "n \<le> length ?u \<and> sel ?u")
    case True
    have "cut_before P (rb # ?w)" using rb by (simp add: cut_before_def)
    with True eq inner pos show ?thesis
      by (simp add: mask_run_def run_list_stop [of n P, OF pos lb] run_list_cut run_list_stop [of n P, OF pos rb])
  next
    case False
    then have "run_map n P mask_run s = ?u @ ?w" using eq by (auto simp: mask_run_def)
    with False run_list_cut [OF all cut_mask [OF cut] pos] show ?thesis by auto
  qed
  have tail: "\<not> sel u" if "u \<in> set (run_list n P ?w)"
  proof (cases ?v)
    case Nil
    with that pos show ?thesis by simp
  next
    case (Cons c cs)
    then have c: "\<not> P c" using cut by (simp add: cut_before_def)
    have "length cs < length s" using Cons length_dropWhile_le [of P s] by simp
    from less.hyps [OF this] that Cons c pos show ?thesis
      by (simp add: run_map_stop run_list_stop)
  qed
  from less.prems show ?case
    unfolding runs using tail inner_unsel by (auto split: if_splits)
qed

end

end
