(* ===== verification/Entropy.thy ===== *)
theory Entropy
  imports Runs
begin

text \<open>
  Secret detection by Shannon entropy (\<open>src/crypto/entropy.ts\<close>). Floating point enters as a pair
  of functions: \<open>fl\<close> rounds the exact result of an operation to a double, \<open>mlog2\<close> is
  \<open>Math.log2\<close>. Where a result depends on them the hypothesis \<open>accurate\<close> bounds their errors, far
  above what IEEE arithmetic guarantees.
\<close>

section \<open>The code\<close>

record fpu =
  fl :: "real \<Rightarrow> real"
  mlog2 :: "real \<Rightarrow> real"

record entropy_options =
  eo_minLength :: "nat option"
  eo_threshold :: "real option"

text \<open>The map of frequencies, in insertion order.\<close>

fun bump :: "nat \<Rightarrow> (nat \<times> nat) list \<Rightarrow> (nat \<times> nat) list" where
  "bump c [] = [(c, 1)]"
| "bump c ((d, n) # m) = (if d = c then (d, n + 1) # m else (d, n) # bump c m)"

definition frequencies :: "jstr \<Rightarrow> (nat \<times> nat) list" where
  "frequencies s = foldl (\<lambda>m c. bump c m) [] s"

definition entropy_term :: "fpu \<Rightarrow> nat \<Rightarrow> real \<Rightarrow> nat \<Rightarrow> real" where
  "entropy_term M len entropy count =
     (let p = fl M (real count / real len) in fl M (entropy - fl M (p * mlog2 M p)))"

definition calculateShannonEntropy :: "fpu \<Rightarrow> jstr \<Rightarrow> real" where
  "calculateShannonEntropy M str =
     (if str = [] then 0
      else foldl (entropy_term M (length str)) 0 (map snd (frequencies str)))"

definition is_hex :: "nat \<Rightarrow> bool" where
  "is_hex c \<longleftrightarrow> is_digit c \<or> (97 \<le> ascii_lower c \<and> ascii_lower c \<le> 102)"

definition uuid_re :: re where
  "uuid_re = RSeq RBol (rseqs [rrep 8 (RCls is_hex), rchr 45, rrep 4 (RCls is_hex), rchr 45,
     rrep 4 (RCls is_hex), rchr 45, rrep 4 (RCls is_hex), rchr 45, rrep 12 (RCls is_hex), REol])"

definition isHighEntropyString :: "fpu \<Rightarrow> entropy_options \<Rightarrow> jstr \<Rightarrow> bool" where
  "isHighEntropyString M options token =
     (let minLength = (case eo_minLength options of Some n \<Rightarrow> n | None \<Rightarrow> 16);
          threshold = (case eo_threshold options of Some t \<Rightarrow> t | None \<Rightarrow> fl M 4.2) in
      if length token < minLength then False
      else if re_test uuid_re token then False
      else threshold \<le> calculateShannonEntropy M token)"

definition default_options :: entropy_options where
  "default_options = \<lparr>eo_minLength = None, eo_threshold = None\<rparr>"

definition token_char :: "nat \<Rightarrow> bool" where
  "token_char c \<longleftrightarrow> is_alnum c \<or> one_of ''+/=_-'' c"

definition POTENTIAL_SECRET_TOKEN_REGEX :: re where
  "POTENTIAL_SECRET_TOKEN_REGEX = run_re 16 token_char"

definition findHighEntropyTokens :: "fpu \<Rightarrow> entropy_options \<Rightarrow> jstr \<Rightarrow> jstr list" where
  "findHighEntropyTokens M options text =
     (if text = [] then []
      else filter (isHighEntropyString M options) (re_match_all POTENTIAL_SECRET_TOKEN_REGEX text))"

definition redacted :: jstr where
  "redacted = S ''[HIGH_ENTROPY_REDACTED]''"

definition maskHighEntropyTokens :: "fpu \<Rightarrow> entropy_options \<Rightarrow> jstr \<Rightarrow> jstr" where
  "maskHighEntropyTokens M options text =
     (if text = [] then text
      else re_replace POTENTIAL_SECRET_TOKEN_REGEX
        (\<lambda>token _. if isHighEntropyString M options token then redacted else token) text)"

section \<open>Frequencies\<close>

lemma bump_keys: "fst ` set (bump c m) = insert c (fst ` set m)"
  by (induction c m rule: bump.induct) auto

lemma bump_distinct: "distinct (map fst m) \<Longrightarrow> distinct (map fst (bump c m))"
  by (induction c m rule: bump.induct) (auto simp: bump_keys)

lemma bump_sum: "sum_list (map snd (bump c m)) = Suc (sum_list (map snd m))"
  by (induction c m rule: bump.induct) auto

lemma bump_pos: "\<forall>n \<in> set (map snd m). 0 < n \<Longrightarrow> \<forall>n \<in> set (map snd (bump c m)). 0 < n"
  by (induction c m rule: bump.induct) auto

lemma frequencies_snoc: "frequencies (s @ [c]) = bump c (frequencies s)"
  by (simp add: frequencies_def)

lemma frequencies_facts:
  "fst ` set (frequencies s) = set s" "distinct (map fst (frequencies s))"
  "sum_list (map snd (frequencies s)) = length s" "\<forall>n \<in> set (map snd (frequencies s)). 0 < n"
proof (induction s rule: rev_induct)
  case Nil
  {
    case 1 show ?case by (simp add: frequencies_def)
  next
    case 2 show ?case by (simp add: frequencies_def)
  next
    case 3 show ?case by (simp add: frequencies_def)
  next
    case 4 show ?case by (simp add: frequencies_def)
  }
next
  case (snoc c s)
  {
    case 1 show ?case using snoc(1) by (simp add: frequencies_snoc bump_keys)
  next
    case 2 show ?case using snoc(2) by (simp add: frequencies_snoc bump_distinct)
  next
    case 3 show ?case using snoc(3) by (simp add: frequencies_snoc bump_sum)
  next
    case 4 show ?case unfolding frequencies_snoc using snoc(4) by (rule bump_pos)
  }
qed

lemma length_frequencies: "length (frequencies s) = card (set s)"
  using distinct_card [OF frequencies_facts(2), of s] frequencies_facts(1) [of s] by simp

section \<open>The entropy of a text of few distinct characters\<close>

definition accurate :: "fpu \<Rightarrow> bool" where
  "accurate M \<longleftrightarrow> (\<forall>x. \<bar>x\<bar> \<le> 1024 \<longrightarrow> \<bar>fl M x - x\<bar> \<le> 1 / 2 ^ 40)
     \<and> (\<forall>x. 1 / 2 ^ 31 \<le> x \<and> x \<le> 2 \<longrightarrow> \<bar>mlog2 M x - log 2 x\<bar> \<le> 1 / 2 ^ 40)"

lemma tangent:
  assumes "0 < x" and "0 < (k::real)"
  shows "- x * log 2 x \<le> x * log 2 k + (1 / k - x) / ln 2"
proof -
  have "ln (1 / (k * x)) \<le> 1 / (k * x) - 1"
    using assms by (intro ln_le_minus_one) simp
  then have "x * ln (1 / (k * x)) \<le> x * (1 / (k * x) - 1)"
    using assms by (intro mult_left_mono) simp_all
  also have "\<dots> = 1 / k - x" using assms by (simp add: field_simps)
  finally have "x * (- ln k - ln x) \<le> 1 / k - x"
    using assms by (simp add: ln_div ln_mult)
  then have "- x * ln x \<le> x * ln k + (1 / k - x)" by (simp add: algebra_simps)
  then have "(- x * ln x) / ln 2 \<le> (x * ln k + (1 / k - x)) / ln 2"
    by (intro divide_right_mono) simp_all
  then show ?thesis by (simp add: log_def add_divide_distrib)
qed

lemma log_range:
  assumes "1 / 2 ^ 31 \<le> (x::real)" and "x \<le> 2"
  shows "\<bar>log 2 x\<bar> \<le> 31"
proof -
  have pos: "0 < x" using assms(1) by (rule less_le_trans [rotated]) simp
  have "log 2 (1 / 2 ^ 31) \<le> log 2 x" 
    by (subst log_le_cancel_iff) (use assms pos in simp_all)
  moreover have "log 2 (1 / 2 ^ 31 :: real) = - 31"
  proof -
    have e: "1 / 2 ^ 31 = 2 powr (- 31 :: real)" by (simp add: powr_minus_divide)
    show ?thesis unfolding e by (rule log_powr_cancel) simp_all
  qed
  moreover have "log 2 x \<le> log 2 2" using assms pos by simp
  ultimately show ?thesis by simp
qed

text \<open>One step of the sum, for the rounded probability \<open>q\<close>.\<close>

lemma entropy_step:
  assumes acc: "accurate M" and len: "0 < len" "real len \<le> 2 ^ 30" and n: "0 < n" "n \<le> len"
    and e: "\<bar>e\<bar> \<le> 900" and k: "0 < (k::real)"
  shows "\<exists>q. \<bar>q - real n / real len\<bar> \<le> 1 / 2 ^ 40
    \<and> entropy_term M len e n \<le> e + q * log 2 k + (1 / k - q) / ln 2 + 1 / 2 ^ 38
    \<and> \<bar>entropy_term M len e n\<bar> \<le> \<bar>e\<bar> + 34"
proof -
  let ?p = "real n / real len" and ?d = "1 / 2 ^ 40 :: real"
  define q where "q = fl M ?p"
  have p: "1 / 2 ^ 30 \<le> ?p" "?p \<le> 1"
  proof -
    have "1 / 2 ^ 30 \<le> 1 / real len" using len by (intro divide_left_mono) simp_all
    also have "\<dots> \<le> ?p" using n len by (intro divide_right_mono) simp_all
    finally show "1 / 2 ^ 30 \<le> ?p" .
    show "?p \<le> 1" using n len by simp
  qed
  have "\<bar>?p\<bar> \<le> 1024" using p by simp
  then have q: "\<bar>q - ?p\<bar> \<le> ?d" using acc by (auto simp: accurate_def q_def)
  have num: "1 / 2 ^ 31 \<le> (1 / 2 ^ 30 - ?d :: real)" by simp
  have lo: "1 / 2 ^ 31 \<le> q" using q p(1) num by linarith
  have hi: "q \<le> 1 + ?d" using q p(2) by linarith
  have q2: "q \<le> 2" using hi by (rule order_trans) simp
  have q0: "0 < q" using lo by (rule less_le_trans [rotated]) simp
  define l where "l = mlog2 M q"
  have l: "\<bar>l - log 2 q\<bar> \<le> ?d" using acc lo q2 by (auto simp: accurate_def l_def)
  have lr: "\<bar>log 2 q\<bar> \<le> 31" by (rule log_range [OF lo q2])
  have "\<bar>l\<bar> \<le> 32"
  proof -
    have "?d \<le> 1" by simp
    with l lr show ?thesis by linarith
  qed
  then have "\<bar>q * l\<bar> \<le> (1 + ?d) * 32"
    using hi q0 by (simp only: abs_mult) (intro mult_mono; simp)
  then have ql: "\<bar>q * l\<bar> \<le> 33" by (rule order_trans) simp
  define t where "t = fl M (q * l)"
  have "\<bar>q * l\<bar> \<le> 1024" using ql by linarith
  then have t: "\<bar>t - q * l\<bar> \<le> ?d" using acc by (auto simp: accurate_def t_def)
  have d1: "?d \<le> 1 / 4" by simp
  have "\<bar>e - t\<bar> \<le> 1024" using e t ql d1 by linarith
  then have r: "\<bar>fl M (e - t) - (e - t)\<bar> \<le> ?d" using acc by (auto simp: accurate_def)
  have term_eq: "entropy_term M len e n = fl M (e - t)"
    by (simp add: entropy_term_def Let_def q_def l_def t_def)
  have "\<bar>q * l - q * log 2 q\<bar> \<le> 2 * ?d"
  proof -
    have "\<bar>q * l - q * log 2 q\<bar> = q * \<bar>l - log 2 q\<bar>"
      using q0 by (simp add: right_diff_distrib [symmetric] abs_mult)
    also have "\<dots> \<le> 2 * ?d" using l q2 q0 by (intro mult_mono) simp_all
    finally show ?thesis .
  qed
  moreover have "- q * log 2 q \<le> q * log 2 k + (1 / k - q) / ln 2" by (rule tangent [OF q0 k])
  ultimately have "fl M (e - t) \<le> e + q * log 2 k + (1 / k - q) / ln 2 + 4 * ?d"
    using r t by linarith
  moreover have "\<bar>fl M (e - t)\<bar> \<le> \<bar>e\<bar> + 34"
    using r t ql d1 by linarith
  ultimately show ?thesis
    using q term_eq by (intro exI [of _ q]) simp
qed

lemma entropy_sum:
  assumes acc: "accurate M" and len: "0 < len" "real len \<le> 2 ^ 30" and k: "0 < (k::real)"
    and "\<forall>n \<in> set ns. 0 < n \<and> n \<le> len" and "\<bar>e\<bar> + 34 * real (length ns) \<le> 900"
  shows "\<exists>Q. \<bar>Q - real (sum_list ns) / real len\<bar> \<le> real (length ns) / 2 ^ 40
    \<and> foldl (entropy_term M len) e ns \<le> e + Q * log 2 k + (real (length ns) / k - Q) / ln 2 + real (length ns) / 2 ^ 38"
  using assms(5,6)
proof (induction ns arbitrary: e)
  case Nil
  then show ?case by (intro exI [of _ 0]) simp
next
  case (Cons n ns)
  let ?e = "entropy_term M len e n"
  from Cons.prems obtain q where q: "\<bar>q - real n / real len\<bar> \<le> 1 / 2 ^ 40"
    "?e \<le> e + q * log 2 k + (1 / k - q) / ln 2 + 1 / 2 ^ 38" "\<bar>?e\<bar> \<le> \<bar>e\<bar> + 34"
    using entropy_step [OF acc len, of n e k] k by auto
  have "\<bar>?e\<bar> + 34 * real (length ns) \<le> 900" using q(3) Cons.prems(2) by (simp add: algebra_simps)
  with Cons.IH [of ?e] Cons.prems(1) obtain Q where
    Q: "\<bar>Q - real (sum_list ns) / real len\<bar> \<le> real (length ns) / 2 ^ 40"
      "foldl (entropy_term M len) ?e ns \<le> ?e + Q * log 2 k + (real (length ns) / k - Q) / ln 2 + real (length ns) / 2 ^ 38"
    by auto
  have split: "real (sum_list (n # ns)) / real len = real n / real len + real (sum_list ns) / real len"
    "real (length (n # ns)) / 2 ^ 40 = 1 / 2 ^ 40 + real (length ns) / 2 ^ 40"
    by (simp_all add: add_divide_distrib)
  have "\<bar>(q + Q) - real (sum_list (n # ns)) / real len\<bar> \<le> real (length (n # ns)) / 2 ^ 40"
    unfolding split using q(1) Q(1) by linarith
  moreover have "foldl (entropy_term M len) e (n # ns) \<le> e + (q + Q) * log 2 k
      + (real (length (n # ns)) / k - (q + Q)) / ln 2 + real (length (n # ns)) / 2 ^ 38"
    using q(2) Q(2) by (simp add: algebra_simps add_divide_distrib diff_divide_distrib)
  ultimately show ?case by blast
qed

lemma log18: "log 2 18 \<le> (209 / 50 :: real)"
proof -
  have a: "log 2 ((18::real) ^ 50) = 50 * log 2 18" using log_nat_power [of "18::real" 2 50] by simp
  have b: "log 2 ((2::real) ^ 209) = 209" using log_nat_power [of "2::real" 2 209] by simp
  have "(18::real) ^ 50 \<le> 2 ^ 209" by simp
  then have "log 2 ((18::real) ^ 50) \<le> log 2 (2 ^ 209)"
    by (subst log_le_cancel_iff) simp_all
  then show ?thesis unfolding a b by simp
qed

lemma ln2_ge_half: "1 / 2 \<le> ln (2::real)"
proof -
  have "ln (1 / 2 :: real) \<le> 1 / 2 - 1" by (rule ln_le_minus_one) simp
  then show ?thesis by (simp add: ln_div)
qed

lemma low_variety_entropy:
  assumes acc: "accurate M" and ne: "s \<noteq> []" and len: "length s \<le> 2 ^ 30" and card: "card (set s) \<le> 18"
  shows "calculateShannonEntropy M s < fl M 4.2"
proof -
  let ?ns = "map snd (frequencies s)" and ?L = "length s" and ?m = "card (set s)"
  have "\<forall>n \<in> set ?ns. 0 < n \<and> n \<le> ?L"
    using frequencies_facts(3,4) [of s] member_le_sum_list [of _ ?ns] by auto
  moreover have "real ?L \<le> 2 ^ 30" using len by (simp add: of_nat_le_iff [symmetric] del: of_nat_le_iff)
  moreover have "\<bar>0::real\<bar> + 34 * real (length ?ns) \<le> 900" using card by (simp add: length_frequencies)
  ultimately obtain Q where Q: "\<bar>Q - 1\<bar> \<le> real ?m / 2 ^ 40"
    "foldl (entropy_term M ?L) 0 ?ns \<le> Q * log 2 18 + (real ?m / 18 - Q) / ln 2 + real ?m / 2 ^ 38"
    using entropy_sum [OF acc, of ?L 18 ?ns 0] ne frequencies_facts(3) [of s]
    by (auto simp: length_frequencies)
  have m: "real ?m \<le> 18" using card by simp
  define c where "c = 1 / ln (2::real)"
  have c: "0 < c" "c \<le> 2" using ln2_ge_half by (auto simp: c_def field_simps)
  have Q1: "\<bar>Q - 1\<bar> \<le> 1 / 2 ^ 35" using Q(1) m by (rule_tac order_trans) (auto simp: field_simps)
  have lg: "0 \<le> log 2 (18::real)" by simp
  have "Q * log 2 18 + (real ?m / 18 - Q) / ln 2 = log 2 18 + (Q - 1) * (log 2 18 - c) + (real ?m / 18 - 1) * c"
    by (simp add: c_def algebra_simps diff_divide_distrib)
  also have "\<dots> \<le> log 2 18 + 1 / 2 ^ 35 * 7"
  proof -
    have "(Q - 1) * (log 2 18 - c) \<le> \<bar>Q - 1\<bar> * \<bar>log 2 18 - c\<bar>" by (metis abs_ge_self abs_mult)
    also have "\<dots> \<le> 1 / 2 ^ 35 * 7"
    proof (rule mult_mono [OF Q1])
      show "\<bar>log 2 18 - c\<bar> \<le> 7" using log18 lg c by linarith
    qed simp_all
    finally have "(Q - 1) * (log 2 18 - c) \<le> 1 / 2 ^ 35 * 7" .
    moreover have "(real ?m / 18 - 1) * c \<le> 0" using m c by (intro mult_nonpos_nonneg) simp_all
    ultimately show ?thesis by linarith
  qed
  finally have "foldl (entropy_term M ?L) 0 ?ns \<le> 209 / 50 + 7 / 2 ^ 35 + 18 / 2 ^ 38"
  proof -
    have "real ?m / 2 ^ 38 \<le> 18 / 2 ^ 38" using m by (intro divide_right_mono) simp_all
    moreover assume "Q * log 2 18 + (real ?m / 18 - Q) / ln 2 \<le> log 2 18 + 1 / 2 ^ 35 * 7"
    ultimately show ?thesis using Q(2) log18 by linarith
  qed
  moreover have "209 / 50 + 7 / 2 ^ 35 + 18 / 2 ^ 38 < (4.2 - 1 / 2 ^ 40 :: real)" by simp
  moreover have "4.2 - 1 / 2 ^ 40 \<le> fl M 4.2"
  proof -
    have "\<bar>4.2 :: real\<bar> \<le> 1024" by simp
    then have "\<bar>fl M 4.2 - 4.2\<bar> \<le> 1 / 2 ^ 40" using acc unfolding accurate_def by blast
    then show ?thesis by linarith
  qed
  ultimately show ?thesis using ne by (simp add: calculateShannonEntropy_def)
qed

section \<open>Masking\<close>

lemma run_map_unselected:
  "(\<And>u. u \<in> set (run_list n P s) \<Longrightarrow> f u = u) \<Longrightarrow> run_map n P f s = s"
proof (induction n P f s rule: run_map.induct)
  case (1 n P f s)
  have hit: "(if n \<le> length (takeWhile P s) then f (takeWhile P s) else takeWhile P s) = takeWhile P s"
    using "1.prems" [of "takeWhile P s"] by (auto simp: run_list.simps [of n P s])
  show ?case
  proof (cases "dropWhile P s")
    case Nil
    then have "takeWhile P s = s" using takeWhile_dropWhile_id [of P s] by simp
    with hit Nil show ?thesis
      by (simp add: run_map.simps [of n P f s] del: dropWhile_eq_Nil_conv takeWhile_eq_all_conv)
  next
    case (Cons c cs)
    have "run_map n P f cs = cs"
    proof (rule "1.IH" [OF Cons])
      fix u
      assume "u \<in> set (run_list n P cs)"
      then show "f u = u" using "1.prems" [of u] Cons by (simp add: run_list.simps [of n P s])
    qed
    moreover have "takeWhile P s @ c # cs = s" using Cons takeWhile_dropWhile_id [of P s] by simp
    ultimately show ?thesis using hit Cons by (simp add: run_map.simps [of n P f s])
  qed
qed

lemma redacted_eq: "redacted = 91 # S ''HIGH_ENTROPY_REDACTED'' @ [93]"
  by (simp add: redacted_def S_def)

lemma low_variety_not_high:
  assumes "accurate M" and "length t \<le> 2 ^ 30" and "card (set t) \<le> 18"
  shows "\<not> isHighEntropyString M default_options t"
  using low_variety_entropy [OF assms(1) _ assms(2,3)]
  by (cases "t = []") (auto simp: isHighEntropyString_def default_options_def Let_def)

lemma marker_not_high: "accurate M \<Longrightarrow> \<not> isHighEntropyString M default_options (S ''HIGH_ENTROPY_REDACTED'')"
  by (rule low_variety_not_high) (simp_all add: S_def card_insert_if)

lemma marker_chars: "list_all token_char (S ''HIGH_ENTROPY_REDACTED'')" "\<not> token_char 91" "\<not> token_char 93"
  by (simp_all add: token_char_def is_alnum_def is_alpha_def is_digit_def one_of_def S_def)

typedef accurate_fpu = "{M. accurate M}"
proof
  show "\<lparr>fl = (\<lambda>x. x), mlog2 = log 2\<rparr> \<in> {M. accurate M}" by (simp add: accurate_def)
qed

interpretation em: run_masking token_char 16 "isHighEntropyString (Rep_accurate_fpu A) default_options" 91 93
  "S ''HIGH_ENTROPY_REDACTED''" for A
  using marker_chars marker_not_high Rep_accurate_fpu [of A] by unfold_locales auto

lemma mask_as_runs:
  "maskHighEntropyTokens (Rep_accurate_fpu A) default_options text = run_map 16 token_char (em.mask_run A) text"
proof -
  have "em.mask_run A = (\<lambda>u. if isHighEntropyString (Rep_accurate_fpu A) default_options u then redacted else u)"
    by (rule ext) (simp add: em.mask_run_def redacted_eq)
  then show ?thesis
    using re_replace_run [of 16 token_char]
    by (simp add: maskHighEntropyTokens_def POTENTIAL_SECRET_TOKEN_REGEX_def)
qed

lemma find_as_runs:
  "findHighEntropyTokens M opts text = filter (isHighEntropyString M opts) (run_list 16 token_char text)"
  by (simp add: findHighEntropyTokens_def POTENTIAL_SECRET_TOKEN_REGEX_def re_match_all_run)

lemma find_mask_none:
  assumes "accurate M"
  shows "findHighEntropyTokens M default_options (maskHighEntropyTokens M default_options text) = []"
proof -
  obtain A where M: "M = Rep_accurate_fpu A" using assms Rep_accurate_fpu_cases by blast
  show ?thesis
    unfolding M mask_as_runs find_as_runs
    using em.masked_runs_unselected [where A = A] by (auto simp: filter_empty_conv)
qed

section \<open>Properties\<close>

text \<open>
  What is never taken for a secret: with floating point errors below \<open>2^-40\<close>, a token of at most
  18 distinct characters stays below the threshold of 4.2 bits, so no token of up to 18 characters
  and no lower case hexadecimal token of any length (a SHA-256 digest, a 128 bit key) is flagged.
\<close>

theorem hex_never_flagged:
  assumes "accurate M" and "length t \<le> 2 ^ 30"
    and "length t \<le> 18 \<or> list_all is_hex_lower t \<or> card (set t) \<le> 18"
  shows "\<not> isHighEntropyString M default_options t"
proof -
  have "card (set t) \<le> 18" if "length t \<le> 18" using card_length [of t] that by linarith
  moreover have "card (set t) \<le> 18" if "list_all is_hex_lower t"
  proof -
    have "set t \<subseteq> {48..57} \<union> {97..102}"
      using that by (auto simp: list_all_iff is_hex_lower_def is_digit_def)
    then have "card (set t) \<le> card ({48..57} \<union> {97..102} :: nat set)" by (intro card_mono) auto
    also have "\<dots> \<le> card {48..57::nat} + card {97..102::nat}" by (rule card_Un_le)
    finally show ?thesis by simp
  qed
  ultimately show ?thesis using assms low_variety_not_high by blast
qed

theorem hex_never_flagged_witness:
  "\<not> isHighEntropyString \<lparr>fl = (\<lambda>x. x), mlog2 = log 2\<rparr> default_options
     (S ''9f86d081884c7d659a2feaa0c55ad015a3bf4f1b2b0b822cd15d6c15b0f00a08'')"
  by (rule hex_never_flagged)
     (simp_all add: accurate_def S_def is_hex_lower_def is_digit_def)

text \<open>
  Masking is complete and idempotent: the masked text has no high-entropy token left, also none
  that straddles a marker, and masking it again changes nothing.
\<close>

theorem masking_leaves_no_secret:
  assumes "accurate M"
  shows "findHighEntropyTokens M default_options (maskHighEntropyTokens M default_options text) = []
    \<and> maskHighEntropyTokens M default_options (maskHighEntropyTokens M default_options text)
      = maskHighEntropyTokens M default_options text"
proof -
  obtain A where M: "M = Rep_accurate_fpu A" using assms Rep_accurate_fpu_cases by blast
  let ?t = "maskHighEntropyTokens M default_options text"
  have f: "findHighEntropyTokens M default_options ?t = []" by (rule find_mask_none [OF assms])
  then have "em.mask_run A u = u" if "u \<in> set (run_list 16 token_char ?t)" for u
    using that by (auto simp: find_as_runs filter_empty_conv em.mask_run_def M)
  then have "run_map 16 token_char (em.mask_run A) ?t = ?t" by (rule run_map_unselected)
  with f show ?thesis by (simp add: M mask_as_runs)
qed

theorem masking_leaves_no_secret_witness:
  "findHighEntropyTokens \<lparr>fl = (\<lambda>x. x), mlog2 = log 2\<rparr> default_options
     (maskHighEntropyTokens \<lparr>fl = (\<lambda>x. x), mlog2 = log 2\<rparr> default_options (S ''key=AbCdEfGhIjKlMnOpQrStUvWxYz0123456789'')) = []"
  using masking_leaves_no_secret [of "\<lparr>fl = (\<lambda>x. x), mlog2 = log 2\<rparr>"] by (simp add: accurate_def)

end
