(* ===== verification/ArgumentSanitizer.thy ===== *)
theory ArgumentSanitizer
  imports PiiMasker RegexFacts Entropy
begin

text \<open>
  Validation and masking of tool arguments (\<open>src/policy/toolArgumentSanitizer.ts\<close>), and the guard
  against secrets in outbound arguments (\<open>src/policy/outboundSecretLeakGuard.ts\<close>). The Unicode
  normalisation \<open>NFKC\<close> is the parameter \<open>nfkc\<close>: its tables are not part of the repository.
\<close>

section \<open>Normalisation\<close>

definition zero_width :: "nat \<Rightarrow> bool" where
  "zero_width c \<longleftrightarrow> (0x200B \<le> c \<and> c \<le> 0x200D) \<or> c = 0xFEFF \<or> c = 0x200E \<or> c = 0x200F \<or> c = 0x2060"

definition odd_space :: "nat \<Rightarrow> bool" where
  "odd_space c \<longleftrightarrow> c = 0xA0 \<or> c = 0x3000 \<or> (0x2000 \<le> c \<and> c \<le> 0x200A)"

definition normalizeUnicodeAndWhitespace :: "(jstr \<Rightarrow> jstr) \<Rightarrow> jstr \<Rightarrow> jstr" where
  "normalizeUnicodeAndWhitespace nfkc text =
     (if text = [] then text
      else trim (re_replace (rplus (RCls is_space)) (\<lambda>_ _. S '' '')
        (re_replace (RCls odd_space) (\<lambda>_ _. S '' '')
          (re_replace (RCls zero_width) (\<lambda>_ _. []) (nfkc text)))))"

section \<open>The expressions\<close>

text \<open>
  An expression with its \<open>source\<close> text, which is part of the error. In the literals below \<open>~\<close>
  stands for the backslash and \<open>@\<close> for the back quote.
\<close>

definition src :: "string \<Rightarrow> jstr" where
  "src s = map (\<lambda>c. if c = CHR ''~'' then 92 else if c = CHR ''@'' then 96 else of_char c) s"

definition slash :: "nat \<Rightarrow> bool" where
  "slash c \<longleftrightarrow> c = 92 \<or> c = 47"

definition path_start :: re where
  "path_start = RAlt RBol (RCls slash)"

definition PATH_TRAVERSAL_PATTERNS :: "(re \<times> jstr) list" where
  "PATH_TRAVERSAL_PATTERNS =
    [(RSeq path_start (RSeq (rlit (S ''..'')) (RAlt (RCls slash) REol)), src ''(?:^|[~~/])~.~.(?:[~~/]|$)''),
     (RAlt (rchr 0) (rlit (S ''%00'')), src ''~0|%00''),
     (rseqs [path_start, rlit_i (S ''etc''), RCls slash,
        ralts (map (rlit_i \<circ> S) [''passwd'', ''shadow'', ''hosts''])],
      src ''(?:^|[~~/])etc[~~/](?:passwd|shadow|hosts)''),
     (rseqs [path_start, rlit_i (S ''windows''), RCls slash, rlit_i (S ''system32'')],
      src ''(?:^|[~~/])windows[~~/]system32''),
     (rseqs [path_start, rlit_i (S ''proc''), RCls slash, rlit_i (S ''self'')],
      src ''(?:^|[~~/])proc[~~/]self'')]"

definition ifs_re :: "(jstr \<Rightarrow> re) \<Rightarrow> re" where
  "ifs_re lit = rseqs [rchr 36, ropt (rchr 123), lit (S ''IFS''), ropt (rchr 125)]"

definition shell_commands :: "string list" where
  "shell_commands = [''rm'', ''cat'', ''ls'', ''whoami'', ''curl'', ''wget'', ''bash'', ''sh'', ''zsh'',
     ''python'', ''node'', ''id'', ''kill'', ''pkill'', ''grep'', ''awk'', ''sed'']"

definition except :: "nat \<Rightarrow> re" where
  "except c = RCls (\<lambda>x. x \<noteq> c)"

definition COMMAND_INJECTION_PATTERNS :: "(re \<times> jstr) list" where
  "COMMAND_INJECTION_PATTERNS =
    [(rseqs [RCls (\<lambda>c. c \<in> set (src '';&|@$'')), RStar (RAlt (rplus (RCls is_space)) (ifs_re rlit_i)),
        ralts (map (rlit_i \<circ> S) shell_commands), RWordB],
      src ''[;&|@$](?:~s+|~$~{?IFS~}?)*(?:rm|cat|ls|whoami|curl|wget|bash|sh|zsh|python|node|id|kill|pkill|grep|awk|sed)~b''),
     (RSeq (rchr 59) (RSeq (RStar (RCls is_space)) (rplus (except 59))), src '';~s*[^;]+''),
     (RAlt (rlit (S ''&&'')) (rlit (S ''||'')), src ''&&|~|~|''),
     (rseqs [rchr 124, RNegLook (RSeq (RStar (RCls is_space)) (rchr 124)), RStar (RCls is_space),
        rplus (except 124)], src ''~|(?!~s*~|)~s*[^|]+''),
     (rseqs [rchr 96, rplus (except 96), rchr 96], src ''@[^@]+@''),
     (rseqs [rlit (S ''$(''), rplus (except 41), rchr 41], src ''~$~([^)]+~)''),
     (ifs_re rlit, src ''~$~{?IFS~}?''),
     (rseqs [RCls (one_of ''<>''), RStar (RCls is_space), rchr 47,
        rplus (RCls (\<lambda>c. is_alnum c \<or> one_of ''_.-'' c))], src ''[<>]~s*~/[a-zA-Z0-9_.-]+'')]"

definition SENSITIVE_KEY_PATTERNS :: "re list" where
  "SENSITIVE_KEY_PATTERNS = [rlit_i (S ''password''), rlit_i (S ''secret''), rlit_i (S ''token''),
     RAlt (rlit_i (S ''apikey'')) (rlit_i (S ''api_key'')), rlit_i (S ''auth''), rlit_i (S ''credential''),
     rseqs [rlit_i (S ''private''), ropt (rchr 95), rlit_i (S ''key'')], rlit_i (S ''certificate'')]"

definition is_sensitive_key :: "jstr \<Rightarrow> bool" where
  "is_sensitive_key key \<longleftrightarrow> (\<exists>p \<in> set SENSITIVE_KEY_PATTERNS. re_test p key)"

section \<open>Validation\<close>

record violation =
  v_message :: jstr
  v_field :: jstr
  v_pattern :: jstr

definition SanitizationViolationError :: "jstr \<Rightarrow> jstr \<Rightarrow> jstr \<Rightarrow> violation" where
  "SanitizationViolationError message field pattern =
     \<lparr>v_message = S ''Tool argument security violation: '' @ message, v_field = field, v_pattern = pattern\<rparr>"

definition violation_error :: "violation \<Rightarrow> js_error" where
  "violation_error v = \<lparr>err_name = S ''SanitizationViolationError'', err_message = v_message v,
     err_code = Some (S ''SECURITY_VIOLATION''), err_status = Some 400\<rparr>"

definition MAX_ARGUMENT_STRING_LENGTH :: nat where
  "MAX_ARGUMENT_STRING_LENGTH = 64 * 1024"

definition length_message :: "nat \<Rightarrow> jstr" where
  "length_message n = S ''Argument string length ('' @ dec_nat n @ S '') exceeds maximum limit (''
     @ dec_nat MAX_ARGUMENT_STRING_LENGTH @ S '')''"

definition check_pattern :: "jstr \<Rightarrow> jstr \<Rightarrow> jstr \<Rightarrow> jstr \<Rightarrow> re \<times> jstr \<Rightarrow> violation + unit" where
  "check_pattern what val normalized path pattern =
     (if re_test (fst pattern) val \<or> re_test (fst pattern) normalized
      then Inl (SanitizationViolationError
        (S ''Detected potential '' @ what @ S '' in parameter '' @ [39] @ path @ [39]) path (snd pattern))
      else Inr ())"

definition checkStringValue :: "(jstr \<Rightarrow> jstr) \<Rightarrow> jstr \<Rightarrow> jstr \<Rightarrow> violation + unit" where
  "checkStringValue nfkc val path =
     (if length val > MAX_ARGUMENT_STRING_LENGTH
      then Inl (SanitizationViolationError (length_message (length val)) path (S ''MAX_ARGUMENT_STRING_LENGTH''))
      else let normalized = normalizeUnicodeAndWhitespace nfkc val in
        bindE (check_each (check_pattern (S ''Path Traversal attack'') val normalized path) PATH_TRAVERSAL_PATTERNS)
          (\<lambda>_. check_each (check_pattern (S ''Command Injection'') val normalized path) COMMAND_INJECTION_PATTERNS))"

fun traverseAndValidate :: "(jstr \<Rightarrow> jstr) \<Rightarrow> jstr \<Rightarrow> jv \<Rightarrow> violation + unit" where
  "traverseAndValidate nfkc path (JStr s) = checkStringValue nfkc s path"
| "traverseAndValidate nfkc path (JArr xs) =
     check_each (\<lambda>(i, x). traverseAndValidate nfkc (index_path path i) x) (List.enumerate 0 xs)"
| "traverseAndValidate nfkc path (JObj kvs) =
     check_each (\<lambda>(key, val). traverseAndValidate nfkc (key_path path key) val) kvs"
| "traverseAndValidate nfkc path _ = Inr ()"

definition sanitizer_validate :: "(jstr \<Rightarrow> jstr) \<Rightarrow> bool \<Rightarrow> jv \<Rightarrow> violation + unit" where
  "sanitizer_validate nfkc strict args =
     (if \<not> strict then Inr () else traverseAndValidate nfkc [] args)"

section \<open>Masking for the audit log\<close>

definition stars :: jv where
  "stars = JStr (S ''********'')"

definition is_object :: "jv \<Rightarrow> bool" where
  "is_object v = (case v of JObj _ \<Rightarrow> True | JArr _ \<Rightarrow> True | _ \<Rightarrow> False)"

definition is_string :: "jv \<Rightarrow> bool" where
  "is_string v = (case v of JStr _ \<Rightarrow> True | _ \<Rightarrow> False)"

definition processed :: "fpu \<Rightarrow> jstr \<Rightarrow> jstr" where
  "processed M s = maskHighEntropyTokens M default_options (maskPii s)"

fun deepMask :: "fpu \<Rightarrow> jv \<Rightarrow> jv" where
  "deepMask M (JArr xs) = JArr (map (deepMask M) xs)"
| "deepMask M (JObj kvs) = assign_all (map (\<lambda>(key, v). (key,
     if is_sensitive_key key \<and> is_string v then stars
     else if is_object v then deepMask M v
     else (case v of JStr s \<Rightarrow> if is_sensitive_key key then stars else JStr (processed M s)
           | _ \<Rightarrow> if is_sensitive_key key then stars else v))) kvs)"
| "deepMask M v = v"

definition maskSensitiveArguments :: "fpu \<Rightarrow> jv \<Rightarrow> jv" where
  "maskSensitiveArguments M args = (if \<not> truthy args \<or> \<not> is_object args then args else deepMask M args)"

section \<open>The outbound leak guard\<close>

text \<open>The guard has its own copy of the key expressions, the same list.\<close>

definition SENSITIVE_ARGUMENT_KEY_PATTERNS :: "re list" where
  "SENSITIVE_ARGUMENT_KEY_PATTERNS = [rlit_i (S ''password''), rlit_i (S ''secret''), rlit_i (S ''token''),
     RAlt (rlit_i (S ''apikey'')) (rlit_i (S ''api_key'')), rlit_i (S ''auth''), rlit_i (S ''credential''),
     rseqs [rlit_i (S ''private''), ropt (rchr 95), rlit_i (S ''key'')], rlit_i (S ''certificate'')]"

definition SecretEgressBlockedError :: "jstr \<Rightarrow> js_error" where
  "SecretEgressBlockedError field = \<lparr>err_name = S ''SecretEgressBlockedError'',
     err_message = S ''SECRET_EGRESS_BLOCKED: outbound tool call blocked for argument '' @ [39] @ field @ [39],
     err_code = Some (S ''SECRET_EGRESS_BLOCKED''), err_status = Some 400\<rparr>"

definition is_nullish :: "jv \<Rightarrow> bool" where
  "is_nullish v \<longleftrightarrow> v = JNull \<or> v = JUndef"

fun guard_traverse :: "fpu \<Rightarrow> (jstr \<Rightarrow> jstr) \<Rightarrow> jstr \<Rightarrow> jv \<Rightarrow> unit result" where
  "guard_traverse M nfkc path (JStr s) =
     (if findHighEntropyTokens M default_options (normalizeUnicodeAndWhitespace nfkc s) \<noteq> []
      then Inl (SecretEgressBlockedError (if path = [] then S ''<root>'' else path)) else Inr ())"
| "guard_traverse M nfkc path (JArr xs) =
     check_each (\<lambda>(i, x). guard_traverse M nfkc (index_path path i) x) (List.enumerate 0 xs)"
| "guard_traverse M nfkc path (JObj kvs) =
     check_each (\<lambda>(key, nestedValue). let nestedPath = key_path path key in
       if \<not> is_nullish nestedValue \<and> (\<exists>p \<in> set SENSITIVE_ARGUMENT_KEY_PATTERNS. re_test p key)
       then Inl (SecretEgressBlockedError nestedPath)
       else guard_traverse M nfkc nestedPath nestedValue) kvs"
| "guard_traverse M nfkc path _ = Inr ()"

definition guard_validate :: "fpu \<Rightarrow> (jstr \<Rightarrow> jstr) \<Rightarrow> jv \<Rightarrow> unit result" where
  "guard_validate M nfkc args = guard_traverse M nfkc [] args"

section \<open>Accepted arguments\<close>

lemma traverse_leaves: "traverseAndValidate nfkc path v
    = check_each (\<lambda>(p, s). checkStringValue nfkc s p) (leaves path v)"
proof (induction nfkc path v rule: traverseAndValidate.induct)
  case (2 nfkc path xs)
  then show ?case
    by (simp add: check_each_concat check_each_map comp_def case_prod_unfold cong: check_each_cong)
next
  case (3 nfkc path kvs)
  then show ?case
    by (simp add: check_each_concat check_each_map comp_def case_prod_unfold cong: check_each_cong)
qed (auto simp: bindE_def split: sum.splits)

text \<open>What an accepted text does not contain.\<close>

definition dot_dot_segment :: "jstr \<Rightarrow> bool" where
  "dot_dot_segment t \<longleftrightarrow> (\<exists>a b. t = a @ S ''..'' @ b \<and> (a = [] \<or> slash (last a)) \<and> (b = [] \<or> slash (hd b)))"

definition chained :: "jstr \<Rightarrow> bool" where
  "chained t \<longleftrightarrow> (\<exists>a d b. t = a @ 59 # d # b \<and> d \<noteq> 59)
     \<or> sublist (S ''&&'') t \<or> sublist (S ''||'') t"

definition null_byte :: "jstr \<Rightarrow> bool" where
  "null_byte t \<longleftrightarrow> 0 \<in> set t \<or> sublist (S ''%00'') t"

lemma test_dot_dot: "re_test (RSeq path_start (RSeq (rlit (S ''..'')) (RAlt (RCls slash) REol))) t \<longleftrightarrow>
    dot_dot_segment t"
  unfolding path_start_def re_test_segment dot_dot_segment_def by simp

lemma test_null: "re_test (RAlt (rchr 0) (rlit (S ''%00''))) t \<longleftrightarrow> null_byte t"
  by (simp add: re_test_alt re_test_lit re_test_chr null_byte_def)

lemma test_semicolon:
  "re_test (RSeq (rchr 59) (RSeq (RStar (RCls is_space)) (rplus (except 59)))) t \<longleftrightarrow>
     (\<exists>a d b. t = a @ 59 # d # b \<and> d \<noteq> 59)" (is "_ \<longleftrightarrow> ?r")
proof -
  have "re_test (RSeq (rchr 59) (RSeq (RStar (RCls is_space)) (rplus (except 59)))) t \<longleftrightarrow>
      (\<exists>a w d b. t = a @ 59 # w @ d # b \<and> list_all is_space w \<and> d \<noteq> 59)"
    unfolding except_def by (rule re_test_then_cls)
  also have "\<dots> \<longleftrightarrow> ?r"
  proof
    assume "\<exists>a w d b. t = a @ 59 # w @ d # b \<and> list_all is_space w \<and> d \<noteq> 59"
    then obtain a w d b where t: "t = a @ 59 # w @ d # b" "list_all is_space w" "d \<noteq> 59" by blast
    have n: "\<not> is_space 59" by (simp add: is_space_def)
    show ?r
    proof (cases w)
      case Nil
      with t show ?thesis by auto
    next
      case (Cons x v)
      with t n have "t = a @ 59 # x # v @ d # b" "x \<noteq> 59" by auto
      then show ?thesis by blast
    qed
  next
    assume ?r
    then obtain a d b where "t = a @ 59 # d # b" "d \<noteq> 59" by blast
    then show "\<exists>a w d b. t = a @ 59 # w @ d # b \<and> list_all is_space w \<and> d \<noteq> 59"
      by (intro exI [of _ a] exI [of _ "[]"]) auto
  qed
  finally show ?thesis .
qed

lemma check_pattern_ok: "check_pattern what val nrm path pat = Inr () \<longleftrightarrow>
    \<not> re_test (fst pat) val \<and> \<not> re_test (fst pat) nrm"
  by (simp add: check_pattern_def)

lemma checkStringValue_ok: "checkStringValue nfkc val path = Inr () \<longleftrightarrow>
    length val \<le> MAX_ARGUMENT_STRING_LENGTH
    \<and> (\<forall>pat \<in> set (PATH_TRAVERSAL_PATTERNS @ COMMAND_INJECTION_PATTERNS).
        \<not> re_test (fst pat) val \<and> \<not> re_test (fst pat) (normalizeUnicodeAndWhitespace nfkc val))"
  by (simp only: checkStringValue_def Let_def check_each_append [symmetric])
    (auto simp: check_each_ok check_pattern_ok bindE_Inr_iff ball_Un)

lemma safe_text:
  assumes "\<forall>pat \<in> set (PATH_TRAVERSAL_PATTERNS @ COMMAND_INJECTION_PATTERNS). \<not> re_test (fst pat) t"
  shows "\<not> dot_dot_segment t \<and> \<not> null_byte t \<and> \<not> chained t"
proof -
  from assms have "\<not> re_test (RSeq path_start (RSeq (rlit (S ''..'')) (RAlt (RCls slash) REol))) t"
    "\<not> re_test (RAlt (rchr 0) (rlit (S ''%00''))) t"
    by (simp_all add: PATH_TRAVERSAL_PATTERNS_def)
  moreover from assms have
    "\<not> re_test (RSeq (rchr 59) (RSeq (RStar (RCls is_space)) (rplus (except 59)))) t"
    "\<not> re_test (RAlt (rlit (S ''&&'')) (rlit (S ''||''))) t"
    by (simp_all add: COMMAND_INJECTION_PATTERNS_def)
  ultimately show ?thesis
    unfolding test_dot_dot test_null test_semicolon chained_def by (simp add: re_test_alt re_test_lit)
qed

lemma violation_field: "checkStringValue nfkc s p = Inl e \<Longrightarrow> v_field e = p"
  by (auto simp: checkStringValue_def Let_def bindE_Inl_iff check_each_error check_pattern_def
      SanitizationViolationError_def split: if_splits)

text \<open>
  C20. The sanitizer accepts an argument tree exactly when every string in it passes the checks;
  otherwise it reports the first failing string in document order, and the field of the error is
  the path of that string. No accepted string, raw or normalised, is longer than the limit or has
  a dot-dot path segment, a null byte or its escape, a chained command.
\<close>

theorem sanitizer_validates_leaves:
  "(sanitizer_validate nfkc True args = Inl e \<longleftrightarrow>
     (\<exists>ys p s zs. leaves [] args = ys @ (p, s) # zs \<and> checkStringValue nfkc s p = Inl e \<and> v_field e = p
        \<and> (\<forall>(q, u) \<in> set ys. checkStringValue nfkc u q = Inr ())))
   \<and> (sanitizer_validate nfkc True args = Inr () \<longrightarrow>
     (\<forall>s \<in> set (str_leaves args). \<forall>t \<in> {s, normalizeUnicodeAndWhitespace nfkc s}.
        length s \<le> 65536 \<and> \<not> dot_dot_segment t \<and> \<not> null_byte t \<and> \<not> chained t))"
proof (intro conjI impI ballI)
  show "sanitizer_validate nfkc True args = Inl e \<longleftrightarrow>
     (\<exists>ys p s zs. leaves [] args = ys @ (p, s) # zs \<and> checkStringValue nfkc s p = Inl e \<and> v_field e = p
        \<and> (\<forall>(q, u) \<in> set ys. checkStringValue nfkc u q = Inr ()))"
    (is "?l \<longleftrightarrow> ?r")
  proof -
    have "?l \<longleftrightarrow> (\<exists>ys p s zs. leaves [] args = ys @ (p, s) # zs \<and> checkStringValue nfkc s p = Inl e
        \<and> (\<forall>(q, u) \<in> set ys. checkStringValue nfkc u q = Inr ()))"
      unfolding sanitizer_validate_def traverse_leaves check_each_error not_True_eq_False if_False split_paired_Ex
      by (simp add: case_prod_unfold)
    also have "\<dots> \<longleftrightarrow> ?r"
      by (intro ex_cong1 conj_cong refl) (use violation_field in blast)
    finally show ?thesis .
  qed
next
  fix s t
  assume ok: "sanitizer_validate nfkc True args = Inr ()" and s: "s \<in> set (str_leaves args)"
    and t: "t \<in> {s, normalizeUnicodeAndWhitespace nfkc s}"
  from s obtain p where "(p, s) \<in> set (leaves [] args)"
    unfolding leaves_str_leaves [of "[]", symmetric] by auto
  with ok have c: "checkStringValue nfkc s p = Inr ()"
    by (auto simp: sanitizer_validate_def traverse_leaves check_each_ok)
  have "\<not> dot_dot_segment t \<and> \<not> null_byte t \<and> \<not> chained t"
    using c t unfolding checkStringValue_ok by (intro safe_text) auto
  moreover from c have "length s \<le> 65536"
    unfolding checkStringValue_ok MAX_ARGUMENT_STRING_LENGTH_def by simp
  ultimately show "length s \<le> 65536" "\<not> dot_dot_segment t" "\<not> null_byte t" "\<not> chained t" by auto
qed

text \<open>A text without white space or invisible characters is its own normal form.\<close>

lemma normalize_plain:
  assumes "nfkc s = s" and "\<forall>c \<in> set s. \<not> is_space c \<and> \<not> zero_width c \<and> \<not> odd_space c"
  shows "normalizeUnicodeAndWhitespace nfkc s = s"
proof -
  have "\<not> re_test (RCls zero_width) s" "\<not> re_test (RCls odd_space) s" "\<not> re_test (rplus (RCls is_space)) s"
    using assms(2) by (auto simp: re_test_cls re_test_plus_cls)
  moreover have "trim s = s"
  proof -
    have "dropWhile is_space u = u" if "set u \<subseteq> set s" for u
      using assms(2) that by (cases u) auto
    then show ?thesis by (simp add: trim_def)
  qed
  ultimately show ?thesis using assms(1) by (simp add: normalizeUnicodeAndWhitespace_def re_replace_id)
qed

lemmas regex_eval = re_test_def rlit_i.simps rchr_i_def rchr_def ascii_lower_def rplus_def ropt_def except_def
  path_start_def ifs_re_def slash_def src_def word_char_def at_boundary_def shell_commands_def
  is_alnum_def is_alpha_def is_digit_def one_of_def

lemma good_text: "checkStringValue (\<lambda>s. s) (S ''ok'') p = Inr ()"
proof -
  have "normalizeUnicodeAndWhitespace (\<lambda>s. s) (S ''ok'') = S ''ok''"
    by (rule normalize_plain) (simp_all add: js_eval zero_width_def odd_space_def)
  then show ?thesis
    unfolding checkStringValue_ok
    by (simp add: MAX_ARGUMENT_STRING_LENGTH_def PATH_TRAVERSAL_PATTERNS_def COMMAND_INJECTION_PATTERNS_def
      regex_eval js_eval)
qed

lemma bad_text: "checkStringValue nfkc (S ''a/../b'') p = Inl (SanitizationViolationError
   (S ''Detected potential Path Traversal attack in parameter '' @ [39] @ p @ [39])
   p (src ''(?:^|[~~/])~.~.(?:[~~/]|$)''))"
proof -
  have dd: "dot_dot_segment (S ''a/../b'')"
    unfolding dot_dot_segment_def
    by (rule exI [of _ "S ''a/''"], rule exI [of _ "S ''/b''"]) (simp add: slash_def S_def)
  have e: "S ''Detected potential '' @ S ''Path Traversal attack'' @ S '' in parameter '' @ r
      = S ''Detected potential Path Traversal attack in parameter '' @ r" for r
    by (simp add: S_def)
  from dd show ?thesis
    by (simp add: e checkStringValue_def MAX_ARGUMENT_STRING_LENGTH_def PATH_TRAVERSAL_PATTERNS_def Let_def
      check_pattern_def test_dot_dot)
qed

theorem sanitizer_validates_leaves_witness:
  "sanitizer_validate (\<lambda>s. s) True (JObj [(S ''q'', JArr [JStr (S ''ok''), JStr (S ''a/../b'')])]) =
     Inl (SanitizationViolationError
       (S ''Detected potential Path Traversal attack in parameter '' @ [39] @ S ''q[1]'' @ [39])
       (S ''q[1]'') (src ''(?:^|[~~/])~.~.(?:[~~/]|$)''))
   \<and> \<not> dot_dot_segment (S ''ok'') \<and> \<not> null_byte (S ''ok'') \<and> \<not> chained (S ''ok'')"
proof -
  let ?v = "JObj [(S ''q'', JArr [JStr (S ''ok''), JStr (S ''a/../b'')])]"
  have lv: "leaves [] ?v = [(S ''q[0]'', S ''ok'')] @ (S ''q[1]'', S ''a/../b'') # []"
    by (simp add: index_path_def key_path_def dec_nat.simps S_def)
  have "sanitizer_validate (\<lambda>s. s) True ?v = Inl (SanitizationViolationError
       (S ''Detected potential Path Traversal attack in parameter '' @ [39] @ S ''q[1]'' @ [39])
       (S ''q[1]'') (src ''(?:^|[~~/])~.~.(?:[~~/]|$)''))"
    unfolding sanitizer_validates_leaves [THEN conjunct1] lv
    by (intro exI conjI) (rule refl, simp add: bad_text, simp add: SanitizationViolationError_def, simp add: good_text)
  moreover have "sanitizer_validate (\<lambda>s. s) True (JObj [(S ''q'', JStr (S ''ok''))]) = Inr ()"
    by (simp add: sanitizer_validate_def good_text)
  with sanitizer_validates_leaves [of "\<lambda>s. s" "JObj [(S ''q'', JStr (S ''ok''))]"]
  have "\<not> dot_dot_segment (S ''ok'') \<and> \<not> null_byte (S ''ok'') \<and> \<not> chained (S ''ok'')" by simp
  ultimately show ?thesis by blast
qed

end
