(* ===== verification/Json.thy ===== *)
theory Json
  imports JsValue
begin

text \<open>
  \<open>JSON.stringify\<close> without indentation, and the byte length of a text in UTF-8. The decimal text of
  a number that is not an integer below \<open>10^21\<close> is the parameter \<open>num_text\<close>
  (\<open>Number.prototype.toString\<close>: the shortest digits that read back as the same double).
\<close>

definition join :: "jstr \<Rightarrow> jstr list \<Rightarrow> jstr" where
  "join sep ts = (case ts of [] \<Rightarrow> [] | t # us \<Rightarrow> t @ concat (map (\<lambda>u. sep @ u) us))"

lemma join_simps [simp]: "join sep [] = []" "join sep [t] = t"
  "join sep (t # u # us) = t @ sep @ join sep (u # us)"
  by (simp_all add: join_def)

definition json_num :: "(jnum \<Rightarrow> jstr) \<Rightarrow> jnum \<Rightarrow> jstr" where
  "json_num num_text n = (case n of
      NInt i \<Rightarrow> if \<bar>i\<bar> < 10 ^ 21 then dec_int i else num_text n
    | NFrac q \<Rightarrow> num_text n
    | NInf b \<Rightarrow> S ''null''
    | NaN \<Rightarrow> S ''null'')"

text \<open>Properties whose value is undefined are left out; undefined array elements read \<open>null\<close>.\<close>

fun stringify :: "(jnum \<Rightarrow> jstr) \<Rightarrow> jv \<Rightarrow> jstr" where
  "stringify num JUndef = S ''null''"
| "stringify num JNull = S ''null''"
| "stringify num (JBool b) = (if b then S ''true'' else S ''false'')"
| "stringify num (JNum n) = json_num num n"
| "stringify num (JStr s) = json_quote s"
| "stringify num (JArr xs) = S ''['' @ join (S '','') (map (stringify num) xs) @ S '']''"
| "stringify num (JObj kvs) = S ''{'' @ join (S '','')
     (map (\<lambda>(k, v). json_quote k @ S '':'' @ stringify num v) (filter (\<lambda>kv. snd kv \<noteq> JUndef) kvs)) @ S ''}''"

text \<open>\<open>String(v)\<close> of a JSON value (an object with a member \<open>toString\<close>, which would throw, is read as any other).\<close>

fun js_string :: "(jnum \<Rightarrow> jstr) \<Rightarrow> jv \<Rightarrow> jstr" where
  "js_string num JUndef = S ''undefined''"
| "js_string num JNull = S ''null''"
| "js_string num (JBool b) = (if b then S ''true'' else S ''false'')"
| "js_string num (JNum n) = (case n of NInf up \<Rightarrow> if up then S ''Infinity'' else S ''-Infinity'' | NaN \<Rightarrow> S ''NaN'' | _ \<Rightarrow> json_num num n)"
| "js_string num (JStr s) = s"
| "js_string num (JArr xs) = join (S '','') (map (\<lambda>x. if x = JUndef \<or> x = JNull then [] else js_string num x) xs)"
| "js_string num (JObj kvs) = S ''[object Object]''"

text \<open>\<open>Buffer.byteLength(text, "utf8")\<close>: a lone surrogate is replaced by U+FFFD, three bytes.\<close>

fun utf8_length :: "jstr \<Rightarrow> nat" where
  "utf8_length [] = 0"
| "utf8_length [c] = (if c < 0x80 then 1 else if c < 0x800 then 2 else 3)"
| "utf8_length (c # d # s) =
     (if hi_surrogate c \<and> lo_surrogate d then 4 + utf8_length s
      else (if c < 0x80 then 1 else if c < 0x800 then 2 else 3) + utf8_length (d # s))"

lemma utf8_length_bounds: "length s \<le> utf8_length s \<and> utf8_length s \<le> 3 * length s"
  by (induction s rule: utf8_length.induct) (auto simp: Suc_le_eq)

end
