(* ===== verification/AuditLogger.thy ===== *)
theory AuditLogger
  imports SecretBoundary Json "HOL-Library.Multiset"
begin

text \<open>
  The audit logger (\<open>src/audit/auditLogger.ts\<close>): the estimates an entry carries, the row of an
  entry, and the queue with its batched, retried writes as a state machine. The pool and the file
  system enter as the outcomes of a batch: the insert may succeed, or be reported as failed with or
  without having taken effect, and the write of the fallback file may fail.
\<close>

section \<open>Estimates\<close>

definition is_cjk :: "nat \<Rightarrow> bool" where
  "is_cjk code \<longleftrightarrow> (0x4e00 \<le> code \<and> code \<le> 0x9fff) \<or> (0xac00 \<le> code \<and> code \<le> 0xd7af)
     \<or> (0x3040 \<le> code \<and> code \<le> 0x30ff)"

definition estimateTokens :: "fpu \<Rightarrow> (jnum \<Rightarrow> jstr) \<Rightarrow> jv \<Rightarrow> int" where
  "estimateTokens M num textOrObject =
     (if is_nullish textOrObject then 0
      else let text = (case textOrObject of JStr s \<Rightarrow> s | v \<Rightarrow> stringify num v) in
        if text = [] then 0
        else let cjkCount = length (filter is_cjk text); otherCount = length (filter (\<lambda>c. \<not> is_cjk c) text)
          in \<lceil>fl M (fl M (real cjkCount * fl M 0.7) + fl M (real otherCount / fl M 3.8))\<rceil>)"

text \<open>\<open>toFixed(4)\<close> picks the integer nearest to \<open>10^4 x\<close>, the larger one of two.\<close>

definition toFixed4 :: "real \<Rightarrow> real" where
  "toFixed4 x = real_of_int \<lfloor>x * 10000 + 1 / 2\<rfloor> / 10000"

definition baseCredit :: "jstr \<Rightarrow> real" where
  "baseCredit toolName = (if startsWith toolName (S ''hermes.'') then 5
     else if startsWith toolName (S ''knowledge.'') then 2 else 1)"

definition calculateCredits :: "fpu \<Rightarrow> jstr \<Rightarrow> nat \<Rightarrow> nat \<Rightarrow> real" where
  "calculateCredits M toolName requestBytes responseBytes =
     (let totalKb = fl M (real (requestBytes + responseBytes) / 1024);
          variableCredit = fl M (totalKb * fl M 0.0001)
      in fl M (toFixed4 (fl M (baseCredit toolName + variableCredit))))"

definition ipv4Regex :: re where
  "ipv4Regex = RSeq RBol (rseqs [rrep 3 (RSeq (RSeq (RCls is_digit) (rupto 2 (RCls is_digit))) (rchr 46)),
     RSeq (RCls is_digit) (rupto 2 (RCls is_digit)), REol])"

definition ipv6Regex :: re where
  "ipv6Regex = RSeq RBol (rseqs [RSeq (RSeq (rupto 4 (RCls is_hex)) (rchr 58))
       (rupto 6 (RSeq (rupto 4 (RCls is_hex)) (rchr 58))), rupto 4 (RCls is_hex), REol])"

definition isValidIp :: "jstr option \<Rightarrow> bool" where
  "isValidIp ip = (case ip of None \<Rightarrow> False | Some s \<Rightarrow> s \<noteq> [] \<and> (re_test ipv4Regex s \<or> re_test ipv6Regex s))"

section \<open>Entries and rows\<close>

datatype log_status = SUCCESS | FORBIDDEN | ERROR | SECURITY_VIOLATION

record audit_entry =
  ae_requestId :: "jstr option"
  ae_userId :: jstr
  ae_apiKeyId :: "jstr option"
  ae_toolName :: jstr
  ae_status :: log_status
  ae_statusCode :: int
  ae_durationMs :: real
  ae_requestBytes :: "nat option"
  ae_responseBytes :: "nat option"
  ae_inputTokens :: "int option"
  ae_outputTokens :: "int option"
  ae_creditsUsed :: "real option"
  ae_arguments :: "jv option"
  ae_ipAddress :: "jstr option"
  ae_userAgent :: "jstr option"

record usage_row =
  ur_request_id :: "jstr option"
  ur_user_id :: jstr
  ur_api_key_id :: "jstr option"
  ur_tool_name :: jstr
  ur_status :: log_status
  ur_status_code :: int
  ur_duration_ms :: int
  ur_request_bytes :: int
  ur_response_bytes :: int
  ur_input_tokens :: int
  ur_output_tokens :: int
  ur_credits_used :: real
  ur_arguments :: "jstr option"
  ur_ip_address :: "jstr option"
  ur_user_agent :: "jstr option"

definition js_round :: "real \<Rightarrow> int" where
  "js_round x = \<lfloor>x + 1 / 2\<rfloor>"

definition or_else :: "'a option \<Rightarrow> 'a \<Rightarrow> 'a" where
  "or_else x d = (case x of Some y \<Rightarrow> y | None \<Rightarrow> d)"

definition usage_row_of :: "fpu \<Rightarrow> (jnum \<Rightarrow> jstr) \<Rightarrow> audit_entry \<Rightarrow> usage_row" where
  "usage_row_of M num entry =
     \<lparr>ur_request_id = ae_requestId entry, ur_user_id = ae_userId entry, ur_api_key_id = ae_apiKeyId entry,
      ur_tool_name = ae_toolName entry, ur_status = ae_status entry, ur_status_code = ae_statusCode entry,
      ur_duration_ms = max 0 (js_round (ae_durationMs entry)),
      ur_request_bytes = max 0 (int (or_else (ae_requestBytes entry) 0)),
      ur_response_bytes = max 0 (int (or_else (ae_responseBytes entry) 0)),
      ur_input_tokens = max 0 (or_else (ae_inputTokens entry) 0),
      ur_output_tokens = max 0 (or_else (ae_outputTokens entry) 0),
      ur_credits_used = or_else (ae_creditsUsed entry) 0,
      ur_arguments = map_option (\<lambda>a. stringify num (maskSensitiveArguments M a)) (ae_arguments entry),
      ur_ip_address = (if isValidIp (ae_ipAddress entry) then ae_ipAddress entry else None),
      ur_user_agent = ae_userAgent entry\<rparr>"

section \<open>The queue\<close>

record audit_config =
  ac_batchSize :: nat
  ac_maxQueueSize :: nat

definition default_audit :: audit_config where
  "default_audit = \<lparr>ac_batchSize = 50, ac_maxQueueSize = 10000\<rparr>"

text \<open>
  The state of one logger: the queue, the batch of the flush that waits for the database
  (\<open>isFlushing\<close> is its presence), the timer, and what the outside holds: the batches in the
  table and in the fallback file, the batches that were evicted from memory.
\<close>

record 'e audit_state =
  aq_queue :: "'e list"
  aq_inflight :: "'e list option"
  aq_timer :: bool
  aq_rows :: "'e list"
  aq_file :: "'e list"
  aq_evicted :: "'e list"

definition isFlushing :: "'e audit_state \<Rightarrow> bool" where
  "isFlushing s \<longleftrightarrow> aq_inflight s \<noteq> None"

definition audit_init :: "'e audit_state" where
  "audit_init = \<lparr>aq_queue = [], aq_inflight = None, aq_timer = True, aq_rows = [], aq_file = [], aq_evicted = []\<rparr>"

text \<open>\<open>flush\<close> up to the query.\<close>

definition flush_start :: "'e audit_state \<Rightarrow> 'e audit_state" where
  "flush_start s = (if aq_queue s = [] \<or> isFlushing s then s
     else s\<lparr>aq_inflight := Some (aq_queue s), aq_queue := []\<rparr>)"

definition audit_log :: "audit_config \<Rightarrow> 'e \<Rightarrow> 'e audit_state \<Rightarrow> 'e audit_state" where
  "audit_log cfg entry s =
     (let s' = s\<lparr>aq_queue := aq_queue s @ [entry]\<rparr> in
      if length (aq_queue s') \<ge> ac_batchSize cfg then flush_start s' else s')"

definition audit_stop :: "'e audit_state \<Rightarrow> 'e audit_state" where
  "audit_stop s = s\<lparr>aq_timer := False\<rparr>"

definition timer_tick :: "'e audit_state \<Rightarrow> 'e audit_state" where
  "timer_tick s = (if aq_timer s then flush_start s else s)"

definition writeFallbackFile :: "bool \<Rightarrow> 'e list \<Rightarrow> 'e audit_state \<Rightarrow> 'e audit_state" where
  "writeFallbackFile writable entries s = (if writable then s\<lparr>aq_file := aq_file s @ entries\<rparr> else s)"

text \<open>
  The answer of the database to the \<open>INSERT\<close> of a batch. The statement has fifteen parameters per entry, and the
  protocol of PostgreSQL counts the parameters of a statement in 16 bits: it refuses a longer batch
  whatever its state.
\<close>

datatype outcome = Inserted | Failed (applied: bool)

definition insertable :: "'e list \<Rightarrow> bool" where
  "insertable b \<longleftrightarrow> 15 * length b \<le> 65535"

definition answer_to :: "'e list \<Rightarrow> outcome \<Rightarrow> outcome" where
  "answer_to b out = (if insertable b then out else Failed False)"

text \<open>
  \<open>flush\<close> from the answer of the database on: a failed batch is put in front of the queue when
  the bound allows it and is evicted otherwise.
\<close>

definition flush_end :: "audit_config \<Rightarrow> outcome \<Rightarrow> bool \<Rightarrow> 'e audit_state \<Rightarrow> 'e audit_state" where
  "flush_end cfg out writable s = (case aq_inflight s of
      None \<Rightarrow> s
    | Some toProcess \<Rightarrow>
        (case answer_to toProcess out of
           Inserted \<Rightarrow> s\<lparr>aq_rows := aq_rows s @ toProcess, aq_inflight := None\<rparr>
         | Failed ap \<Rightarrow>
             let s1 = (if ap then s\<lparr>aq_rows := aq_rows s @ toProcess\<rparr> else s);
                 s2 = writeFallbackFile writable toProcess s1;
                 s3 = (if length (aq_queue s2) + length toProcess \<le> ac_maxQueueSize cfg
                       then s2\<lparr>aq_queue := toProcess @ aq_queue s2\<rparr>
                       else s2\<lparr>aq_evicted := aq_evicted s2 @ toProcess\<rparr>)
             in s3\<lparr>aq_inflight := None\<rparr>))"

text \<open>\<open>Done out writable\<close>: the database answers the flush in flight, and the fallback file can be written or not.\<close>

datatype 'e audit_event = Log 'e | Tick | Flush | Done outcome bool | Stop

fun audit_step :: "audit_config \<Rightarrow> 'e audit_state \<Rightarrow> 'e audit_event \<Rightarrow> 'e audit_state" where
  "audit_step cfg s (Log e) = audit_log cfg e s"
| "audit_step cfg s Tick = timer_tick s"
| "audit_step cfg s Flush = flush_start s"
| "audit_step cfg s (Done out writable) = flush_end cfg out writable s"
| "audit_step cfg s Stop = audit_stop s"

definition audit_run :: "audit_config \<Rightarrow> 'e audit_event list \<Rightarrow> 'e audit_state \<Rightarrow> 'e audit_state" where
  "audit_run cfg es s = foldl (audit_step cfg) s es"

section \<open>What the logger promises\<close>

text \<open>
  The specification: a spool of pending entries in order of submission. A step submits an entry,
  moves the oldest entries to the table, or fails for the oldest entries, which then stay pending
  or are evicted; a failed batch may be in the table or in the fallback file all the same.
\<close>

record 'e spool =
  sp_pending :: "'e list"
  sp_rows :: "'e list"
  sp_file :: "'e list"
  sp_evicted :: "'e list"

inductive spool_step :: "'e option \<Rightarrow> 'e spool \<Rightarrow> 'e spool \<Rightarrow> bool" where
  Submit: "spool_step (Some e) a (a\<lparr>sp_pending := sp_pending a @ [e]\<rparr>)"
| Skip: "spool_step None a a"
| Store: "sp_pending a = b @ r \<Longrightarrow> spool_step None a (a\<lparr>sp_pending := r, sp_rows := sp_rows a @ b\<rparr>)"
| Retry: "sp_pending a = b @ r \<Longrightarrow> d \<in> {[], b} \<Longrightarrow> f \<in> {[], b} \<Longrightarrow>
    spool_step None a (a\<lparr>sp_rows := sp_rows a @ d, sp_file := sp_file a @ f\<rparr>)"
| Evict: "sp_pending a = b @ r \<Longrightarrow> d \<in> {[], b} \<Longrightarrow> f \<in> {[], b} \<Longrightarrow>
    spool_step None a (a\<lparr>sp_pending := r, sp_rows := sp_rows a @ d, sp_file := sp_file a @ f,
      sp_evicted := sp_evicted a @ b\<rparr>)"

definition pending :: "'e audit_state \<Rightarrow> 'e list" where
  "pending s = or_else (aq_inflight s) [] @ aq_queue s"

definition spool_of :: "'e audit_state \<Rightarrow> 'e spool" where
  "spool_of s = \<lparr>sp_pending = pending s, sp_rows = aq_rows s, sp_file = aq_file s, sp_evicted = aq_evicted s\<rparr>"

definition submitted_by :: "'e audit_event \<Rightarrow> 'e option" where
  "submitted_by ev = (case ev of Log e \<Rightarrow> Some e | _ \<Rightarrow> None)"

lemma or_else_simps [simp]: "or_else None d = d" "or_else (Some x) d = x"
  by (simp_all add: or_else_def)

lemma spool_of_flush_start [simp]: "spool_of (flush_start s) = spool_of s"
  by (cases "aq_inflight s") (auto simp: flush_start_def isFlushing_def spool_of_def pending_def)

lemma spool_of_log [simp]: "spool_of (audit_log cfg e s) = (spool_of s)\<lparr>sp_pending := sp_pending (spool_of s) @ [e]\<rparr>"
proof -
  have "spool_of (s\<lparr>aq_queue := aq_queue s @ [e]\<rparr>) = (spool_of s)\<lparr>sp_pending := sp_pending (spool_of s) @ [e]\<rparr>"
    by (simp add: spool_of_def pending_def)
  then show ?thesis by (simp add: audit_log_def Let_def)
qed

lemma spool_of_stop [simp]: "spool_of (audit_stop s) = spool_of s"
  by (simp add: audit_stop_def spool_of_def pending_def)

lemma spool_of_tick [simp]: "spool_of (timer_tick s) = spool_of s"
  by (simp add: timer_tick_def)

lemma flush_end_refines: "spool_step None (spool_of s) (spool_of (flush_end cfg out wr s))"
proof (cases "aq_inflight s")
  case None
  then show ?thesis by (simp add: flush_end_def Skip)
next
  case (Some b)
  have p: "sp_pending (spool_of s) = b @ aq_queue s" using Some by (simp add: spool_of_def pending_def)
  show ?thesis
  proof (cases "answer_to b out")
    case Inserted
    then have "spool_of (flush_end cfg out wr s) = (spool_of s)\<lparr>sp_pending := aq_queue s, sp_rows := sp_rows (spool_of s) @ b\<rparr>"
      using Some by (simp add: flush_end_def spool_of_def pending_def)
    then show ?thesis using Store [OF p] by simp
  next
    case (Failed ap)
    let ?d = "if ap then b else []" and ?f = "if wr then b else []"
    show ?thesis
    proof (cases "length (aq_queue s) + length b \<le> ac_maxQueueSize cfg")
      case True
      then have "spool_of (flush_end cfg out wr s)
          = (spool_of s)\<lparr>sp_rows := sp_rows (spool_of s) @ ?d, sp_file := sp_file (spool_of s) @ ?f\<rparr>"
        using Some Failed by (auto simp: flush_end_def spool_of_def pending_def Let_def writeFallbackFile_def)
      then show ?thesis using Retry [OF p, of ?d ?f] by simp
    next
      case False
      then have "spool_of (flush_end cfg out wr s)
          = (spool_of s)\<lparr>sp_pending := aq_queue s, sp_rows := sp_rows (spool_of s) @ ?d,
              sp_file := sp_file (spool_of s) @ ?f, sp_evicted := sp_evicted (spool_of s) @ b\<rparr>"
        using Some Failed by (auto simp: flush_end_def spool_of_def pending_def Let_def writeFallbackFile_def)
      then show ?thesis using Evict [OF p, of ?d ?f] by simp
    qed
  qed
qed

lemma step_refines: "spool_step (submitted_by ev) (spool_of s) (spool_of (audit_step cfg s ev))"
  by (cases ev) (auto simp: submitted_by_def Submit Skip flush_end_refines)

text \<open>
  C30. The buffered logger refines the spool: every step of the program, whatever the state, the
  batch size and the answer of the database, is a step of the specification on the entries that
  are pending, that is, in flight or queued.
\<close>

theorem audit_logger_refines_spool:
  "spool_step (submitted_by ev) (spool_of s) (spool_of (audit_step cfg s ev))"
  by (rule step_refines)

section \<open>Nothing is lost, nothing is reordered\<close>

definition submitted :: "'e audit_event list \<Rightarrow> 'e list" where
  "submitted es = concat (map (\<lambda>ev. case submitted_by ev of Some e \<Rightarrow> [e] | None \<Rightarrow> []) es)"

lemma audit_run_snoc [simp]: "audit_run cfg (es @ [ev]) s = audit_step cfg (audit_run cfg es s) ev"
  by (simp add: audit_run_def)

lemma audit_run_simps [simp]: "audit_run cfg [] s = s"
  "audit_run cfg (ev # es) s = audit_run cfg es (audit_step cfg s ev)"
  by (simp_all add: audit_run_def)

text \<open>A failure is honest when the insert it reports did not take effect.\<close>

definition honest :: "'e audit_event \<Rightarrow> bool" where
  "honest ev = (case ev of Done (Failed ap) _ \<Rightarrow> \<not> ap | _ \<Rightarrow> True)"

definition all_entries :: "'e spool \<Rightarrow> 'e multiset" where
  "all_entries a = mset (sp_rows a) + mset (sp_evicted a) + mset (sp_pending a)"

lemma answer_honest: "honest (Done out wr) \<Longrightarrow> answer_to b out \<in> {Inserted, Failed False}"
  by (cases out) (auto simp: answer_to_def honest_def)

lemma flush_end_honest:
  assumes "honest (Done out wr)"
  shows "all_entries (spool_of (flush_end cfg out wr s)) = all_entries (spool_of s)"
    and "aq_evicted (flush_end cfg out wr s) = [] \<Longrightarrow> aq_evicted s = []
      \<and> aq_rows (flush_end cfg out wr s) @ pending (flush_end cfg out wr s) = aq_rows s @ pending s"
proof -
  have "all_entries (spool_of (flush_end cfg out wr s)) = all_entries (spool_of s)
    \<and> (aq_evicted (flush_end cfg out wr s) = [] \<longrightarrow> aq_evicted s = []
      \<and> aq_rows (flush_end cfg out wr s) @ pending (flush_end cfg out wr s) = aq_rows s @ pending s)"
  proof (cases "aq_inflight s")
    case (Some b)
    then show ?thesis using answer_honest [OF assms, of b]
      by (auto simp: flush_end_def all_entries_def spool_of_def pending_def Let_def writeFallbackFile_def split: if_splits)
  qed (simp add: flush_end_def)
  then show "all_entries (spool_of (flush_end cfg out wr s)) = all_entries (spool_of s)"
    "aq_evicted (flush_end cfg out wr s) = [] \<Longrightarrow> aq_evicted s = []
      \<and> aq_rows (flush_end cfg out wr s) @ pending (flush_end cfg out wr s) = aq_rows s @ pending s" by blast+
qed

lemma honest_step:
  assumes "honest ev"
  shows "all_entries (spool_of (audit_step cfg s ev))
      = all_entries (spool_of s) + mset (case submitted_by ev of Some e \<Rightarrow> [e] | None \<Rightarrow> [])"
    and "aq_evicted (audit_step cfg s ev) = [] \<Longrightarrow> aq_evicted s = [] \<and>
      aq_rows (audit_step cfg s ev) @ pending (audit_step cfg s ev)
        = aq_rows s @ pending s @ (case submitted_by ev of Some e \<Rightarrow> [e] | None \<Rightarrow> [])"
proof -
  have sel: "aq_rows u = sp_rows (spool_of u)" "aq_evicted u = sp_evicted (spool_of u)"
    "pending u = sp_pending (spool_of u)" for u :: "'a audit_state"
    by (simp_all add: spool_of_def)
  show "all_entries (spool_of (audit_step cfg s ev))
      = all_entries (spool_of s) + mset (case submitted_by ev of Some e \<Rightarrow> [e] | None \<Rightarrow> [])"
    using assms flush_end_honest(1) [of _ _ cfg s]
    by (cases ev) (simp_all add: submitted_by_def all_entries_def)
  show "aq_evicted (audit_step cfg s ev) = [] \<Longrightarrow> aq_evicted s = [] \<and>
      aq_rows (audit_step cfg s ev) @ pending (audit_step cfg s ev)
        = aq_rows s @ pending s @ (case submitted_by ev of Some e \<Rightarrow> [e] | None \<Rightarrow> [])"
    using assms flush_end_honest(2) [of _ _ cfg s] by (cases ev) (simp_all add: submitted_by_def sel)
qed

lemma evicted_in_file:
  assumes "\<forall>ev \<in> set es. \<forall>out. ev \<noteq> Done out False"
  shows "set (aq_evicted (audit_run cfg es audit_init)) \<subseteq> set (aq_file (audit_run cfg es audit_init))"
  using assms
proof (induction es rule: rev_induct)
  case Nil
  show ?case by (simp add: audit_init_def)
next
  case (snoc ev es)
  let ?s = "audit_run cfg es audit_init"
  have IH: "set (aq_evicted ?s) \<subseteq> set (aq_file ?s)" using snoc by simp
  have sel: "aq_evicted u = sp_evicted (spool_of u)" "aq_file u = sp_file (spool_of u)" for u :: "'a audit_state"
    by (simp_all add: spool_of_def)
  show ?case
  proof (cases ev)
    case (Done out wr)
    with snoc.prems have "wr" by auto
    with IH show ?thesis unfolding audit_run_snoc Done
      by (auto simp: flush_end_def Let_def writeFallbackFile_def split: option.splits outcome.splits)
  qed (use IH in \<open>simp_all add: sel\<close>)
qed

definition places :: "'e spool \<Rightarrow> 'e set" where
  "places a = set (sp_rows a) \<union> set (sp_evicted a) \<union> set (sp_pending a)"

lemma places_step: "spool_step l a a' \<Longrightarrow> places a' = places a \<union> set_option l"
  by (induction rule: spool_step.induct) (auto simp: places_def)

lemma places_run: "places (spool_of (audit_run cfg es audit_init)) = set (submitted es)"
proof (induction es rule: rev_induct)
  case (snoc ev es)
  then show ?case using places_step [OF step_refines [of ev "audit_run cfg es audit_init" cfg]]
    by (cases "submitted_by ev") (simp_all add: submitted_def)
qed (simp add: audit_init_def places_def spool_of_def pending_def submitted_def)

lemma honest_run:
  assumes "\<forall>ev \<in> set es. honest ev"
  shows "all_entries (spool_of (audit_run cfg es audit_init)) = mset (submitted es)
    \<and> (aq_evicted (audit_run cfg es audit_init) = [] \<longrightarrow>
      aq_rows (audit_run cfg es audit_init) @ pending (audit_run cfg es audit_init) = submitted es)"
  using assms
proof (induction es rule: rev_induct)
  case Nil
  show ?case by (simp add: audit_init_def all_entries_def spool_of_def pending_def submitted_def)
next
  case (snoc ev es)
  let ?s = "audit_run cfg es audit_init"
  from snoc.prems have "honest ev" by simp
  note step = honest_step [OF this, of cfg ?s]
  from snoc have IH: "all_entries (spool_of ?s) = mset (submitted es)"
    "aq_evicted ?s = [] \<Longrightarrow> aq_rows ?s @ pending ?s = submitted es" by auto
  have app: "submitted (es @ [ev]) = submitted es @ (case submitted_by ev of Some e \<Rightarrow> [e] | None \<Rightarrow> [])"
    by (simp add: submitted_def)
  show ?case unfolding app audit_run_snoc using step IH by (metis append_assoc mset_append)
qed

text \<open>
  C33. Whatever the order of submissions, timer ticks, flushes and answers: no entry is lost and none is
  invented, every submitted entry is in the table, in memory or among the evicted ones. When every
  failure the database reports is honest, that is, the insert did not take effect, each entry is there
  exactly as often as it was submitted, and as long as nothing was evicted the table followed by what is
  pending is the sequence of submissions, so that rows are written once each and in order. (An insert
  that took effect but was reported as failed is repeated.) What was evicted is in the fallback file, if
  the file could be written.
\<close>

theorem audit_fifo:
  "let s = audit_run cfg es audit_init in
     set (aq_rows s) \<union> set (aq_evicted s) \<union> set (pending s) = set (submitted es)
   \<and> ((\<forall>ev \<in> set es. honest ev) \<longrightarrow>
       mset (aq_rows s) + mset (aq_evicted s) + mset (pending s) = mset (submitted es)
     \<and> (aq_evicted s = [] \<longrightarrow> aq_rows s @ pending s = submitted es))
   \<and> ((\<forall>ev \<in> set es. \<forall>out. ev \<noteq> Done out False) \<longrightarrow> set (aq_evicted s) \<subseteq> set (aq_file s))"
proof -
  let ?s = "audit_run cfg es audit_init"
  have "set (aq_rows ?s) \<union> set (aq_evicted ?s) \<union> set (pending ?s) = set (submitted es)"
    using places_run [of cfg es] by (simp add: places_def spool_of_def)
  moreover have "mset (aq_rows ?s) + mset (aq_evicted ?s) + mset (pending ?s) = mset (submitted es)
     \<and> (aq_evicted ?s = [] \<longrightarrow> aq_rows ?s @ pending ?s = submitted es)" if "\<forall>ev \<in> set es. honest ev"
    using honest_run [OF that, of cfg] by (simp add: all_entries_def spool_of_def)
  ultimately show ?thesis using evicted_in_file [of es cfg] by (simp add: Let_def)
qed

definition two_entries :: "jstr audit_event list" where
  "two_entries = [Log (S ''a''), Flush, Log (S ''b''), Done (Failed False) True, Tick, Done Inserted True]"

theorem audit_fifo_witness:
  "aq_rows (audit_run default_audit two_entries audit_init) @ pending (audit_run default_audit two_entries audit_init)
     = [S ''a'', S ''b'']"
proof -
  let ?s = "audit_run default_audit two_entries audit_init"
  have h: "\<forall>ev \<in> set two_entries. honest ev" by (simp add: two_entries_def honest_def)
  have "aq_evicted ?s = []"
    by (simp add: two_entries_def audit_init_def audit_log_def flush_start_def isFlushing_def flush_end_def
      answer_to_def insertable_def timer_tick_def default_audit_def Let_def writeFallbackFile_def)
  with h audit_fifo [of default_audit two_entries] have "aq_rows ?s @ pending ?s = submitted two_entries" unfolding Let_def by blast
  then show ?thesis by (simp add: two_entries_def submitted_def submitted_by_def)
qed

section \<open>Draining\<close>

text \<open>
  How far a logger that receives nothing new and whose database answers is: the batch in flight or the
  queue is gone, the queue is gone, everything is gone. Every event keeps what is reached.
\<close>

definition calm :: "'e audit_event \<Rightarrow> bool" where
  "calm ev \<longleftrightarrow> submitted_by ev = None \<and> ev \<noteq> Stop \<and> (\<forall>out wr. ev = Done out wr \<longrightarrow> out = Inserted)"

definition fits :: "'e audit_state \<Rightarrow> bool" where
  "fits s \<longleftrightarrow> insertable (or_else (aq_inflight s) []) \<and> insertable (aq_queue s)"

definition reached :: "nat \<Rightarrow> 'e audit_state \<Rightarrow> bool" where
  "reached k s \<longleftrightarrow> aq_timer s \<and> fits s \<and> (1 \<le> k \<longrightarrow> aq_inflight s = None \<or> aq_queue s = [])
     \<and> (2 \<le> k \<longrightarrow> aq_queue s = []) \<and> (3 \<le> k \<longrightarrow> aq_inflight s = None)"

lemma calm_cases: "calm ev \<Longrightarrow> ev = Tick \<or> ev = Flush \<or> (\<exists>wr. ev = Done Inserted wr)"
  by (cases ev) (auto simp: calm_def submitted_by_def)

lemma stored: "fits s \<Longrightarrow> flush_end cfg Inserted wr s =
    (case aq_inflight s of None \<Rightarrow> s | Some b \<Rightarrow> s\<lparr>aq_rows := aq_rows s @ b, aq_inflight := None\<rparr>)"
  by (auto simp: flush_end_def fits_def answer_to_def split: option.split)

lemma reached_step:
  assumes "calm ev" and "reached k s"
  shows "reached k (audit_step cfg s ev)"
    and "aq_rows (audit_step cfg s ev) @ pending (audit_step cfg s ev) = aq_rows s @ pending s"
proof -
  have f: "fits s" using assms(2) by (simp add: reached_def)
  have "reached k (audit_step cfg s ev) \<and> aq_rows (audit_step cfg s ev) @ pending (audit_step cfg s ev) = aq_rows s @ pending s"
    using calm_cases [OF assms(1)] assms(2)
    by (cases "aq_inflight s")
      (auto simp: stored [OF f] timer_tick_def flush_start_def isFlushing_def reached_def fits_def insertable_def pending_def)
  then show "reached k (audit_step cfg s ev)"
    "aq_rows (audit_step cfg s ev) @ pending (audit_step cfg s ev) = aq_rows s @ pending s" by blast+
qed

lemma reached_run:
  "\<forall>ev \<in> set es. calm ev \<Longrightarrow> reached k s \<Longrightarrow>
    reached k (audit_run cfg es s) \<and> aq_rows (audit_run cfg es s) @ pending (audit_run cfg es s) = aq_rows s @ pending s"
proof (induction es rule: rev_induct)
  case (snoc ev es)
  then show ?case using reached_step [of ev k "audit_run cfg es s" cfg] by simp
qed simp

lemma reached_next:
  "reached 0 s \<Longrightarrow> reached 1 (audit_step cfg s (Done Inserted wr))" "reached 1 s \<Longrightarrow> reached 2 (audit_step cfg s Tick)"
  "reached 2 s \<Longrightarrow> reached 3 (audit_step cfg s (Done Inserted wr))"
  by (cases "aq_inflight s"; auto simp: reached_def stored timer_tick_def flush_start_def isFlushing_def fits_def insertable_def)+

text \<open>
  C36. When nothing new is logged and the database stores what it is asked, the memory drains: after an
  answer, a tick of the timer and another answer, with any ticks, flushes and answers before,
  between and after them, nothing is pending and the table is the former one followed by everything
  that was pending, in order. The batch in flight and the queue must each be within the bound of one
  insert, 4369 entries.
\<close>

theorem audit_drains:
  assumes "aq_timer s" and "15 * length (or_else (aq_inflight s) []) \<le> 65535" and "15 * length (aq_queue s) \<le> 65535"
    and "es = es1 @ Done o1 w1 # es2 @ Tick # es3 @ Done o2 w2 # es4"
    and "\<forall>ev \<in> set es. submitted_by ev = None \<and> ev \<noteq> Stop \<and> (\<forall>out wr. ev = Done out wr \<longrightarrow> out = Inserted)"
  shows "pending (audit_run cfg es s) = [] \<and> aq_rows (audit_run cfg es s) = aq_rows s @ pending s"
proof -
  have calm: "\<forall>ev \<in> set es. calm ev" using assms(5) by (simp add: calm_def)
  have o: "o1 = Inserted" "o2 = Inserted" using assms(4,5) by auto
  have c: "\<forall>ev \<in> set es1. calm ev" "\<forall>ev \<in> set es2. calm ev" "\<forall>ev \<in> set es3. calm ev" "\<forall>ev \<in> set es4. calm ev"
    using calm assms(4) by auto
  have "reached 0 s" using assms(1-3) by (simp add: reached_def fits_def insertable_def)
  note r = reached_run [OF calm this, of cfg, THEN conjunct2]
  define s1 where "s1 = audit_step cfg (audit_run cfg es1 s) (Done o1 w1)"
  define s2 where "s2 = audit_step cfg (audit_run cfg es2 s1) Tick"
  define s3 where "s3 = audit_step cfg (audit_run cfg es3 s2) (Done o2 w2)"
  have "reached 1 s1" unfolding s1_def o using reached_run [OF c(1) \<open>reached 0 s\<close>] by (intro reached_next) blast
  then have "reached 2 s2" unfolding s2_def using reached_run [OF c(2)] by (intro reached_next) blast
  then have "reached 3 s3" unfolding s3_def o using reached_run [OF c(3)] by (intro reached_next) blast
  then have "reached 3 (audit_run cfg es4 s3)" using reached_run [OF c(4)] by blast
  moreover have "audit_run cfg es s = audit_run cfg es4 s3" by (simp add: assms(4) s1_def s2_def s3_def audit_run_def)
  ultimately have "pending (audit_run cfg es s) = []" by (simp add: reached_def pending_def)
  with r show ?thesis by simp
qed

theorem audit_drains_witness:
  "aq_rows (audit_run default_audit [Flush, Done Inserted True, Flush, Tick, Done Inserted False]
     (audit_run default_audit [Log (S ''a''), Flush, Log (S ''b'')] audit_init)) = [S ''a'', S ''b'']"
proof -
  let ?es = "[Flush] @ Done Inserted True # [Flush] @ Tick # [] @ Done Inserted False # []"
  let ?s = "audit_run default_audit [Log (S ''a''), Flush, Log (S ''b'')] audit_init"
  have s: "?s = \<lparr>aq_queue = [S ''b''], aq_inflight = Some [S ''a''], aq_timer = True, aq_rows = [], aq_file = [], aq_evicted = []\<rparr>"
    by (simp add: audit_init_def audit_log_def flush_start_def isFlushing_def default_audit_def)
  then have "aq_timer ?s" "15 * length (or_else (aq_inflight ?s) []) \<le> 65535" "15 * length (aq_queue ?s) \<le> 65535" by simp_all
  moreover have "\<forall>ev \<in> set ?es. submitted_by ev = None \<and> ev \<noteq> Stop \<and> (\<forall>out wr. ev = Done out wr \<longrightarrow> out = Inserted)"
    by (simp add: submitted_by_def)
  ultimately have "aq_rows (audit_run default_audit ?es ?s) = aq_rows ?s @ pending ?s"
    by (intro audit_drains [OF _ _ _ refl, THEN conjunct2])
  moreover have "aq_rows ?s @ pending ?s = [S ''a'', S ''b'']" unfolding s by (simp add: pending_def)
  ultimately show ?thesis by (simp only: append.simps)
qed

section \<open>A batch that is too long\<close>

definition stuck :: "'e audit_state \<Rightarrow> 'e audit_state \<Rightarrow> bool" where
  "stuck s u \<longleftrightarrow> length (aq_evicted s) < length (aq_evicted u)
     \<or> aq_rows u = aq_rows s \<and> aq_evicted u = aq_evicted s
       \<and> \<not> insertable (case aq_inflight u of Some b \<Rightarrow> b | None \<Rightarrow> aq_queue u)"

lemma evicted_grows: "length (aq_evicted s) \<le> length (aq_evicted (audit_step cfg s ev))"
proof (cases ev)
  case (Log e)
  then show ?thesis by (simp add: audit_log_def flush_start_def Let_def)
next
  case (Done out wr)
  then show ?thesis by (simp add: flush_end_def Let_def writeFallbackFile_def split: option.split outcome.split)
qed (simp_all add: timer_tick_def flush_start_def audit_stop_def)

lemma stuck_step:
  assumes "stuck s u"
  shows "stuck s (audit_step cfg u ev)"
proof (cases "length (aq_evicted s) < length (aq_evicted u)")
  case True
  with evicted_grows [of u cfg ev] show ?thesis by (simp add: stuck_def)
next
  case False
  with assms have u: "aq_rows u = aq_rows s" "aq_evicted u = aq_evicted s"
    "\<not> insertable (case aq_inflight u of Some b \<Rightarrow> b | None \<Rightarrow> aq_queue u)" by (auto simp: stuck_def)
  have flush: "stuck s (flush_start v)" if "aq_rows v = aq_rows s" "aq_evicted v = aq_evicted s"
      "\<not> insertable (case aq_inflight v of Some b \<Rightarrow> b | None \<Rightarrow> aq_queue v)" for v
    using that by (auto simp: stuck_def flush_start_def isFlushing_def split: option.split)
  show ?thesis
  proof (cases ev)
    case (Log e)
    have "\<not> insertable (case aq_inflight u of Some b \<Rightarrow> b | None \<Rightarrow> aq_queue u @ [e])"
      using u(3) by (auto simp: insertable_def split: option.split)
    then show ?thesis using u flush [of "u\<lparr>aq_queue := aq_queue u @ [e]\<rparr>"]
      by (auto simp: Log audit_log_def Let_def stuck_def split: option.split)
  next
    case (Done out wr)
    show ?thesis
    proof (cases "aq_inflight u")
      case (Some b)
      with u(3) have "15 * length b > 65535" "answer_to b out = Failed False" by (simp_all add: answer_to_def insertable_def)
      then show ?thesis using u Some by (auto simp: Done flush_end_def Let_def writeFallbackFile_def stuck_def insertable_def)
    qed (use assms Done in \<open>simp add: flush_end_def\<close>)
  next
    case Stop
    then show ?thesis using u by (simp add: stuck_def audit_stop_def split: option.splits)
  qed (use u flush [of u] assms in \<open>auto simp: timer_tick_def\<close>)
qed

text \<open>
  A queue that has grown beyond one insert blocks the logger: once a flush takes more than 4369
  entries, or would, then whatever is logged afterwards, however often it is retried and whatever
  the database answers, no entry reaches the table until a batch has been thrown out of the memory.
\<close>

theorem oversized_batch_blocks:
  assumes "65535 < 15 * length (case aq_inflight s of Some b \<Rightarrow> b | None \<Rightarrow> aq_queue s)"
  shows "aq_evicted (audit_run cfg es s) = aq_evicted s \<longrightarrow> aq_rows (audit_run cfg es s) = aq_rows s"
proof -
  have "stuck s (audit_run cfg es s)"
  proof (induction es rule: rev_induct)
    case Nil
    show ?case using assms by (simp add: stuck_def insertable_def split: option.split)
  next
    case (snoc ev es)
    then show ?case by (simp add: stuck_step)
  qed
  then show ?thesis by (auto simp: stuck_def)
qed

theorem oversized_batch_blocks_witness:
  "aq_rows (audit_run default_audit [Tick, Done Inserted True, Tick, Done Inserted True]
     (audit_init\<lparr>aq_queue := replicate 5000 (S ''a'')\<rparr>)) = []"
proof -
  let ?s = "audit_init\<lparr>aq_queue := replicate 5000 (S ''a'')\<rparr>"
  let ?es = "[Tick, Done Inserted True, Tick, Done Inserted True] :: jstr audit_event list"
  have "65535 < 15 * length (case aq_inflight ?s of Some b \<Rightarrow> b | None \<Rightarrow> aq_queue ?s)" by (simp add: audit_init_def)
  moreover have "replicate 5000 (S ''a'') \<noteq> []" by simp
  then have "aq_evicted (audit_run default_audit ?es ?s) = aq_evicted ?s"
    by (simp add: audit_init_def timer_tick_def flush_start_def isFlushing_def flush_end_def answer_to_def insertable_def
      default_audit_def writeFallbackFile_def)
  ultimately have "aq_rows (audit_run default_audit ?es ?s) = aq_rows ?s" by (rule oversized_batch_blocks [THEN mp])
  then show ?thesis by (simp add: audit_init_def)
qed

lemma flush_end_timer [simp]: "aq_timer (flush_end cfg out wr s) = aq_timer s"
  by (simp add: flush_end_def Let_def writeFallbackFile_def split: option.split outcome.split)

lemma flush_end_queue: "suffix (aq_queue s) (aq_queue (flush_end cfg out wr s))"
  by (simp add: flush_end_def Let_def writeFallbackFile_def suffix_def split: option.split outcome.split)

text \<open>
  The flush of the shutdown does nothing while another flush waits for the database. The
  entries queued behind it are then neither written nor spilled: once the timer is stopped they
  stay at the end of the queue, whatever the database answers.
\<close>

theorem shutdown_abandons_queue:
  assumes "isFlushing s" and "\<forall>ev \<in> set es. ev = Tick \<or> (\<exists>out wr. ev = Done out wr)"
  shows "suffix (aq_queue s) (aq_queue (audit_run cfg (Flush # Stop # es) s))"
proof -
  have "suffix q (aq_queue (audit_run cfg es u))"
    if "\<not> aq_timer u" "suffix q (aq_queue u)" for q and u :: "'a audit_state"
    using assms(2) that
  proof (induction es arbitrary: u)
    case (Cons ev es)
    have "\<not> aq_timer (audit_step cfg u ev) \<and> suffix q (aq_queue (audit_step cfg u ev))"
      using Cons.prems flush_end_queue [of u cfg] by (auto simp: timer_tick_def intro: suffix_order.trans)
    with Cons show ?case by simp
  qed simp
  moreover have "audit_step cfg (audit_step cfg s Flush) Stop = s\<lparr>aq_timer := False\<rparr>"
    using assms(1) by (simp add: flush_start_def audit_stop_def)
  ultimately show ?thesis by simp
qed

theorem shutdown_abandons_queue_witness:
  "suffix [S ''b''] (aq_queue (audit_run default_audit [Flush, Stop, Done Inserted True, Tick]
     (audit_run default_audit [Log (S ''a''), Flush, Log (S ''b'')] audit_init)))"
proof -
  let ?s = "audit_run default_audit [Log (S ''a''), Flush, Log (S ''b'')] audit_init"
  have "isFlushing ?s" "aq_queue ?s = [S ''b'']"
    by (simp_all add: audit_init_def audit_log_def flush_start_def isFlushing_def default_audit_def)
  moreover have "\<forall>ev \<in> set [Done Inserted True, Tick]. ev = Tick \<or> (\<exists>out wr. ev = Done out wr)" by auto
  ultimately show ?thesis using shutdown_abandons_queue [of ?s "[Done Inserted True, Tick]" default_audit] by metis
qed

end
