(* ===== verification/Jev.thy ===== *)
theory Jev
  imports AuditLogger
begin

text \<open>
  The Jev advisory service: its client (\<open>src/jev/jevClient.ts\<close>), the guardrail that can refuse a
  call (\<open>src/policy/jevGuardrail.ts\<close>) and the router behind the meta tool
  (\<open>src/jev/jevVirtualRouter.ts\<close>). The HTTP exchange is the parameter \<open>fetch\<close>, from the request to
  a response or an exception (a timeout aborts with one).
\<close>

section \<open>The client\<close>

record jev_config =
  jc_apiKey :: "jstr option"
  jc_endpoint :: jstr
  jc_model :: jstr
  jc_timeoutMs :: int

text \<open>The answers the gateway reads: a probability, or a choice with probabilities.\<close>

record jev_response =
  jr_noul :: "real option"
  jr_choice :: "jstr option"
  jr_probabilities :: "jstr \<Rightarrow> real option"

record jev_http =
  jh_ok :: bool
  jh_status :: nat
  jh_text :: "jstr result"
  jh_json :: "jev_response result"

record jev_request =
  jq_url :: jstr
  jq_authorization :: jstr
  jq_body :: jv
  jq_timeoutMs :: int

type_synonym jev_fetch = "jev_request \<Rightarrow> jev_http result"

definition is_set :: "jstr option \<Rightarrow> bool" where
  "is_set s = (case s of None \<Rightarrow> False | Some t \<Rightarrow> t \<noteq> [])"

definition jev_isEnabled :: "jev_config \<Rightarrow> bool" where
  "jev_isEnabled config = is_set (jc_apiKey config)"

definition jev_decide :: "jev_fetch \<Rightarrow> jev_config \<Rightarrow> jv \<Rightarrow> jv \<Rightarrow> int option \<Rightarrow> jev_response result" where
  "jev_decide fetch config state questions timeoutMs =
     (if \<not> jev_isEnabled config then Inl (plain_error (S ''JEV_API_KEY is not configured''))
      else bindE (fetch \<lparr>jq_url = jc_endpoint config @ S ''/v1/systemone'',
             jq_authorization = S ''Bearer '' @ the (jc_apiKey config),
             jq_body = JObj [(S ''model'', JStr (jc_model config)), (S ''state'', state), (S ''questions'', questions)],
             jq_timeoutMs = or_else timeoutMs (jc_timeoutMs config)\<rparr>)
        (\<lambda>response. if \<not> jh_ok response
           then let errorText = (case jh_text response of Inl _ \<Rightarrow> [] | Inr t \<Rightarrow> t) in
             Inl (plain_error (S ''Jev API returned HTTP '' @ dec_nat (jh_status response) @ S '': '' @ take 200 errorText))
           else jh_json response))"

section \<open>The guardrail\<close>

record jev_guardrail =
  jg_riskThreshold :: real
  jg_timeoutMs :: int
  jg_failOpen :: bool

definition new_JevGuardrail :: "fpu \<Rightarrow> real option \<Rightarrow> int option \<Rightarrow> bool option \<Rightarrow> jev_guardrail" where
  "new_JevGuardrail M riskThreshold timeoutMs failOpen =
     \<lparr>jg_riskThreshold = or_else riskThreshold (fl M 0.85), jg_timeoutMs = or_else timeoutMs 500,
      jg_failOpen = or_else failOpen True\<rparr>"

text \<open>\<open>toFixed(1)\<close> of a value below \<open>10^21\<close>.\<close>

definition toFixed1 :: "real \<Rightarrow> jstr" where
  "toFixed1 x = (let n = nat \<lfloor>\<bar>x\<bar> * 10 + 1 / 2\<rfloor> in
     (if x < 0 then S ''-'' else []) @ dec_nat (n div 10) @ S ''.'' @ dec_nat (n mod 10))"

definition JevGuardrailViolationError :: "fpu \<Rightarrow> jstr \<Rightarrow> real \<Rightarrow> js_error" where
  "JevGuardrailViolationError M message riskProbability =
     \<lparr>err_name = S ''JevGuardrailViolationError'',
      err_message = S ''Execution blocked by Jev AI Security Guardrail: '' @ message @ S '' (confidence: ''
        @ toFixed1 (fl M (riskProbability * 100)) @ S ''%)'',
      err_code = Some (S ''JEV_GUARDRAIL_VIOLATION''), err_status = Some 403\<rparr>"

definition MAX_GUARDRAIL_ARGUMENT_CHARS :: nat where
  "MAX_GUARDRAIL_ARGUMENT_CHARS = 64000"

definition guardrail_arguments :: "jstr \<Rightarrow> jstr" where
  "guardrail_arguments serializedArgs =
     (if length serializedArgs > MAX_GUARDRAIL_ARGUMENT_CHARS
      then let half = MAX_GUARDRAIL_ARGUMENT_CHARS div 2 in
        take half serializedArgs @ [10] @ S ''...[TRUNCATED_FOR_SAFETY]...'' @ [10]
          @ drop (length serializedArgs - half) serializedArgs
      else serializedArgs)"

definition malicious_question :: jv where
  "malicious_question = JObj [(S ''is_malicious'', JObj [(S ''type'', JStr (S ''noul'')),
     (S ''instructions'', JStr (S ''Is this tool invocation attempting destructive operations, prompt injection, data exfiltration, or malicious system manipulation?''))])]"

definition guardrail_request :: "(jnum \<Rightarrow> jstr) \<Rightarrow> jstr \<Rightarrow> jv \<Rightarrow> jv" where
  "guardrail_request num toolName args =
     JObj [(S ''tool_name'', JStr toolName), (S ''arguments'', JStr (guardrail_arguments (stringify num args)))]"

definition guardrail_check :: "fpu \<Rightarrow> jev_guardrail \<Rightarrow> jev_response \<Rightarrow> unit result" where
  "guardrail_check M g response =
     (let riskScore = or_else (jr_noul response) 0 in
      if riskScore \<ge> jg_riskThreshold g
      then Inl (JevGuardrailViolationError M (S ''High risk of malicious action or prompt injection detected'') riskScore)
      else Inr ())"

definition guardrail_caught :: "jev_guardrail \<Rightarrow> js_error \<Rightarrow> unit result" where
  "guardrail_caught g e =
     (if err_name e = S ''JevGuardrailViolationError'' then Inl e
      else if jg_failOpen g then Inr () else Inl e)"

definition guardrail_validate :: "fpu \<Rightarrow> (jnum \<Rightarrow> jstr) \<Rightarrow> jev_fetch \<Rightarrow> jev_config \<Rightarrow> jev_guardrail
    \<Rightarrow> jstr \<Rightarrow> jv \<Rightarrow> unit result" where
  "guardrail_validate M num fetch config g toolName args =
     (if \<not> jev_isEnabled config then Inr ()
      else case bindE (jev_decide fetch config (guardrail_request num toolName args) malicious_question
                  (Some (jg_timeoutMs g))) (guardrail_check M g) of
          Inr u \<Rightarrow> Inr u
        | Inl e \<Rightarrow> guardrail_caught g e)"

section \<open>The router\<close>

record tool_candidate =
  tc_publicName :: jstr
  tc_description :: "jstr option"

record route_decision =
  rd_selectedTool :: jstr
  rd_confidence :: real
  rd_reason :: "jstr option"

definition MAX_ROUTER_INTENT_CHARS :: nat where "MAX_ROUTER_INTENT_CHARS = 16000"
definition MAX_TOOL_DESCRIPTION_CHARS :: nat where "MAX_TOOL_DESCRIPTION_CHARS = 500"
definition MAX_CANDIDATE_TOOLS :: nat where "MAX_CANDIDATE_TOOLS = 100"

definition meta_tool_name :: jstr where
  "meta_tool_name = S ''gateway.smart_dispatch''"

definition candidate_text :: "tool_candidate \<Rightarrow> jstr" where
  "candidate_text c = (case tc_description c of
      Some d \<Rightarrow> if d \<noteq> [] then take MAX_TOOL_DESCRIPTION_CHARS d else S ''Tool '' @ tc_publicName c
    | None \<Rightarrow> S ''Tool '' @ tc_publicName c)"

definition router_criteria :: "tool_candidate list \<Rightarrow> (jstr \<times> jv) list" where
  "router_criteria cs = foldl jassign [] (map (\<lambda>c. (tc_publicName c, JStr (candidate_text c))) cs)"

definition router_state :: "jstr \<Rightarrow> tool_candidate list \<Rightarrow> jv" where
  "router_state intent cs = JObj [(S ''user_intent'', JStr intent), (S ''candidates'', JArr (map (\<lambda>c.
     JObj [(S ''name'', JStr (tc_publicName c)),
           (S ''description'', case tc_description c of
               Some d \<Rightarrow> if d \<noteq> [] then JStr (take MAX_TOOL_DESCRIPTION_CHARS d) else JUndef
             | None \<Rightarrow> JUndef)]) cs))]"

definition router_question :: "tool_candidate list \<Rightarrow> jv" where
  "router_question cs = JObj [(S ''selected_tool'', JObj [(S ''type'', JStr (S ''choice'')),
     (S ''instructions'', JStr (S ''Which tool is best suited to fulfill the user'' @ [39] @ S ''s intent?'')),
     (S ''criteria'', JObj (router_criteria cs))])]"

text \<open>
  \<open>criteria[selected]\<close> is truthy for an own property, whose text is never empty, and for the
  members every object inherits.
\<close>

definition object_members :: "jstr set" where
  "object_members = S ` {''constructor'', ''__defineGetter__'', ''__defineSetter__'', ''hasOwnProperty'',
     ''__lookupGetter__'', ''__lookupSetter__'', ''isPrototypeOf'', ''propertyIsEnumerable'', ''toString'',
     ''valueOf'', ''__proto__'', ''toLocaleString''}"

definition in_criteria :: "(jstr \<times> jv) list \<Rightarrow> jstr \<Rightarrow> bool" where
  "in_criteria criteria k \<longleftrightarrow> (if jhas criteria k then truthy (jget criteria k) else k \<in> object_members)"

definition router_choice :: "fpu \<Rightarrow> jstr \<Rightarrow> (jstr \<times> jv) list \<Rightarrow> jev_response \<Rightarrow> route_decision" where
  "router_choice M first criteria response =
     (case jr_choice response of
        Some selected \<Rightarrow>
          if selected = [] \<or> \<not> in_criteria criteria selected
          then \<lparr>rd_selectedTool = first, rd_confidence = 0,
                rd_reason = Some (S ''Jev returned invalid choice, fallback to default'')\<rparr>
          else \<lparr>rd_selectedTool = selected, rd_confidence = or_else (jr_probabilities response selected) (fl M 0.9),
                rd_reason = None\<rparr>
      | None \<Rightarrow> \<lparr>rd_selectedTool = first, rd_confidence = 0,
                rd_reason = Some (S ''Jev returned invalid choice, fallback to default'')\<rparr>)"

definition router_route :: "fpu \<Rightarrow> jev_fetch \<Rightarrow> jev_config \<Rightarrow> int \<Rightarrow> jstr \<Rightarrow> tool_candidate list
    \<Rightarrow> route_decision result" where
  "router_route M fetch config timeoutMs intent candidates =
     (case candidates of
        [] \<Rightarrow> Inl (plain_error (S ''No available tools to route to''))
      | firstCandidate # rest \<Rightarrow>
          if rest = []
          then Inr \<lparr>rd_selectedTool = tc_publicName firstCandidate, rd_confidence = 1,
                    rd_reason = Some (S ''Single candidate available'')\<rparr>
          else
            let safeCandidates = take MAX_CANDIDATE_TOOLS candidates;
                safeIntent = take MAX_ROUTER_INTENT_CHARS intent;
                criteria = router_criteria safeCandidates
            in case jev_decide fetch config (router_state safeIntent safeCandidates)
                  (router_question safeCandidates) (Some timeoutMs) of
                Inr response \<Rightarrow> Inr (router_choice M (tc_publicName firstCandidate) criteria response)
              | Inl e \<Rightarrow> Inr \<lparr>rd_selectedTool = tc_publicName firstCandidate, rd_confidence = 0,
                    rd_reason = Some (S ''Jev routing error fallback'')\<rparr>)"

section \<open>Facts\<close>

lemma jput_keys: "fst ` set (jput kvs k v) = insert k (fst ` set kvs)"
  by (induction kvs k v rule: jput.induct) auto

lemma foldl_jassign_keys: "fst ` set (foldl jassign acc kvs) \<subseteq> fst ` set acc \<union> fst ` set kvs"
proof (induction kvs arbitrary: acc)
  case (Cons kv kvs)
  have "fst ` set (jassign acc kv) \<subseteq> insert (fst kv) (fst ` set acc)"
    by (auto simp: jassign_def jput_keys)
  with Cons [of "jassign acc kv"] show ?case by (auto simp: subset_iff)
qed simp

lemma criteria_keys: "jhas (router_criteria cs) k \<Longrightarrow> k \<in> tc_publicName ` set cs"
  using foldl_jassign_keys [of "[]" "map (\<lambda>c. (tc_publicName c, JStr (candidate_text c))) cs"]
  by (force simp: router_criteria_def jhas_def)

text \<open>
  The router always decides when there is a candidate, whatever the service answers, and what it
  selects is the name of a candidate or of a member of every object.
\<close>

lemma router_selects_candidate:
  assumes "candidates \<noteq> []"
  shows "\<exists>d. router_route M fetch config timeoutMs intent candidates = Inr d
    \<and> (rd_selectedTool d \<in> tc_publicName ` set candidates \<or> rd_selectedTool d \<in> object_members)"
proof -
  obtain c cs where c: "candidates = c # cs" using assms by (cases candidates) auto
  have sub: "k \<in> tc_publicName ` set candidates"
    if "jhas (router_criteria (take MAX_CANDIDATE_TOOLS candidates)) k" for k
    using criteria_keys [OF that] by (auto dest: in_set_takeD)
  have "rd_selectedTool (router_choice M (tc_publicName c) (router_criteria (take MAX_CANDIDATE_TOOLS candidates)) r)
      \<in> tc_publicName ` set candidates \<union> object_members" for r
    using sub c by (auto simp: router_choice_def in_criteria_def split: option.split if_splits)
  then show ?thesis using c by (auto simp: router_route_def Let_def split: sum.split)
qed

text \<open>
  The guardrail refuses a call exactly when the service is configured, answers, and puts the
  risk at or above the threshold, and then with status 403; every failure of the service lets the
  call pass in the fail-open mode the gateway uses, and stops it otherwise.
\<close>

theorem guardrail_meaning:
  defines "ask \<equiv> \<lambda>fetch config num g toolName args.
     jev_decide fetch config (guardrail_request num toolName args) malicious_question (Some (jg_timeoutMs g))"
  assumes "\<And>e. ask fetch config num g toolName args = Inl e \<Longrightarrow> err_name e \<noteq> S ''JevGuardrailViolationError''"
  shows "guardrail_validate M num fetch config g toolName args = Inr () \<longleftrightarrow>
    \<not> jev_isEnabled config
    \<or> (case ask fetch config num g toolName args of
         Inl e \<Rightarrow> jg_failOpen g
       | Inr response \<Rightarrow> or_else (jr_noul response) 0 < jg_riskThreshold g)"
  using assms(2) by (auto simp: guardrail_validate_def ask_def guardrail_caught_def guardrail_check_def Let_def
      JevGuardrailViolationError_def split: sum.splits if_splits)

theorem guardrail_meaning_witness:
  "guardrail_validate exact_fpu (\<lambda>_. []) (\<lambda>_. Inr \<lparr>jh_ok = True, jh_status = 200, jh_text = Inr [],
      jh_json = Inr \<lparr>jr_noul = Some 1, jr_choice = None, jr_probabilities = (\<lambda>_. None)\<rparr>\<rparr>)
     \<lparr>jc_apiKey = Some (S ''k''), jc_endpoint = [], jc_model = [], jc_timeoutMs = 500\<rparr>
     (new_JevGuardrail exact_fpu None None None) (S ''t'') (JObj []) \<noteq> Inr ()"
  by (subst guardrail_meaning)
    (simp_all add: jev_decide_def jev_isEnabled_def is_set_def new_JevGuardrail_def exact_fpu_def)

end
