(* ===== verification/Encodings.thy ===== *)
theory Encodings
  imports JsRegex
begin

text \<open>
  The encodings of \<open>Buffer\<close>: UTF-8, hexadecimal, base64 and base64url. A buffer is a list of bytes.
  A base64 or UTF-8 decoder returns \<open>None\<close> where Node's lenient one returns bytes that do not encode back to the
  input; the source always compares the re-encoding, or decodes what it encoded itself.
\<close>

type_synonym bytes = "nat list"

definition is_bytes :: "bytes \<Rightarrow> bool" where
  "is_bytes bs \<longleftrightarrow> (\<forall>b \<in> set bs. b < 256)"

lemma is_bytes_simps [simp]: "is_bytes []" "is_bytes (b # bs) \<longleftrightarrow> b < 256 \<and> is_bytes bs"
  "is_bytes (bs @ cs) \<longleftrightarrow> is_bytes bs \<and> is_bytes cs"
  by (auto simp: is_bytes_def)

section \<open>Hexadecimal\<close>

definition hex_value :: "nat \<Rightarrow> nat option" where
  "hex_value c = (if 48 \<le> c \<and> c \<le> 57 then Some (c - 48) else if 97 \<le> c \<and> c \<le> 102 then Some (c - 87)
     else if 65 \<le> c \<and> c \<le> 70 then Some (c - 55) else None)"

fun hex_encode :: "bytes \<Rightarrow> jstr" where
  "hex_encode [] = []"
| "hex_encode (b # bs) = hex_digit (b div 16) # hex_digit (b mod 16) # hex_encode bs"

text \<open>Decoding stops at the first pair that is not hexadecimal.\<close>

fun hex_decode :: "jstr \<Rightarrow> bytes" where
  "hex_decode (c # d # s) =
     (case (hex_value c, hex_value d) of (Some x, Some y) \<Rightarrow> (16 * x + y) # hex_decode s | _ \<Rightarrow> [])"
| "hex_decode _ = []"

lemma hex_value_digit [simp]: "n < 16 \<Longrightarrow> hex_value (hex_digit n) = Some n"
  by (auto simp: hex_value_def hex_digit_def)

lemma hex_roundtrip: "is_bytes bs \<Longrightarrow> hex_decode (hex_encode bs) = bs"
  by (induction bs) (auto simp: less_mult_imp_div_less)

section \<open>Base64\<close>

text \<open>The alphabet, with the two last symbols as parameter (\<open>+/\<close> or \<open>-_\<close>).\<close>

definition b64_symbol :: "nat \<Rightarrow> nat \<Rightarrow> nat \<Rightarrow> nat" where
  "b64_symbol x y n = (if n < 26 then 65 + n else if n < 52 then 71 + n else if n < 62 then n - 4
     else if n = 62 then x else y)"

definition b64_value :: "nat \<Rightarrow> nat \<Rightarrow> nat \<Rightarrow> nat option" where
  "b64_value x y c = (if 65 \<le> c \<and> c \<le> 90 then Some (c - 65) else if 97 \<le> c \<and> c \<le> 122 then Some (c - 71)
     else if 48 \<le> c \<and> c \<le> 57 then Some (c + 4) else if c = x then Some 62 else if c = y then Some 63 else None)"

fun b64_groups :: "(nat \<Rightarrow> nat) \<Rightarrow> jstr \<Rightarrow> bytes \<Rightarrow> jstr" where
  "b64_groups sy pad [] = []"
| "b64_groups sy pad [a] = sy (a div 4) # sy (a mod 4 * 16) # pad @ pad"
| "b64_groups sy pad [a, b] = sy (a div 4) # sy (a mod 4 * 16 + b div 16) # sy (b mod 16 * 4) # pad"
| "b64_groups sy pad (a # b # c # bs) =
     sy (a div 4) # sy (a mod 4 * 16 + b div 16) # sy (b mod 16 * 4 + c div 64) # sy (c mod 64)
       # b64_groups sy pad bs"

definition base64 :: "bytes \<Rightarrow> jstr" where
  "base64 bs = b64_groups (b64_symbol 43 47) [61] bs"

definition base64url :: "bytes \<Rightarrow> jstr" where
  "base64url bs = b64_groups (b64_symbol 45 95) [] bs"

text \<open>Decoding of the symbols after the padding has been dropped.\<close>

fun b64_ungroup :: "(nat \<Rightarrow> nat option) \<Rightarrow> jstr \<Rightarrow> bytes option" where
  "b64_ungroup val [] = Some []"
| "b64_ungroup val [c] = None"
| "b64_ungroup val [c, d] = (case (val c, val d) of (Some p, Some q) \<Rightarrow> Some [4 * p + q div 16] | _ \<Rightarrow> None)"
| "b64_ungroup val [c, d, e] = (case (val c, val d, val e) of
     (Some p, Some q, Some r) \<Rightarrow> Some [4 * p + q div 16, q mod 16 * 16 + r div 4] | _ \<Rightarrow> None)"
| "b64_ungroup val (c # d # e # f # s) = (case (val c, val d, val e, val f, b64_ungroup val s) of
     (Some p, Some q, Some r, Some t, Some bs) \<Rightarrow>
       Some ((4 * p + q div 16) # (q mod 16 * 16 + r div 4) # (r mod 4 * 64 + t) # bs)
   | _ \<Rightarrow> None)"

definition drop_padding :: "jstr \<Rightarrow> jstr" where
  "drop_padding s = rev (dropWhile (\<lambda>c. c = 61) (rev s))"

text \<open>The canonical decoders: the bytes whose encoding is the input, if there are any.\<close>

definition from_base64 :: "jstr \<Rightarrow> bytes option" where
  "from_base64 s = (case b64_ungroup (b64_value 43 47) (drop_padding s) of
      Some bs \<Rightarrow> if base64 bs = s then Some bs else None
    | None \<Rightarrow> None)"

definition from_base64url :: "jstr \<Rightarrow> bytes option" where
  "from_base64url s = (case b64_ungroup (b64_value 45 95) s of
      Some bs \<Rightarrow> if base64url bs = s then Some bs else None
    | None \<Rightarrow> None)"

lemma b64_value_symbol:
  assumes "(x = 43 \<and> y = 47) \<or> (x = 45 \<and> y = 95)" and "n < 64"
  shows "b64_value x y (b64_symbol x y n) = Some n"
proof -
  consider "n < 26" | "26 \<le> n" "n < 52" | "52 \<le> n" "n < 62" | "n = 62" | "n = 63"
    using assms(2) by linarith
  then show ?thesis
  proof cases
    case 3
    define m where "m = n - 4"
    then have n: "n = m + 4" and m: "48 \<le> m" "m \<le> 57" using 3 by auto
    then show ?thesis by (simp add: b64_symbol_def b64_value_def)
  next
    case 4
    show ?thesis using assms(1) unfolding 4 by (auto simp: b64_symbol_def b64_value_def)
  next
    case 5
    show ?thesis using assms(1) unfolding 5 by (auto simp: b64_symbol_def b64_value_def)
  qed (simp_all add: b64_symbol_def b64_value_def)
qed

lemma b64_symbol_not_pad:
  "(x = 43 \<and> y = 47) \<or> (x = 45 \<and> y = 95) \<Longrightarrow> n < 64 \<Longrightarrow> b64_symbol x y n \<noteq> 61"
  by (auto simp: b64_symbol_def)

lemma triple_induct:
  assumes "P []" and "\<And>a. P [a]" and "\<And>a b. P [a, b]" and "\<And>a b c bs. P bs \<Longrightarrow> P (a # b # c # bs)"
  shows "P (bs :: 'a list)"
proof -
  have "\<forall>bs. length bs < n \<longrightarrow> P bs" for n
  proof (induction n)
    case (Suc n)
    show ?case
    proof (intro allI impI)
      fix bs :: "'a list"
      assume "length bs < Suc n"
      with Suc assms show "P bs"
        by (cases bs; cases "tl bs"; cases "tl (tl bs)") auto
    qed
  qed simp
  then show ?thesis by blast
qed

lemma b64_ungroup_groups:
  assumes "\<And>n. n < 64 \<Longrightarrow> val (sy n) = Some n"
  shows "is_bytes bs \<Longrightarrow> b64_ungroup val (b64_groups sy [] bs) = Some bs"
proof (induction bs rule: triple_induct)
  case (2 a)
  then have "a div 4 < 64" "a mod 4 * 16 < 64" by auto
  with assms show ?case by simp
next
  case (3 a b)
  then have "a div 4 < 64" "a mod 4 * 16 + b div 16 < 64" "b mod 16 * 4 < 64" by auto
  moreover have "(a mod 4 * 16 + b div 16) div 16 = a mod 4" "(a mod 4 * 16 + b div 16) mod 16 = b div 16"
    using 3 by auto
  ultimately show ?case using assms by simp
next
  case (4 a b c bs)
  then have "a div 4 < 64" "a mod 4 * 16 + b div 16 < 64" "b mod 16 * 4 + c div 64 < 64" "c mod 64 < 64" by auto
  moreover have "(a mod 4 * 16 + b div 16) div 16 = a mod 4" "(a mod 4 * 16 + b div 16) mod 16 = b div 16"
    "(b mod 16 * 4 + c div 64) div 4 = b mod 16" "(b mod 16 * 4 + c div 64) mod 4 = c div 64"
    using 4 by auto
  ultimately show ?case using assms 4 by simp
qed simp

lemma b64_groups_padding:
  "\<exists>k. b64_groups sy [61] bs = b64_groups sy [] bs @ replicate k 61"
proof (induction bs rule: triple_induct)
  case (2 a)
  show ?case by (intro exI [of _ 2]) (simp add: numeral_2_eq_2)
next
  case (3 a b)
  show ?case by (intro exI [of _ 1]) simp
qed auto

lemma b64_groups_symbols:
  assumes "\<And>n. n < 64 \<Longrightarrow> P (sy n)"
  shows "is_bytes bs \<Longrightarrow> list_all P (b64_groups sy [] bs)"
proof (induction bs rule: triple_induct)
  case (2 a)
  then have "a div 4 < 64" "a mod 4 * 16 < 64" by auto
  with assms show ?case by auto
next
  case (3 a b)
  then have "a div 4 < 64" "a mod 4 * 16 + b div 16 < 64" "b mod 16 * 4 < 64" by auto
  with assms show ?case by auto
next
  case (4 a b c bs)
  then have "a div 4 < 64" "a mod 4 * 16 + b div 16 < 64" "b mod 16 * 4 + c div 64 < 64" "c mod 64 < 64" by auto
  with assms 4 show ?case by auto
qed simp

lemma drop_padding_append: "61 \<notin> set s \<Longrightarrow> drop_padding (s @ replicate k 61) = s"
proof -
  assume s: "61 \<notin> set s"
  have "dropWhile (\<lambda>c. c = 61) (replicate k 61 @ rev s) = rev s"
    using s by (induction k) (auto simp: dropWhile_eq_self_iff hd_rev dest: last_in_set)
  then show ?thesis by (simp add: drop_padding_def)
qed

lemma base64_roundtrip: "is_bytes bs \<Longrightarrow> from_base64 (base64 bs) = Some bs"
proof -
  assume bs: "is_bytes bs"
  let ?sy = "b64_symbol 43 47"
  obtain k where k: "b64_groups ?sy [61] bs = b64_groups ?sy [] bs @ replicate k 61"
    using b64_groups_padding by blast
  have "list_all (\<lambda>c. c \<noteq> 61) (b64_groups ?sy [] bs)"
    by (rule b64_groups_symbols [OF _ bs], rule b64_symbol_not_pad) simp_all
  then have "drop_padding (base64 bs) = b64_groups ?sy [] bs"
    unfolding base64_def k by (intro drop_padding_append) (auto simp: list_all_iff)
  moreover have "b64_ungroup (b64_value 43 47) (b64_groups ?sy [] bs) = Some bs"
    by (rule b64_ungroup_groups [OF _ bs], rule b64_value_symbol) simp_all
  ultimately show ?thesis by (simp add: from_base64_def)
qed

lemma base64url_roundtrip: "is_bytes bs \<Longrightarrow> from_base64url (base64url bs) = Some bs"
proof -
  assume bs: "is_bytes bs"
  have "b64_ungroup (b64_value 45 95) (b64_groups (b64_symbol 45 95) [] bs) = Some bs"
    by (rule b64_ungroup_groups [OF _ bs], rule b64_value_symbol) simp_all
  then show ?thesis by (simp add: from_base64url_def base64url_def)
qed

lemma from_base64_iff: "from_base64 s = Some bs \<Longrightarrow> s = base64 bs"
  by (auto simp: from_base64_def split: option.splits if_splits)

lemma from_base64url_iff: "from_base64url s = Some bs \<Longrightarrow> s = base64url bs"
  by (auto simp: from_base64url_def split: option.splits if_splits)

section \<open>UTF-8\<close>

text \<open>A lone surrogate is encoded as U+FFFD.\<close>

definition utf8_unit :: "nat \<Rightarrow> bytes" where
  "utf8_unit c = (if c < 0x80 then [c] else if c < 0x800 then [0xC0 + c div 64, 0x80 + c mod 64]
     else [0xE0 + c div 4096, 0x80 + c div 64 mod 64, 0x80 + c mod 64])"

definition utf8_pair :: "nat \<Rightarrow> nat \<Rightarrow> bytes" where
  "utf8_pair h l = (let v = (h - 0xD800) * 1024 + (l - 0xDC00) + 0x10000 in
     [0xF0 + v div 262144, 0x80 + v div 4096 mod 64, 0x80 + v div 64 mod 64, 0x80 + v mod 64])"

fun utf8_encode :: "jstr \<Rightarrow> bytes" where
  "utf8_encode [] = []"
| "utf8_encode [c] = utf8_unit (if hi_surrogate c \<or> lo_surrogate c then 0xFFFD else c)"
| "utf8_encode (c # d # s) =
     (if hi_surrogate c \<and> lo_surrogate d then utf8_pair c d @ utf8_encode s
      else utf8_unit (if hi_surrogate c \<or> lo_surrogate c then 0xFFFD else c) @ utf8_encode (d # s))"

definition cont :: "nat \<Rightarrow> bool" where
  "cont b \<longleftrightarrow> 0x80 \<le> b \<and> b < 0xC0"

text \<open>The strict decoder: overlong forms, surrogates and values above U+10FFFF are invalid.\<close>

fun utf8_decode :: "bytes \<Rightarrow> jstr option" where
  "utf8_decode [] = Some []"
| "utf8_decode (a # bs) =
     (if a < 0x80 then map_option ((#) a) (utf8_decode bs)
      else case bs of
        b # bs1 \<Rightarrow>
          if 0xC2 \<le> a \<and> a < 0xE0 then
            (if cont b then map_option ((#) ((a - 0xC0) * 64 + (b - 0x80))) (utf8_decode bs1) else None)
          else (case bs1 of
              c # bs2 \<Rightarrow>
                if 0xE0 \<le> a \<and> a < 0xF0 then
                  (let v = (a - 0xE0) * 4096 + (b - 0x80) * 64 + (c - 0x80) in
                   if cont b \<and> cont c \<and> 0x800 \<le> v \<and> \<not> hi_surrogate v \<and> \<not> lo_surrogate v
                   then map_option ((#) v) (utf8_decode bs2) else None)
                else (case bs2 of
                    d # bs3 \<Rightarrow>
                      let v = (a - 0xF0) * 262144 + (b - 0x80) * 4096 + (c - 0x80) * 64 + (d - 0x80) in
                      if 0xF0 \<le> a \<and> a < 0xF5 \<and> cont b \<and> cont c \<and> cont d \<and> 0x10000 \<le> v \<and> v \<le> 0x10FFFF
                      then map_option (\<lambda>s. (0xD800 + (v - 0x10000) div 1024) # (0xDC00 + (v - 0x10000) mod 1024) # s)
                             (utf8_decode bs3)
                      else None
                  | [] \<Rightarrow> None)
            | [] \<Rightarrow> None)
      | [] \<Rightarrow> None)"

declare utf8_decode.simps(2) [simp del]

text \<open>A string without lone surrogates.\<close>

fun well_formed :: "jstr \<Rightarrow> bool" where
  "well_formed [] = True"
| "well_formed [c] = (c < 0x10000 \<and> \<not> hi_surrogate c \<and> \<not> lo_surrogate c)"
| "well_formed (c # d # s) =
     (if hi_surrogate c \<and> lo_surrogate d then well_formed s
      else c < 0x10000 \<and> \<not> hi_surrogate c \<and> \<not> lo_surrogate c \<and> well_formed (d # s))"

lemma utf8_decode_unit:
  assumes "c < 0x10000" and "\<not> hi_surrogate c" and "\<not> lo_surrogate c"
  shows "utf8_decode (utf8_unit c @ bs) = map_option ((#) c) (utf8_decode bs)"
proof -
  consider "c < 0x80" | "0x80 \<le> c" "c < 0x800" | "0x800 \<le> c" by linarith
  then show ?thesis
  proof cases
    case 1
    then show ?thesis by (simp add: utf8_unit_def utf8_decode.simps(2))
  next
    case 2
    define p q where pq: "p = c div 64" "q = c mod 64"
    have "2 \<le> p" "p < 32" "q < 64" "c = p * 64 + q" using 2 by (auto simp: pq)
    moreover have "utf8_unit c = [0xC0 + p, 0x80 + q]" using 2 by (simp add: utf8_unit_def pq)
    ultimately show ?thesis by (simp add: utf8_decode.simps(2) cont_def)
  next
    case 3
    define p q r where pqr: "p = c div 4096" "q = c div 64 mod 64" "r = c mod 64"
    have "p < 16" "q < 64" "r < 64" using assms(1) by (auto simp: pqr)
    moreover have v: "c = p * 4096 + q * 64 + r"
    proof -
      define d where "d = c div 64"
      have "p = d div 64" by (simp add: pqr d_def div_mult2_eq [symmetric])
      then have "d = p * 64 + q" by (simp add: pqr d_def [symmetric])
      moreover have "c = d * 64 + r" by (simp add: pqr d_def)
      ultimately show ?thesis by linarith
    qed
    moreover have "utf8_unit c = [0xE0 + p, 0x80 + q, 0x80 + r]" using 3 by (simp add: utf8_unit_def pqr)
    ultimately show ?thesis using 3 assms by (simp add: utf8_decode.simps(2) cont_def Let_def)
  qed
qed

lemma utf8_decode_pair:
  assumes h: "hi_surrogate h" and l: "lo_surrogate l"
  shows "utf8_decode (utf8_pair h l @ bs) = map_option (\<lambda>s. h # l # s) (utf8_decode bs)"
proof -
  define v where "v = (h - 0xD800) * 1024 + (l - 0xDC00) + 0x10000"
  define p q r u where pqrt: "p = v div 262144" "q = v div 4096 mod 64" "r = v div 64 mod 64" "u = v mod 64"
  have hl: "h - 0xD800 < 1024" "l - 0xDC00 < 1024" using h l by (auto simp: hi_surrogate_def lo_surrogate_def)
  then have range: "0x10000 \<le> v" "v \<le> 0x10FFFF" by (auto simp: v_def)
  have "(v - 0x10000) div 1024 = h - 0xD800" "(v - 0x10000) mod 1024 = l - 0xDC00"
    using hl by (auto simp: v_def)
  then have hl_eq: "0xD800 + (v - 0x10000) div 1024 = h" "0xDC00 + (v - 0x10000) mod 1024 = l"
    using h l by (auto simp: hi_surrogate_def lo_surrogate_def)
  have v: "v = p * 262144 + q * 4096 + r * 64 + u"
  proof -
    define d e where "d = v div 64" and "e = d div 64"
    have "p = e div 64" "q = e mod 64"
      by (simp_all add: pqrt d_def e_def div_mult2_eq [symmetric])
    then have "e = p * 64 + q" by simp
    moreover have "d = e * 64 + r" by (simp add: pqrt e_def d_def [symmetric])
    moreover have "v = d * 64 + u" by (simp add: pqrt d_def)
    ultimately show ?thesis by linarith
  qed
  have "p < 5" "q < 64" "r < 64" "u < 64" using range by (auto simp: pqrt)
  moreover have "utf8_pair h l = [0xF0 + p, 0x80 + q, 0x80 + r, 0x80 + u]"
    by (simp add: utf8_pair_def pqrt v_def Let_def)
  ultimately have "utf8_decode (utf8_pair h l @ bs) = (let v = p * 262144 + q * 4096 + r * 64 + u in
      if 0x10000 \<le> v \<and> v \<le> 0x10FFFF
      then map_option (\<lambda>s. (0xD800 + (v - 0x10000) div 1024) # (0xDC00 + (v - 0x10000) mod 1024) # s) (utf8_decode bs)
      else None)"
    by (simp add: utf8_decode.simps(2) cont_def Let_def)
  then show ?thesis unfolding v [symmetric] using range hl_eq by (simp add: Let_def)
qed

lemma utf8_roundtrip: "well_formed s \<Longrightarrow> utf8_decode (utf8_encode s) = Some s"
  by (induction s rule: well_formed.induct)
    (auto simp: utf8_decode_pair utf8_decode_unit utf8_decode_unit [where bs = "[]", simplified] split: if_splits)

lemma is_bytes_utf8: "well_formed s \<Longrightarrow> is_bytes (utf8_encode s)"
proof (induction s rule: well_formed.induct)
  case (2 c)
  then show ?case by (auto simp: utf8_unit_def)
next
  case (3 c d s)
  have "is_bytes (utf8_pair c d)" if "hi_surrogate c" "lo_surrogate d"
    using that by (auto simp: utf8_pair_def Let_def hi_surrogate_def lo_surrogate_def)
  moreover have "is_bytes (utf8_unit c)" if "c < 0x10000" using that by (auto simp: utf8_unit_def)
  ultimately show ?case using 3 by auto
qed simp

end
