(* ===== verification/AgentTools.thy ===== *)
theory AgentTools
  imports SecretBoundary Encodings Json
begin

text \<open>
  The data contract of the operator-bound agent-tools upstream: arguments and results of its
  commands (\<open>src/policy/agentToolsContract.ts\<close>) and of its typed API
  (\<open>src/policy/agentToolsApiContract.ts\<close>). \<open>JSON.parse\<close> and the URL parser are parameters.
\<close>

record agent_env =
  ag_fpu :: fpu
  ag_nfkc :: "jstr \<Rightarrow> jstr"
  ag_num :: "jnum \<Rightarrow> jstr"
  ag_parse :: "jstr \<Rightarrow> jv result"
  ag_lossy :: "bytes \<Rightarrow> jstr"
  ag_URL :: "jstr \<Rightarrow> (jstr \<times> jstr \<times> jstr \<times> jstr \<times> jstr) option"

text \<open>\<open>toString("utf8")\<close>: invalid sequences are replaced by the parameter \<open>ag_lossy\<close>.\<close>

definition bytes_text :: "agent_env \<Rightarrow> bytes \<Rightarrow> jstr" where
  "bytes_text E bs = (case utf8_decode bs of Some s \<Rightarrow> s | None \<Rightarrow> ag_lossy E bs)"

section \<open>The API contract\<close>

definition MiB :: nat where
  "MiB = 1024 * 1024"

definition api_reject :: js_error where
  "api_reject = plain_error (S ''Invalid agent-tools API contract'')"

definition require :: "bool \<Rightarrow> unit result" where
  "require b = ensure api_reject b"

definition api_fields :: "string list \<Rightarrow> string list \<Rightarrow> (jstr \<times> jv) list \<Rightarrow> unit result" where
  "api_fields allowed required kvs =
     require (only_keys allowed kvs \<and> (\<forall>k \<in> set (map S required). jhas kvs k))"

definition api_integer :: "int \<Rightarrow> int \<Rightarrow> jv \<Rightarrow> unit result" where
  "api_integer lo hi v = require (is_safe_integer v \<and> (case v of JNum (NInt i) \<Rightarrow> lo \<le> i \<and> i \<le> hi | _ \<Rightarrow> False))"

definition hex_exactly :: "nat \<Rightarrow> jstr \<Rightarrow> bool" where
  "hex_exactly n s \<longleftrightarrow> re_test (RSeq RBol (RSeq (rrep n (RCls is_hex_lower)) REol)) s"

definition api_ref :: "jv \<Rightarrow> unit result" where
  "api_ref v = require (is_text (hex_exactly 32) v)"

definition api_sha :: "jv \<Rightarrow> unit result" where
  "api_sha v = require (is_text (hex_exactly 64) v)"

definition b64_limit :: "nat \<Rightarrow> nat" where
  "b64_limit limit = (limit + 2) div 3 * 4"

definition api_content :: "nat \<Rightarrow> jv \<Rightarrow> bytes result" where
  "api_content limit v = (case v of
      JStr s \<Rightarrow> if length s > b64_limit limit then Inl api_reject
        else (case from_base64 s of
            Some raw \<Rightarrow> if length raw > limit then Inl api_reject else Inr raw
          | None \<Rightarrow> Inl api_reject)
    | _ \<Rightarrow> Inl api_reject)"

definition api_operations :: "string list" where
  "api_operations = [''broker.json'', ''broker.forward'', ''documents.read'', ''documents.fetch'',
     ''documents.extract'', ''documents.validate'', ''cover.generate'', ''blob.begin'', ''blob.append'',
     ''blob.seal'', ''blob.read'', ''blob.release'']"

definition json_operations :: "string list" where
  "json_operations = [''search'', ''google.authorization.start'', ''google.authorization.complete'',
     ''google.ads.authorization.start'', ''google.ads.authorization.complete'']"

definition api_profiles :: "string list" where
  "api_profiles = [''workspace'', ''wordpress'', ''naver.keywords'', ''google.keywords'']"

definition blob_keys :: "jstr \<Rightarrow> string list" where
  "blob_keys opn = (if opn = S ''blob.begin'' then [''size'', ''sha256'']
     else if opn = S ''blob.append'' then [''reference'', ''offset'', ''content'']
     else if opn = S ''blob.read'' then [''reference'', ''offset'', ''length''] else [''reference''])"

definition api_blob :: "jstr \<Rightarrow> (jstr \<times> jv) list \<Rightarrow> unit result" where
  "api_blob opn args = checks
     [api_fields (blob_keys opn) (blob_keys opn) args,
      if opn = S ''blob.begin''
      then checks [api_integer 0 (int (512 * MiB)) (jget args (S ''size'')), api_sha (jget args (S ''sha256''))]
      else checks
        [api_ref (jget args (S ''reference'')),
         if jhas args (S ''offset'') then api_integer 0 (int (512 * MiB)) (jget args (S ''offset'')) else Inr (),
         if opn = S ''blob.append''
         then bindE (api_content MiB (jget args (S ''content''))) (\<lambda>raw. require (raw \<noteq> [])) else Inr (),
         if opn = S ''blob.read'' then api_integer 1 (int MiB) (jget args (S ''length'')) else Inr ()]]"

definition api_object :: "jv \<Rightarrow> (jstr \<times> jv) list result" where
  "api_object v = (case v of JObj kvs \<Rightarrow> Inr kvs | _ \<Rightarrow> Inl api_reject)"

definition filled :: "jv \<Rightarrow> bool" where
  "filled v \<longleftrightarrow> is_text (\<lambda>s. trim s \<noteq> []) v"

definition api_search :: "agent_env \<Rightarrow> (jstr \<times> jv) list \<Rightarrow> unit result" where
  "api_search E payload = checks
     [api_fields [''query'', ''max_results''] [''query''] payload,
      require (filled (jget payload (S ''query''))),
      if jget payload (S ''max_results'') \<noteq> JUndef
      then api_integer 1 max_safe_integer (jget payload (S ''max_results'')) else Inr (),
      guard_validate (ag_fpu E) (ag_nfkc E) (JObj [(S ''query'', jget payload (S ''query''))])]"

definition api_complete :: "(jstr \<times> jv) list \<Rightarrow> unit result" where
  "api_complete payload = checks
     [api_fields [''code_or_url'', ''state''] [''code_or_url'', ''state''] payload,
      require (filled (jget payload (S ''code_or_url'')) \<and> length (trim (text_of (jget payload (S ''code_or_url'')))) \<le> 8192
        \<and> is_text (\<lambda>s. 32 \<le> length s \<and> length s \<le> 4096) (jget payload (S ''state'')))]"

definition api_broker_json :: "agent_env \<Rightarrow> (jstr \<times> jv) list \<Rightarrow> unit result" where
  "api_broker_json E args = checks
     [api_fields [''operation'', ''payload''] [''operation''] args,
      require (is_one_of json_operations (jget args (S ''operation''))),
      (let opn = text_of (jget args (S ''operation'')); payload = jget args (S ''payload'') in
       if opn = S ''search'' then bindE (api_object payload) (api_search E)
       else if endsWith opn (S ''.start'')
       then (if is_nullish payload then Inr () else bindE (api_object payload) (api_fields [] []))
       else bindE (api_object payload) api_complete)]"

definition printable :: "jstr \<Rightarrow> bool" where
  "printable s \<longleftrightarrow> \<not> re_test (RCls (\<lambda>c. \<not> (32 \<le> c \<and> c \<le> 126))) s"

fun api_headers :: "(jstr \<times> jv) list \<Rightarrow> jstr set \<Rightarrow> unit result" where
  "api_headers [] names = Inr ()"
| "api_headers ((key, value) # hs) names =
     (let name = lowercase key in
      if name \<notin> set (map S [''content-type'', ''content-disposition'', ''accept'', ''accept-encoding''])
         \<or> name \<in> names \<or> \<not> is_text (\<lambda>s. length s \<le> 4096 \<and> printable s) value
      then Inl api_reject else api_headers hs (insert name names))"

definition timeout_ok :: "jv \<Rightarrow> bool" where
  "timeout_ok v = (case v of JNum (NInt i) \<Rightarrow> 0 < i \<and> i \<le> 120 | JNum (NFrac q) \<Rightarrow> 0 < q \<and> q \<le> 120 | _ \<Rightarrow> False)"

definition target_ok :: "agent_env \<Rightarrow> jv \<Rightarrow> bool" where
  "target_ok E url = (case ag_URL E (text_of url) of
      None \<Rightarrow> False
    | Some (protocol, username, password, hash, port) \<Rightarrow>
        protocol = S ''https:'' \<and> username = [] \<and> password = [] \<and> hash = [] \<and> port = [])"

definition api_forward :: "agent_env \<Rightarrow> (jstr \<times> jv) list \<Rightarrow> unit result" where
  "api_forward E args = checks
     [api_fields [''operation'', ''method'', ''url'', ''content'', ''content_ref'', ''headers'', ''timeout'']
        [''operation'', ''method'', ''url''] args,
      require (is_one_of api_profiles (jget args (S ''operation''))
        \<and> is_one_of [''GET'', ''POST'', ''PUT'', ''PATCH'', ''DELETE'', ''HEAD'', ''OPTIONS''] (jget args (S ''method''))
        \<and> is_text (\<lambda>s. length s \<le> 16384) (jget args (S ''url''))),
      require (target_ok E (jget args (S ''url''))),
      require (jhas args (S ''content'') \<noteq> jhas args (S ''content_ref'')),
      if jhas args (S ''content'') then bindE (api_content (8 * MiB) (jget args (S ''content''))) (\<lambda>_. Inr ())
      else api_ref (jget args (S ''content_ref'')),
      bindE (api_object (if is_nullish (jget args (S ''headers'')) then JObj [] else jget args (S ''headers'')))
        (\<lambda>headers. checks [require (length headers \<le> 4), api_headers headers {}]),
      require (jget args (S ''timeout'') = JUndef \<or> timeout_ok (jget args (S ''timeout'')))]"

definition api_cover :: "agent_env \<Rightarrow> (jstr \<times> jv) list \<Rightarrow> unit result" where
  "api_cover E args = checks
     [api_fields [''title'', ''subtitle'', ''category'', ''meta'', ''style'', ''accent'', ''size_mode'']
        [''title'', ''subtitle'', ''category''] args,
      require (\<forall>kv \<in> set args. is_text (\<lambda>s. length s \<le> 65536) (snd kv)),
      guard_validate (ag_fpu E) (ag_nfkc E) (JObj args)]"

definition api_documents :: "jstr \<Rightarrow> (jstr \<times> jv) list \<Rightarrow> unit result" where
  "api_documents opn args =
     (if opn = S ''documents.read'' then api_fields [''urls'', ''limit'', ''preserve_html'', ''compact_text''] [''urls''] args
      else if opn = S ''documents.fetch'' then api_fields [''url'', ''preserve_html''] [''url''] args
      else if opn = S ''documents.extract'' then api_fields [''urls'', ''format'', ''char_limit''] [''urls''] args
      else api_fields [''url''] [''url''] args)"

definition validateAgentToolsApiArguments :: "agent_env \<Rightarrow> (jstr \<times> jv) list \<Rightarrow> unit result" where
  "validateAgentToolsApiArguments E envelope =
     (let opn = text_of (jget envelope (S ''operation'')) in
      checks
       [api_fields [''operation'', ''arguments''] [''operation'', ''arguments''] envelope,
        require (is_one_of api_operations (jget envelope (S ''operation''))),
        bindE (api_object (jget envelope (S ''arguments''))) (\<lambda>args. checks
          [require (utf8_length (stringify (ag_num E) (JObj args)) \<le> 12 * MiB),
           if startsWith opn (S ''blob.'') then api_blob opn args
           else if opn = S ''broker.json'' then api_broker_json E args
           else if opn = S ''broker.forward'' then api_forward E args
           else if opn = S ''cover.generate'' then api_cover E args
           else api_documents opn args])])"

definition api_failure :: "(jstr \<times> jv) list \<Rightarrow> unit result" where
  "api_failure value = checks
     [api_fields [''ok'', ''error''] [''ok'', ''error''] value,
      bindE (api_object (jget value (S ''error''))) (\<lambda>error. checks
        [api_fields [''kind'', ''message'', ''status_code'', ''retry_after'', ''error_code''] [''kind''] error,
         require (is_one_of [''broker_http'', ''broker_transport'', ''broker'', ''document'', ''value'', ''tool'']
           (jget error (S ''kind''))),
         require (jget error (S ''message'') = JUndef \<or> is_text (\<lambda>s. length s \<le> 512) (jget error (S ''message''))),
         if jget error (S ''kind'') = JStr (S ''broker_http'') then api_integer 100 599 (jget error (S ''status_code'')) else Inr (),
         if is_nullish (jget error (S ''retry_after'')) then Inr () else api_integer 1 86400 (jget error (S ''retry_after'')),
         require (jget error (S ''kind'') = JStr (S ''broker_transport'') \<longrightarrow> is_one_of [''connect_timeout'',
           ''read_timeout'', ''write_timeout'', ''pool_timeout'', ''connect_failed'', ''read_failed'', ''write_failed'',
           ''protocol_error'', ''response_decode_failed'', ''transport_or_response_failed''] (jget error (S ''error_code'')))])]"

definition api_payload :: "agent_env \<Rightarrow> (jstr \<times> jv) list \<Rightarrow> unit result" where
  "api_payload E value =
     (if jhas value (S ''content'')
      then bindE (api_content (8 * MiB) (jget value (S ''content''))) (\<lambda>raw. checks
        [require (\<not> jhas value (S ''content_size'') \<and> \<not> jhas value (S ''sha256'')),
         if jget value (S ''kind'') = JStr (S ''json'')
         then (case ag_parse E (bytes_text E raw) of Inr _ \<Rightarrow> Inr () | Inl _ \<Rightarrow> Inl api_reject)
         else Inr ()])
      else checks [api_ref (jget value (S ''content_ref'')), api_integer 0 (int (64 * MiB)) (jget value (S ''content_size'')),
        api_sha (jget value (S ''sha256''))])"

definition validateAgentToolsApiResult :: "agent_env \<Rightarrow> (jstr \<times> jv) list \<Rightarrow> unit result" where
  "validateAgentToolsApiResult E value = (case jget value (S ''ok'') of
      JBool False \<Rightarrow> api_failure value
    | JBool True \<Rightarrow> checks
        [api_fields [''ok'', ''kind'', ''content'', ''content_ref'', ''content_size'', ''sha256'', ''status_code'', ''headers'']
           [''ok'', ''kind''] value,
         require (is_one_of [''json'', ''bytes'', ''response''] (jget value (S ''kind''))
           \<and> jhas value (S ''content'') \<noteq> jhas value (S ''content_ref'')),
         api_payload E value,
         if jget value (S ''kind'') = JStr (S ''response'')
         then checks [api_integer 100 599 (jget value (S ''status_code'')),
           bindE (api_object (jget value (S ''headers''))) (\<lambda>headers. checks
             [api_fields [''content-type'', ''x-broker-response-source'', ''retry-after''] [] headers,
              require (\<forall>kv \<in> set headers. is_text (\<lambda>s. length s \<le> 4096) (snd kv))])]
         else require (\<not> jhas value (S ''headers'') \<and> \<not> jhas value (S ''status_code''))]
    | _ \<Rightarrow> Inl api_reject)"

section \<open>The command contract\<close>

definition AGENT_TOOL_COMMANDS :: "string list" where
  "AGENT_TOOL_COMMANDS = [''workspace'', ''search'', ''document_reader'', ''keywords'', ''wordpress'',
     ''thumbnail_tool'', ''auth_workspace'', ''auth_google_ads'', ''api'']"

definition MAX_FILE :: nat where "MAX_FILE = 8 * 1024 * 1024"
definition MAX_TEXT :: nat where "MAX_TEXT = 2 * 1024 * 1024"

definition namePattern :: re where
  "namePattern = RSeq RBol (RSeq (ralts
     [rseqs [rlit (S ''input-''), rplus (RCls is_digit),
        ropt (RSeq (rchr 46) (RSeq (RCls is_alnum) (rupto 9 (RCls is_alnum))))],
      rlit (S ''state.txt''), rlit (S ''output.png'')]) REol)"

definition agent_error :: "string \<Rightarrow> js_error" where
  "agent_error m = plain_error (S m)"

definition agent_object :: "jv \<Rightarrow> (jstr \<times> jv) list result" where
  "agent_object v = (case v of JObj kvs \<Rightarrow> Inr kvs | _ \<Rightarrow> Inl (agent_error ''Invalid agent-tools envelope''))"

definition exactKeys :: "(jstr \<times> jv) list \<Rightarrow> string list \<Rightarrow> unit result" where
  "exactKeys kvs allowed = ensure (agent_error ''Invalid agent-tools fields'') (only_keys allowed kvs)"

definition decode_file :: "jstr \<times> jv \<Rightarrow> (jstr \<times> bytes) result" where
  "decode_file nv = (case nv of (name, encoded) \<Rightarrow>
     if \<not> re_test namePattern name \<or> \<not> is_text (\<lambda>s. length s \<le> b64_limit MAX_FILE) encoded
     then Inl (agent_error ''Invalid agent-tools attachment'')
     else (case from_base64 (text_of encoded) of
         None \<Rightarrow> Inl (agent_error ''Invalid agent-tools encoding'')
       | Some data \<Rightarrow> if length data > MAX_FILE then Inl (agent_error ''Invalid agent-tools encoding'')
           else Inr (name, data)))"

definition agent_files :: "jv \<Rightarrow> (jstr \<times> bytes) list result" where
  "agent_files value =
     bindE (agent_object (if is_nullish value then JObj [] else value)) (\<lambda>attachments.
       if length attachments > 6 then Inl (agent_error ''Too many agent-tools attachments'')
       else bindE (mapE decode_file attachments) (\<lambda>decoded.
         if sum_list (map (length \<circ> snd) decoded) > 16 * 1024 * 1024
         then Inl (agent_error ''Agent-tools attachments exceed limit'') else Inr decoded))"

definition argv_ok :: "jv \<Rightarrow> bool" where
  "argv_ok v = (case v of
      JArr items \<Rightarrow> length items \<le> 128 \<and> (\<forall>i \<in> set items. is_text (\<lambda>s. length s \<le> 65536 \<and> 0 \<notin> set s) i)
    | _ \<Rightarrow> False)"

definition is_consent :: "jstr \<Rightarrow> bool" where
  "is_consent command \<longleftrightarrow> command = S ''auth_workspace'' \<or> command = S ''auth_google_ads''"

definition png_magic :: bytes where
  "png_magic = [137, 80, 78, 71, 13, 10, 26, 10]"

definition check_file :: "agent_env \<Rightarrow> jstr \<Rightarrow> jstr \<times> bytes \<Rightarrow> unit result" where
  "check_file E command nd = (case nd of (name, data) \<Rightarrow>
     if name = S ''output.png'' \<or> name = S ''state.txt'' \<and> \<not> is_consent command
     then Inl (agent_error ''Unexpected attachment'')
     else if name \<noteq> S ''state.txt'' \<and> take 8 data \<noteq> png_magic
     then (let text = bytes_text E data in
       if utf8_encode text = data then guard_validate (ag_fpu E) (ag_nfkc E) (JObj [(S ''document'', JStr text)])
       else Inr ())
     else Inr ())"

definition validateAgentToolsArguments :: "agent_env \<Rightarrow> jstr \<Rightarrow> (jstr \<times> jv) list \<Rightarrow> unit result" where
  "validateAgentToolsArguments E command args =
     (if command \<notin> set (map S AGENT_TOOL_COMMANDS) then Inl (agent_error ''Unknown agent-tools command'')
      else if command = S ''api'' then validateAgentToolsApiArguments E args
      else checks
       [exactKeys args [''argv'', ''files'', ''stdin''],
        ensure (agent_error ''Invalid agent-tools argv'') (argv_ok (jget args (S ''argv''))),
        ensure (agent_error ''Invalid agent-tools stdin'') (jget args (S ''stdin'') = JUndef
          \<or> is_text (\<lambda>s. length s \<le> 8193) (jget args (S ''stdin''))),
        ensure (agent_error ''Unexpected agent-tools stdin'')
          (\<not> (truthy (jget args (S ''stdin'')) \<and> command \<noteq> S ''auth_google_ads'')),
        if is_consent command then Inr ()
        else guard_validate (ag_fpu E) (ag_nfkc E) (JObj [(S ''argv'', jget args (S ''argv''))]),
        bindE (agent_files (jget args (S ''files''))) (check_each (check_file E command))])"

text \<open>A property read on a value that the protocol client has checked to be an object.\<close>

definition jprop :: "jv \<Rightarrow> string \<Rightarrow> jv" where
  "jprop v k = jget (fields_of v) (S k)"

definition text_blocks :: "jv \<Rightarrow> jv list" where
  "text_blocks raw = (case jprop raw ''content'' of
      JArr blocks \<Rightarrow> filter (\<lambda>b. jprop b ''type'' = JStr (S ''text'')) blocks | _ \<Rightarrow> [])"

definition exit_code_ok :: "jv \<Rightarrow> bool" where
  "exit_code_ok v = (case v of JNum (NInt i) \<Rightarrow> 0 \<le> i \<and> i \<le> 255 | _ \<Rightarrow> False)"

definition check_output :: "jstr \<Rightarrow> jstr \<times> bytes \<Rightarrow> unit result" where
  "check_output command nd = ensure (agent_error ''Unexpected output attachment'')
     (fst nd = S ''output.png'' \<and> command = S ''thumbnail_tool''
      \<or> fst nd = S ''state.txt'' \<and> startsWith command (S ''auth_''))"

definition check_command_result :: "jstr \<Rightarrow> (jstr \<times> jv) list \<Rightarrow> unit result" where
  "check_command_result command data = checks
     [exactKeys data [''exit_code'', ''stdout'', ''stderr'', ''files''],
      ensure (agent_error ''Invalid agent-tools result fields'') (exit_code_ok (jget data (S ''exit_code''))
        \<and> is_text (\<lambda>s. length s \<le> MAX_TEXT) (jget data (S ''stdout''))
        \<and> is_text (\<lambda>s. length s \<le> MAX_TEXT) (jget data (S ''stderr''))),
      bindE (agent_files (jget data (S ''files''))) (check_each (check_output command))]"

definition validateAgentToolsResult :: "agent_env \<Rightarrow> jstr \<Rightarrow> jv \<Rightarrow> jv result" where
  "validateAgentToolsResult E command raw =
     (if truthy (jprop raw ''isError'')
      then Inl (agent_error ''Agent-tools rejected execution; inspect status before retrying'')
      else let texts = text_blocks raw; text = text_of (jprop (hd texts) ''text'') in
        if length texts \<noteq> 1 \<or> length text > 24 * 1024 * 1024 then Inl (agent_error ''Invalid agent-tools result'')
        else bindE (ag_parse E text) (\<lambda>parsed. bindE (agent_object parsed) (\<lambda>data.
          if truthy (jprop raw ''structuredContent'')
             \<and> stringify (ag_num E) (jprop raw ''structuredContent'') \<noteq> stringify (ag_num E) (JObj data)
          then Inl (agent_error ''Inconsistent agent-tools result'')
          else bindE (if command = S ''api'' then validateAgentToolsApiResult E data else check_command_result command data)
            (\<lambda>_. Inr raw))))"

section \<open>What the contract guarantees\<close>

lemma decode_file_ok: "decode_file (name, v) = Inr (n, data) \<Longrightarrow>
    n = name \<and> re_test namePattern name \<and> v = JStr (base64 data) \<and> length data \<le> MAX_FILE"
  by (auto simp: decode_file_def is_text_def text_of_def from_base64_iff split: if_splits option.splits jv.splits)

lemma mapE_member: "mapE f xs = Inr ys \<Longrightarrow> y \<in> set ys \<Longrightarrow> \<exists>x \<in> set xs. f x = Inr y"
  by (induction xs arbitrary: ys) (auto simp: bindE_Inr_iff)

lemma agent_files_ok:
  assumes "agent_files v = Inr decoded"
  shows "length decoded \<le> 6 \<and> sum_list (map (length \<circ> snd) decoded) \<le> 16 * 1024 * 1024
    \<and> (\<forall>(name, data) \<in> set decoded. re_test namePattern name \<and> length data \<le> MAX_FILE
        \<and> (name, JStr (base64 data)) \<in> set (fields_of v))"
proof -
  from assms obtain kvs where kvs: "agent_object (if is_nullish v then JObj [] else v) = Inr kvs"
    and len: "length kvs \<le> 6" and m: "mapE decode_file kvs = Inr decoded"
    and total: "sum_list (map (length \<circ> snd) decoded) \<le> 16 * 1024 * 1024"
    by (auto simp: agent_files_def bindE_Inr_iff split: if_splits)
  have all: "list_all2 (\<lambda>x y. decode_file x = Inr y) kvs decoded" using m by (simp add: mapE_Inr_iff)
  have sub: "set kvs \<subseteq> set (fields_of v)"
    using kvs by (auto simp: agent_object_def fields_of_def split: jv.splits if_splits)
  have "re_test namePattern name \<and> length data \<le> MAX_FILE \<and> (name, JStr (base64 data)) \<in> set (fields_of v)"
    if "(name, data) \<in> set decoded" for name data
  proof -
    from mapE_member [OF m that] obtain x where x: "x \<in> set kvs" "decode_file x = Inr (name, data)" by blast
    obtain k w where kw: "x = (k, w)" by (cases x)
    from decode_file_ok [OF x(2) [unfolded kw]] x(1) kw sub show ?thesis by auto
  qed
  with total len all show ?thesis by (auto dest: list_all2_lengthD)
qed

lemma guard_ok: "guard_validate M nfkc v = Inr () \<longleftrightarrow> \<not> carries_secret M nfkc v"
  by (simp add: guard_validate_def guard_traverse_ok)

text \<open>
  Arguments the contract accepts for a command other than the typed API name a known command,
  have at most 128 argument strings without null bytes and at most six attachments of at most
  16 MiB together, each the canonical base64 text of its bytes under an allowed name; outside the
  consent commands neither the argument strings nor a UTF-8 attachment carries a secret, and there
  is no state file.
\<close>

theorem agent_arguments_contract:
  assumes "validateAgentToolsArguments E command args = Inr ()" and "command \<noteq> S ''api''"
  shows "command \<in> set (map S AGENT_TOOL_COMMANDS) \<and> argv_ok (jget args (S ''argv''))
    \<and> (\<exists>decoded. agent_files (jget args (S ''files'')) = Inr decoded \<and> length decoded \<le> 6
        \<and> sum_list (map (length \<circ> snd) decoded) \<le> 16 * 1024 * 1024
        \<and> (\<forall>(name, data) \<in> set decoded. name \<noteq> S ''output.png''
            \<and> (name, JStr (base64 data)) \<in> set (fields_of (jget args (S ''files'')))
            \<and> (\<not> is_consent command \<longrightarrow> name \<noteq> S ''state.txt''
                \<and> (take 8 data \<noteq> png_magic \<and> utf8_encode (bytes_text E data) = data \<longrightarrow>
                    \<not> carries_secret (ag_fpu E) (ag_nfkc E) (JObj [(S ''document'', JStr (bytes_text E data))])))))
    \<and> (\<not> is_consent command \<longrightarrow>
        \<not> carries_secret (ag_fpu E) (ag_nfkc E) (JObj [(S ''argv'', jget args (S ''argv''))]))"
proof -
  from assms have cmd: "command \<in> set (map S AGENT_TOOL_COMMANDS)" and argv: "argv_ok (jget args (S ''argv''))"
    and guard: "\<not> is_consent command \<Longrightarrow> guard_validate (ag_fpu E) (ag_nfkc E) (JObj [(S ''argv'', jget args (S ''argv''))]) = Inr ()"
    and files: "bindE (agent_files (jget args (S ''files''))) (check_each (check_file E command)) = Inr ()"
    by (auto simp: validateAgentToolsArguments_def checks_ok split: if_splits)
  from files obtain decoded where d: "agent_files (jget args (S ''files'')) = Inr decoded"
    and each: "\<forall>nd \<in> set decoded. check_file E command nd = Inr ()"
    by (auto simp: bindE_Inr_iff check_each_ok)
  have rules: "name \<noteq> S ''output.png'' \<and> (\<not> is_consent command \<longrightarrow> name \<noteq> S ''state.txt''
                \<and> (take 8 data \<noteq> png_magic \<and> utf8_encode (bytes_text E data) = data \<longrightarrow>
                    \<not> carries_secret (ag_fpu E) (ag_nfkc E) (JObj [(S ''document'', JStr (bytes_text E data))])))"
    if "(name, data) \<in> set decoded" for name data
    using each that by (fastforce simp: check_file_def Let_def guard_ok split: if_splits)
  note fo = agent_files_ok [OF d]
  have "\<forall>(name, data) \<in> set decoded. name \<noteq> S ''output.png''
            \<and> (name, JStr (base64 data)) \<in> set (fields_of (jget args (S ''files'')))
            \<and> (\<not> is_consent command \<longrightarrow> name \<noteq> S ''state.txt''
                \<and> (take 8 data \<noteq> png_magic \<and> utf8_encode (bytes_text E data) = data \<longrightarrow>
                    \<not> carries_secret (ag_fpu E) (ag_nfkc E) (JObj [(S ''document'', JStr (bytes_text E data))])))"
    (is "\<forall>(name, data) \<in> set decoded. ?P name data")
  proof (rule ballI)
    fix nd
    assume nd: "nd \<in> set decoded"
    obtain name data where e: "nd = (name, data)" by (cases nd)
    have "(name, JStr (base64 data)) \<in> set (fields_of (jget args (S ''files'')))"
      using fo nd e by blast
    with rules [of name data] nd e show "case nd of (name, data) \<Rightarrow> ?P name data" by simp
  qed
  moreover have "\<not> is_consent command \<longrightarrow>
      \<not> carries_secret (ag_fpu E) (ag_nfkc E) (JObj [(S ''argv'', jget args (S ''argv''))])"
    using guard by (simp add: guard_ok)
  ultimately show ?thesis using cmd argv d fo by blast
qed

definition demo_agent_env :: agent_env where
  "demo_agent_env = \<lparr>ag_fpu = exact_fpu, ag_nfkc = (\<lambda>s. s), ag_num = (\<lambda>_. []),
     ag_parse = (\<lambda>_. Inl (plain_error [])), ag_lossy = (\<lambda>_. []), ag_URL = (\<lambda>_. None)\<rparr>"

theorem agent_arguments_contract_witness:
  "validateAgentToolsArguments demo_agent_env (S ''search'') [(S ''argv'', JArr [JStr (S ''ls'')])] = Inr ()
   \<and> \<not> carries_secret exact_fpu (\<lambda>s. s) (JObj [(S ''argv'', JArr [JStr (S ''ls'')])])"
proof -
  let ?args = "[(S ''argv'', JArr [JStr (S ''ls'')])]"
  have "normalizeUnicodeAndWhitespace (\<lambda>s. s) (S ''ls'') = S ''ls''"
    by (rule normalize_plain) (simp_all add: js_eval zero_width_def odd_space_def)
  then have clean: "findHighEntropyTokens exact_fpu default_options (normalizeUnicodeAndWhitespace (\<lambda>s. s) (S ''ls'')) = []"
    by (simp add: short_text_clean)
  have key: "\<not> is_sensitive_key (S ''argv'')" by code_simp
  have no: "\<not> carries_secret exact_fpu (\<lambda>s. s) (JObj ?args)"
    using clean key by (simp add: carries_secret_def)
  have ok: "validateAgentToolsArguments demo_agent_env (S ''search'') ?args = Inr ()"
    using no by (simp add: validateAgentToolsArguments_def AGENT_TOOL_COMMANDS_def checks_ok exactKeys_def only_keys_def
      argv_ok_def is_text_def guard_ok demo_agent_env_def agent_files_def agent_object_def is_nullish_def js_eval)
  from agent_arguments_contract [OF ok] no ok show ?thesis
    by (simp add: demo_agent_env_def is_consent_def)
qed

end
