(* ===== verification/ToolInvocation.thy ===== *)
theory ToolInvocation
  imports Jev AgentTools
begin

text \<open>
  The audited invocation of a tool (\<open>src/domain/toolInvocationContext.ts\<close>): the operation runs,
  its result or error is passed on, and one audit entry describes it.
\<close>

record request_context =
  rc_requestId :: "jstr option"
  rc_userId :: "jstr option"
  rc_apiKeyId :: "jstr option"
  rc_ipAddress :: "jstr option"
  rc_userAgent :: "jstr option"

record invocation_context =
  ic_requestContext :: "request_context option"
  ic_auditLogger :: bool

text \<open>\<open>String(error)\<close> of an error object.\<close>

definition error_string :: "js_error \<Rightarrow> jstr" where
  "error_string e = (if err_name e = [] then err_message e
     else if err_message e = [] then err_name e else err_name e @ S '': '' @ err_message e)"

definition is_security_violation :: "js_error \<Rightarrow> bool" where
  "is_security_violation e \<longleftrightarrow> err_code e = Some (S ''SECURITY_VIOLATION'')
     \<or> err_code e = Some (S ''SECRET_EGRESS_BLOCKED'') \<or> err_name e = S ''SanitizationViolationError''"

definition is_forbidden :: "js_error \<Rightarrow> bool" where
  "is_forbidden e \<longleftrightarrow> \<not> is_security_violation e
     \<and> (err_status e = Some 403 \<or> str_includes (err_message e) (S ''outside API key scope'')
        \<or> str_includes (err_message e) (S ''not allowed by gateway policy''))"

definition error_outcome :: "js_error \<Rightarrow> log_status \<times> int" where
  "error_outcome e = (if is_security_violation e then (SECURITY_VIOLATION, 400)
     else if is_forbidden e then (FORBIDDEN, 403) else (ERROR, 500))"

definition result_outcome :: "jv \<Rightarrow> log_status \<times> int" where
  "result_outcome result = (if jprop result ''isError'' = JBool True then (ERROR, 500) else (SUCCESS, 200))"

text \<open>The text whose size is the response size: the result, or the error as an object.\<close>

definition response_json :: "(jnum \<Rightarrow> jstr) \<Rightarrow> jv result \<Rightarrow> jstr" where
  "response_json num r = (case r of
      Inr result \<Rightarrow> stringify num (if is_nullish result then JObj [] else result)
    | Inl e \<Rightarrow> stringify num (JObj [(S ''error'', JStr (error_string e))]))"

definition outcome_of :: "jv result \<Rightarrow> log_status \<times> int" where
  "outcome_of r = (case r of Inr result \<Rightarrow> result_outcome result | Inl e \<Rightarrow> error_outcome e)"

definition invocation_entry :: "agent_env \<Rightarrow> request_context \<Rightarrow> real \<Rightarrow> jstr \<Rightarrow> jv \<Rightarrow> jv result \<Rightarrow> audit_entry" where
  "invocation_entry E ctx durationMs toolName args r =
     (let M = ag_fpu E; num = ag_num E; argsJson = stringify num args;
          requestBytes = utf8_length argsJson;
          responseJson = response_json num r; responseBytes = utf8_length responseJson
      in \<lparr>ae_requestId = rc_requestId ctx, ae_userId = or_else (rc_userId ctx) (S ''anonymous''),
          ae_apiKeyId = rc_apiKeyId ctx, ae_toolName = toolName,
          ae_status = fst (outcome_of r), ae_statusCode = snd (outcome_of r), ae_durationMs = durationMs,
          ae_requestBytes = Some requestBytes, ae_responseBytes = Some responseBytes,
          ae_inputTokens = Some (estimateTokens M num (JStr argsJson)),
          ae_outputTokens = Some (estimateTokens M num (JStr responseJson)),
          ae_creditsUsed = Some (calculateCredits M toolName requestBytes responseBytes),
          ae_arguments = Some args, ae_ipAddress = rc_ipAddress ctx, ae_userAgent = rc_userAgent ctx\<rparr>)"

definition invoke :: "agent_env \<Rightarrow> invocation_context \<Rightarrow> real \<Rightarrow> jstr \<Rightarrow> jv \<Rightarrow> ('s \<Rightarrow> 's \<times> jv result)
    \<Rightarrow> 's \<Rightarrow> 's \<times> audit_entry option \<times> jv result" where
  "invoke E ic durationMs toolName args operation s =
     (case operation s of (s', r) \<Rightarrow>
        (s', (case ic_requestContext ic of
                Some ctx \<Rightarrow> if ic_auditLogger ic \<and> is_set (rc_userId ctx)
                  then Some (invocation_entry E ctx durationMs toolName args r) else None
              | None \<Rightarrow> None), r))"

end
