(* ===== verification/RouteMap.thy ===== *)
theory RouteMap
  imports JsRegex "HOL-Library.Sorting_Algorithms"
begin

text \<open>
  The routing table (\<open>src/domain/toolRouteMap.ts\<close>) and the registry that holds it
  (\<open>src/upstream/toolRegistry.ts\<close>). A \<open>Map\<close> of the source keeps insertion order, so the table is
  an association list with distinct keys. An upstream connection is a value of any type \<open>'c\<close>;
  what a remote server answers is an operation of \<open>conn_ops\<close>. Freezing changes no value, so
  \<open>deepFreeze\<close> leaves no trace here.
\<close>

section \<open>Connections, tools, routes\<close>

record tool =
  t_name :: jstr
  t_fields :: "(jstr \<times> jv) list"

text \<open>The \<open>UpstreamConnection\<close> interface (\<open>src/upstream/upstreamConnection.ts\<close>).\<close>

record ('c, 's) conn_ops =
  c_id :: "'c \<Rightarrow> jstr"
  c_toolPrefix :: "'c \<Rightarrow> jstr"
  c_listTools :: "'c \<Rightarrow> 's \<Rightarrow> 's \<times> tool list result"
  c_callTool :: "'c \<Rightarrow> jstr \<Rightarrow> jv \<Rightarrow> 's \<Rightarrow> 's \<times> jv result"
  c_close :: "'c \<Rightarrow> 's \<Rightarrow> 's \<times> unit result"

record 'c route =
  r_publicName :: jstr
  r_upstreamId :: jstr
  r_upstreamToolName :: jstr
  r_schema :: tool
  r_connection :: 'c

type_synonym 'c route_map = "(jstr \<times> 'c route) list"

definition rm_get :: "'c route_map \<Rightarrow> jstr \<Rightarrow> 'c route option" where
  "rm_get rm publicName = map_of rm publicName"

definition rm_has :: "'c route_map \<Rightarrow> jstr \<Rightarrow> bool" where
  "rm_has rm publicName \<longleftrightarrow> rm_get rm publicName \<noteq> None"

definition rm_empty :: "'c route_map" where
  "rm_empty = []"

section \<open>Building the table\<close>

definition valid_prefix_char :: "nat \<Rightarrow> bool" where
  "valid_prefix_char c \<longleftrightarrow> is_alnum c \<or> one_of ''_-'' c"

definition public_name :: "jstr \<Rightarrow> jstr \<Rightarrow> jstr" where
  "public_name toolPrefix name = toolPrefix @ S ''.'' @ name"

definition make_route :: "('c, 's) conn_ops \<Rightarrow> 'c \<Rightarrow> tool \<Rightarrow> 'c route" where
  "make_route ops connection tool =
     \<lparr>r_publicName = public_name (c_toolPrefix ops connection) (t_name tool),
      r_upstreamId = c_id ops connection, r_upstreamToolName = t_name tool,
      r_schema = tool, r_connection = connection\<rparr>"

text \<open>The loop body over the tools of one connection: a name already present is an error.\<close>

definition add_tool :: "('c, 's) conn_ops \<Rightarrow> 'c \<Rightarrow> tool \<Rightarrow> 'c route_map \<Rightarrow> 'c route_map result" where
  "add_tool ops connection tool rm =
     (let publicName = public_name (c_toolPrefix ops connection) (t_name tool) in
      if rm_has rm publicName
      then Inl (plain_error (S ''duplicate public tool name: '' @ publicName))
      else Inr (rm @ [(publicName, make_route ops connection tool)]))"

definition prefix_check :: "('c, 's) conn_ops \<Rightarrow> 'c \<Rightarrow> unit result" where
  "prefix_check ops connection =
     (let toolPrefix = c_toolPrefix ops connection in
      if toolPrefix = [] \<or> \<not> re_test (whole_plus valid_prefix_char) toolPrefix
      then Inl (plain_error (S ''Invalid upstream toolPrefix invariant: '' @ toolPrefix))
      else Inr ())"

text \<open>\<open>fromConnections\<close> asks each connection in turn; \<open>'s\<close> is the state of the remote servers.\<close>

fun from_loop :: "('c, 's) conn_ops \<Rightarrow> 'c list \<Rightarrow> 'c route_map \<Rightarrow> 's \<Rightarrow> 's \<times> 'c route_map result" where
  "from_loop ops [] rm s = (s, Inr rm)"
| "from_loop ops (connection # cs) rm s =
     (case prefix_check ops connection of
        Inl e \<Rightarrow> (s, Inl e)
      | Inr _ \<Rightarrow>
          (case c_listTools ops connection s of
             (s', Inl e) \<Rightarrow> (s', Inl e)
           | (s', Inr tools) \<Rightarrow>
               (case for_each (add_tool ops connection) tools rm of
                  Inl e \<Rightarrow> (s', Inl e)
                | Inr rm' \<Rightarrow> from_loop ops cs rm' s')))"

definition fromConnections :: "('c, 's) conn_ops \<Rightarrow> 'c list \<Rightarrow> 's \<Rightarrow> 's \<times> 'c route_map result" where
  "fromConnections ops connections s = from_loop ops connections rm_empty s"

definition withConnection :: "('c, 's) conn_ops \<Rightarrow> 'c \<Rightarrow> 'c route_map \<Rightarrow> 's \<Rightarrow> 's \<times> 'c route_map result" where
  "withConnection ops connection rm s =
     (case c_listTools ops connection s of
        (s', Inl e) \<Rightarrow> (s', Inl e)
      | (s', Inr tools) \<Rightarrow> (s', for_each (add_tool ops connection) tools rm))"

section \<open>Using the table\<close>

text \<open>\<open>list\<close> sorts by \<open>localeCompare\<close>, a collation of the host given as a comparator.\<close>

definition rm_list :: "jstr comparator \<Rightarrow> 'c route_map \<Rightarrow> 'c route list" where
  "rm_list localeCompare rm = Sorting_Algorithms.sort (key r_publicName localeCompare) (map snd rm)"

definition rm_call :: "('c, 's) conn_ops \<Rightarrow> 'c route_map \<Rightarrow> jstr \<Rightarrow> jv \<Rightarrow> 's \<Rightarrow> 's \<times> jv result" where
  "rm_call ops rm publicName arguments s =
     (case rm_get rm publicName of
        None \<Rightarrow> (s, Inl (plain_error (S ''unknown tool: '' @ publicName)))
      | Some route \<Rightarrow> c_callTool ops (r_connection route) (r_upstreamToolName route) arguments s)"

text \<open>\<open>close\<close> closes one connection per upstream id; the first rejection ends the loop.\<close>

fun close_loop :: "('c, 's) conn_ops \<Rightarrow> 'c route list \<Rightarrow> jstr set \<Rightarrow> 's \<Rightarrow> 's \<times> unit result" where
  "close_loop ops [] seen s = (s, Inr ())"
| "close_loop ops (route # rs) seen s =
     (if r_upstreamId route \<notin> seen
      then (case c_close ops (r_connection route) s of
              (s', Inl e) \<Rightarrow> (s', Inl e)
            | (s', Inr _) \<Rightarrow> close_loop ops rs (insert (r_upstreamId route) seen) s')
      else close_loop ops rs seen s)"

definition rm_close :: "('c, 's) conn_ops \<Rightarrow> 'c route_map \<Rightarrow> 's \<Rightarrow> 's \<times> unit result" where
  "rm_close ops rm s = close_loop ops (map snd rm) {} s"

section \<open>The registry\<close>

record 'c registry =
  reg_connections :: "'c list"
  reg_routeMap :: "'c route_map"

record routed_tool =
  rt_fields :: "(jstr \<times> jv) list"
  rt_publicName :: jstr
  rt_upstreamId :: jstr
  rt_upstreamToolName :: jstr

definition new_ToolRegistry :: "'c list \<Rightarrow> 'c registry" where
  "new_ToolRegistry connections = \<lparr>reg_connections = connections, reg_routeMap = rm_empty\<rparr>"

definition registry_refresh :: "('c, 's) conn_ops \<Rightarrow> 'c registry \<Rightarrow> 's \<Rightarrow> 's \<times> 'c registry \<times> unit result" where
  "registry_refresh ops reg s =
     (case fromConnections ops (reg_connections reg) s of
        (s', Inl e) \<Rightarrow> (s', reg, Inl e)
      | (s', Inr rm) \<Rightarrow> (s', reg\<lparr>reg_routeMap := rm\<rparr>, Inr ()))"

definition registry_list :: "jstr comparator \<Rightarrow> 'c registry \<Rightarrow> routed_tool list" where
  "registry_list localeCompare reg =
     map (\<lambda>route. \<lparr>rt_fields = t_fields (r_schema route), rt_publicName = r_publicName route,
                   rt_upstreamId = r_upstreamId route, rt_upstreamToolName = r_upstreamToolName route\<rparr>)
       (rm_list localeCompare (reg_routeMap reg))"

definition registry_call :: "('c, 's) conn_ops \<Rightarrow> 'c registry \<Rightarrow> jstr \<Rightarrow> jv \<Rightarrow> 's \<Rightarrow> 's \<times> jv result" where
  "registry_call ops reg publicName arguments s = rm_call ops (reg_routeMap reg) publicName arguments s"

definition registry_clone :: "'c registry \<Rightarrow> 'c registry" where
  "registry_clone reg = (new_ToolRegistry (reg_connections reg))\<lparr>reg_routeMap := reg_routeMap reg\<rparr>"

definition registry_addRoute :: "('c, 's) conn_ops \<Rightarrow> 'c \<Rightarrow> 'c registry \<Rightarrow> 's \<Rightarrow> 's \<times> 'c registry \<times> unit result" where
  "registry_addRoute ops connection reg s =
     (case withConnection ops connection (reg_routeMap reg) s of
        (s', Inl e) \<Rightarrow> (s', reg, Inl e)
      | (s', Inr rm) \<Rightarrow> (s', reg\<lparr>reg_routeMap := rm\<rparr>, Inr ()))"

definition registry_close :: "('c, 's) conn_ops \<Rightarrow> 'c registry \<Rightarrow> 's \<Rightarrow> 's \<times> unit result" where
  "registry_close ops reg s = rm_close ops (reg_routeMap reg) s"

section \<open>Well-formed tables\<close>

definition route_ok :: "('c, 's) conn_ops \<Rightarrow> jstr \<times> 'c route \<Rightarrow> bool" where
  "route_ok ops kr \<longleftrightarrow> fst kr = r_publicName (snd kr)
     \<and> snd kr = make_route ops (r_connection (snd kr)) (r_schema (snd kr))"

definition table_ok :: "('c, 's) conn_ops \<Rightarrow> 'c route_map \<Rightarrow> bool" where
  "table_ok ops rm \<longleftrightarrow> distinct (map fst rm) \<and> (\<forall>kr \<in> set rm. route_ok ops kr)"

lemma table_ok_empty [simp]: "table_ok ops rm_empty"
  by (simp add: table_ok_def rm_empty_def)

lemma rm_has_iff: "rm_has rm n \<longleftrightarrow> n \<in> fst ` set rm"
  by (auto simp: rm_has_def rm_get_def map_of_eq_None_iff)

lemma add_tool_Inr:
  "add_tool ops c t rm = Inr rm' \<longleftrightarrow>
     \<not> rm_has rm (public_name (c_toolPrefix ops c) (t_name t))
     \<and> rm' = rm @ [(public_name (c_toolPrefix ops c) (t_name t), make_route ops c t)]"
  by (auto simp: add_tool_def Let_def)

lemma add_tool_ok [inv_intro]: "table_ok ops rm \<Longrightarrow> add_tool ops c t rm = Inr rm' \<Longrightarrow> table_ok ops rm'"
  by (auto simp: add_tool_Inr table_ok_def rm_has_iff route_ok_def make_route_def)

text \<open>Adding the tools of a connection appends their routes, or fails on a repeated name.\<close>

definition routes_of :: "('c, 's) conn_ops \<Rightarrow> 'c \<Rightarrow> tool list \<Rightarrow> 'c route_map" where
  "routes_of ops c tools = map (\<lambda>t. (public_name (c_toolPrefix ops c) (t_name t), make_route ops c t)) tools"

lemma public_name_inject [simp]: "public_name p a = public_name p b \<longleftrightarrow> a = b"
  by (simp add: public_name_def)

lemma rm_has_snoc: "rm_has (rm @ [(k, r)]) n \<longleftrightarrow> rm_has rm n \<or> n = k"
  by (auto simp: rm_has_iff)

lemma for_each_add_tool:
  "for_each (add_tool ops c) tools rm = Inr rm' \<longleftrightarrow>
     rm' = rm @ routes_of ops c tools \<and> distinct (map t_name tools)
     \<and> (\<forall>t \<in> set tools. \<not> rm_has rm (public_name (c_toolPrefix ops c) (t_name t)))"
proof (induction tools arbitrary: rm)
  case Nil
  then show ?case by (auto simp: routes_of_def)
next
  case (Cons t tools)
  let ?n = "\<lambda>t. public_name (c_toolPrefix ops c) (t_name t)"
  have "for_each (add_tool ops c) (t # tools) rm = Inr rm' \<longleftrightarrow> \<not> rm_has rm (?n t)
      \<and> for_each (add_tool ops c) tools (rm @ [(?n t, make_route ops c t)]) = Inr rm'"
    by (auto simp: bindE_Inr_iff add_tool_Inr)
  also have "\<dots> \<longleftrightarrow> \<not> rm_has rm (?n t) \<and> rm' = rm @ routes_of ops c (t # tools)
      \<and> distinct (map t_name tools) \<and> (\<forall>u \<in> set tools. \<not> rm_has rm (?n u) \<and> t_name u \<noteq> t_name t)"
    unfolding Cons.IH by (auto simp: routes_of_def rm_has_snoc)
  finally show ?case by (simp add: image_iff) metis
qed

lemma for_each_add_tool_ok [inv_intro]:
  "table_ok ops rm \<Longrightarrow> for_each (add_tool ops c) tools rm = Inr rm' \<Longrightarrow> table_ok ops rm'"
  by (rule for_each_invariant [where P = "table_ok ops"]) (auto intro: add_tool_ok)

lemma from_loop_Cons:
  "from_loop ops (c # cs) rm s = (s', Inr rm') \<longleftrightarrow>
     prefix_check ops c = Inr () \<and> (\<exists>s1 tools rm1. c_listTools ops c s = (s1, Inr tools)
       \<and> for_each (add_tool ops c) tools rm = Inr rm1 \<and> from_loop ops cs rm1 s1 = (s', Inr rm'))"
  by (auto split: sum.splits prod.splits)

declare from_loop.simps(2) [simp del]

lemma from_loop_ok: "from_loop ops cs rm s = (s', Inr rm') \<Longrightarrow> table_ok ops rm \<Longrightarrow> table_ok ops rm'"
  by (induction cs arbitrary: rm s) (auto simp: from_loop_Cons intro: for_each_add_tool_ok)

lemma from_loop_prefixes:
  "from_loop ops cs rm s = (s', Inr rm') \<Longrightarrow> c \<in> set cs \<Longrightarrow> prefix_check ops c = Inr ()"
  by (induction cs arbitrary: rm s) (auto simp: from_loop_Cons)

lemma from_loop_keeps: "from_loop ops cs rm s = (s', Inr rm') \<Longrightarrow> set rm \<subseteq> set rm'"
  by (induction cs arbitrary: rm s) (fastforce simp: from_loop_Cons for_each_add_tool)+

lemma from_loop_connections:
  "from_loop ops cs rm s = (s', Inr rm') \<Longrightarrow> kr \<in> set rm' \<Longrightarrow>
     kr \<in> set rm \<or> r_connection (snd kr) \<in> set cs"
  by (induction cs arbitrary: rm s)
     (fastforce simp: from_loop_Cons for_each_add_tool routes_of_def make_route_def)+

lemma prefix_check_iff:
  "prefix_check ops c = Inr () \<longleftrightarrow> c_toolPrefix ops c \<noteq> [] \<and> list_all valid_prefix_char (c_toolPrefix ops c)"
  by (auto simp: prefix_check_def Let_def re_test_whole_plus)

lemma dot_not_prefix_char: "\<not> valid_prefix_char 46"
  by (simp add: valid_prefix_char_def is_alnum_def is_alpha_def is_digit_def one_of_def S_def)

text \<open>A checked prefix has no dot, so it is the part of a public name before the first dot.\<close>

definition name_prefix :: "jstr \<Rightarrow> jstr" where
  "name_prefix n = takeWhile (\<lambda>c. c \<noteq> 46) n"

lemma name_prefix_public:
  assumes "list_all valid_prefix_char p"
  shows "name_prefix (public_name p t) = p"
proof -
  from assms have "46 \<notin> set p" using dot_not_prefix_char by (auto simp: list_all_iff)
  then have "takeWhile (\<lambda>c. c \<noteq> 46) (p @ 46 # t) = p"
    by (metis (mono_tags, lifting) takeWhile_tail takeWhile_append2 takeWhile.simps(2) append_Nil2)
  then show ?thesis by (simp add: name_prefix_def public_name_def S_def)
qed

lemma table_ok_get:
  "table_ok ops rm \<Longrightarrow> rm_get rm n = Some r \<Longrightarrow>
     r = make_route ops (r_connection r) (r_schema r) \<and> r_publicName r = n"
  by (auto simp: table_ok_def rm_get_def route_ok_def dest!: map_of_SomeD)

section \<open>The contract of a routing table\<close>

text \<open>
  What the callers of a table rely on: looking a name up after a successful \<open>add\<close> finds the old
  route or one of the added connection, and a failed \<open>add\<close> gives no table.
\<close>

locale route_table =
  fixes lookup :: "'m \<Rightarrow> jstr \<Rightarrow> 'c route option"
    and empty :: 'm
    and add :: "'c \<Rightarrow> tool list \<Rightarrow> 'm \<Rightarrow> 'm result"
    and owner_prefix :: "'c \<Rightarrow> jstr"
    and mk :: "'c \<Rightarrow> tool \<Rightarrow> 'c route"
  assumes lookup_empty: "lookup empty n = None"
    and lookup_add: "add c tools m = Inr m' \<Longrightarrow> lookup m' n =
      (case lookup m n of Some r \<Rightarrow> Some r
       | None \<Rightarrow> map_option (mk c) (find (\<lambda>t. public_name (owner_prefix c) (t_name t) = n) tools))"
    and mk_sel: "r_connection (mk c t) = c" "r_schema (mk c t) = t" "r_upstreamToolName (mk c t) = t_name t"
begin

lemma add_preserves: "add c tools m = Inr m' \<Longrightarrow> lookup m n = Some r \<Longrightarrow> lookup m' n = Some r"
  using lookup_add by fastforce

lemma add_new: "add c tools m = Inr m' \<Longrightarrow> lookup m n = None \<Longrightarrow> lookup m' n = Some r \<Longrightarrow>
    \<exists>t \<in> set tools. r = mk c t \<and> n = public_name (owner_prefix c) (t_name t)"
  using lookup_add [of c tools m m' n] by (auto simp: find_Some_iff)

lemma add_unowned:
  assumes "add c tools m = Inr m'" and "\<And>t::tool. n \<noteq> public_name (owner_prefix c) (t_name t)"
  shows "lookup m' n = lookup m n"
proof -
  have "find (\<lambda>t. public_name (owner_prefix c) (t_name t) = n) tools = None"
    unfolding find_None_iff using assms(2) by metis
  with lookup_add [OF assms(1), of n] show ?thesis by (simp split: option.split)
qed

end

lemma map_of_routes_of:
  "map_of (routes_of ops c tools) n =
     map_option (make_route ops c) (find (\<lambda>t. public_name (c_toolPrefix ops c) (t_name t) = n) tools)"
  by (induction tools) (auto simp: routes_of_def)

interpretation rm: route_table rm_get rm_empty "\<lambda>c. for_each (add_tool ops c)" "c_toolPrefix ops" "make_route ops"
  for ops :: "('c, 's) conn_ops"
proof
  show "rm_get rm_empty n = None" for n
    by (simp add: rm_get_def rm_empty_def)
next
  fix c :: 'c and tools m m' n
  assume "for_each (add_tool ops c) tools m = Inr m'"
  then have m': "m' = m @ routes_of ops c tools" by (simp add: for_each_add_tool)
  show "rm_get m' n = (case rm_get m n of Some r \<Rightarrow> Some r
       | None \<Rightarrow> map_option (make_route ops c)
            (find (\<lambda>t. public_name (c_toolPrefix ops c) (t_name t) = n) tools))"
    unfolding m' by (simp add: rm_get_def map_add_def map_of_routes_of split: option.split)
qed (simp_all add: make_route_def)

section \<open>Properties\<close>

lemma close_loop_log:
  assumes "\<forall>r \<in> set rs. r_upstreamId r = c_id ops (r_connection r)"
    and "c_close ops = (\<lambda>c s. (s @ [c_id ops c], Inr ()))"
  shows "\<exists>ids. close_loop ops rs seen s = (s @ ids, Inr ()) \<and> distinct ids
    \<and> set ids = r_upstreamId ` set rs - seen"
  using assms
proof (induction rs arbitrary: seen s)
  case Nil
  then show ?case by simp
next
  case (Cons r rs)
  show ?case
  proof (cases "r_upstreamId r \<in> seen")
    case True
    then have "r_upstreamId ` set (r # rs) - seen = r_upstreamId ` set rs - seen" by auto
    with True Cons.IH [of seen s] Cons.prems show ?thesis by simp
  next
    case False
    let ?i = "r_upstreamId r"
    from Cons.prems Cons.IH [of "insert ?i seen" "s @ [?i]"] obtain ids where
      ids: "close_loop ops rs (insert ?i seen) (s @ [?i]) = ((s @ [?i]) @ ids, Inr ())"
        "distinct ids" "set ids = r_upstreamId ` set rs - insert ?i seen" by auto
    with False Cons.prems show ?thesis by (intro exI [of _ "?i # ids"]) auto
  qed
qed

lemma fromConnections_facts:
  assumes "fromConnections ops cs s = (s', Inr rm)"
  shows "table_ok ops rm"
    and "kr \<in> set rm \<Longrightarrow> r_connection (snd kr) \<in> set cs"
    and "c \<in> set cs \<Longrightarrow> list_all valid_prefix_char (c_toolPrefix ops c)"
  using assms from_loop_ok [of ops cs rm_empty s s' rm] from_loop_connections [of ops cs rm_empty s s' rm kr]
    from_loop_prefixes [of ops cs rm_empty s s' rm c]
  by (auto simp: fromConnections_def rm_empty_def prefix_check_iff table_ok_def)

text \<open>
  C29. Routing is by ownership: in a table built from connections, the route of a public name leads
  to one of these connections, whose prefix is the part of the name before its first dot and whose
  tool name is the rest, and a call of the public name is exactly a call of that tool on that
  connection. So no upstream can answer under another upstream's prefix.
\<close>

theorem route_ownership:
  assumes "fromConnections ops connections s = (s', Inr rm)" and "rm_get rm n = Some r"
  shows "r_connection r \<in> set connections
    \<and> n = public_name (c_toolPrefix ops (r_connection r)) (r_upstreamToolName r)
    \<and> name_prefix n = c_toolPrefix ops (r_connection r)
    \<and> rm_call ops rm n args st = c_callTool ops (r_connection r) (r_upstreamToolName r) args st"
proof -
  from assms have ok: "table_ok ops rm" and conn: "r_connection r \<in> set connections"
    using fromConnections_facts [OF assms(1)] by (force simp: rm_get_def dest: map_of_SomeD)+
  have "r = make_route ops (r_connection r) (r_schema r)" "r_publicName r = n"
    using table_ok_get [OF ok assms(2)] by auto
  then have n: "n = public_name (c_toolPrefix ops (r_connection r)) (r_upstreamToolName r)"
    by (metis make_route_def route.select_convs(1) route.select_convs(3))
  have "list_all valid_prefix_char (c_toolPrefix ops (r_connection r))"
    using fromConnections_facts(3) [OF assms(1) conn] .
  with n have "name_prefix n = c_toolPrefix ops (r_connection r)"
    using name_prefix_public by metis
  with n conn assms(2) show ?thesis by (simp add: rm_call_def)
qed

text \<open>
  A connection added to a table hijacks nothing: after \<open>withConnection\<close> succeeds every name that
  had a route keeps the same route, the table stays well-formed, and any other name that gained a
  route belongs to the new connection and carries its prefix. When it fails there is no table, and
  \<open>addRoute\<close> leaves the registry as it was.
\<close>

theorem with_connection_preserves:
  assumes "withConnection ops c rm s = (s', Inr rm')" and "table_ok ops rm"
  shows "table_ok ops rm' \<and> (\<forall>n r. rm_get rm n = Some r \<longrightarrow> rm_get rm' n = Some r)
    \<and> (\<forall>n r. rm_get rm n = None \<and> rm_get rm' n = Some r \<longrightarrow>
        r_connection r = c \<and> n = public_name (c_toolPrefix ops c) (r_upstreamToolName r))
    \<and> (\<forall>reg e s''. withConnection ops c (reg_routeMap reg) s = (s'', Inl e) \<longrightarrow>
        registry_addRoute ops c reg s = (s'', reg, Inl e))"
proof -
  from assms(1) obtain tools where add: "for_each (add_tool ops c) tools rm = Inr rm'"
    by (auto simp: withConnection_def split: prod.splits sum.splits)
  show ?thesis
  proof (intro conjI allI impI)
    show "table_ok ops rm'" using for_each_add_tool_ok [OF assms(2) add] .
    show "rm_get rm' n = Some r" if "rm_get rm n = Some r" for n r
      using rm.add_preserves [OF add that] .
    fix n r
    assume "rm_get rm n = None \<and> rm_get rm' n = Some r"
    then obtain t where "r = make_route ops c t" "n = public_name (c_toolPrefix ops c) (t_name t)"
      using rm.add_new [OF add] by blast
    then show "r_connection r = c" "n = public_name (c_toolPrefix ops c) (r_upstreamToolName r)"
      by (simp_all add: make_route_def)
  qed (simp add: registry_addRoute_def)
qed

text \<open>
  \<open>close\<close> closes every upstream of a well-formed table exactly once, however many of its tools
  are routed, when no close is rejected: the log of closed ids has no repetition and holds every
  upstream id of the table.
\<close>

theorem close_once_each:
  assumes "table_ok ops rm" and "c_close ops = (\<lambda>c s. (s @ [c_id ops c], Inr ()))"
  shows "\<exists>ids. rm_close ops rm [] = (ids, Inr ()) \<and> distinct ids
    \<and> set ids = (\<lambda>kr. r_upstreamId (snd kr)) ` set rm"
proof -
  have "r_upstreamId (snd kr) = c_id ops (r_connection (snd kr))" if "kr \<in> set rm" for kr
  proof -
    from that assms(1) have "snd kr = make_route ops (r_connection (snd kr)) (r_schema (snd kr))"
      by (simp add: table_ok_def route_ok_def)
    then show ?thesis by (metis make_route_def route.select_convs(2))
  qed
  then have "\<forall>r \<in> set (map snd rm). r_upstreamId r = c_id ops (r_connection r)" by auto
  from close_loop_log [OF this assms(2), of "{}" "[]"] show ?thesis
    by (auto simp: rm_close_def image_image)
qed

subsection \<open>A concrete pair of upstreams\<close>

definition demo_tool :: "string \<Rightarrow> tool" where
  "demo_tool n = \<lparr>t_name = S n, t_fields = []\<rparr>"

definition demo_ops :: "(nat, jstr list) conn_ops" where
  "demo_ops = \<lparr>c_id = (\<lambda>c. if c = 0 then S ''a'' else S ''b''),
     c_toolPrefix = (\<lambda>c. if c = 0 then S ''ka'' else S ''kb''),
     c_listTools = (\<lambda>c s. (s, Inr (if c = 0 then [demo_tool ''x'', demo_tool ''y''] else [demo_tool ''x'']))),
     c_callTool = (\<lambda>c n a s. (s @ [n], Inr JNull)),
     c_close = (\<lambda>c s. (s @ [if c = 0 then S ''a'' else S ''b''], Inr ()))\<rparr>"

definition demo_map :: "nat route_map" where
  "demo_map = [(S ''ka.x'', make_route demo_ops 0 (demo_tool ''x'')),
     (S ''ka.y'', make_route demo_ops 0 (demo_tool ''y'')),
     (S ''kb.x'', make_route demo_ops 1 (demo_tool ''x''))]"

lemma demo_from: "fromConnections demo_ops [0, 1] [] = ([], Inr demo_map)"
  by code_simp

lemma demo_ok: "table_ok demo_ops demo_map"
  using fromConnections_facts(1) [OF demo_from] .

theorem route_ownership_witness:
  "rm_call demo_ops demo_map (S ''kb.x'') JNull [] =
     c_callTool demo_ops 1 (S ''x'') JNull []"
proof -
  have "rm_get demo_map (S ''kb.x'') = Some (make_route demo_ops 1 (demo_tool ''x''))"
    by code_simp
  then have "rm_call demo_ops demo_map (S ''kb.x'') JNull [] =
      c_callTool demo_ops (r_connection (make_route demo_ops 1 (demo_tool ''x'')))
        (r_upstreamToolName (make_route demo_ops 1 (demo_tool ''x''))) JNull []"
    using route_ownership [OF demo_from] by blast
  then show ?thesis by (simp only: make_route_def demo_tool_def route.simps tool.simps)
qed

theorem with_connection_preserves_witness:
  "rm_get demo_map (S ''ka.x'') = Some (make_route demo_ops 0 (demo_tool ''x''))"
proof -
  let ?rm = "[(S ''ka.x'', make_route demo_ops 0 (demo_tool ''x'')),
     (S ''ka.y'', make_route demo_ops 0 (demo_tool ''y''))]"
  have add: "withConnection demo_ops 1 ?rm [] = ([], Inr demo_map)" by code_simp
  have "fromConnections demo_ops [0] [] = ([], Inr ?rm)" by code_simp
  then have "table_ok demo_ops ?rm" by (rule fromConnections_facts(1))
  moreover have "rm_get ?rm (S ''ka.x'') = Some (make_route demo_ops 0 (demo_tool ''x''))"
    by (simp add: rm_get_def)
  ultimately show ?thesis using with_connection_preserves [OF add] by auto
qed

theorem close_once_each_witness:
  "\<exists>ids. rm_close demo_ops demo_map [] = (ids, Inr ()) \<and> distinct ids \<and> S ''a'' \<in> set ids"
proof -
  have "c_close demo_ops = (\<lambda>c s. (s @ [c_id demo_ops c], Inr ()))"
    by (auto simp: demo_ops_def fun_eq_iff)
  from close_once_each [OF demo_ok this] show ?thesis
    by (auto simp: demo_map_def make_route_def demo_ops_def)
qed

end
