(* ===== verification/GatewayServer.thy ===== *)
theory GatewayServer
  imports ToolInvocation RouteMap AccessPolicy
begin

text \<open>
  The MCP server of one request (\<open>src/server/createGatewayServer.ts\<close>): which tools are registered,
  the handler of a tool with its checks in their order, and the dispatcher that lets the Jev router
  choose the tool. \<open>'s\<close> is the state of the remote servers: a handler that leaves it alone did
  not call them.
\<close>

section \<open>The gate\<close>

text \<open>The policy argument: a \<open>ToolAccessPolicy\<close>, or a \<open>ToolPolicy\<close> with an optional \<open>ScopeGuard\<close>.\<close>

datatype gate = Access access_policy | Legacy tool_policy "principal option"

definition gate_allows :: "gate \<Rightarrow> jstr \<Rightarrow> bool result" where
  "gate_allows g name = (case g of
      Access ap \<Rightarrow> ToolAccessPolicy_allows ap name
    | Legacy tp guard \<Rightarrow>
        if \<not> ToolPolicy_allows tp name then Inr False
        else (case guard of None \<Rightarrow> Inr True | Some p \<Rightarrow> ScopeGuard_allows p name))"

definition outside_scope_error :: "jstr \<Rightarrow> js_error" where
  "outside_scope_error name =
     (plain_error (S ''tool is outside API key scope: '' @ name))\<lparr>err_status := Some 403\<rparr>"

definition gate_assert :: "gate \<Rightarrow> jstr \<Rightarrow> unit result" where
  "gate_assert g name = (case g of
      Access ap \<Rightarrow> ToolAccessPolicy_assertAllowed ap name
    | Legacy tp guard \<Rightarrow>
        if \<not> ToolPolicy_allows tp name then Inl (plain_error (not_allowed_message name))
        else (case guard of
            None \<Rightarrow> Inr ()
          | Some p \<Rightarrow> bindE (ScopeGuard_allows p name) (\<lambda>ok. if ok then Inr () else Inl (outside_scope_error name))))"

text \<open>The check of the tool the dispatcher was routed to does not ask the scope guard.\<close>

definition gate_assert_target :: "gate \<Rightarrow> jstr \<Rightarrow> unit result" where
  "gate_assert_target g name = (case g of
      Access ap \<Rightarrow> ToolAccessPolicy_assertAllowed ap name
    | Legacy tp guard \<Rightarrow>
        if \<not> ToolPolicy_allows tp name
        then Inl (plain_error (S ''Target tool is not allowed by gateway policy: '' @ name)) else Inr ())"

section \<open>The environment\<close>

record contract =
  ct_upstreamId :: jstr
  ct_toolPrefix :: jstr

record gateway_env =
  gw_env :: agent_env
  gw_gate :: gate
  gw_guardrail :: "(jev_fetch \<times> jev_config \<times> jev_guardrail) option"
  gw_router :: "(jev_fetch \<times> jev_config \<times> int) option"
  gw_contracts :: "contract list"
  gw_delimiter :: jstr
  gw_invocation :: invocation_context

definition exposed_name :: "jstr \<Rightarrow> jstr \<Rightarrow> jstr" where
  "exposed_name delimiter publicName =
     (if delimiter = S ''.'' then publicName else concat (map (\<lambda>c. if c = 46 then delimiter else [c]) publicName))"

section \<open>Registration\<close>

text \<open>
  The agent-tools command of a route, if a contract covers it. The empty command is falsy
  everywhere it is used, like an absent one.
\<close>

definition contract_of :: "contract list \<Rightarrow> 'c route \<Rightarrow> contract option" where
  "contract_of contracts route = find (\<lambda>c. r_upstreamId route = ct_upstreamId c
     \<and> startsWith (r_publicName route) (ct_toolPrefix c @ S ''.'')) contracts"

definition command_of :: "contract list \<Rightarrow> 'c route \<Rightarrow> jstr option" where
  "command_of contracts route = (case contract_of contracts route of
      None \<Rightarrow> None
    | Some c \<Rightarrow> (case slice_from (r_publicName route) (length (ct_toolPrefix c) + 1) of [] \<Rightarrow> None | u # us \<Rightarrow> Some (u # us)))"

record 'c registered =
  rg_exposedName :: jstr
  rg_publicName :: jstr
  rg_command :: "jstr option"
  rg_route :: "'c route"

fun register_tools :: "gateway_env \<Rightarrow> 'c route list \<Rightarrow> 'c registered list result" where
  "register_tools G [] = Inr []"
| "register_tools G (route # rs) =
     bindE (gate_allows (gw_gate G) (r_publicName route)) (\<lambda>isAllowed.
       if \<not> isAllowed then register_tools G rs
       else let command = command_of (gw_contracts G) route in
         if (case command of Some c \<Rightarrow> c \<notin> set (map S AGENT_TOOL_COMMANDS) | None \<Rightarrow> False)
         then Inl (plain_error (S ''Unsupported agent-tools data contract tool''))
         else bindE (register_tools G rs) (\<lambda>regs. Inr (\<lparr>rg_exposedName = exposed_name (gw_delimiter G) (r_publicName route),
                rg_publicName = r_publicName route, rg_command = command, rg_route = route\<rparr> # regs)))"

text \<open>The tools the dispatcher may choose from: no agent-tools command.\<close>

definition allowed_tools :: "'c registered list \<Rightarrow> 'c registered list" where
  "allowed_tools regs = filter (\<lambda>r. rg_command r = None) regs"

section \<open>Errors that leave the gateway\<close>

definition octet :: re where
  "octet = RSeq (RCls is_digit) (rupto 2 (RCls is_digit))"

definition internal_ip_re :: re where
  "internal_ip_re = rseqs [RWordB, ralts
     [rseqs [rlit (S ''10.''), octet, rchr 46, octet, rchr 46, octet],
      rseqs [rlit (S ''172.''), ralts [RSeq (rchr 49) (RCls (\<lambda>c. 54 \<le> c \<and> c \<le> 57)), RSeq (rchr 50) (RCls is_digit),
         RSeq (rchr 51) (RCls (one_of ''01''))], rchr 46, octet, rchr 46, octet],
      rseqs [rlit (S ''192.168.''), octet, rchr 46, octet],
      rlit (S ''127.0.0.1'')], RWordB]"

definition internal_path_re :: re where
  "internal_path_re = rseqs [rchr 47, ralts (map (rlit \<circ> S) [''Users'', ''home'', ''root'', ''app'', ''var'']), rchr 47,
     rplus (RCls (\<lambda>c. is_alnum c \<or> one_of ''_/.-'' c))]"

definition maskInternalErrorDetails :: "jstr \<Rightarrow> jstr" where
  "maskInternalErrorDetails message =
     re_replace internal_path_re (\<lambda>_ _. S ''[internal-path]'')
       (re_replace internal_ip_re (\<lambda>_ _. S ''[internal-ip]'') message)"

definition safe_error :: "js_error \<Rightarrow> js_error" where
  "safe_error upstreamError =
     (plain_error (maskInternalErrorDetails
        (if err_message upstreamError \<noteq> [] then err_message upstreamError else error_string upstreamError)))
     \<lparr>err_status := Some (or_else (err_status upstreamError) 502)\<rparr>"

definition guarded_result :: "jv result \<Rightarrow> jv result" where
  "guarded_result r = (case r of Inl e \<Rightarrow> Inl (safe_error e) | Inr v \<Rightarrow> Inr v)"

section \<open>The handler of a tool\<close>

definition arguments_object :: "jv \<Rightarrow> (jstr \<times> jv) list" where
  "arguments_object v = (case v of JObj kvs \<Rightarrow> kvs | _ \<Rightarrow> [])"

definition api_operation_re :: re where
  "api_operation_re = RSeq RBol (RSeq (ralts
     [RSeq (rlit (S ''broker.'')) (ralts (map (rlit \<circ> S) [''json'', ''forward''])),
      RSeq (rlit (S ''documents.'')) (ralts (map (rlit \<circ> S) [''read'', ''fetch'', ''extract'', ''validate''])),
      rlit (S ''cover.generate''),
      RSeq (rlit (S ''blob.'')) (ralts (map (rlit \<circ> S) [''begin'', ''append'', ''seal'', ''read'', ''release'']))]) REol)"

definition key_count :: "jv \<Rightarrow> nat" where
  "key_count v = (case v of JObj kvs \<Rightarrow> length kvs | JArr xs \<Rightarrow> length xs | _ \<Rightarrow> 0)"

definition count_num :: "nat \<Rightarrow> jv" where
  "count_num n = JNum (NInt (int n))"

text \<open>What the audit log sees: the arguments, or for an agent-tools command only their sizes.\<close>

definition audit_arguments :: "jstr option \<Rightarrow> (jstr \<times> jv) list \<Rightarrow> jv" where
  "audit_arguments command args = (case command of
      None \<Rightarrow> JObj args
    | Some c \<Rightarrow>
        if c = S ''api'' then JObj [(S ''operation'',
          if is_text (re_test api_operation_re) (jget args (S ''operation'')) then jget args (S ''operation'')
          else JStr (S ''invalid''))]
        else JObj [(S ''argvCount'', count_num (case jget args (S ''argv'') of JArr xs \<Rightarrow> length xs | _ \<Rightarrow> 0)),
          (S ''attachmentCount'', count_num (key_count (jget args (S ''files'')))),
          (S ''stdinPresent'', JBool (truthy (jget args (S ''stdin''))))])"

definition argument_check :: "agent_env \<Rightarrow> jstr option \<Rightarrow> (jstr \<times> jv) list \<Rightarrow> unit result" where
  "argument_check E command args = (case command of
      Some c \<Rightarrow> validateAgentToolsArguments E c args
    | None \<Rightarrow> (case sanitizer_validate (ag_nfkc E) True (JObj args) of
         Inl v \<Rightarrow> Inl (violation_error v) | Inr u \<Rightarrow> Inr u))"

definition guardrail_ask :: "gateway_env \<Rightarrow> jstr \<Rightarrow> jv \<Rightarrow> unit result" where
  "guardrail_ask G name args = (case gw_guardrail G of
      None \<Rightarrow> Inr ()
    | Some (fetch, config, g) \<Rightarrow>
        guardrail_validate (ag_fpu (gw_env G)) (ag_num (gw_env G)) fetch config g name args)"

text \<open>The checks before the call, in the order of the code: the first failure is the outcome.\<close>

definition tool_checks :: "gateway_env \<Rightarrow> jstr option \<Rightarrow> jstr \<Rightarrow> (jstr \<times> jv) list \<Rightarrow> unit result" where
  "tool_checks G command name args = checks
     [argument_check (gw_env G) command args,
      gate_assert (gw_gate G) name,
      if command = None then guard_validate (ag_fpu (gw_env G)) (ag_nfkc (gw_env G)) (JObj args) else Inr (),
      guardrail_ask G name (audit_arguments command args)]"

definition tool_operation :: "gateway_env \<Rightarrow> ('c, 's) conn_ops \<Rightarrow> 'c route_map \<Rightarrow> jstr option \<Rightarrow> jstr
    \<Rightarrow> (jstr \<times> jv) list \<Rightarrow> 's \<Rightarrow> 's \<times> jv result" where
  "tool_operation G ops rm command name args s =
     (case tool_checks G command name args of
        Inl e \<Rightarrow> (s, Inl e)
      | Inr _ \<Rightarrow> (case rm_call ops rm name (JObj args) s of (s', raw) \<Rightarrow>
          (s', guarded_result (bindE raw (\<lambda>rawResult. case command of
              Some c \<Rightarrow> validateAgentToolsResult (gw_env G) c rawResult
            | None \<Rightarrow> Inr (sanitizeToolResult (ag_fpu (gw_env G)) rawResult))))))"

definition tool_handler :: "gateway_env \<Rightarrow> ('c, 's) conn_ops \<Rightarrow> 'c route_map \<Rightarrow> real \<Rightarrow> 'c registered \<Rightarrow> jv
    \<Rightarrow> 's \<Rightarrow> 's \<times> audit_entry option \<times> jv result" where
  "tool_handler G ops rm durationMs reg v =
     (let args = arguments_object v in
      invoke (gw_env G) (gw_invocation G) durationMs (rg_publicName reg) (audit_arguments (rg_command reg) args)
        (tool_operation G ops rm (rg_command reg) (rg_publicName reg) args))"

section \<open>The dispatcher\<close>

text \<open>The map from exposed and from canonical names to canonical names; later entries win.\<close>

definition exposed_to_canonical :: "'c registered list \<Rightarrow> jstr \<Rightarrow> jstr option" where
  "exposed_to_canonical allowed =
     foldl (\<lambda>m r. m(rg_exposedName r \<mapsto> rg_publicName r, rg_publicName r \<mapsto> rg_publicName r)) (\<lambda>_. None) allowed"

definition tool_description :: "'c route \<Rightarrow> jstr option" where
  "tool_description route = (case jget (t_fields (r_schema route)) (S ''description'') of JStr d \<Rightarrow> Some d | _ \<Rightarrow> None)"

definition candidate_tools :: "'c registered list \<Rightarrow> tool_candidate list" where
  "candidate_tools allowed = map (\<lambda>r. \<lparr>tc_publicName = rg_exposedName r, tc_description = tool_description (rg_route r)\<rparr>) allowed"

definition dispatch_note :: "fpu \<Rightarrow> jstr \<Rightarrow> real \<Rightarrow> jv" where
  "dispatch_note M target confidence = JObj [(S ''type'', JStr (S ''text'')), (S ''text'', JStr
     (S ''[Jev Dispatcher: routed to '' @ target @ S '' (confidence: '' @ toFixed1 (fl M (confidence * 100)) @ S ''%)]''))]"

text \<open>A result without an array of content blocks cannot be spread: a TypeError.\<close>

definition dispatch_result :: "fpu \<Rightarrow> jstr \<Rightarrow> real \<Rightarrow> jv \<Rightarrow> jv result" where
  "dispatch_result M target confidence sanitized = (case jprop sanitized ''content'' of
      JArr blocks \<Rightarrow> Inr (JObj [(S ''content'', JArr (dispatch_note M target confidence # blocks)),
        (S ''isError'', jprop sanitized ''isError'')])
    | _ \<Rightarrow> Inl \<lparr>err_name = S ''TypeError'', err_message = S ''sanitizedResult.content is not iterable'',
        err_code = None, err_status = None\<rparr>)"

definition dispatch_intent :: "gateway_env \<Rightarrow> (jstr \<times> jv) list \<Rightarrow> jstr" where
  "dispatch_intent G args = (let v = jget args (S ''intent'') in if truthy v then js_string (ag_num (gw_env G)) v else [])"

definition dispatch_params :: "(jstr \<times> jv) list \<Rightarrow> (jstr \<times> jv) list" where
  "dispatch_params args = fields_of (jget args (S ''parameters''))"

definition guardrail_view :: "jstr \<Rightarrow> (jstr \<times> jv) list \<Rightarrow> jv" where
  "guardrail_view intent params = JObj (foldl (\<lambda>o' kv. jput o' (fst kv) (snd kv)) [(S ''intent'', JStr intent)] params)"

definition dispatch_target :: "gateway_env \<Rightarrow> 'c registered list \<Rightarrow> (jstr \<times> jv) list \<Rightarrow> (jstr \<times> real) result" where
  "dispatch_target G allowed args = (case gw_router G of
      None \<Rightarrow> Inl (plain_error (S ''unknown tool''))
    | Some (fetch, config, timeoutMs) \<Rightarrow>
        bindE (router_route (ag_fpu (gw_env G)) fetch config timeoutMs (dispatch_intent G args) (candidate_tools allowed))
          (\<lambda>decision. Inr (or_else (exposed_to_canonical allowed (rd_selectedTool decision)) (rd_selectedTool decision),
             rd_confidence decision)))"

definition dispatch_checks :: "gateway_env \<Rightarrow> 'c registered list \<Rightarrow> (jstr \<times> jv) list \<Rightarrow> (jstr \<times> real) result" where
  "dispatch_checks G allowed args =
     (let params = dispatch_params args in
      bindE (argument_check (gw_env G) None params) (\<lambda>_.
      bindE (guardrail_ask G meta_tool_name (guardrail_view (dispatch_intent G args) params)) (\<lambda>_.
      bindE (dispatch_target G allowed args) (\<lambda>(target, confidence).
      bindE (gate_assert_target (gw_gate G) target) (\<lambda>_.
      bindE (guard_validate (ag_fpu (gw_env G)) (ag_nfkc (gw_env G)) (JObj params)) (\<lambda>_.
        Inr (target, confidence)))))))"

definition dispatch_operation :: "gateway_env \<Rightarrow> ('c, 's) conn_ops \<Rightarrow> 'c route_map \<Rightarrow> 'c registered list
    \<Rightarrow> (jstr \<times> jv) list \<Rightarrow> 's \<Rightarrow> 's \<times> jv result" where
  "dispatch_operation G ops rm allowed args s =
     (case dispatch_checks G allowed args of
        Inl e \<Rightarrow> (s, Inl e)
      | Inr (target, confidence) \<Rightarrow>
          (case rm_call ops rm target (JObj (dispatch_params args)) s of (s', raw) \<Rightarrow>
             (s', guarded_result (bindE raw (\<lambda>rawResult.
                dispatch_result (ag_fpu (gw_env G)) target confidence
                  (sanitizeToolResult (ag_fpu (gw_env G)) rawResult))))))"

definition dispatch_handler :: "gateway_env \<Rightarrow> ('c, 's) conn_ops \<Rightarrow> 'c route_map \<Rightarrow> real \<Rightarrow> 'c registered list
    \<Rightarrow> jv \<Rightarrow> 's \<Rightarrow> 's \<times> audit_entry option \<times> jv result" where
  "dispatch_handler G ops rm durationMs allowed v =
     (let args = arguments_object v in
      invoke (gw_env G) (gw_invocation G) durationMs meta_tool_name (JObj args)
        (dispatch_operation G ops rm allowed args))"

record 'c gateway_server =
  gs_tools :: "'c registered list"
  gs_meta :: "jstr option"

definition createGatewayServer :: "jstr comparator \<Rightarrow> gateway_env \<Rightarrow> 'c route_map \<Rightarrow> 'c gateway_server result" where
  "createGatewayServer localeCompare G rm =
     bindE (register_tools G (rm_list localeCompare rm)) (\<lambda>regs.
       if gw_router G \<noteq> None \<and> allowed_tools regs \<noteq> []
       then bindE (gate_allows (gw_gate G) meta_tool_name) (\<lambda>isMetaAllowed.
         Inr \<lparr>gs_tools = regs, gs_meta = (if isMetaAllowed then Some (exposed_name (gw_delimiter G) meta_tool_name) else None)\<rparr>)
       else Inr \<lparr>gs_tools = regs, gs_meta = None\<rparr>)"

section \<open>What a handler lets through\<close>

text \<open>The decision of the gate, in terms of the patterns.\<close>

definition gate_spec :: "gate \<Rightarrow> jstr \<Rightarrow> bool" where
  "gate_spec g name \<longleftrightarrow> gate_allows g name = Inr True"

lemma gate_assert_ok: "gate_assert g name = Inr () \<longleftrightarrow> gate_spec g name"
  by (auto simp: gate_assert_def gate_spec_def gate_allows_def ToolAccessPolicy_assertAllowed_def bindE_Inr_iff
      split: gate.splits option.splits if_splits)

lemma checks_Inl: "checks cs = Inl e \<Longrightarrow> Inl e \<in> set cs"
  by (auto simp: checks_def dest!: check_each_errorD)

lemma argument_check_plain: "argument_check E None args = Inr () \<longleftrightarrow> sanitizer_validate (ag_nfkc E) True (JObj args) = Inr ()"
  by (auto simp: argument_check_def split: sum.splits)

lemma clean_arguments:
  assumes "sanitizer_validate nfkc True args = Inr ()" and "s \<in> set (str_leaves args)"
    and "t \<in> {s, normalizeUnicodeAndWhitespace nfkc s}"
  shows "length s \<le> 65536 \<and> \<not> dot_dot_segment t \<and> \<not> null_byte t \<and> \<not> chained t"
proof -
  from assms(2) obtain p where "(p, s) \<in> set (leaves [] args)"
    unfolding leaves_str_leaves [of "[]", symmetric] by auto
  with assms(1) have c: "checkStringValue nfkc s p = Inr ()"
    by (auto simp: sanitizer_validate_def traverse_leaves check_each_ok)
  have "\<not> dot_dot_segment t \<and> \<not> null_byte t \<and> \<not> chained t"
    using c assms(3) unfolding checkStringValue_ok by (intro safe_text) auto
  moreover from c have "length s \<le> 65536"
    unfolding checkStringValue_ok MAX_ARGUMENT_STRING_LENGTH_def by simp
  ultimately show ?thesis by blast
qed

text \<open>
  C1. A tool without a data contract is called upstream only when every check passed: no argument
  string has a dot-dot segment, a null byte or a chained command, the gate allows the tool, the
  arguments carry no secret, and the guardrail, if there is one, let it pass. Otherwise the remote
  servers are untouched and the outcome is an error. The call gets the arguments unchanged, and its
  result is sanitised.
\<close>

theorem upstream_call_guarded:
  assumes "tool_operation G ops rm None name args s = (s', r)"
  shows "(s' = s \<and> (\<exists>e. r = Inl e \<and> tool_checks G None name args = Inl e))
    \<or> (gate_spec (gw_gate G) name
       \<and> (\<forall>u \<in> set (str_leaves (JObj args)). \<forall>t \<in> {u, normalizeUnicodeAndWhitespace (ag_nfkc (gw_env G)) u}.
            \<not> dot_dot_segment t \<and> \<not> null_byte t \<and> \<not> chained t)
       \<and> \<not> carries_secret (ag_fpu (gw_env G)) (ag_nfkc (gw_env G)) (JObj args)
       \<and> guardrail_ask G name (JObj args) = Inr ()
       \<and> (\<exists>raw. rm_call ops rm name (JObj args) s = (s', raw)
            \<and> (\<forall>v. r = Inr v \<longrightarrow> (\<exists>u. raw = Inr u \<and> v = sanitizeToolResult (ag_fpu (gw_env G)) u))))"
proof (cases "tool_checks G None name args")
  case (Inl e)
  with assms show ?thesis by (simp add: tool_operation_def)
next
  case (Inr u)
  then have chk: "argument_check (gw_env G) None args = Inr ()" "gate_assert (gw_gate G) name = Inr ()"
    "guard_validate (ag_fpu (gw_env G)) (ag_nfkc (gw_env G)) (JObj args) = Inr ()"
    "guardrail_ask G name (JObj args) = Inr ()"
    by (simp_all add: tool_checks_def checks_ok audit_arguments_def)
  obtain raw where raw: "rm_call ops rm name (JObj args) s = (s', raw)"
    and r: "r = guarded_result (bindE raw (\<lambda>rawResult. Inr (sanitizeToolResult (ag_fpu (gw_env G)) rawResult)))"
    using assms Inr by (auto simp: tool_operation_def split: prod.splits)
  have "\<exists>u. raw = Inr u \<and> v = sanitizeToolResult (ag_fpu (gw_env G)) u" if "r = Inr v" for v
    using that r by (cases raw) (auto simp: guarded_result_def)
  moreover have "\<not> dot_dot_segment t \<and> \<not> null_byte t \<and> \<not> chained t"
    if "u \<in> set (str_leaves (JObj args))" "t \<in> {u, normalizeUnicodeAndWhitespace (ag_nfkc (gw_env G)) u}" for u t
    using clean_arguments [OF _ that] chk(1) by (simp add: argument_check_plain)
  ultimately show ?thesis using chk raw by (auto simp: gate_assert_ok guard_ok)
qed

lemma register_tools_allowed:
  "register_tools G rs = Inr regs \<Longrightarrow> reg \<in> set regs \<Longrightarrow>
    gate_spec (gw_gate G) (rg_publicName reg) \<and> rg_route reg \<in> set rs
    \<and> rg_command reg = command_of (gw_contracts G) (rg_route reg)"
proof (induction rs arbitrary: regs)
  case (Cons route rs)
  from Cons.prems(1) obtain b where b: "gate_allows (gw_gate G) (r_publicName route) = Inr b"
    by (auto simp: bindE_Inr_iff)
  show ?case
  proof (cases b)
    case False
    with Cons b show ?thesis by auto
  next
    case True
    with Cons.prems(1) b obtain regs' where regs': "register_tools G rs = Inr regs'" and
      regs: "regs = \<lparr>rg_exposedName = exposed_name (gw_delimiter G) (r_publicName route),
        rg_publicName = r_publicName route, rg_command = command_of (gw_contracts G) route, rg_route = route\<rparr> # regs'"
      by (auto simp: bindE_Inr_iff Let_def split: if_splits)
    with Cons.IH [OF regs'] Cons.prems(2) b True show ?thesis by (auto simp: gate_spec_def)
  qed
qed simp

lemma exposed_fold:
  "foldl (\<lambda>m r. m(rg_exposedName r \<mapsto> rg_publicName r, rg_publicName r \<mapsto> rg_publicName r)) (\<lambda>_. None) allowed k = Some n
    \<Longrightarrow> n \<in> rg_publicName ` set allowed"
  by (induction allowed rule: rev_induct) (auto split: if_splits)

lemma exposed_known: "k \<in> rg_exposedName ` set allowed \<Longrightarrow> \<exists>n. exposed_to_canonical allowed k = Some n"
  by (induction allowed rule: rev_induct) (auto simp: exposed_to_canonical_def)

lemma exposed_public: "exposed_to_canonical allowed k = Some n \<Longrightarrow> n \<in> rg_publicName ` set allowed"
  unfolding exposed_to_canonical_def by (rule exposed_fold)

lemma members_without_dot: "k \<in> object_members \<Longrightarrow> 46 \<notin> set k"
  by (auto simp: object_members_def S_def)

lemma routed_name_has_dot: "table_ok ops rm \<Longrightarrow> rm_get rm k = Some route \<Longrightarrow> 46 \<in> set k"
  by (auto simp: table_ok_def rm_get_def route_ok_def make_route_def public_name_def S_def dest!: map_of_SomeD)
    (metis (no_types, lifting) UnCI fst_conv list.set_intros(1) route.select_convs(1) set_append snd_conv)

text \<open>
  C11. The dispatcher calls only a tool that is registered, has no data contract and is allowed by
  the gate, the scope guard included, with parameters that passed the argument checks and carry no
  secret, whatever the router answers; otherwise the remote servers are untouched and the outcome
  is an error.
\<close>

theorem dispatch_only_allowed:
  assumes ok: "table_ok ops rm"
    and regs: "register_tools G (rm_list localeCompare rm) = Inr regs" and ne: "allowed_tools regs \<noteq> []"
    and run: "dispatch_operation G ops rm (allowed_tools regs) args s = (s', r)"
  shows "(s' = s \<and> (\<exists>e. r = Inl e))
    \<or> (\<exists>reg \<in> set regs. rg_command reg = None \<and> gate_spec (gw_gate G) (rg_publicName reg)
        \<and> sanitizer_validate (ag_nfkc (gw_env G)) True (JObj (dispatch_params args)) = Inr ()
        \<and> \<not> carries_secret (ag_fpu (gw_env G)) (ag_nfkc (gw_env G)) (JObj (dispatch_params args))
        \<and> (\<exists>raw. rm_call ops rm (rg_publicName reg) (JObj (dispatch_params args)) s = (s', raw)))"
proof (cases "dispatch_checks G (allowed_tools regs) args")
  case (Inl e)
  with run show ?thesis by (auto simp: dispatch_operation_def)
next
  case (Inr tc)
  obtain target confidence where tc: "tc = (target, confidence)" by (cases tc)
  from Inr tc have chk: "argument_check (gw_env G) None (dispatch_params args) = Inr ()"
    "guard_validate (ag_fpu (gw_env G)) (ag_nfkc (gw_env G)) (JObj (dispatch_params args)) = Inr ()"
    and target: "dispatch_target G (allowed_tools regs) args = Inr (target, confidence)"
    by (auto simp: dispatch_checks_def bindE_Inr_iff Let_def)
  obtain raw where raw: "rm_call ops rm target (JObj (dispatch_params args)) s = (s', raw)"
    and r: "r = guarded_result (bindE raw (\<lambda>rawResult. dispatch_result (ag_fpu (gw_env G)) target confidence
                  (sanitizeToolResult (ag_fpu (gw_env G)) rawResult)))"
    using run Inr tc by (auto simp: dispatch_operation_def split: prod.splits)
  from target obtain fetch config timeoutMs d where
    d: "router_route (ag_fpu (gw_env G)) fetch config timeoutMs (dispatch_intent G args) (candidate_tools (allowed_tools regs)) = Inr d"
    and t: "target = or_else (exposed_to_canonical (allowed_tools regs) (rd_selectedTool d)) (rd_selectedTool d)"
    by (auto simp: dispatch_target_def bindE_Inr_iff split: option.splits)
  have "candidate_tools (allowed_tools regs) \<noteq> []" using ne by (simp add: candidate_tools_def)
  from router_selects_candidate [OF this, of "ag_fpu (gw_env G)" fetch config timeoutMs "dispatch_intent G args"] d
  have sel: "rd_selectedTool d \<in> rg_exposedName ` set (allowed_tools regs) \<or> rd_selectedTool d \<in> object_members"
    by (auto simp: candidate_tools_def)
  show ?thesis
  proof (cases "exposed_to_canonical (allowed_tools regs) (rd_selectedTool d)")
    case None
    with sel exposed_known have "rd_selectedTool d \<in> object_members" by fastforce
    with t None have "46 \<notin> set target" by (simp add: members_without_dot)
    then have "rm_get rm target = None" using routed_name_has_dot [OF ok] by fastforce
    with raw r show ?thesis by (auto simp: rm_call_def guarded_result_def)
  next
    case (Some n)
    with t exposed_public have "target \<in> rg_publicName ` set (allowed_tools regs)" by fastforce
    then obtain reg where reg: "reg \<in> set regs" "rg_command reg = None" "target = rg_publicName reg"
      by (auto simp: allowed_tools_def)
    with register_tools_allowed [OF regs reg(1)] chk raw show ?thesis
      by (auto simp: argument_check_plain guard_ok)
  qed
qed

definition echo_ops :: "(unit, nat) conn_ops" where
  "echo_ops = \<lparr>c_id = (\<lambda>_. S ''up''), c_toolPrefix = (\<lambda>_. S ''echo''),
     c_listTools = (\<lambda>_ s. (s, Inr [])), c_callTool = (\<lambda>_ name args s. (s + 1, Inr args)), c_close = (\<lambda>_ s. (s, Inr ()))\<rparr>"

definition echo_map :: "unit route_map" where
  "echo_map = routes_of echo_ops () [\<lparr>t_name = S ''say'', t_fields = []\<rparr>]"

definition echo_gateway :: "gate \<Rightarrow> gateway_env" where
  "echo_gateway g = \<lparr>gw_env = demo_agent_env, gw_gate = g, gw_guardrail = None,
     gw_router = Some (\<lambda>_. Inl (plain_error []), \<lparr>jc_apiKey = None, jc_endpoint = [], jc_model = [], jc_timeoutMs = 0\<rparr>, 500),
     gw_contracts = [], gw_delimiter = S ''.'',
     gw_invocation = \<lparr>ic_requestContext = Some \<lparr>rc_requestId = None, rc_userId = Some (S ''u1''), rc_apiKeyId = None,
       rc_ipAddress = None, rc_userAgent = None\<rparr>, ic_auditLogger = True\<rparr>\<rparr>"

definition open_gate :: gate where
  "open_gate = Legacy \<lparr>tp_allowed = [REps], tp_denied = []\<rparr> None"

definition closed_gate :: gate where
  "closed_gate = Legacy \<lparr>tp_allowed = [], tp_denied = []\<rparr> None"

section \<open>What the audit log says\<close>

lemma gate_denied: "gate_assert g name = Inl e \<Longrightarrow> gate_allows g name = Inr False \<Longrightarrow> error_outcome e = (FORBIDDEN, 403)"
proof -
  assume a: "gate_assert g name = Inl e" "gate_allows g name = Inr False"
  have inc: "str_includes (not_allowed_message name) (S ''not allowed by gateway policy'')"
  proof -
    have "not_allowed_message name = S ''tool is '' @ S ''not allowed by gateway policy'' @ S '': '' @ name"
      by (simp add: not_allowed_message_def S_def)
    then show ?thesis unfolding str_includes_def by (metis sublist_appendI)
  qed
  from a have "e = plain_error (not_allowed_message name)
      \<or> e = (plain_error (not_allowed_message name))\<lparr>err_status := Some 403\<rparr> \<or> e = outside_scope_error name"
    by (auto simp: gate_assert_def gate_allows_def ToolAccessPolicy_assertAllowed_def bindE_Inl_iff
        split: gate.splits option.splits if_splits)
  with inc show ?thesis
    by (auto simp: error_outcome_def is_security_violation_def is_forbidden_def plain_error_def outside_scope_error_def)
qed

lemma audit_arguments_texts:
  "u \<in> set (str_leaves (audit_arguments (Some c) args)) \<Longrightarrow> u = S ''invalid'' \<or> re_test api_operation_re u"
  by (auto simp: audit_arguments_def is_text_def count_num_def split: if_splits jv.splits)

lemma handler_runs:
  assumes "tool_handler G ops rm durationMs reg (JObj args) s = (s', entry, r)"
  shows "tool_operation G ops rm (rg_command reg) (rg_publicName reg) args s = (s', r)"
    and "entry = (case ic_requestContext (gw_invocation G) of
        Some ctx \<Rightarrow> if ic_auditLogger (gw_invocation G) \<and> is_set (rc_userId ctx)
          then Some (invocation_entry (gw_env G) ctx durationMs (rg_publicName reg) (audit_arguments (rg_command reg) args) r) else None
      | None \<Rightarrow> None)"
  using assms by (auto simp: tool_handler_def arguments_object_def invoke_def split: prod.splits)

lemma refused_outcome:
  assumes "tool_operation G ops rm command name args s = (s', r)" and "tool_checks G command name args = Inl e"
  shows "s' = s" and "outcome_of r = error_outcome e"
  using assms by (auto simp: tool_operation_def outcome_of_def)

lemma violation_refused:
  "sanitizer_validate (ag_nfkc (gw_env G)) True (JObj args) = Inl v \<Longrightarrow>
    \<exists>e. tool_checks G None name args = Inl e \<and> error_outcome e = (SECURITY_VIOLATION, 400)"
  by (auto simp: tool_checks_def checks_def argument_check_def error_outcome_def is_security_violation_def violation_error_def)

lemma denied_refused:
  assumes "argument_check (gw_env G) command args = Inr ()" and "gate_allows (gw_gate G) name = Inr False"
  shows "\<exists>e. tool_checks G command name args = Inl e \<and> error_outcome e = (FORBIDDEN, 403)"
proof -
  have "gate_assert (gw_gate G) name \<noteq> Inr ()" using assms(2) by (simp add: gate_assert_ok gate_spec_def)
  then obtain e where e: "gate_assert (gw_gate G) name = Inl e" by (cases "gate_assert (gw_gate G) name") auto
  with assms(1) have "tool_checks G command name args = Inl e" by (simp add: tool_checks_def checks_def)
  with gate_denied [OF e assms(2)] show ?thesis by blast
qed

lemma secret_refused:
  assumes "sanitizer_validate (ag_nfkc (gw_env G)) True (JObj args) = Inr ()" and "gate_spec (gw_gate G) name"
    and "carries_secret (ag_fpu (gw_env G)) (ag_nfkc (gw_env G)) (JObj args)"
  shows "\<exists>e. tool_checks G None name args = Inl e \<and> error_outcome e = (SECURITY_VIOLATION, 400)"
proof -
  from assms(3) have "guard_validate (ag_fpu (gw_env G)) (ag_nfkc (gw_env G)) (JObj args) \<noteq> Inr ()" by (simp add: guard_ok)
  then obtain e where e: "guard_validate (ag_fpu (gw_env G)) (ag_nfkc (gw_env G)) (JObj args) = Inl e"
    by (cases "guard_validate (ag_fpu (gw_env G)) (ag_nfkc (gw_env G)) (JObj args)") auto
  then have "err_code e = Some (S ''SECRET_EGRESS_BLOCKED'')"
    using guard_error [OF e [unfolded guard_validate_def]] by (auto simp: SecretEgressBlockedError_def)
  moreover have "tool_checks G None name args = Inl e"
    using assms(1,2) e by (simp add: tool_checks_def checks_def argument_check_plain [THEN iffD2] gate_assert_ok [THEN iffD2])
  ultimately show ?thesis by (auto simp: error_outcome_def is_security_violation_def)
qed

text \<open>
  C40. An invocation of a registered tool passes the outcome of its operation on and writes exactly one entry, when
  there is a logger and a user. The entry has the name of the tool and the status of the outcome: an
  error of any check before the call, when the upstream is left alone, has the status of that error; a call the
  sanitizer or the leak guard refuses says \<open>SECURITY_VIOLATION\<close> and 400, one the gate refuses \<open>FORBIDDEN\<close> and
  403. The entry carries the arguments the caller sent, but for a tool with a data contract only sizes and the
  name of a known operation.
\<close>

theorem invocation_audited:
  assumes "tool_handler G ops rm durationMs reg (JObj args) s = (s', entry, r)"
  shows "tool_operation G ops rm (rg_command reg) (rg_publicName reg) args s = (s', r)
    \<and> (entry \<noteq> None \<longleftrightarrow> ic_auditLogger (gw_invocation G)
         \<and> (\<exists>ctx. ic_requestContext (gw_invocation G) = Some ctx \<and> is_set (rc_userId ctx)))
    \<and> (\<forall>a. entry = Some a \<longrightarrow> ae_toolName a = rg_publicName reg
         \<and> (rg_command reg = None \<longrightarrow> ae_arguments a = Some (JObj args))
         \<and> (rg_command reg \<noteq> None \<longrightarrow> (\<exists>v. ae_arguments a = Some v
              \<and> (\<forall>u \<in> set (str_leaves v). u = S ''invalid'' \<or> re_test api_operation_re u)))
         \<and> (ae_status a, ae_statusCode a) = outcome_of r
         \<and> (\<forall>e. tool_checks G (rg_command reg) (rg_publicName reg) args = Inl e \<longrightarrow>
              s' = s \<and> (ae_status a, ae_statusCode a) = error_outcome e)
         \<and> (rg_command reg = None \<and> sanitizer_validate (ag_nfkc (gw_env G)) True (JObj args) \<noteq> Inr () \<longrightarrow>
              (ae_status a, ae_statusCode a) = (SECURITY_VIOLATION, 400))
         \<and> (argument_check (gw_env G) (rg_command reg) args = Inr ()
              \<and> gate_allows (gw_gate G) (rg_publicName reg) = Inr False \<longrightarrow>
              (ae_status a, ae_statusCode a) = (FORBIDDEN, 403))
         \<and> (rg_command reg = None \<and> sanitizer_validate (ag_nfkc (gw_env G)) True (JObj args) = Inr ()
              \<and> gate_spec (gw_gate G) (rg_publicName reg)
              \<and> carries_secret (ag_fpu (gw_env G)) (ag_nfkc (gw_env G)) (JObj args) \<longrightarrow>
              (ae_status a, ae_statusCode a) = (SECURITY_VIOLATION, 400)))"
proof -
  note op = handler_runs(1) [OF assms] and entry = handler_runs(2) [OF assms]
  have e: "ae_toolName a = rg_publicName reg \<and> ae_arguments a = Some (audit_arguments (rg_command reg) args)
      \<and> (ae_status a, ae_statusCode a) = outcome_of r" if "entry = Some a" for a
    using that entry by (auto simp: invocation_entry_def Let_def split: option.splits if_splits)
  have san: "outcome_of r = (SECURITY_VIOLATION, 400)"
    if "rg_command reg = None" "sanitizer_validate (ag_nfkc (gw_env G)) True (JObj args) \<noteq> Inr ()"
  proof -
    from that(2) obtain v where "sanitizer_validate (ag_nfkc (gw_env G)) True (JObj args) = Inl v"
      by (cases "sanitizer_validate (ag_nfkc (gw_env G)) True (JObj args)") auto
    from violation_refused [OF this] that(1) show ?thesis using refused_outcome(2) [OF op] by metis
  qed
  have deny: "outcome_of r = (FORBIDDEN, 403)"
    if "argument_check (gw_env G) (rg_command reg) args = Inr ()" "gate_allows (gw_gate G) (rg_publicName reg) = Inr False"
    using denied_refused [OF that] refused_outcome(2) [OF op] by metis
  have sec: "outcome_of r = (SECURITY_VIOLATION, 400)"
    if "rg_command reg = None" "sanitizer_validate (ag_nfkc (gw_env G)) True (JObj args) = Inr ()"
      "gate_spec (gw_gate G) (rg_publicName reg)" "carries_secret (ag_fpu (gw_env G)) (ag_nfkc (gw_env G)) (JObj args)"
    using secret_refused [OF that(2-4)] refused_outcome(2) [OF op] that(1) by metis
  have args: "(rg_command reg = None \<longrightarrow> ae_arguments a = Some (JObj args))
      \<and> (rg_command reg \<noteq> None \<longrightarrow> (\<exists>v. ae_arguments a = Some v \<and> (\<forall>u \<in> set (str_leaves v). u = S ''invalid'' \<or> re_test api_operation_re u)))"
    if "entry = Some a" for a
  proof (cases "rg_command reg")
    case None
    with e [OF that] show ?thesis by (simp add: audit_arguments_def)
  next
    case (Some c)
    with e [OF that] audit_arguments_texts [of _ c args] show ?thesis by simp
  qed
  have written: "entry \<noteq> None \<longleftrightarrow> ic_auditLogger (gw_invocation G)
         \<and> (\<exists>ctx. ic_requestContext (gw_invocation G) = Some ctx \<and> is_set (rc_userId ctx))"
    unfolding entry by (auto split: option.splits)
  have name: "ae_toolName a = rg_publicName reg" and status: "(ae_status a, ae_statusCode a) = outcome_of r" if "entry = Some a" for a
    using e [OF that] by simp_all
  have check: "s' = s" "outcome_of r = error_outcome e" if "tool_checks G (rg_command reg) (rg_publicName reg) args = Inl e" for e
    using refused_outcome [OF op that] by simp_all
  show ?thesis
    by (rule conjI [OF op conjI [OF written]]; intro conjI allI impI; (elim conjE)?)
      (use name status args check san deny sec in metis)+
qed

section \<open>Witnesses\<close>

lemma open_gate_allows: "gate_allows open_gate name = Inr True"
proof -
  have "re_test REps name" by (cases name) (simp_all add: re_test_def)
  then show ?thesis by (simp add: gate_allows_def open_gate_def ToolPolicy_allows_def)
qed

lemma echo_name: "public_name (S ''echo'') (S ''say'') = S ''echo.say''"
  by (simp add: public_name_def S_def)

lemma no_arguments_clean:
  "sanitizer_validate nfkc True (JObj []) = Inr ()" "\<not> carries_secret M nfkc (JObj [])"
  by (simp_all add: sanitizer_validate_def carries_secret_def)

lemma echo_call: "tool_operation (echo_gateway open_gate) echo_ops echo_map None (S ''echo.say'') [] 0 = (1, Inr (JObj []))"
proof -
  have "gate_assert open_gate (S ''echo.say'') = Inr ()"
    by (simp add: gate_assert_ok gate_spec_def open_gate_allows)
  then have "tool_checks (echo_gateway open_gate) None (S ''echo.say'') [] = Inr ()"
    by (simp add: tool_checks_def checks_ok argument_check_plain guard_ok no_arguments_clean echo_gateway_def
      guardrail_ask_def)
  moreover have "rm_call echo_ops echo_map (S ''echo.say'') (JObj []) 0 = (1, Inr (JObj []))"
    by (simp add: rm_call_def rm_get_def echo_map_def routes_of_def echo_ops_def make_route_def echo_name)
  ultimately show ?thesis by (simp add: tool_operation_def guarded_result_def assign_all_def)
qed

theorem upstream_call_guarded_witness:
  "gate_spec (gw_gate (echo_gateway open_gate)) (S ''echo.say'')
   \<and> (\<exists>raw. rm_call echo_ops echo_map (S ''echo.say'') (JObj []) 0 = (1, raw))"
  using upstream_call_guarded [OF echo_call] by auto

theorem dispatch_only_allowed_witness:
  "\<exists>regs. register_tools (echo_gateway open_gate) (rm_list (key length default) echo_map) = Inr regs \<and> allowed_tools regs \<noteq> []
     \<and> (\<exists>reg \<in> set regs. gate_spec (gw_gate (echo_gateway open_gate)) (rg_publicName reg)
          \<and> (\<exists>raw. rm_call echo_ops echo_map (rg_publicName reg) (JObj []) 0 = (1, raw)))"
proof -
  let ?G = "echo_gateway open_gate" and ?route = "make_route echo_ops () \<lparr>t_name = S ''say'', t_fields = []\<rparr>"
  let ?reg = "\<lparr>rg_exposedName = S ''echo.say'', rg_publicName = S ''echo.say'', rg_command = None, rg_route = ?route\<rparr>"
  have sorted: "rm_list (key length default) echo_map = [?route]"
    by (simp add: rm_list_def echo_map_def routes_of_def)
  have name: "r_publicName ?route = S ''echo.say''" by (simp add: make_route_def echo_ops_def echo_name)
  have regs: "register_tools ?G (rm_list (key length default) echo_map) = Inr [?reg]"
    by (simp add: sorted name echo_gateway_def open_gate_allows command_of_def contract_of_def exposed_name_def)
  have ne: "allowed_tools [?reg] \<noteq> []" by (simp add: allowed_tools_def)
  have table: "table_ok echo_ops echo_map"
    by (simp add: table_ok_def echo_map_def routes_of_def route_ok_def make_route_def)
  have target: "dispatch_target ?G [?reg] [] = Inr (S ''echo.say'', 1)"
    by (simp add: dispatch_target_def echo_gateway_def candidate_tools_def router_route_def exposed_to_canonical_def)
  have plain: "argument_check E None [] = Inr ()" "guard_validate fpu nfkc (JObj []) = Inr ()" for E fpu nfkc
    by (simp_all add: argument_check_plain guard_ok no_arguments_clean)
  have chk: "dispatch_checks ?G [?reg] [] = Inr (S ''echo.say'', 1)"
    by (simp add: dispatch_checks_def target dispatch_params_def fields_of_def plain
      guardrail_ask_def gate_assert_target_def Let_def)
      (simp add: echo_gateway_def open_gate_def ToolPolicy_allows_def re_test_def S_def)
  have run: "\<exists>r. dispatch_operation ?G echo_ops echo_map [?reg] [] 0 = (1, r)"
    using chk by (simp add: dispatch_operation_def dispatch_params_def fields_of_def rm_call_def rm_get_def echo_map_def
      routes_of_def echo_ops_def make_route_def echo_name)
  then obtain r where "dispatch_operation ?G echo_ops echo_map (allowed_tools [?reg]) [] 0 = (1, r)"
    by (auto simp: allowed_tools_def)
  from dispatch_only_allowed [OF table regs ne this] regs ne show ?thesis
    by (auto simp: dispatch_params_def fields_of_def)
qed

theorem invocation_audited_witness:
  "\<exists>s' a r reg. rg_publicName reg = S ''echo.say''
     \<and> tool_handler (echo_gateway closed_gate) echo_ops echo_map 0 reg (JObj []) 0 = (s', Some a, r)
     \<and> (ae_status a, ae_statusCode a) = (FORBIDDEN, 403)"
proof -
  let ?G = "echo_gateway closed_gate"
  let ?reg = "\<lparr>rg_exposedName = S ''echo.say'', rg_publicName = S ''echo.say'', rg_command = None,
    rg_route = make_route echo_ops () \<lparr>t_name = S ''say'', t_fields = []\<rparr>\<rparr>"
  obtain s' entry r where run: "tool_handler ?G echo_ops echo_map 0 ?reg (JObj []) 0 = (s', entry, r)"
    by (cases "tool_handler ?G echo_ops echo_map 0 ?reg (JObj []) 0") auto
  have deny: "gate_allows (gw_gate ?G) (S ''echo.say'') = Inr False"
    by (simp add: echo_gateway_def gate_allows_def closed_gate_def ToolPolicy_allows_def)
  note audited = invocation_audited [OF run]
  have "ic_auditLogger (gw_invocation ?G) \<and> (\<exists>ctx. ic_requestContext (gw_invocation ?G) = Some ctx \<and> is_set (rc_userId ctx))"
    by (simp add: echo_gateway_def is_set_def)
  with audited obtain a where a: "entry = Some a" by auto
  have "argument_check (gw_env ?G) (rg_command ?reg) [] = Inr ()" by (simp add: argument_check_plain no_arguments_clean)
  with audited a deny have "(ae_status a, ae_statusCode a) = (FORBIDDEN, 403)" by simp
  with run a show ?thesis by (intro exI [of _ s'] exI [of _ a] exI [of _ r] exI [of _ ?reg]) simp
qed

end
