(* ===== verification/UrlValidator.thy ===== *)
theory UrlValidator
  imports RegexFacts
begin

text \<open>
  The guard against server-side request forgery (\<open>src/policy/urlValidator.ts\<close>). The URL parser and
  \<open>isIP\<close> of Node and the resolver are parameters.
\<close>

record parsed_url =
  url_protocol :: jstr
  url_hostname :: jstr

record net_env =
  ne_URL :: "jstr \<Rightarrow> parsed_url option"
  ne_isIP :: "jstr \<Rightarrow> bool"
  ne_resolve :: "jstr \<Rightarrow> jstr result"

definition SsrFViolationError :: "jstr \<Rightarrow> js_error" where
  "SsrFViolationError message = \<lparr>err_name = S ''SsrFViolationError'',
     err_message = S ''SSRF Protection Violation: '' @ message,
     err_code = Some (S ''SSRF_VIOLATION''), err_status = Some 400\<rparr>"

definition private_172_re :: re where
  "private_172_re = RSeq RBol (rseqs [rlit (S ''172.''), ralts
     [RSeq (rchr 49) (RCls (\<lambda>c. 54 \<le> c \<and> c \<le> 57)), RSeq (rchr 50) (RCls is_digit),
      RSeq (rchr 51) (RCls (one_of ''01''))], rchr 46])"

definition shared_100_re :: re where
  "shared_100_re = RSeq RBol (rseqs [rlit (S ''100.''), ralts
     [RSeq (rchr 54) (RCls (\<lambda>c. 52 \<le> c \<and> c \<le> 57)), RSeq (RCls (\<lambda>c. 55 \<le> c \<and> c \<le> 57)) (RCls is_digit),
      rseqs [rchr 49, RCls (one_of ''01''), RCls is_digit],
      rseqs [rchr 49, rchr 50, RCls (\<lambda>c. 48 \<le> c \<and> c \<le> 55)]], rchr 46])"

text \<open>\<open>ip.replace(/^::ffff:/i, "")\<close>: the prefix of a mapped IPv4 address, once.\<close>

definition strip_mapped :: "jstr \<Rightarrow> jstr" where
  "strip_mapped ip = (if lowercase (take 7 ip) = S ''::ffff:'' then drop 7 ip else ip)"

definition isPrivateOrReservedIp :: "jstr \<Rightarrow> bool" where
  "isPrivateOrReservedIp ip =
     (let normalized = strip_mapped ip in
      if normalized = S ''127.0.0.1'' \<or> normalized = S ''::1'' \<or> normalized = S ''0.0.0.0'' \<or> normalized = S ''::''
      then True
      else if startsWith normalized (S ''10.'') then True
      else if startsWith normalized (S ''192.168.'') then True
      else if re_test private_172_re normalized then True
      else if startsWith normalized (S ''169.254.'') then True
      else if re_test shared_100_re normalized then True
      else let lower = lowercase normalized in
        startsWith lower (S ''fc'') \<or> startsWith lower (S ''fd'') \<or> startsWith lower (S ''fe80''))"

definition quoted :: "jstr \<Rightarrow> jstr" where
  "quoted s = [39] @ s @ [39]"

text \<open>\<open>hostname.replace(/^\[|\]$/g, "")\<close>.\<close>

definition strip_brackets :: "jstr \<Rightarrow> jstr" where
  "strip_brackets h =
     (let h1 = (if startsWith h (S ''['') then drop 1 h else h) in
      if endsWith h1 (S '']'') then butlast h1 else h1)"

definition resolved_check :: "jstr \<Rightarrow> jstr result \<Rightarrow> unit result" where
  "resolved_check hostname answer = (case answer of
      Inr address \<Rightarrow>
        if isPrivateOrReservedIp address
        then Inl (SsrFViolationError (S ''Hostname '' @ quoted hostname @ S '' resolves to private or internal IP '' @ quoted address))
        else Inr ()
    | Inl e \<Rightarrow> Inl (SsrFViolationError (S ''Failed to resolve hostname '' @ quoted hostname @ S '': '' @ err_message e)))"

definition validateSafeEndpointUrl :: "net_env \<Rightarrow> jstr \<Rightarrow> unit result" where
  "validateSafeEndpointUrl E rawUrl =
     (case ne_URL E rawUrl of
        None \<Rightarrow> Inl (SsrFViolationError (S ''Invalid URL format: '' @ quoted rawUrl))
      | Some parsed \<Rightarrow>
          if url_protocol parsed \<noteq> S ''https:''
          then Inl (SsrFViolationError (S ''Forbidden protocol '' @ quoted (url_protocol parsed)
            @ S ''. Only https: is allowed for external upstreams.''))
          else
            let hostname = lowercase (url_hostname parsed) in
            if hostname = S ''localhost'' \<or> endsWith hostname (S ''.localhost'') \<or> endsWith hostname (S ''.local'')
               \<or> endsWith hostname (S ''.internal'')
            then Inl (SsrFViolationError (S ''Forbidden internal hostname: '' @ quoted hostname))
            else
              let cleanHost = strip_brackets hostname in
              if ne_isIP E cleanHost
              then (if isPrivateOrReservedIp cleanHost
                    then Inl (SsrFViolationError (S ''Access to private or local IP address '' @ quoted cleanHost @ S '' is forbidden''))
                    else Inr ())
              else resolved_check hostname (ne_resolve E hostname))"

section \<open>The ranges, on dotted addresses\<close>

definition dotted :: "nat \<Rightarrow> nat \<Rightarrow> nat \<Rightarrow> nat \<Rightarrow> jstr" where
  "dotted a b c d = dec_nat a @ S ''.'' @ dec_nat b @ S ''.'' @ dec_nat c @ S ''.'' @ dec_nat d"

text \<open>Cutting at the first dot.\<close>

lemma dot_split:
  assumes "46 \<notin> set x" and "46 \<notin> set y"
  shows "x @ 46 # r = y @ 46 # r' \<longleftrightarrow> x = y \<and> r = r'"
proof
  assume e: "x @ 46 # r = y @ 46 # r'"
  have "takeWhile (\<lambda>c. c \<noteq> 46) (x @ 46 # r) = x" "takeWhile (\<lambda>c. c \<noteq> 46) (y @ 46 # r') = y"
    using assms by (auto simp: takeWhile_append takeWhile_eq_all_conv)
  with e have "x = y" by metis
  with e show "x = y \<and> r = r'" by simp
qed simp

lemma dec_no_dot: "46 \<notin> set (dec_nat n)"
  using dec_nat_digits by fastforce

lemma dec_split: "46 \<notin> set y \<Longrightarrow> dec_nat a @ 46 # r = y @ 46 # r' \<longleftrightarrow> dec_nat a = y \<and> r = r'"
  by (rule dot_split [OF dec_no_dot])

lemma dec_is: "dec_nat n = dec_nat k \<longleftrightarrow> n = k"
  using dec_nat_inject by auto

lemma two_digits: "10 \<le> n \<Longrightarrow> n < 100 \<Longrightarrow> dec_nat n = [48 + n div 10, 48 + n mod 10]"
  by (subst dec_nat.simps, simp, subst dec_nat.simps, simp)

lemma two_digits_iff: "dec_nat n = [x, y] \<longleftrightarrow>
    49 \<le> x \<and> x \<le> 57 \<and> 48 \<le> y \<and> y \<le> 57 \<and> n = 10 * (x - 48) + (y - 48)"
proof
  assume e: "dec_nat n = [x, y]"
  then have "\<not> n < 10" by (subst (asm) dec_nat.simps) (auto split: if_splits)
  moreover have "n < 100"
  proof (rule ccontr)
    assume "\<not> n < 100"
    with e have "length (dec_nat n) = length (dec_nat (n div 10 div 10)) + 2"
      by (subst dec_nat.simps, simp, subst dec_nat.simps, simp)
    with e show False by simp
  qed
  ultimately have "x = 48 + n div 10" "y = 48 + n mod 10" "1 \<le> n div 10" "n div 10 \<le> 9"
    using e two_digits [of n] by auto
  then show "49 \<le> x \<and> x \<le> 57 \<and> 48 \<le> y \<and> y \<le> 57 \<and> n = 10 * (x - 48) + (y - 48)" by auto
next
  assume r: "49 \<le> x \<and> x \<le> 57 \<and> 48 \<le> y \<and> y \<le> 57 \<and> n = 10 * (x - 48) + (y - 48)"
  define d e where de: "d = x - 48" "e = y - 48"
  from r have "1 \<le> d" "d \<le> 9" "e \<le> 9" and n: "n = 10 * d + e" by (auto simp: de)
  then have "n div 10 = x - 48" "n mod 10 = y - 48" "10 \<le> n" "n < 100" by (auto simp: de [symmetric])
  with r two_digits [of n] show "dec_nat n = [x, y]" by auto
qed

lemma three_digits_iff: "dec_nat n = [x, y, z] \<longleftrightarrow>
    49 \<le> x \<and> x \<le> 57 \<and> 48 \<le> y \<and> y \<le> 57 \<and> 48 \<le> z \<and> z \<le> 57
    \<and> n = 100 * (x - 48) + 10 * (y - 48) + (z - 48)"
proof (cases "n < 10")
  case True
  then show ?thesis by (subst dec_nat.simps) auto
next
  case False
  have "dec_nat n = [x, y, z] \<longleftrightarrow> dec_nat (n div 10) = [x, y] \<and> z = 48 + n mod 10"
    using False by (subst dec_nat.simps) (auto simp: append_eq_Cons_conv)
  also have "\<dots> \<longleftrightarrow> 49 \<le> x \<and> x \<le> 57 \<and> 48 \<le> y \<and> y \<le> 57 \<and> n div 10 = 10 * (x - 48) + (y - 48) \<and> z = 48 + n mod 10"
    by (simp add: two_digits_iff)
  also have "\<dots> \<longleftrightarrow> 49 \<le> x \<and> x \<le> 57 \<and> 48 \<le> y \<and> y \<le> 57 \<and> 48 \<le> z \<and> z \<le> 57
    \<and> n = 100 * (x - 48) + 10 * (y - 48) + (z - 48)"
  proof (intro iffI conjI; (elim conjE)?)
    assume *: "n div 10 = 10 * (x - 48) + (y - 48)" "z = 48 + n mod 10"
    then show "48 \<le> z" "z \<le> 57" by simp_all
    from * div_mult_mod_eq [of n 10] show "n = 100 * (x - 48) + 10 * (y - 48) + (z - 48)" by simp
  next
    assume *: "48 \<le> z" "z \<le> 57" "n = 100 * (x - 48) + 10 * (y - 48) + (z - 48)"
    define k e where ke: "k = 10 * (x - 48) + (y - 48)" "e = z - 48"
    from * have "e \<le> 9" "n = 10 * k + e" by (auto simp: ke)
    then have "n div 10 = k" "n mod 10 = e" by auto
    with * show "n div 10 = 10 * (x - 48) + (y - 48)" "z = 48 + n mod 10" by (simp_all add: ke)
  qed
  finally show ?thesis .
qed

lemma dotted_eq: "dotted a b c d = dec_nat a @ 46 # dec_nat b @ 46 # dec_nat c @ 46 # dec_nat d"
  by (simp add: dotted_def S_def)

lemma dotted_inject: "dotted a b c d = dotted a' b' c' d' \<longleftrightarrow> a = a' \<and> b = b' \<and> c = c' \<and> d = d'"
  by (auto simp: dotted_eq dec_split dec_no_dot dec_is)

lemma test_172: "re_test private_172_re s \<longleftrightarrow> (\<exists>x y r. s = dec_nat 172 @ 46 # [x, y] @ 46 # r
    \<and> (x = 49 \<and> 54 \<le> y \<and> y \<le> 57 \<or> x = 50 \<and> 48 \<le> y \<and> y \<le> 57 \<or> x = 51 \<and> (y = 48 \<or> y = 49)))"
proof -
  have lit: "S ''172.'' = dec_nat 172 @ [46]" by (simp add: S_def dec_nat.simps)
  have alts: "(\<exists>q. Matches (RSeq (ralts [RSeq (rchr 49) (RCls (\<lambda>c. 54 \<le> c \<and> c \<le> 57)), RSeq (rchr 50) (RCls is_digit),
      RSeq (rchr 51) (RCls (one_of ''01''))]) (rchr 46)) (MPos pr e k) q) \<longleftrightarrow>
      (\<exists>x y r. e = x # y # 46 # r
        \<and> (x = 49 \<and> 54 \<le> y \<and> y \<le> 57 \<or> x = 50 \<and> 48 \<le> y \<and> y \<le> 57 \<or> x = 51 \<and> (y = 48 \<or> y = 49)))" for pr e k
    by (auto simp: rchr_def is_digit_def one_of_def S_def)
  have "re_test private_172_re s \<longleftrightarrow> (\<exists>e. s = dec_nat 172 @ 46 # e \<and> (\<exists>q. Matches (RSeq (ralts
     [RSeq (rchr 49) (RCls (\<lambda>c. 54 \<le> c \<and> c \<le> 57)), RSeq (rchr 50) (RCls is_digit),
      RSeq (rchr 51) (RCls (one_of ''01''))]) (rchr 46)) (MPos (Some 46) e []) q))"
    unfolding private_172_re_def re_test_bol by (simp add: Matches_lit_then lit del: Matches.simps ralts.simps)
  also have "\<dots> \<longleftrightarrow> (\<exists>x y r. s = dec_nat 172 @ 46 # [x, y] @ 46 # r
    \<and> (x = 49 \<and> 54 \<le> y \<and> y \<le> 57 \<or> x = 50 \<and> 48 \<le> y \<and> y \<le> 57 \<or> x = 51 \<and> (y = 48 \<or> y = 49)))"
    unfolding alts by auto
  finally show ?thesis .
qed

lemma test_100: "re_test shared_100_re s \<longleftrightarrow> (\<exists>e. s = dec_nat 100 @ 46 # e \<and>
    ((\<exists>y r. e = [54, y] @ 46 # r \<and> 52 \<le> y \<and> y \<le> 57)
     \<or> (\<exists>x y r. e = [x, y] @ 46 # r \<and> 55 \<le> x \<and> x \<le> 57 \<and> 48 \<le> y \<and> y \<le> 57)
     \<or> (\<exists>x y r. e = [49, x, y] @ 46 # r \<and> (x = 48 \<or> x = 49) \<and> 48 \<le> y \<and> y \<le> 57)
     \<or> (\<exists>y r. e = [49, 50, y] @ 46 # r \<and> 48 \<le> y \<and> y \<le> 55)))"
proof -
  have lit: "S ''100.'' = dec_nat 100 @ [46]" by (simp add: S_def dec_nat.simps)
  let ?alts = "RSeq (ralts
     [RSeq (rchr 54) (RCls (\<lambda>c. 52 \<le> c \<and> c \<le> 57)), RSeq (RCls (\<lambda>c. 55 \<le> c \<and> c \<le> 57)) (RCls is_digit),
      rseqs [rchr 49, RCls (one_of ''01''), RCls is_digit],
      rseqs [rchr 49, rchr 50, RCls (\<lambda>c. 48 \<le> c \<and> c \<le> 55)]]) (rchr 46)"
  have alts: "(\<exists>q. Matches ?alts (MPos pr e k) q) \<longleftrightarrow>
      (\<exists>y r. e = [54, y] @ 46 # r \<and> 52 \<le> y \<and> y \<le> 57)
     \<or> (\<exists>x y r. e = [x, y] @ 46 # r \<and> 55 \<le> x \<and> x \<le> 57 \<and> 48 \<le> y \<and> y \<le> 57)
     \<or> (\<exists>x y r. e = [49, x, y] @ 46 # r \<and> (x = 48 \<or> x = 49) \<and> 48 \<le> y \<and> y \<le> 57)
     \<or> (\<exists>y r. e = [49, 50, y] @ 46 # r \<and> 48 \<le> y \<and> y \<le> 55)" for pr e k
    by (auto simp: rchr_def is_digit_def one_of_def S_def)
  have "re_test shared_100_re s \<longleftrightarrow> (\<exists>e. s = dec_nat 100 @ 46 # e \<and> (\<exists>q. Matches ?alts (MPos (Some 46) e []) q))"
    unfolding shared_100_re_def re_test_bol by (simp add: Matches_lit_then lit del: Matches.simps ralts.simps)
  then show ?thesis unfolding alts .
qed

lemma starts_dotted: "startsWith (dotted a b c d) (dec_nat k @ [46]) \<longleftrightarrow> a = k"
  by (auto simp: startsWith_def prefix_def dotted_eq dec_split dec_no_dot dec_is)

lemma starts_dotted2: "startsWith (dotted a b c d) (dec_nat k @ 46 # dec_nat l @ [46]) \<longleftrightarrow> a = k \<and> b = l"
  by (auto simp: startsWith_def prefix_def dotted_eq dec_split dec_no_dot dec_is)

lemma dotted_head: "\<exists>h r. dotted a b c d = h # r \<and> 48 \<le> h \<and> h \<le> 57"
  using dec_nat_digits [of _ a] by (cases "dec_nat a") (auto simp: dotted_eq)

lemma test_172_dotted: "re_test private_172_re (dotted a b c d) \<longleftrightarrow> a = 172 \<and> 16 \<le> b \<and> b \<le> 31"
proof -
  have dot: "46 \<notin> set [x, y]" if "49 \<le> x" "48 \<le> y" for x y :: nat using that by auto
  have "re_test private_172_re (dotted a b c d) \<longleftrightarrow> (\<exists>x y. a = 172 \<and> dec_nat b = [x, y]
    \<and> (x = 49 \<and> 54 \<le> y \<and> y \<le> 57 \<or> x = 50 \<and> 48 \<le> y \<and> y \<le> 57 \<or> x = 51 \<and> (y = 48 \<or> y = 49)))" (is "?l \<longleftrightarrow> ?m")
  proof
    assume ?l
    then obtain x y r where xy: "x = 49 \<and> 54 \<le> y \<and> y \<le> 57 \<or> x = 50 \<and> 48 \<le> y \<and> y \<le> 57 \<or> x = 51 \<and> (y = 48 \<or> y = 49)"
      and e: "dotted a b c d = dec_nat 172 @ 46 # [x, y] @ 46 # r" unfolding test_172 by blast
    then have "46 \<notin> set [x, y]" using dot by auto
    with e have "a = 172" "dec_nat b = [x, y]"
      unfolding dotted_eq by (simp_all only: dec_split dec_no_dot dec_is not_False_eq_True)
    with xy show ?m by blast
  next
    assume ?m
    then show ?l unfolding test_172 dotted_eq by (metis append.simps)
  qed
  also have "\<dots> \<longleftrightarrow> a = 172 \<and> 16 \<le> b \<and> b \<le> 31"
  proof -
    have "\<exists>x y. dec_nat b = [x, y] \<and> (x = 49 \<and> 54 \<le> y \<and> y \<le> 57 \<or> x = 50 \<and> 48 \<le> y \<and> y \<le> 57 \<or> x = 51 \<and> (y = 48 \<or> y = 49))"
      if "16 \<le> b" "b \<le> 31"
    proof -
      have "dec_nat b = [48 + b div 10, 48 + b mod 10]" using that by (intro two_digits) auto
      moreover have "48 + b div 10 = 49 \<and> 54 \<le> 48 + b mod 10 \<or> 48 + b div 10 = 50
          \<or> 48 + b div 10 = 51 \<and> (48 + b mod 10 = 48 \<or> 48 + b mod 10 = 49)" using that by presburger
      moreover have "48 + b mod 10 \<le> 57" by simp
      ultimately show ?thesis by (metis le_add1)
    qed
    then show ?thesis by (auto simp: two_digits_iff)
  qed
  finally show ?thesis .
qed

lemma three_digits: "100 \<le> n \<Longrightarrow> n < 200 \<Longrightarrow> dec_nat n = [49, 48 + (n - 100) div 10, 48 + n mod 10]"
proof -
  assume n: "100 \<le> n" "n < 200"
  define m where "m = n - 100"
  have m: "m < 100" "n = 100 + m" using n by (auto simp: m_def)
  moreover have "(100 + m) mod 10 = m mod 10" by presburger
  moreover have "100 + m = 100 + 10 * (m div 10) + m mod 10" by simp
  ultimately show ?thesis by (auto simp: three_digits_iff)
qed

lemma test_100_dotted: "re_test shared_100_re (dotted a b c d) \<longleftrightarrow> a = 100 \<and> 64 \<le> b \<and> b \<le> 127" (is "?l \<longleftrightarrow> ?r")
proof
  assume ?l
  then obtain e where e: "dotted a b c d = dec_nat 100 @ 46 # e" and
    alts: "(\<exists>y r. e = [54, y] @ 46 # r \<and> 52 \<le> y \<and> y \<le> 57)
     \<or> (\<exists>x y r. e = [x, y] @ 46 # r \<and> 55 \<le> x \<and> x \<le> 57 \<and> 48 \<le> y \<and> y \<le> 57)
     \<or> (\<exists>x y r. e = [49, x, y] @ 46 # r \<and> (x = 48 \<or> x = 49) \<and> 48 \<le> y \<and> y \<le> 57)
     \<or> (\<exists>y r. e = [49, 50, y] @ 46 # r \<and> 48 \<le> y \<and> y \<le> 55)"
    unfolding test_100 by blast
  from e have a: "a = 100" and b: "e = dec_nat b @ 46 # dec_nat c @ 46 # dec_nat d"
    unfolding dotted_eq by (simp_all add: dec_split dec_no_dot dec_is)
  have cut: "dec_nat b = u" if "e = u @ 46 # r" "46 \<notin> set u" for u r
    using that b by (simp add: dec_split)
  from alts consider (one) y r where "e = [54, y] @ 46 # r" "52 \<le> y" "y \<le> 57"
    | (two) x y r where "e = [x, y] @ 46 # r" "55 \<le> x" "x \<le> 57" "48 \<le> y" "y \<le> 57"
    | (three) x y r where "e = [49, x, y] @ 46 # r" "x \<in> {48, 49}" "48 \<le> y" "y \<le> 57"
    | (four) y r where "e = [49, 50, y] @ 46 # r" "48 \<le> y" "y \<le> 55"
    by blast
  then have "64 \<le> b \<and> b \<le> 127"
  proof cases
    case one
    with cut [of "[54, y]" r] show ?thesis by (auto simp: two_digits_iff)
  next
    case two
    with cut [of "[x, y]" r] show ?thesis by (auto simp: two_digits_iff)
  next
    case three
    with cut [of "[49, x, y]" r] show ?thesis by (auto simp: three_digits_iff)
  next
    case four
    with cut [of "[49, 50, y]" r] show ?thesis by (auto simp: three_digits_iff)
  qed
  with a show ?r by simp
next
  assume r: ?r
  let ?t = "dec_nat c @ 46 # dec_nat d"
  have "(\<exists>y r. dec_nat b @ 46 # ?t = [54, y] @ 46 # r \<and> 52 \<le> y \<and> y \<le> 57)
     \<or> (\<exists>x y r. dec_nat b @ 46 # ?t = [x, y] @ 46 # r \<and> 55 \<le> x \<and> x \<le> 57 \<and> 48 \<le> y \<and> y \<le> 57)
     \<or> (\<exists>x y r. dec_nat b @ 46 # ?t = [49, x, y] @ 46 # r \<and> (x = 48 \<or> x = 49) \<and> 48 \<le> y \<and> y \<le> 57)
     \<or> (\<exists>y r. dec_nat b @ 46 # ?t = [49, 50, y] @ 46 # r \<and> 48 \<le> y \<and> y \<le> 55)"
  proof -
    consider "b < 70" | "70 \<le> b" "b < 100" | "100 \<le> b" "b < 120" | "120 \<le> b" by linarith
    then show ?thesis
    proof cases
      case 1
      define m where "m = b - 60"
      with 1 r have "b = 60 + m" "4 \<le> m" "m < 10" by auto
      then have "dec_nat b = [54, 48 + m]" "52 \<le> 48 + m" "48 + m \<le> 57" by (auto simp: two_digits_iff)
      then show ?thesis by auto
    next
      case 2
      with two_digits [of b] have "dec_nat b = [48 + b div 10, 48 + b mod 10]" "55 \<le> 48 + b div 10" "48 + b div 10 \<le> 57" by auto
      then show ?thesis by auto
    next
      case 3
      with three_digits [of b] have "dec_nat b = [49, 48 + (b - 100) div 10, 48 + b mod 10]" by auto
      moreover have "48 + (b - 100) div 10 = 48 \<or> 48 + (b - 100) div 10 = 49" using 3 by auto
      ultimately show ?thesis by auto
    next
      case 4
      with r three_digits [of b] have "dec_nat b = [49, 48 + (b - 100) div 10, 48 + b mod 10]" by auto
      moreover define m where "m = b - 120"
      ultimately have "dec_nat b = [49, 50, 48 + m]" "m \<le> 7" using 4 r by (auto simp: three_digits_iff)
      then show ?thesis by auto
    qed
  qed
  with r show ?l unfolding test_100 dotted_eq by auto
qed

lemma private_dotted:
  "isPrivateOrReservedIp (dotted a b c d) \<longleftrightarrow>
     a = 10 \<or> (a = 192 \<and> b = 168) \<or> (a = 172 \<and> 16 \<le> b \<and> b \<le> 31) \<or> (a = 169 \<and> b = 254)
     \<or> (a = 100 \<and> 64 \<le> b \<and> b \<le> 127)
     \<or> (a = 127 \<and> b = 0 \<and> c = 0 \<and> d = 1) \<or> (a = 0 \<and> b = 0 \<and> c = 0 \<and> d = 0)"
proof -
  let ?s = "dotted a b c d"
  obtain h r where h: "?s = h # r" "48 \<le> h" "h \<le> 57" using dotted_head by blast
  have strip: "strip_mapped ?s = ?s"
    using h by (simp add: strip_mapped_def lowercase_def ascii_lower_def S_def)
  have lits: "S ''127.0.0.1'' = dotted 127 0 0 1" "S ''0.0.0.0'' = dotted 0 0 0 0"
    "S ''10.'' = dec_nat 10 @ [46]" "S ''192.168.'' = dec_nat 192 @ 46 # dec_nat 168 @ [46]"
    "S ''169.254.'' = dec_nat 169 @ 46 # dec_nat 254 @ [46]"
    by (simp_all add: dotted_def dec_nat.simps S_def)
  have colon: "?s \<noteq> S ''::1''" "?s \<noteq> S ''::''" using h by (auto simp: S_def)
  have letters: "\<not> startsWith (lowercase ?s) (S ''fc'')" "\<not> startsWith (lowercase ?s) (S ''fd'')"
    "\<not> startsWith (lowercase ?s) (S ''fe80'')"
    using h by (auto simp: startsWith_def lowercase_def ascii_lower_def S_def)
  show ?thesis
    unfolding isPrivateOrReservedIp_def Let_def strip lits
    by (simp add: colon letters starts_dotted starts_dotted2 test_172_dotted test_100_dotted dotted_inject)
qed

text \<open>
  On a dotted IPv4 address the check is exactly: 10/8, 192.168/16, 172.16/12, 169.254/16,
  100.64/10, and the two single addresses 127.0.0.1 and 0.0.0.0. The rest of the loopback range
  127/8 passes.
\<close>

theorem private_ipv4_ranges:
  "isPrivateOrReservedIp (dotted a b c d) \<longleftrightarrow>
     a = 10 \<or> (a = 192 \<and> b = 168) \<or> (a = 172 \<and> 16 \<le> b \<and> b \<le> 31) \<or> (a = 169 \<and> b = 254)
     \<or> (a = 100 \<and> 64 \<le> b \<and> b \<le> 127)
     \<or> (a = 127 \<and> b = 0 \<and> c = 0 \<and> d = 1) \<or> (a = 0 \<and> b = 0 \<and> c = 0 \<and> d = 0)"
  by (rule private_dotted)


text \<open>A public server under \<open>Example\<close>, and the same address under a local name.\<close>

definition demo_net :: "jstr \<Rightarrow> net_env" where
  "demo_net host = \<lparr>ne_URL = (\<lambda>_. Some \<lparr>url_protocol = S ''https:'', url_hostname = host\<rparr>),
     ne_isIP = (\<lambda>_. False), ne_resolve = (\<lambda>_. Inr (dotted 93 184 216 34))\<rparr>"


end
