(* ===== verification/CustomUpstreams.thy ===== *)
theory CustomUpstreams
  imports Db Encodings UrlValidator
begin

text \<open>
  Owner-scoped upstreams and their stored credentials: \<open>EnvelopeCrypto\<close>
  (\<open>src/crypto/envelopeCrypto.ts\<close>) and \<open>CustomUpstreamService\<close> (\<open>src/api/customUpstreamService.ts\<close>).
  SHA-256 and AES-256-GCM of Node are parameters; what the round trip needs of them is the
  hypothesis \<open>gcm_laws\<close>.
\<close>

section \<open>EnvelopeCrypto\<close>

record crypto =
  cr_sha256 :: "bytes \<Rightarrow> bytes"
  cr_seal :: "bytes \<Rightarrow> bytes \<Rightarrow> bytes \<Rightarrow> bytes \<times> bytes"
  cr_open :: "bytes \<Rightarrow> bytes \<Rightarrow> bytes \<Rightarrow> bytes \<Rightarrow> bytes result"
  cr_lossy :: "bytes \<Rightarrow> jstr"

text \<open>
  Opening what was sealed under the same key and vector gives the plain text back, the cipher text
  is as long as the plain text, and the tag has 16 bytes.
\<close>

definition gcm_laws :: "crypto \<Rightarrow> bool" where
  "gcm_laws C \<longleftrightarrow> (\<forall>k iv p. is_bytes p \<longrightarrow>
     (let (c, t) = cr_seal C k iv p in
      cr_open C k iv c t = Inr p \<and> length c = length p \<and> length t = 16 \<and> is_bytes c \<and> is_bytes t))"

record encrypted_secret =
  es_encryptedValue :: jstr
  es_iv :: jstr
  es_tag :: jstr

definition new_EnvelopeCrypto :: "crypto \<Rightarrow> jstr \<Rightarrow> bytes result" where
  "new_EnvelopeCrypto C masterSecret =
     (if masterSecret = [] then Inl (plain_error (S ''Master secret is required for EnvelopeCrypto''))
      else Inr (cr_sha256 C (utf8_encode masterSecret)))"

definition envelope_encrypt :: "crypto \<Rightarrow> bytes \<Rightarrow> bytes \<Rightarrow> jstr \<Rightarrow> encrypted_secret" where
  "envelope_encrypt C key iv plainText =
     (let (encrypted, tag) = cr_seal C key iv (utf8_encode plainText) in
      \<lparr>es_encryptedValue = hex_encode encrypted, es_iv = hex_encode iv, es_tag = hex_encode tag\<rparr>)"

text \<open>Bytes read as text: invalid sequences are replaced.\<close>

definition utf8_text :: "crypto \<Rightarrow> bytes \<Rightarrow> jstr" where
  "utf8_text C bs = (case utf8_decode bs of Some s \<Rightarrow> s | None \<Rightarrow> cr_lossy C bs)"

definition envelope_decrypt :: "crypto \<Rightarrow> bytes \<Rightarrow> encrypted_secret \<Rightarrow> jstr result" where
  "envelope_decrypt C key encrypted =
     bindE (cr_open C key (hex_decode (es_iv encrypted)) (hex_decode (es_encryptedValue encrypted))
              (hex_decode (es_tag encrypted)))
       (\<lambda>decrypted. Inr (utf8_text C decrypted))"

lemma envelope_roundtrip:
  assumes "gcm_laws C" and "well_formed s" and "is_bytes iv"
  shows "envelope_decrypt C key (envelope_encrypt C key iv s) = Inr s"
proof -
  obtain c t where ct: "cr_seal C key iv (utf8_encode s) = (c, t)" by (cases "cr_seal C key iv (utf8_encode s)")
  have "cr_open C key iv c t = Inr (utf8_encode s) \<and> is_bytes c \<and> is_bytes t"
    using assms(1) is_bytes_utf8 [OF assms(2)] ct unfolding gcm_laws_def by (metis (mono_tags, lifting) case_prodD)
  with assms ct show ?thesis
    by (simp add: envelope_decrypt_def envelope_encrypt_def hex_roundtrip utf8_text_def utf8_roundtrip)
qed

lemma utf8_unit_length: "utf8_unit c \<noteq> []"
  by (simp add: utf8_unit_def)

lemma utf8_encode_Nil [simp]: "utf8_encode s = [] \<longleftrightarrow> s = []"
  by (induction s rule: utf8_encode.induct) (auto simp: utf8_unit_def utf8_pair_def Let_def)

lemma hex_encode_Nil [simp]: "hex_encode bs = [] \<longleftrightarrow> bs = []"
  by (cases bs) auto

section \<open>CustomUpstreamService\<close>

record create_dto =
  cd_toolPrefix :: jstr
  cd_endpointUrl :: jstr
  cd_transport :: "jstr option"
  cd_authType :: "jstr option"
  cd_authHeaderName :: "jstr option"
  cd_authValue :: "jstr option"
  cd_description :: "jstr option"

definition nonempty :: "jstr option \<Rightarrow> bool" where
  "nonempty s = (case s of None \<Rightarrow> False | Some t \<Rightarrow> t \<noteq> [])"

definition dto_authType :: "create_dto \<Rightarrow> jstr" where
  "dto_authType dto = (case cd_authType dto of Some t \<Rightarrow> t
     | None \<Rightarrow> if nonempty (cd_authValue dto) then S ''bearer'' else S ''none'')"

definition dto_authHeaderName :: "create_dto \<Rightarrow> jstr" where
  "dto_authHeaderName dto = (case cd_authHeaderName dto of Some h \<Rightarrow> h
     | None \<Rightarrow> if dto_authType dto = S ''bearer'' then S ''Authorization'' else S ''X-API-Key'')"

definition seal_dto :: "crypto \<Rightarrow> bytes \<Rightarrow> bytes \<Rightarrow> create_dto \<Rightarrow> encrypted_secret option result" where
  "seal_dto C key iv dto =
     (if dto_authType dto = S ''none'' then Inr None
      else if \<not> nonempty (cd_authValue dto)
      then Inl (plain_error (S ''authValue is required when authType is not '' @ [39] @ S ''none'' @ [39]))
      else Inr (Some (envelope_encrypt C key iv (the (cd_authValue dto)))))"

text \<open>The constraints of the table that an insert can violate.\<close>

definition prefix_column_re :: re where
  "prefix_column_re = RSeq RBol (rseqs [RCls (\<lambda>c. 97 \<le> c \<and> c \<le> 122),
     rupto 49 (RCls (\<lambda>c. (97 \<le> c \<and> c \<le> 122) \<or> is_digit c \<or> c = 95)), REol])"

definition upstream_unique :: "db \<Rightarrow> upstream_row \<Rightarrow> bool" where
  "upstream_unique d r \<longleftrightarrow> m_id r \<notin> m_id ` set (user_mcp_upstreams d)
     \<and> (\<forall>q \<in> set (user_mcp_upstreams d). \<not> (m_user_id q = m_user_id r \<and> m_tool_prefix q = m_tool_prefix r))"

definition upstream_check :: "upstream_row \<Rightarrow> bool" where
  "upstream_check r \<longleftrightarrow> re_test prefix_column_re (m_tool_prefix r)
     \<and> m_auth_type r \<in> S ` {''bearer'', ''api_key'', ''custom_header'', ''none''}
     \<and> (if m_auth_type r = S ''none''
        then m_encrypted_auth_value r = None \<and> m_encryption_iv r = None \<and> m_encryption_tag r = None
        else m_encrypted_auth_value r \<noteq> None \<and> m_encryption_iv r \<noteq> None \<and> m_encryption_tag r \<noteq> None)"

definition constraint_error :: "string \<Rightarrow> string \<Rightarrow> js_error" where
  "constraint_error message code = \<lparr>err_name = S ''error'', err_message = S message,
     err_code = Some (S code), err_status = None\<rparr>"

definition insert_upstream :: "upstream_row \<Rightarrow> upstream_row dbm" where
  "insert_upstream r d =
     (if \<not> upstream_check r then (d, Inl (constraint_error ''violates check constraint'' ''23514''))
      else if \<not> upstream_unique d r then (d, Inl unique_violation)
      else if m_user_id r \<notin> u_id ` set (users d)
      then (d, Inl (constraint_error ''violates foreign key constraint'' ''23503''))
      else (d\<lparr>user_mcp_upstreams := user_mcp_upstreams d @ [r]\<rparr>, Inr r))"

definition upstream_row_of :: "jstr \<Rightarrow> jstr \<Rightarrow> create_dto \<Rightarrow> encrypted_secret option \<Rightarrow> upstream_row" where
  "upstream_row_of upId userId dto enc =
     \<lparr>m_id = upId, m_user_id = userId, m_tool_prefix = cd_toolPrefix dto, m_endpoint_url = cd_endpointUrl dto,
      m_auth_type = dto_authType dto, m_auth_header_name = dto_authHeaderName dto,
      m_encrypted_auth_value = map_option es_encryptedValue enc, m_encryption_iv = map_option es_iv enc,
      m_encryption_tag = map_option es_tag enc, m_is_enabled = True, m_description = cd_description dto\<rparr>"

definition upstream_create :: "net_env \<Rightarrow> crypto \<Rightarrow> bytes \<Rightarrow> bytes \<Rightarrow> jstr \<Rightarrow> faults \<Rightarrow> jstr \<Rightarrow> create_dto
    \<Rightarrow> upstream_row dbm" where
  "upstream_create E C key iv uuid flt userId dto d =
     (case validateSafeEndpointUrl E (cd_endpointUrl dto) of
        Inl e \<Rightarrow> (d, Inl e)
      | Inr _ \<Rightarrow>
          (case seal_dto C key iv dto of
             Inl e \<Rightarrow> (d, Inl e)
           | Inr enc \<Rightarrow>
               query flt 0 (insert_upstream (upstream_row_of (S ''tg_ups_'' @ uuid) userId dto enc)) d))"

text \<open>\<open>ORDER BY created_at DESC\<close>: the rows of the table are in the order of their creation.\<close>

definition upstream_list :: "faults \<Rightarrow> jstr \<Rightarrow> upstream_row list dbm" where
  "upstream_list flt userId = query flt 0 (\<lambda>d.
     (d, Inr (rev (filter (\<lambda>r. m_user_id r = userId) (user_mcp_upstreams d)))))"

definition upstream_delete :: "faults \<Rightarrow> jstr \<Rightarrow> jstr \<Rightarrow> bool dbm" where
  "upstream_delete flt userId upstreamId = query flt 0 (\<lambda>d.
     (d\<lparr>user_mcp_upstreams := filter (\<lambda>r. \<not> (m_id r = upstreamId \<and> m_user_id r = userId)) (user_mcp_upstreams d)\<rparr>,
      Inr (list_ex (\<lambda>r. m_id r = upstreamId \<and> m_user_id r = userId) (user_mcp_upstreams d))))"

record auth_value =
  av_authType :: jstr
  av_authHeaderName :: jstr
  av_authValue :: "jstr option"

definition open_row :: "crypto \<Rightarrow> bytes \<Rightarrow> upstream_row \<Rightarrow> auth_value result" where
  "open_row C key row =
     (if m_auth_type row = S ''none'' \<or> \<not> nonempty (m_encrypted_auth_value row)
         \<or> \<not> nonempty (m_encryption_iv row) \<or> \<not> nonempty (m_encryption_tag row)
      then Inr \<lparr>av_authType = m_auth_type row, av_authHeaderName = m_auth_header_name row, av_authValue = None\<rparr>
      else bindE (envelope_decrypt C key \<lparr>es_encryptedValue = the (m_encrypted_auth_value row),
             es_iv = the (m_encryption_iv row), es_tag = the (m_encryption_tag row)\<rparr>)
        (\<lambda>decrypted. Inr \<lparr>av_authType = m_auth_type row, av_authHeaderName = m_auth_header_name row,
           av_authValue = Some decrypted\<rparr>))"

definition getDecryptedAuthValue :: "crypto \<Rightarrow> bytes \<Rightarrow> faults \<Rightarrow> jstr \<Rightarrow> jstr \<Rightarrow> auth_value option dbm" where
  "getDecryptedAuthValue C key flt userId toolPrefix =
     bindQ (query flt 0 (\<lambda>d. (d, Inr (filter (\<lambda>r. m_user_id r = userId \<and> m_tool_prefix r = toolPrefix
         \<and> m_is_enabled r) (user_mcp_upstreams d)))))
       (\<lambda>rows d. case rows of
          [] \<Rightarrow> (d, Inr None)
        | row # _ \<Rightarrow> (case open_row C key row of Inl e \<Rightarrow> (d, Inl e) | Inr a \<Rightarrow> (d, Inr (Some a))))"

section \<open>The stored credential\<close>

lemma open_sealed_row:
  assumes "gcm_laws C" and "is_bytes iv" and "iv \<noteq> []"
    and "cd_authValue dto = Some v" and "v \<noteq> []" and "well_formed v" and "dto_authType dto \<noteq> S ''none''"
  shows "open_row C key (upstream_row_of upId userId dto (Some (envelope_encrypt C key iv v)))
    = Inr \<lparr>av_authType = dto_authType dto, av_authHeaderName = dto_authHeaderName dto, av_authValue = Some v\<rparr>"
proof -
  obtain c t where ct: "cr_seal C key iv (utf8_encode v) = (c, t)" by (cases "cr_seal C key iv (utf8_encode v)")
  have "length c = length (utf8_encode v) \<and> length t = 16"
    using assms(1) is_bytes_utf8 [OF assms(6)] ct unfolding gcm_laws_def by (metis (mono_tags, lifting) case_prodD)
  with assms(5) have ne: "c \<noteq> []" "t \<noteq> []" by auto
  have enc: "envelope_encrypt C key iv v = \<lparr>es_encryptedValue = hex_encode c, es_iv = hex_encode iv, es_tag = hex_encode t\<rparr>"
    using ct by (simp add: envelope_encrypt_def)
  have "envelope_decrypt C key (envelope_encrypt C key iv v) = Inr v"
    by (rule envelope_roundtrip [OF assms(1,6,2)])
  with ne assms enc show ?thesis by (simp add: open_row_def upstream_row_of_def nonempty_def)
qed

text \<open>
  C17. A credential stored with a custom upstream is read back unchanged by its owner, for every
  value without lone surrogates, whatever the key; the stored row never has the value itself but its
  cipher text, vector and tag.
\<close>

theorem credential_roundtrip:
  assumes laws: "gcm_laws C" and iv: "is_bytes iv" "iv \<noteq> []"
    and create: "upstream_create E C key iv uuid flt userId dto d = (d', Inr row)"
    and auth: "dto_authType dto \<noteq> S ''none''" "cd_authValue dto = Some v" "well_formed v"
  shows "getDecryptedAuthValue C key no_faults userId (cd_toolPrefix dto) d' = (d', Inr (Some
      \<lparr>av_authType = dto_authType dto, av_authHeaderName = dto_authHeaderName dto, av_authValue = Some v\<rparr>))
    \<and> m_encrypted_auth_value row = Some (hex_encode (fst (cr_seal C key iv (utf8_encode v))))"
proof -
  let ?enc = "envelope_encrypt C key iv v"
  let ?row = "upstream_row_of (S ''tg_ups_'' @ uuid) userId dto (Some ?enc)"
  have v: "v \<noteq> []" and row: "row = ?row" and d': "d' = d\<lparr>user_mcp_upstreams := user_mcp_upstreams d @ [?row]\<rparr>"
    and ok: "upstream_unique d ?row"
    using create auth by (auto simp: upstream_create_def seal_dto_def nonempty_def query_def insert_upstream_def
        split: sum.splits if_splits option.splits)
  have "filter (\<lambda>r. m_user_id r = userId \<and> m_tool_prefix r = cd_toolPrefix dto \<and> m_is_enabled r)
      (user_mcp_upstreams d) = []"
    using ok by (auto simp: filter_empty_conv upstream_unique_def upstream_row_of_def)
  then have "filter (\<lambda>r. m_user_id r = userId \<and> m_tool_prefix r = cd_toolPrefix dto \<and> m_is_enabled r)
      (user_mcp_upstreams d') = [?row]"
    by (simp add: d' upstream_row_of_def)
  then have "getDecryptedAuthValue C key no_faults userId (cd_toolPrefix dto) d' = (d', Inr (Some
      \<lparr>av_authType = dto_authType dto, av_authHeaderName = dto_authHeaderName dto, av_authValue = Some v\<rparr>))"
    using open_sealed_row [OF laws iv auth(2) v auth(3,1), of key "S ''tg_ups_'' @ uuid" userId]
    by (simp add: getDecryptedAuthValue_def bindQ_def)
  then show ?thesis
    by (simp add: row upstream_row_of_def envelope_encrypt_def case_prod_unfold Let_def)
qed

definition toy_crypto :: crypto where
  "toy_crypto = \<lparr>cr_sha256 = (\<lambda>bs. take 32 (bs @ replicate 32 0)), cr_seal = (\<lambda>k iv p. (rev p, replicate 16 7)),
     cr_open = (\<lambda>k iv c t. if t = replicate 16 7 then Inr (rev c) else Inl (plain_error (S ''bad tag''))),
     cr_lossy = (\<lambda>_. [])\<rparr>"

definition demo_dto :: create_dto where
  "demo_dto = \<lparr>cd_toolPrefix = S ''mine'', cd_endpointUrl = S ''https://example.com/mcp'', cd_transport = None,
     cd_authType = None, cd_authHeaderName = None, cd_authValue = Some (S ''s3cret''), cd_description = None\<rparr>"

definition demo_owner :: user_row where
  "demo_owner = \<lparr>u_id = S ''u1'', u_email = S ''a@b'', u_name = S ''A'', u_system_role = S ''USER'',
     u_external_provider = None, u_external_subject_id = None, u_is_active = True, u_tenant_id = S ''t'',
     u_lifecycle_status = ACTIVE, u_user_version = 1\<rparr>"

definition demo_store :: db where
  "demo_store = \<lparr>users = [demo_owner], api_keys = [], user_mcp_upstreams = [], user_tool_permissions = [],
     lifecycle_states = (\<lambda>_. None), lifecycle_events = (\<lambda>_. None), lifecycle_last_seen = None,
     access_states = (\<lambda>_. None), access_events = (\<lambda>_. None), access_last_seen = None\<rparr>"

definition public_net :: net_env where
  "public_net = \<lparr>ne_URL = (\<lambda>_. Some \<lparr>url_protocol = S ''https:'', url_hostname = S ''example.com''\<rparr>),
     ne_isIP = (\<lambda>_. False), ne_resolve = (\<lambda>_. Inr (dotted 93 184 216 34))\<rparr>"

lemma demo_create: "\<exists>d' row. upstream_create public_net toy_crypto [] [1, 2] (S ''x'') no_faults (S ''u1'') demo_dto demo_store
    = (d', Inr row)"
proof -
  have "\<not> isPrivateOrReservedIp (dotted 93 184 216 34)" by (simp add: private_dotted)
  then have url: "validateSafeEndpointUrl public_net (S ''https://example.com/mcp'') = Inr ()"
    by (simp add: validateSafeEndpointUrl_def public_net_def resolved_check_def js_eval lowercase_def ascii_lower_def
      strip_brackets_def Let_def suffix_to_prefix)
  have "re_test prefix_column_re (S ''mine'')" by code_simp
  then show ?thesis
    by (simp add: upstream_create_def url seal_dto_def dto_authType_def demo_dto_def nonempty_def insert_upstream_def
      upstream_check_def upstream_unique_def upstream_row_of_def demo_store_def demo_owner_def)
qed

theorem credential_roundtrip_witness:
  "\<exists>d' row. upstream_create public_net toy_crypto [] [1, 2] (S ''x'') no_faults (S ''u1'') demo_dto demo_store = (d', Inr row)
     \<and> getDecryptedAuthValue toy_crypto [] no_faults (S ''u1'') (S ''mine'') d'
         = (d', Inr (Some \<lparr>av_authType = S ''bearer'', av_authHeaderName = S ''Authorization'', av_authValue = Some (S ''s3cret'')\<rparr>))"
proof -
  obtain d' row where c: "upstream_create public_net toy_crypto [] [1, 2] (S ''x'') no_faults (S ''u1'') demo_dto demo_store
    = (d', Inr row)" using demo_create by blast
  have laws: "gcm_laws toy_crypto" by (auto simp: gcm_laws_def toy_crypto_def is_bytes_def)
  have auth: "dto_authType demo_dto = S ''bearer''" "cd_authValue demo_dto = Some (S ''s3cret'')"
    by (simp_all add: dto_authType_def demo_dto_def nonempty_def)
  have wf: "well_formed (S ''s3cret'')" by (simp add: S_def hi_surrogate_def lo_surrogate_def)
  have "dto_authHeaderName demo_dto = S ''Authorization''" "cd_toolPrefix demo_dto = S ''mine''"
    by (simp_all add: dto_authHeaderName_def auth) (simp_all add: demo_dto_def)
  with credential_roundtrip [OF laws _ _ c _ auth(2) wf] auth c show ?thesis by auto
qed

end
