(* ===== verification/ApiKeys.thy ===== *)
theory ApiKeys
  imports LocalUser Encodings "HOL-Library.Sorting_Algorithms"
begin

text \<open>
  \<open>ApiKeyService\<close> (\<open>src/api/apiKeyService.ts\<close>): API keys are created with a subset of what their
  owner was granted, listed without their hash, and revoked together with the cached principals of
  the owner. \<open>rnd\<close> and \<open>uuid\<close> are what \<open>randomBytes(32)\<close> and \<open>randomUUID()\<close> return.
\<close>

section \<open>The code\<close>

text \<open>A session as the service receives it: \<open>OAuthSession.gateway_session\<close> with the types of the interface.\<close>

record user_session =
  ses_subject :: jstr
  ses_tenantId :: jstr
  ses_email :: jstr
  ses_name :: "jstr option"
  ses_userVersion :: int
  ses_serviceAccessVersion :: "int option"
  ses_iamAccessToken :: "jstr option"

definition session_name :: "user_session \<Rightarrow> jstr option" where
  "session_name s = (case ses_name s of Some n \<Rightarrow> if n = [] then None else Some n | None \<Rightarrow> None)"

text \<open>The service builds its own \<open>EnsureLocalUserService\<close>; tenant, enforcement and client come from the environment.\<close>

definition apikey_ensureLocalUser :: "local_cfg \<Rightarrow> faults \<Rightarrow> int \<Rightarrow> jstr \<Rightarrow> user_session \<Rightarrow> jstr dbm" where
  "apikey_ensureLocalUser environment flt now uuid s =
     ensureLocalUser environment flt now uuid
       \<lparr>vi_tenantId = ses_tenantId s, vi_subject = ses_subject s, vi_email = ses_email s, vi_name = session_name s,
        vi_userVersion = JNum (NInt (ses_userVersion s)),
        vi_serviceAccessVersion = (case ses_serviceAccessVersion s of None \<Rightarrow> JUndef | Some v \<Rightarrow> JNum (NInt v))\<rparr>"

definition scope_error :: js_error where
  "scope_error = plain_error (S ''Requested API key scope is not granted to this user'')"

definition tool_rows :: "db \<Rightarrow> jstr \<Rightarrow> (jstr \<times> bool) list" where
  "tool_rows d userId = map (\<lambda>p. (tp_tool_pattern p, False))
     (filter (\<lambda>p. tp_user_id p = userId) (user_tool_permissions d))"

definition custom_rows :: "db \<Rightarrow> jstr \<Rightarrow> (jstr \<times> bool) list" where
  "custom_rows d userId = map (\<lambda>m. (m_tool_prefix m @ S ''.*'', True))
     (filter (\<lambda>m. m_user_id m = userId \<and> m_is_enabled m) (user_mcp_upstreams d))"

text \<open>\<open>ORDER BY tool_pattern\<close> sorts by the collation of the database, a comparator here.\<close>

definition granted_rows :: "jstr comparator \<Rightarrow> jstr \<Rightarrow> db \<Rightarrow> (jstr \<times> bool) list" where
  "granted_rows collation userId d =
     Sorting_Algorithms.sort (key fst collation) (tool_rows d userId @ custom_rows d userId)"

text \<open>\<open>[...new Set(xs)]\<close>: the first occurrence of every element.\<close>

definition set_list :: "'a list \<Rightarrow> 'a list" where
  "set_list xs = rev (remdups (rev xs))"

definition selected_patterns :: "jstr list option \<Rightarrow> (jstr \<times> bool) list \<Rightarrow> jstr list" where
  "selected_patterns requested rows = (case requested of
      Some ps \<Rightarrow> set_list ps
    | None \<Rightarrow> map fst (filter (\<lambda>r. \<not> snd r) rows))"

definition some_ungranted :: "jstr list \<Rightarrow> jstr list \<Rightarrow> bool result" where
  "some_ungranted granted selected =
     someE (\<lambda>pattern. bindE (someE (\<lambda>g. matchesToolPattern g pattern) granted) (\<lambda>b. Inr (\<not> b))) selected"

text \<open>
  The statement that stores a key, with the constraints it can violate. A text with a null
  character or an unpaired surrogate has no \<open>jsonb\<close> value.
\<close>

definition json_storable :: "jstr \<Rightarrow> bool" where
  "json_storable s \<longleftrightarrow> 0 \<notin> set s \<and> well_formed s"

definition key_error :: "string \<Rightarrow> js_error" where
  "key_error code = \<lparr>err_name = S ''error'', err_message = S ''the row cannot be stored'',
     err_code = Some (S code), err_status = None\<rparr>"

definition insert_key :: "key_row \<Rightarrow> key_row dbm" where
  "insert_key k d =
     (if list_ex (\<lambda>s. \<not> json_storable s) (k_allowed_scopes k) then (d, Inl (key_error ''22P05''))
      else if k_id k \<in> k_id ` set (api_keys d) \<or> k_key_hash k \<in> k_key_hash ` set (api_keys d)
      then (d, Inl unique_violation)
      else if k_user_id k \<notin> u_id ` set (users d) then (d, Inl (key_error ''23503''))
      else (d\<lparr>api_keys := api_keys d @ [k]\<rparr>, Inr k))"

record created_key =
  ck_plainKey :: jstr
  ck_apiKey :: key_row

definition raw_key :: "bytes \<Rightarrow> jstr" where
  "raw_key rnd = S ''tg_live_'' @ base64url rnd"

definition new_key_row :: "(jstr \<Rightarrow> jstr) \<Rightarrow> bytes \<Rightarrow> jstr \<Rightarrow> jstr \<Rightarrow> jstr \<Rightarrow> jstr list \<Rightarrow> int option \<Rightarrow> key_row" where
  "new_key_row sha_hex rnd uuid userId name patterns expires =
     \<lparr>k_id = S ''tg_key_'' @ uuid, k_user_id = userId, k_name = name, k_key_prefix = take 16 (raw_key rnd),
      k_key_hash = sha_hex (raw_key rnd), k_allowed_scopes = map (\<lambda>p. S ''tool:'' @ p) patterns,
      k_rate_limit_per_minute = 60, k_is_active = True, k_expires_at = expires\<rparr>"

text \<open>The environment of a creation: collation, digest and the reading of a timestamp by the database.\<close>

record key_env =
  ke_collation :: "jstr comparator"
  ke_sha_hex :: "jstr \<Rightarrow> jstr"
  ke_timestamp :: "jstr \<Rightarrow> int result"

definition read_expiry :: "key_env \<Rightarrow> jstr option \<Rightarrow> int option result" where
  "read_expiry K expiresAt = (case expiresAt of None \<Rightarrow> Inr None
     | Some t \<Rightarrow> bindE (ke_timestamp K t) (\<lambda>i. Inr (Some i)))"

definition apikey_create :: "key_env \<Rightarrow> bytes \<Rightarrow> jstr \<Rightarrow> faults \<Rightarrow> jstr \<Rightarrow> jstr \<Rightarrow> jstr option
    \<Rightarrow> jstr list option \<Rightarrow> created_key dbm" where
  "apikey_create K rnd uuid flt userId name expiresAt requested =
     bindQ (query flt 0 (\<lambda>d. (d, Inr (granted_rows (ke_collation K) userId d)))) (\<lambda>rows d.
       let selected = selected_patterns requested rows in
       case some_ungranted (map fst rows) selected of
         Inl e \<Rightarrow> (d, Inl e)
       | Inr True \<Rightarrow> (d, Inl scope_error)
       | Inr False \<Rightarrow>
           (case read_expiry K expiresAt of
              Inl e \<Rightarrow> (d, Inl e)
            | Inr expires \<Rightarrow>
                bindQ (query flt 1 (insert_key (new_key_row (ke_sha_hex K) rnd uuid userId name selected expires)))
                  (\<lambda>row. retQ \<lparr>ck_plainKey = raw_key rnd, ck_apiKey = row\<rparr>) d))"

text \<open>\<open>list\<close> selects every column but the owner and the hash.\<close>

record key_summary =
  ks_id :: jstr
  ks_name :: jstr
  ks_key_prefix :: jstr
  ks_allowed_scopes :: "jstr list"
  ks_is_active :: bool
  ks_expires_at :: "int option"

definition summary_of :: "key_row \<Rightarrow> key_summary" where
  "summary_of k = \<lparr>ks_id = k_id k, ks_name = k_name k, ks_key_prefix = k_key_prefix k,
     ks_allowed_scopes = k_allowed_scopes k, ks_is_active = k_is_active k, ks_expires_at = k_expires_at k\<rparr>"

definition apikey_list :: "faults \<Rightarrow> jstr \<Rightarrow> key_summary list dbm" where
  "apikey_list flt userId = query flt 0 (\<lambda>d.
     (d, Inr (rev (map summary_of (filter (\<lambda>k. k_user_id k = userId) (api_keys d))))))"

definition revocable :: "jstr \<Rightarrow> jstr \<Rightarrow> key_row \<Rightarrow> bool" where
  "revocable userId keyId k \<longleftrightarrow> k_id k = keyId \<and> k_user_id k = userId \<and> k_is_active k"

definition apikey_revoke :: "faults \<Rightarrow> faults \<Rightarrow> int \<Rightarrow> jstr \<Rightarrow> jstr \<Rightarrow> db \<times> redis \<Rightarrow> (db \<times> redis) \<times> bool result" where
  "apikey_revoke flt rflt now userId keyId s = (case s of (d, r) \<Rightarrow>
     case flt 0 of
       Some e \<Rightarrow> ((d, r), Inl e)
     | None \<Rightarrow>
         if list_ex (revocable userId keyId) (api_keys d)
         then let d' = d\<lparr>api_keys := map (\<lambda>k. if revocable userId keyId k then k\<lparr>k_is_active := False\<rparr> else k) (api_keys d)\<rparr>
           in (case invalidateUser rflt now userId r of
                 (r', Inl e) \<Rightarrow> ((d', r'), Inl e)
               | (r', Inr _) \<Rightarrow> ((d', r'), Inr True))
         else ((d, r), Inr False))"

text \<open>The patterns that \<open>permissions\<close> reports; the rows of the service table pass through it unread.\<close>

definition apikey_permissions :: "key_env \<Rightarrow> jstr \<Rightarrow> db \<Rightarrow> jstr list \<times> jstr list" where
  "apikey_permissions K userId d =
     (Sorting_Algorithms.sort (ke_collation K) (map fst (tool_rows d userId)),
      map (\<lambda>p. p @ S ''.*'') (Sorting_Algorithms.sort (ke_collation K)
        (map m_tool_prefix (filter (\<lambda>m. m_user_id m = userId \<and> m_is_enabled m) (user_mcp_upstreams d)))))"

section \<open>Scopes\<close>

lemma set_granted_rows: "set (granted_rows collation userId d) = set (tool_rows d userId) \<union> set (custom_rows d userId)"
  by (simp add: granted_rows_def)

lemma scope_patterns_tool [simp]: "scope_patterns (map (\<lambda>p. S ''tool:'' @ p) ps) = ps"
proof -
  have "filter (\<lambda>s. startsWith s (S ''tool:'')) (map (\<lambda>p. S ''tool:'' @ p) ps) = map (\<lambda>p. S ''tool:'' @ p) ps"
    by (simp add: filter_id_conv)
  moreover have "slice_from (S ''tool:'' @ p) 5 = p" for p by (simp add: slice_from_def S_def)
  ultimately show ?thesis by (simp add: scope_patterns_def comp_def)
qed

lemma some_ungranted_False:
  assumes "some_ungranted granted selected = Inr False" and "any_glob selected t"
  shows "any_glob granted t"
proof -
  from assms(2) obtain p where p: "p \<in> set selected" "glob_match p t" by (auto simp: any_glob_def)
  with assms(1) have "someE (\<lambda>g. matchesToolPattern g p) granted = Inr True"
    by (auto simp: some_ungranted_def someE_False bindE_Inr_iff)
  then obtain g where "g \<in> set granted" "matchesToolPattern g p = Inr True" by (auto dest: someE_True)
  then have "g \<in> set granted" "glob_match g p" by (auto simp: matchesToolPattern_Inr_iff)
  with p show ?thesis using glob_containment unfolding any_glob_def by blast
qed

lemma apikey_create_Inr:
  assumes "apikey_create K rnd uuid flt userId name expiresAt requested d = (d', Inr ck)"
  obtains rows expires where "rows = granted_rows (ke_collation K) userId d"
    "some_ungranted (map fst rows) (selected_patterns requested rows) = Inr False"
    "ck_plainKey ck = raw_key rnd"
    "ck_apiKey ck = new_key_row (ke_sha_hex K) rnd uuid userId name (selected_patterns requested rows) expires"
    "read_expiry K expiresAt = Inr expires"
    "d' = d\<lparr>api_keys := api_keys d @ [ck_apiKey ck]\<rparr>"
    "k_key_hash (ck_apiKey ck) \<notin> k_key_hash ` set (api_keys d)" "k_id (ck_apiKey ck) \<notin> k_id ` set (api_keys d)"
    "userId \<in> u_id ` set (users d)"
proof -
  let ?rows = "granted_rows (ke_collation K) userId d"
  let ?sel = "selected_patterns requested ?rows"
  from assms have chk: "some_ungranted (map fst ?rows) ?sel = Inr False"
    by (auto simp: apikey_create_def Let_def dbm_iff split: sum.splits bool.splits)
  with assms obtain expires where e: "read_expiry K expiresAt = Inr expires"
    by (auto simp: apikey_create_def Let_def dbm_iff split: sum.splits)
  let ?k = "new_key_row (ke_sha_hex K) rnd uuid userId name ?sel expires"
  from assms chk e have ins: "insert_key ?k d = (d', Inr ?k)" and ck: "ck = \<lparr>ck_plainKey = raw_key rnd, ck_apiKey = ?k\<rparr>"
    by (auto simp: apikey_create_def Let_def dbm_iff insert_key_def split: if_splits)
  from ins have "d' = d\<lparr>api_keys := api_keys d @ [?k]\<rparr>" "k_key_hash ?k \<notin> k_key_hash ` set (api_keys d)"
    "k_id ?k \<notin> k_id ` set (api_keys d)" "userId \<in> u_id ` set (users d)"
    by (auto simp: insert_key_def new_key_row_def split: if_splits)
  with that [OF refl chk] ck e show thesis by simp
qed

text \<open>
  C15. A new key never reaches further than its owner: every tool name that its scopes match is
  matched by a tool permission or an enabled custom upstream of the owner, for wildcard requests
  too, and a key for which nothing was requested has no access to a custom upstream beyond the
  tool permissions. Nothing but the key's own row is added.
\<close>

theorem created_key_scopes:
  assumes "apikey_create K rnd uuid flt userId name expiresAt requested d = (d', Inr ck)"
    and "any_glob (scope_patterns (k_allowed_scopes (ck_apiKey ck))) t"
  shows "any_glob (map fst (tool_rows d userId @ custom_rows d userId)) t
    \<and> (requested = None \<longrightarrow> any_glob (map fst (tool_rows d userId)) t)
    \<and> d' = d\<lparr>api_keys := api_keys d @ [ck_apiKey ck]\<rparr> \<and> k_user_id (ck_apiKey ck) = userId"
  using assms(1)
proof (cases rule: apikey_create_Inr)
  case (1 rows expires)
  have sel: "any_glob (selected_patterns requested rows) t" using assms(2) 1(4) by (simp add: new_key_row_def)
  have "any_glob (map fst rows) t" by (rule some_ungranted_False [OF 1(2) sel])
  then have all: "any_glob (map fst (tool_rows d userId @ custom_rows d userId)) t"
    unfolding 1(1) any_glob_def by (simp add: set_granted_rows bex_Un)
  have "any_glob (map fst (tool_rows d userId)) t" if "requested = None"
  proof -
    from that sel obtain p where "(p, False) \<in> set rows" "glob_match p t"
      by (auto simp: selected_patterns_def any_glob_def)
    then have "(p, False) \<in> set (tool_rows d userId)"
      unfolding 1(1) set_granted_rows by (auto simp: custom_rows_def)
    then have "p \<in> set (map fst (tool_rows d userId))" by force
    with \<open>glob_match p t\<close> show ?thesis unfolding any_glob_def by blast
  qed
  with all 1 show ?thesis by (simp add: new_key_row_def)
qed

section \<open>The life of a key\<close>

text \<open>What makes the owner of a key usable, as \<open>verify\<close> checks it.\<close>

definition owner_usable :: "verifier_cfg \<Rightarrow> int \<Rightarrow> db \<Rightarrow> user_row \<Rightarrow> bool" where
  "owner_usable cfg now d u \<longleftrightarrow> u_is_active u \<and> u_lifecycle_status u = ACTIVE \<and> healthy now (lifecycle_last_seen d)
     \<and> (v_enforcement cfg \<longrightarrow> healthy now (access_last_seen d) \<and> \<not> access_blocked d (v_clientId cfg) u)"

lemma rows_of_hash:
  assumes "\<And>k'. k' \<in> set (api_keys d) \<Longrightarrow> k_key_hash k' \<noteq> h"
  shows "verify_rows cfg now pref h (d\<lparr>api_keys := api_keys d @ [k]\<rparr>)
    = map (principal_of (d\<lparr>api_keys := api_keys d @ [k]\<rparr>) k)
        (filter (key_usable cfg now (d\<lparr>api_keys := api_keys d @ [k]\<rparr>) pref h k) (users d))"
proof -
  have "filter (key_usable cfg now d0 pref h k') (users d) = []" if "k' \<in> set (api_keys d)" for k' d0
    using assms [OF that] by (simp add: filter_empty_conv key_usable_def)
  then have "concat (map (\<lambda>k'. map (principal_of d0 k') (filter (key_usable cfg now d0 pref h k') (users d))) (api_keys d)) = []" for d0
    by simp
  then show ?thesis unfolding verify_rows_def by (simp del: concat_eq_Nil_conv)
qed

lemma b64_groups_length: "length bs \<le> length (b64_groups sy [] bs)"
  by (induction bs rule: triple_induct) auto

lemma raw_key_ok: "length rnd = 32 \<Longrightarrow> well_formed_key (raw_key rnd)"
  using b64_groups_length [of rnd "b64_symbol 45 95"] by (simp add: well_formed_key_def raw_key_def base64url_def)

lemma apikey_revoke_ok:
  assumes "cache_inv now r" and "revocable userId keyId k" and "k \<in> set (api_keys d)"
  obtains r' where "apikey_revoke no_faults no_faults now userId keyId (d, r) =
      ((d\<lparr>api_keys := map (\<lambda>k. if revocable userId keyId k then k\<lparr>k_is_active := False\<rparr> else k) (api_keys d)\<rparr>, r'), Inr True)"
    and "\<And>h v. live now r' (cache_key h) = Some v \<Longrightarrow>
           live now r (cache_key h) = Some v \<and> (\<exists>p. v = RPrincipal p \<and> p_userId p \<noteq> userId)"
proof -
  obtain r' where "invalidateUser no_faults now userId r = (r', Inr ())"
    and "\<And>h v. live now r' (cache_key h) = Some v \<Longrightarrow>
           live now r (cache_key h) = Some v \<and> (\<exists>p. v = RPrincipal p \<and> p_userId p \<noteq> userId)"
    by (rule invalidate_shape [OF assms(1), of userId]) (rule that; blast)
  moreover from assms(2,3) have "list_ex (revocable userId keyId) (api_keys d)" by (auto simp: list_ex_iff)
  ultimately show thesis using that by (simp add: apikey_revoke_def no_faults_def Let_def)
qed

lemma access_blocked_keys [simp]: "access_blocked (d\<lparr>api_keys := ks\<rparr>) cl u = access_blocked d cl u"
  by (simp add: access_blocked_def split: option.split)

lemma verify_none:
  assumes "live now r (cache_key (sha_hex rawKey)) = None" and "verify_rows cfg now (take 16 rawKey) (sha_hex rawKey) d = []"
  shows "verify cfg sha_hex no_faults now rawKey d r = (r, Inr None)"
  using assms by (simp add: verify_def Let_def no_faults_def cached_principal_def)

text \<open>
  C8. The plain key that a creation returns verifies: as long as its owner is usable, \<open>verify\<close>
  answers with the owner and exactly the scopes of the new row, and caches it. Once the owner has
  revoked it, \<open>verify\<close> refuses it at that time and at every later time, cached or not.
\<close>

theorem created_key_verifies_until_revoked:
  assumes create: "apikey_create K rnd uuid flt userId name None requested d = (d1, Inr ck)" and rnd: "length rnd = 32"
    and ok: "db_ok d" and u: "u \<in> set (users d)" "u_id u = userId" "owner_usable cfg now d u"
    and inv: "cache_inv now r" "live now r (cache_key (ke_sha_hex K (ck_plainKey ck))) = None"
  shows "\<exists>r1 d2 r2 p. verify cfg (ke_sha_hex K) no_faults now (ck_plainKey ck) d1 r = (r1, Inr (Some p))
     \<and> p_userId p = userId \<and> p_apiKeyId p = Some (k_id (ck_apiKey ck)) \<and> p_scopes p = k_allowed_scopes (ck_apiKey ck)
     \<and> apikey_revoke no_faults no_faults now userId (k_id (ck_apiKey ck)) (d1, r1) = ((d2, r2), Inr True)
     \<and> (\<forall>t \<ge> now. verify cfg (ke_sha_hex K) no_faults t (ck_plainKey ck) d2 r2 = (r2, Inr None))"
  using create
proof (cases rule: apikey_create_Inr)
  case (1 rows expires)
  let ?k = "ck_apiKey ck" and ?raw = "raw_key rnd"
  let ?h = "ke_sha_hex K ?raw"
  have k: "k_user_id ?k = userId" "k_key_prefix ?k = take 16 ?raw" "k_key_hash ?k = ?h" "k_is_active ?k" "k_expires_at ?k = None"
    using 1(4,5) by (simp_all add: new_key_row_def read_expiry_def)
  have d1: "d1 = d\<lparr>api_keys := api_keys d @ [?k]\<rparr>" by (rule 1(6))
  have fresh: "k_key_hash k' \<noteq> ?h" if "k' \<in> set (api_keys d)" for k' using 1(7) that k(3) by (metis imageI)
  have usable: "key_usable cfg now d1 (take 16 ?raw) ?h ?k u"
    using u(2,3) k by (simp add: key_usable_def owner_usable_def d1)
  have "filter (key_usable cfg now d1 (take 16 ?raw) ?h ?k) (users d) = [u]"
    by (rule filter_unique [where f = u_id]) (use ok u usable in \<open>auto simp: db_ok_def key_usable_def\<close>)
  then have rows: "verify_rows cfg now (take 16 ?raw) ?h d1 = [principal_of d1 ?k u]"
    unfolding d1 by (subst rows_of_hash [OF fresh]) simp_all
  obtain r1 where v: "verify cfg (ke_sha_hex K) no_faults now ?raw d1 r = (r1, Inr (Some (principal_of d1 ?k u)))"
    and inv1: "cache_inv now r1"
    and c: "verify cfg (ke_sha_hex K) no_faults now ?raw d1 r1 = (r1, Inr (Some (principal_of d1 ?k u)))"
    using verify_keeps_cache_lemma [where sha_hex = "ke_sha_hex K" and key = ?raw, OF inv(1) raw_key_ok [OF rnd] inv(2) [unfolded 1(3)] rows] by auto
  have rev: "revocable userId (k_id ?k) ?k" using k by (simp add: revocable_def)
  have mem: "?k \<in> set (api_keys d1)" by (simp add: d1)
  obtain r2 where r2: "apikey_revoke no_faults no_faults now userId (k_id ?k) (d1, r1) =
      ((d1\<lparr>api_keys := map (\<lambda>k. if revocable userId (k_id ?k) k then k\<lparr>k_is_active := False\<rparr> else k) (api_keys d1)\<rparr>, r2), Inr True)"
    and gone: "\<And>h v. live now r2 (cache_key h) = Some v \<Longrightarrow>
           live now r1 (cache_key h) = Some v \<and> (\<exists>p. v = RPrincipal p \<and> p_userId p \<noteq> userId)"
    by (rule apikey_revoke_ok [OF inv1 rev mem]) (rule that; blast)
  define d2 where "d2 = d1\<lparr>api_keys := map (\<lambda>k. if revocable userId (k_id ?k) k then k\<lparr>k_is_active := False\<rparr> else k) (api_keys d1)\<rparr>"
  have inactive: "\<not> k_is_active k'" if "k' \<in> set (api_keys d2)" "k_key_hash k' = ?h" for k'
    using that fresh rev by (auto simp: d2_def d1 split: if_splits)
  have "verify cfg (ke_sha_hex K) no_faults t ?raw d2 r2 = (r2, Inr None)" if le: "now \<le> t" for t
  proof (rule verify_none)
    show "verify_rows cfg t (take 16 ?raw) ?h d2 = []"
      using inactive by (auto simp: verify_rows_def filter_empty_conv key_usable_def)
    show "live t r2 (cache_key ?h) = None"
    proof (rule ccontr)
      assume "live t r2 (cache_key ?h) \<noteq> None"
      then obtain v where "live now r2 (cache_key ?h) = Some v" using live_later [OF _ le] by auto
      with gone obtain p where p: "live now r1 (cache_key ?h) = Some (RPrincipal p)" "p_userId p \<noteq> userId" by blast
      with c raw_key_ok [OF rnd] have "p = principal_of d1 ?k u"
        by (simp add: verify_def Let_def no_faults_def cached_principal_def)
      with p(2) u(2) show False by (simp add: principal_of_def)
    qed
  qed
  with v r2 u(2) show ?thesis
    unfolding 1(3) d2_def by (intro exI [of _ r1] exI [of _ d2] exI [of _ r2] exI [of _ "principal_of d1 ?k u"])
      (simp add: principal_of_def d2_def)
qed

section \<open>Concrete inputs\<close>

definition demo_keys :: key_env where
  "demo_keys = \<lparr>ke_collation = key length default, ke_sha_hex = id, ke_timestamp = (\<lambda>_. Inr 0)\<rparr>"

definition demo_rnd :: bytes where
  "demo_rnd = replicate 32 7"

definition demo_request :: "jstr list option" where
  "demo_request = Some [S ''jira.get*'']"

definition demo_ck :: created_key where
  "demo_ck = \<lparr>ck_plainKey = raw_key demo_rnd,
     ck_apiKey = new_key_row id demo_rnd (S ''x'') (S ''u1'') (S ''n'') [S ''jira.get*''] None\<rparr>"

lemma demo_created:
  "apikey_create demo_keys demo_rnd (S ''x'') no_faults (S ''u1'') (S ''n'') None demo_request demo_db
     = (demo_db\<lparr>api_keys := api_keys demo_db @ [ck_apiKey demo_ck]\<rparr>, Inr demo_ck)"
proof -
  have rows: "granted_rows (ke_collation demo_keys) (S ''u1'') demo_db = [(S ''jira.*'', False)]"
    by (simp add: granted_rows_def tool_rows_def custom_rows_def demo_db_def)
  have "matchesToolPattern (S ''jira.*'') (S ''jira.get*'') = Inr True"
    by (subst matchesToolPattern_valid) (simp_all add: valid_pattern_def js_eval is_line_term_def)
  then have chk: "some_ungranted [S ''jira.*''] [S ''jira.get*''] = Inr False" by (simp add: some_ungranted_def)
  have len: "40 \<le> length (raw_key demo_rnd)"
    using b64_groups_length [of demo_rnd "b64_symbol 45 95"] by (simp add: raw_key_def base64url_def demo_rnd_def)
  have ne: "raw_key demo_rnd \<noteq> demo_key"
  proof
    assume "raw_key demo_rnd = demo_key"
    with len show False by (simp add: demo_key_def)
  qed
  have "json_storable (S ''tool:jira.get*'')" by (simp add: json_storable_def S_def hi_surrogate_def lo_surrogate_def)
  then have ins: "insert_key (ck_apiKey demo_ck) demo_db = (demo_db\<lparr>api_keys := api_keys demo_db @ [ck_apiKey demo_ck]\<rparr>, Inr (ck_apiKey demo_ck))"
    using ne by (simp add: insert_key_def demo_ck_def new_key_row_def demo_db_def S_append [symmetric] del: S_append)
  have sel: "selected_patterns demo_request rows = [S ''jira.get*'']" for rows
    by (simp add: selected_patterns_def demo_request_def set_list_def)
  have env: "ke_sha_hex demo_keys = id" by (simp add: demo_keys_def)
  show ?thesis using ins
    by (simp add: apikey_create_def rows bindQ_def retQ_def read_expiry_def sel env chk demo_ck_def Let_def)
qed

theorem created_key_scopes_witness:
  "any_glob (scope_patterns (k_allowed_scopes (ck_apiKey demo_ck))) (S ''jira.get_issue'')
     \<and> any_glob (map fst (tool_rows demo_db (S ''u1'') @ custom_rows demo_db (S ''u1''))) (S ''jira.get_issue'')"
proof -
  have "any_glob (scope_patterns (k_allowed_scopes (ck_apiKey demo_ck))) (S ''jira.get_issue'')"
    by (simp add: demo_ck_def new_key_row_def any_glob_def scope_patterns_def slice_from_def startsWith_def S_def is_line_term_def)
  with created_key_scopes [OF demo_created this] show ?thesis by simp
qed

theorem created_key_verifies_until_revoked_witness:
  "\<exists>r1 d2 r2 p. verify demo_cfg id no_faults 0 (raw_key demo_rnd)
       (demo_db\<lparr>api_keys := api_keys demo_db @ [ck_apiKey demo_ck]\<rparr>) (\<lambda>_. None) = (r1, Inr (Some p))
     \<and> p_scopes p = [S ''tool:jira.get*''] \<and> verify demo_cfg id no_faults 1000 (raw_key demo_rnd) d2 r2 = (r2, Inr None)"
proof -
  have ok: "db_ok demo_db" by (simp add: db_ok_def demo_db_def unique_identities_def external_identity_def)
  have u: "hd (users demo_db) \<in> set (users demo_db)" "u_id (hd (users demo_db)) = S ''u1''"
    "owner_usable demo_cfg 0 demo_db (hd (users demo_db))"
    by (simp_all add: demo_db_def owner_usable_def healthy_def demo_cfg_def access_blocked_def)
  have rnd: "length demo_rnd = 32" by (simp add: demo_rnd_def)
  have ck: "ck_plainKey demo_ck = raw_key demo_rnd" "k_allowed_scopes (ck_apiKey demo_ck) = [S ''tool:jira.get*'']" "ke_sha_hex demo_keys = id"
    by (simp_all add: demo_ck_def new_key_row_def demo_keys_def S_append [symmetric] del: S_append)
  have none: "live 0 (\<lambda>_. None) (cache_key (ke_sha_hex demo_keys (ck_plainKey demo_ck))) = None" by (simp add: live_def)
  from created_key_verifies_until_revoked [OF demo_created rnd ok u cache_inv_empty none] ck show ?thesis
    by (metis le_numeral_extra(3) zero_le_numeral)
qed

end
