(* ===== verification/Startup.thy ===== *)
theory Startup
  imports Db
begin

text \<open>
  Initialisation of the database at the start of a replica (\<open>src/database/initializeDatabase.ts\<close>,
  the list of \<open>src/database/migrations.ts\<close>): the migrations that are not recorded yet, each in its
  own transaction, then the seed of the administrator, all under an advisory lock, which makes the
  starts of several replicas a sequence. The effect of a migration's SQL text on the schema is the
  parameter \<open>exec\<close>; a fault oracle says which statements fail.
\<close>

section \<open>The code\<close>

record migration =
  mg_version :: int
  mg_name :: string

definition migrations :: "migration list" where
  "migrations = map (\<lambda>(v, n). \<lparr>mg_version = v, mg_name = n\<rparr>)
     [(1, ''saas_core_tables''), (2, ''tool_level_permissions''),
      (3, ''add_cost_and_capacity_metrics_to_tool_usage_logs''), (4, ''tool_semantic_search_and_embeddings''),
      (5, ''add_r2_audit_archive_tracking''), (6, ''add_request_id_tracing_to_tool_usage_logs''),
      (7, ''add_security_violation_status_to_tool_usage_logs''), (8, ''retire_legacy_sse_custom_upstreams''),
      (9, ''add_tenant_user_lifecycle_identity''), (10, ''add_iam_user_lifecycle_inbox''),
      (11, ''add_iam_lifecycle_consumer_health''), (12, ''add_iam_user_service_access_inbox''),
      (13, ''daemon_management_reports''), (14, ''daemon_management_jobs''), (15, ''daemon_management_job_results'')]"

text \<open>The statements of a start; those of a migration carry its version.\<close>

datatype statement = Connect | Lock | Create_table | Read_versions | Begin int | Sql int | Record int | Commit int
  | Rollback int | Seed_user | Seed_check | Seed_permissions | Ping | Unlock

type_synonym outages = "statement \<Rightarrow> js_error option"

text \<open>The schema, the table \<open>schema_migrations\<close> (none before the first start) and the rows of the seeded tables.\<close>

record 'sch pg =
  pg_schema :: 'sch
  pg_applied :: "(int \<times> jstr) list option"
  pg_db :: db

type_synonym ('sch, 'a) pgm = "('sch pg, js_error, 'a) stm"

definition run_sql :: "(migration \<Rightarrow> 'sch \<Rightarrow> 'sch result) \<Rightarrow> migration \<Rightarrow> ('sch, unit) pgm" where
  "run_sql exec m s = (case exec m (pg_schema s) of Inl e \<Rightarrow> (s, Inl e) | Inr sch \<Rightarrow> (s\<lparr>pg_schema := sch\<rparr>, Inr ()))"

definition applied :: "'sch pg \<Rightarrow> (int \<times> jstr) list" where
  "applied s = (case pg_applied s of None \<Rightarrow> [] | Some rows \<Rightarrow> rows)"

definition record_version :: "migration \<Rightarrow> ('sch, unit) pgm" where
  "record_version m s =
     (if mg_version m \<in> fst ` set (applied s) then (s, Inl unique_violation)
      else (s\<lparr>pg_applied := Some (applied s @ [(mg_version m, S (mg_name m))])\<rparr>, Inr ()))"

definition applyMigration :: "(migration \<Rightarrow> 'sch \<Rightarrow> 'sch result) \<Rightarrow> outages \<Rightarrow> migration \<Rightarrow> ('sch, unit) pgm" where
  "applyMigration exec flt m s =
     (let v = mg_version m in
      case flt (Begin v) of
        Some e \<Rightarrow> (s, Inl e)
      | None \<Rightarrow>
          (case bindQ (query flt (Sql v) (run_sql exec m)) (\<lambda>_.
                bindQ (query flt (Record v) (record_version m)) (\<lambda>_.
                  query flt (Commit v) (retQ ()))) s of
             (s', Inr _) \<Rightarrow> (s', Inr ())
           | (_, Inl e) \<Rightarrow> (s, Inl (case flt (Rollback v) of None \<Rightarrow> e | Some e' \<Rightarrow> e'))))"

fun migrate :: "(migration \<Rightarrow> 'sch \<Rightarrow> 'sch result) \<Rightarrow> outages \<Rightarrow> int set \<Rightarrow> migration list \<Rightarrow> ('sch, unit) pgm" where
  "migrate exec flt versions [] s = (s, Inr ())"
| "migrate exec flt versions (m # ms) s =
     (if mg_version m \<in> versions then migrate exec flt versions ms s
      else bindQ (applyMigration exec flt m) (\<lambda>_. migrate exec flt versions ms) s)"

definition create_versions :: "('sch, unit) pgm" where
  "create_versions s = (s\<lparr>pg_applied := Some (applied s)\<rparr>, Inr ())"

definition admin_email :: jstr where
  "admin_email = S ''admin@snappytory.com''"

definition admin_row :: user_row where
  "admin_row = \<lparr>u_id = S ''tg_usr_initial_admin'', u_email = admin_email, u_name = S ''Tools Gateway Administrator'',
     u_system_role = S ''ADMIN'', u_external_provider = Some (S ''local''),
     u_external_subject_id = Some (S ''initial-admin''), u_is_active = True, u_tenant_id = S ''ten_9664c024babc4110'',
     u_lifecycle_status = ACTIVE, u_user_version = 1\<rparr>"

text \<open>\<open>ON CONFLICT DO NOTHING\<close> without a target: any of the three unique constraints.\<close>

definition seed_user :: "('sch, unit) pgm" where
  "seed_user s = (case store_users (users (pg_db s) @ [admin_row]) (pg_db s) of
      (d, Inr _) \<Rightarrow> (s\<lparr>pg_db := d\<rparr>, Inr ()) | (_, Inl _) \<Rightarrow> (s, Inr ()))"

definition admin_roles :: "('sch, jstr list) pgm" where
  "admin_roles s = (s, Inr (map u_system_role (filter (\<lambda>u. u_email u = admin_email) (users (pg_db s)))))"

definition admin_permissions :: "permission_row list" where
  "admin_permissions = map (\<lambda>(i, p). \<lparr>tp_id = S i, tp_user_id = S ''tg_usr_initial_admin'', tp_tool_pattern = S p\<rparr>)
     [(''tg_perm_admin_knowledge'', ''knowledge.*''), (''tg_perm_admin_context7'', ''context7.*'')]"

definition foreign_key_violation :: js_error where
  "foreign_key_violation = \<lparr>err_name = S ''error'', err_message = S ''insert violates foreign key constraint'',
     err_code = Some (S ''23503''), err_status = None\<rparr>"

text \<open>
  \<open>ON CONFLICT (user_id, tool_pattern) DO NOTHING\<close> skips the pairs that are there; a row whose identifier is
  taken violates the primary key, and a missing user the foreign key.
\<close>

definition permission_pair :: "permission_row \<Rightarrow> jstr \<times> jstr" where
  "permission_pair p = (tp_user_id p, tp_tool_pattern p)"

definition missing_permissions :: "db \<Rightarrow> permission_row list" where
  "missing_permissions d = filter (\<lambda>p. permission_pair p \<notin> permission_pair ` set (user_tool_permissions d)) admin_permissions"

definition seed_permissions :: "('sch, unit) pgm" where
  "seed_permissions s =
     (let d = pg_db s; fresh = missing_permissions d in
      if \<exists>p \<in> set fresh. tp_id p \<in> tp_id ` set (user_tool_permissions d) then (s, Inl unique_violation)
      else if fresh \<noteq> [] \<and> S ''tg_usr_initial_admin'' \<notin> u_id ` set (users d) then (s, Inl foreign_key_violation)
      else (s\<lparr>pg_db := d\<lparr>user_tool_permissions := user_tool_permissions d @ fresh\<rparr>\<rparr>, Inr ()))"

definition seedAdministrator :: "outages \<Rightarrow> ('sch, unit) pgm" where
  "seedAdministrator flt =
     bindQ (query flt Seed_user seed_user) (\<lambda>_.
     bindQ (query flt Seed_check admin_roles) (\<lambda>roles.
       if roles = [] \<or> hd roles \<noteq> S ''ADMIN''
       then (\<lambda>s. (s, Inl (plain_error (S ''initial administrator seed conflicts with a non-admin user''))))
       else query flt Seed_permissions seed_permissions))"

definition initialize_body :: "(migration \<Rightarrow> 'sch \<Rightarrow> 'sch result) \<Rightarrow> outages \<Rightarrow> ('sch, unit) pgm" where
  "initialize_body exec flt =
     bindQ (query flt Lock (retQ ())) (\<lambda>_.
     bindQ (query flt Create_table create_versions) (\<lambda>_.
     bindQ (query flt Read_versions (\<lambda>s. (s, Inr (fst ` set (applied s))))) (\<lambda>versions.
     bindQ (migrate exec flt versions migrations) (\<lambda>_.
     bindQ (seedAdministrator flt) (\<lambda>_.
       query flt Ping (retQ ()))))))"

text \<open>\<open>finally\<close>: an error of the unlock replaces the outcome.\<close>

definition initializeDatabase :: "(migration \<Rightarrow> 'sch \<Rightarrow> 'sch result) \<Rightarrow> outages \<Rightarrow> ('sch, unit) pgm" where
  "initializeDatabase exec flt s =
     (case flt Connect of
        Some e \<Rightarrow> (s, Inl e)
      | None \<Rightarrow> (case initialize_body exec flt s of (s', r) \<Rightarrow>
          (s', case flt Unlock of None \<Rightarrow> r | Some e \<Rightarrow> Inl e)))"

section \<open>What the schema is after any number of starts\<close>

lemma bindQ_create: "bindQ create_versions h s = h () (s\<lparr>pg_applied := Some (applied s)\<rparr>)"
  by (simp add: bindQ_def create_versions_def)

lemma distinct_versions: "distinct (map mg_version migrations)"
  by (simp add: migrations_def)

definition recorded :: "migration \<Rightarrow> int \<times> jstr" where
  "recorded m = (mg_version m, S (mg_name m))"

text \<open>
  The first \<open>n\<close> migrations, and only these, were executed on \<open>sch0\<close>, once each and in order, and
  are recorded.
\<close>

definition schema_at :: "(migration \<Rightarrow> 'sch \<Rightarrow> 'sch result) \<Rightarrow> 'sch \<Rightarrow> nat \<Rightarrow> 'sch pg \<Rightarrow> bool" where
  "schema_at exec sch0 n s \<longleftrightarrow> n \<le> length migrations \<and> applied s = map recorded (take n migrations)
     \<and> for_each exec (take n migrations) sch0 = Inr (pg_schema s)"

lemma applyMigration_cases:
  assumes "applyMigration exec flt m s = (s', r)"
  obtains e where "s' = s" "r = Inl e"
  | sch where "exec m (pg_schema s) = Inr sch" "mg_version m \<notin> fst ` set (applied s)" "r = Inr ()"
      "s' = s\<lparr>pg_schema := sch, pg_applied := Some (applied s @ [recorded m])\<rparr>"
      "flt (Begin (mg_version m)) = None"
proof (cases r)
  case (Inl e)
  with assms that(1) show thesis
    by (auto simp: applyMigration_def Let_def split: option.splits prod.splits sum.splits)
next
  case (Inr x)
  with assms that(2) show thesis
    by (auto simp: applyMigration_def Let_def bindQ_def query_def run_sql_def record_version_def retQ_def recorded_def
      applied_def split: option.splits prod.splits sum.splits if_splits)
qed

lemma migrate_skip:
  "\<forall>m \<in> set ms. mg_version m \<in> V \<Longrightarrow> migrate exec flt V (ms @ ns) s = migrate exec flt V ns s"
  by (induction ms) auto

lemma for_each_snoc: "for_each f (xs @ [x]) s = bindE (for_each f xs s) (f x)"
  unfolding for_each_append by (simp add: bindE_def split: sum.split)

lemma schema_at_next:
  assumes "schema_at exec sch0 n s" and "n < length migrations" and "exec (migrations ! n) (pg_schema s) = Inr sch"
  shows "schema_at exec sch0 (Suc n) (s\<lparr>pg_schema := sch, pg_applied := Some (applied s @ [recorded (migrations ! n)])\<rparr>)"
  using assms by (simp add: schema_at_def applied_def take_Suc_conv_app_nth for_each_snoc del: take_Suc)

lemma migrate_suffix:
  assumes "schema_at exec sch0 n s" and "\<forall>m \<in> set (drop n migrations). mg_version m \<notin> V"
    and "migrate exec flt V (drop n migrations) s = (s', r)"
  shows "\<exists>n'. n \<le> n' \<and> schema_at exec sch0 n' s' \<and> pg_db s' = pg_db s \<and> (r = Inr () \<longrightarrow> n' = length migrations)"
  using assms
proof (induction "length migrations - n" arbitrary: n s)
  case 0
  then show ?case by (auto simp: schema_at_def)
next
  case (Suc k)
  then have n: "n < length migrations" by simp
  then have d: "drop n migrations = migrations ! n # drop (Suc n) migrations" by (simp add: Cons_nth_drop_Suc)
  with Suc.prems(2,3) have "bindQ (applyMigration exec flt (migrations ! n)) (\<lambda>_. migrate exec flt V (drop (Suc n) migrations)) s = (s', r)"
    by simp
  then show ?case
  proof (cases rule: bindQ_cases)
    case (1 e)
    from 1(1) have "s' = s" by (cases rule: applyMigration_cases) auto
    with 1 Suc.prems(1) show ?thesis by auto
  next
    case (2 s1 x)
    from 2(1) obtain sch where sch: "exec (migrations ! n) (pg_schema s) = Inr sch"
      "s1 = s\<lparr>pg_schema := sch, pg_applied := Some (applied s @ [recorded (migrations ! n)])\<rparr>"
      by (cases rule: applyMigration_cases) auto
    have "schema_at exec sch0 (Suc n) s1" unfolding sch(2) by (rule schema_at_next [OF Suc.prems(1) n sch(1)])
    moreover have "\<forall>m \<in> set (drop (Suc n) migrations). mg_version m \<notin> V" using Suc.prems(2) d by simp
    moreover have "k = length migrations - Suc n" using Suc.hyps(2) by simp
    ultimately obtain n' where "Suc n \<le> n'" "schema_at exec sch0 n' s'" "pg_db s' = pg_db s1" "r = Inr () \<longrightarrow> n' = length migrations"
      using Suc.hyps(1) 2(2) by blast
    then show ?thesis using sch(2) by (intro exI [of _ n']) simp
  qed
qed

lemma version_parts:
  assumes "applied s = map recorded (take n migrations)"
  shows "\<forall>m \<in> set (take n migrations). mg_version m \<in> fst ` set (applied s)"
    "\<forall>m \<in> set (drop n migrations). mg_version m \<notin> fst ` set (applied s)"
proof -
  have a: "fst ` set (applied s) = mg_version ` set (take n migrations)"
    unfolding assms by (auto simp: recorded_def image_iff)
  then show "\<forall>m \<in> set (take n migrations). mg_version m \<in> fst ` set (applied s)" by auto
  have "distinct (map mg_version (take n migrations @ drop n migrations))" using distinct_versions by simp
  then show "\<forall>m \<in> set (drop n migrations). mg_version m \<notin> fst ` set (applied s)"
    unfolding a map_append distinct_append by auto
qed

lemma migrate_schema:
  assumes "schema_at exec sch0 n s" and "migrate exec flt (fst ` set (applied s)) migrations s = (s', r)"
  shows "\<exists>n'. n \<le> n' \<and> schema_at exec sch0 n' s' \<and> pg_db s' = pg_db s \<and> (r = Inr () \<longrightarrow> n' = length migrations)"
proof -
  have a: "applied s = map recorded (take n migrations)" using assms(1) by (simp add: schema_at_def)
  have "migrate exec flt (fst ` set (applied s)) (drop n migrations) s = (s', r)"
    using assms(2) migrate_skip [OF version_parts(1) [OF a], of exec flt "drop n migrations" s] by simp
  then show ?thesis by (rule migrate_suffix [OF assms(1) version_parts(2) [OF a]])
qed

lemma seed_keeps_schema:
  assumes "seedAdministrator flt s = (s', r)"
  shows "pg_schema s' = pg_schema s \<and> pg_applied s' = pg_applied s"
  using assms
  by (auto simp: seedAdministrator_def bindQ_def query_def seed_user_def admin_roles_def seed_permissions_def Let_def
    split: prod.splits sum.splits option.splits if_splits)

lemma schema_at_cong: "pg_schema s' = pg_schema s \<Longrightarrow> applied s' = applied s \<Longrightarrow> schema_at exec sch0 n s' = schema_at exec sch0 n s"
  by (simp add: schema_at_def)

lemma body_schema:
  assumes at: "schema_at exec sch0 n s" and "initialize_body exec flt s = (s', r)"
  shows "\<exists>n'. n \<le> n' \<and> schema_at exec sch0 n' s' \<and> (r = Inr () \<longrightarrow> n' = length migrations)"
proof -
  let ?s1 = "s\<lparr>pg_applied := Some (applied s)\<rparr>"
  have at1: "schema_at exec sch0 n ?s1" using at by (simp add: schema_at_def applied_def)
  consider e where "s' = s" "r = Inl e" | e where "s' = ?s1" "r = Inl e"
    | "bindQ (migrate exec flt (fst ` set (applied ?s1)) migrations)
         (\<lambda>_. bindQ (seedAdministrator flt) (\<lambda>_. query flt Ping (retQ ()))) ?s1 = (s', r)"
  proof (cases "flt Lock = None \<and> flt Create_table = None \<and> flt Read_versions = None")
    case True
    with assms(2) show thesis by (intro that(3)) (simp add: initialize_body_def bindQ_query bindQ_read bindQ_create)
  next
    case False
    then consider e where "flt Lock = Some e" | e where "flt Lock = None" "flt Create_table = Some e"
      | e where "flt Lock = None" "flt Create_table = None" "flt Read_versions = Some e"
      by (metis option.exhaust)
    then show thesis
      by cases (use assms(2) that(1,2) in \<open>auto simp: initialize_body_def bindQ_query bindQ_read bindQ_create\<close>)
  qed
  then show ?thesis
  proof cases
    case 1
    with at show ?thesis by auto
  next
    case 2
    with at1 show ?thesis by auto
  next
    case 3
    then show ?thesis
    proof (cases rule: bindQ_cases)
      case (1 e)
      with migrate_schema [OF at1 1(1)] show ?thesis by auto
    next
      case (2 s2 x)
      with migrate_schema [OF at1 2(1)] have at2: "schema_at exec sch0 (length migrations) s2" "n \<le> length migrations"
        using at by (auto simp: schema_at_def)
      from 2(2) have "pg_schema s' = pg_schema s2 \<and> applied s' = applied s2"
      proof (cases rule: bindQ_cases)
        case (1 e)
        with seed_keeps_schema [OF 1(1)] show ?thesis by (simp add: applied_def)
      next
        case (2 s3 y)
        from 2(2) have "s' = s3" by (auto simp: query_def retQ_def split: option.splits)
        with seed_keeps_schema [OF 2(1)] show ?thesis by (simp add: applied_def)
      qed
      then have "schema_at exec sch0 (length migrations) s'" using at2(1) schema_at_cong [of s' s2] by simp
      with at2(2) show ?thesis by blast
    qed
  qed
qed

lemma initialize_schema:
  assumes "schema_at exec sch0 n s" and "initializeDatabase exec flt s = (s', r)"
  shows "\<exists>n'. n \<le> n' \<and> schema_at exec sch0 n' s' \<and> (r = Inr () \<longrightarrow> n' = length migrations)"
proof (cases "flt Connect")
  case None
  obtain s1 r1 where "initialize_body exec flt s = (s1, r1)" by (cases "initialize_body exec flt s")
  with body_schema [OF assms(1) this] None assms(2) show ?thesis
    by (auto simp: initializeDatabase_def split: option.splits)
qed (use assms in \<open>auto simp: initializeDatabase_def\<close>)

section \<open>Properties\<close>

definition starts :: "(migration \<Rightarrow> 'sch \<Rightarrow> 'sch result) \<Rightarrow> outages list \<Rightarrow> 'sch pg \<Rightarrow> 'sch pg" where
  "starts exec flts s = fold (\<lambda>flt s. fst (initializeDatabase exec flt s)) flts s"

lemma starts_schema:
  "schema_at exec sch0 n s \<Longrightarrow> \<exists>n'. n \<le> n' \<and> schema_at exec sch0 n' (starts exec flts s)"
proof (induction flts arbitrary: n s)
  case (Cons flt flts)
  obtain s1 r where "initializeDatabase exec flt s = (s1, r)" by (cases "initializeDatabase exec flt s")
  from initialize_schema [OF Cons.prems this] obtain n1 where "n \<le> n1" and n1: "schema_at exec sch0 n1 s1" by blast
  moreover from Cons.IH [OF n1] obtain n2 where "n1 \<le> n2" "schema_at exec sch0 n2 (starts exec flts s1)" by blast
  moreover have "starts exec (flt # flts) s = starts exec flts s1"
    using \<open>initializeDatabase exec flt s = (s1, r)\<close> by (simp add: starts_def)
  ultimately show ?case by (metis order_trans)
qed (auto simp: starts_def)

text \<open>
  C9. Migrations run exactly once and in order, however many replicas start and whichever of their
  statements fail: starting from a database without the version table, after any sequence of starts
  the schema is the result of executing the first \<open>n\<close> migrations on the initial one, once each, and
  exactly these are recorded. A start that returns has brought \<open>n\<close> to the end of the list.
\<close>

theorem migrations_run_once:
  assumes "pg_applied s = None"
  shows "\<exists>n. applied (starts exec flts s) = map recorded (take n migrations)
      \<and> for_each exec (take n migrations) (pg_schema s) = Inr (pg_schema (starts exec flts s))
      \<and> (\<forall>flt s'. initializeDatabase exec flt (starts exec flts s) = (s', Inr ()) \<longrightarrow>
            applied s' = map recorded migrations \<and> for_each exec migrations (pg_schema s) = Inr (pg_schema s'))"
proof -
  have "schema_at exec (pg_schema s) 0 s" using assms by (simp add: schema_at_def applied_def)
  from starts_schema [OF this, of flts] obtain n where n: "schema_at exec (pg_schema s) n (starts exec flts s)" by blast
  have "applied s' = map recorded migrations \<and> for_each exec migrations (pg_schema s) = Inr (pg_schema s')"
    if "initializeDatabase exec flt (starts exec flts s) = (s', Inr ())" for flt s'
    using initialize_schema [OF n that] by (auto simp: schema_at_def)
  with n show ?thesis by (auto simp: schema_at_def)
qed

definition no_outages :: outages where
  "no_outages = (\<lambda>_. None)"

lemma migrate_total:
  assumes "schema_at exec sch0 n s" and "for_each exec migrations sch0 = Inr sch"
    and "\<forall>m \<in> set (drop n migrations). mg_version m \<notin> V"
  shows "\<exists>s'. migrate exec no_outages V (drop n migrations) s = (s', Inr ())"
  using assms
proof (induction "length migrations - n" arbitrary: n s)
  case (Suc k)
  then have n: "n < length migrations" by simp
  let ?m = "migrations ! n"
  have d: "drop n migrations = ?m # drop (Suc n) migrations" using n by (simp add: Cons_nth_drop_Suc)
  have "for_each exec (take n migrations @ ?m # drop (Suc n) migrations) sch0 = Inr sch"
    using Suc.prems(2) id_take_nth_drop [OF n] by simp
  moreover have "for_each exec (take n migrations) sch0 = Inr (pg_schema s)" using Suc.prems(1) by (simp add: schema_at_def)
  ultimately obtain sch1 where e: "exec ?m (pg_schema s) = Inr sch1"
    unfolding for_each_append by (auto simp: bindE_Inr_iff)
  let ?s1 = "s\<lparr>pg_schema := sch1, pg_applied := Some (applied s @ [recorded ?m])\<rparr>"
  have a: "applied s = map recorded (take n migrations)" using Suc.prems(1) by (simp add: schema_at_def)
  have mem: "?m \<in> set (drop n migrations)" unfolding d by simp
  with version_parts(2) [OF a] have "mg_version ?m \<notin> fst ` set (applied s)" by blast
  with e have "applyMigration exec no_outages ?m s = (?s1, Inr ())"
    by (simp add: applyMigration_def Let_def no_outages_def bindQ_def query_def run_sql_def record_version_def retQ_def
      recorded_def applied_def)
  then have step: "migrate exec no_outages V (drop n migrations) s = migrate exec no_outages V (drop (Suc n) migrations) ?s1"
    using Suc.prems(3) mem unfolding d migrate.simps bindQ_def by auto
  have "k = length migrations - Suc n" using Suc.hyps(2) by simp
  moreover have "\<forall>m \<in> set (drop (Suc n) migrations). mg_version m \<notin> V" using Suc.prems(3) unfolding d by auto
  ultimately show ?case
    unfolding step by (rule Suc.hyps(1) [OF _ schema_at_next [OF Suc.prems(1) n e] Suc.prems(2)])
qed simp

lemma seed_eq: "seedAdministrator no_outages s = (let s1 = fst (seed_user s);
    roles = map u_system_role (filter (\<lambda>u. u_email u = admin_email) (users (pg_db s1))) in
    if roles = [] \<or> hd roles \<noteq> S ''ADMIN''
    then (s1, Inl (plain_error (S ''initial administrator seed conflicts with a non-admin user''))) else seed_permissions s1)"
  by (simp add: seedAdministrator_def bindQ_def query_def no_outages_def seed_user_def admin_roles_def Let_def
    split: prod.splits sum.splits)

lemma seed_user_rows: "pg_db (fst (seed_user s)) = fst (store_users (users (pg_db s) @ [admin_row]) (pg_db s))"
  by (auto simp: seed_user_def store_users_def)

lemma seed_permissions_rows: "pg_db s = pg_db t \<Longrightarrow> snd (seed_permissions s) = snd (seed_permissions t)"
  by (simp add: seed_permissions_def Let_def)

lemma seed_same_rows:
  assumes "pg_db s = pg_db t"
  shows "snd (seedAdministrator no_outages s) = snd (seedAdministrator no_outages t)"
proof -
  have "pg_db (fst (seed_user s)) = pg_db (fst (seed_user t))" using assms by (simp add: seed_user_rows)
  with seed_permissions_rows [OF this] show ?thesis by (simp add: seed_eq Let_def)
qed

text \<open>
  Recovery: whatever happened to the earlier starts, a start of which no statement fails returns
  and completes the schema, provided that every migration succeeds on the schema its predecessors
  produce and the seed finds no conflicting row.
\<close>

theorem faultless_start_completes:
  assumes fresh: "pg_applied s = None" and good: "for_each exec migrations (pg_schema s) = Inr sch"
    and seed: "snd (seedAdministrator no_outages (starts exec flts s)) = Inr ()"
  shows "\<exists>s'. initializeDatabase exec no_outages (starts exec flts s) = (s', Inr ()) \<and> pg_schema s' = sch
    \<and> applied s' = map recorded migrations"
proof -
  let ?t = "starts exec flts s"
  let ?t1 = "?t\<lparr>pg_applied := Some (applied ?t)\<rparr>"
  have "schema_at exec (pg_schema s) 0 s" using fresh by (simp add: schema_at_def applied_def)
  from starts_schema [OF this, of flts] obtain n where n: "schema_at exec (pg_schema s) n ?t" by blast
  then have n1: "schema_at exec (pg_schema s) n ?t1" by (simp add: schema_at_def applied_def)
  have a: "applied ?t1 = map recorded (take n migrations)" using n1 by (simp add: schema_at_def)
  obtain s1 where s1: "migrate exec no_outages (fst ` set (applied ?t1)) migrations ?t1 = (s1, Inr ())"
    using migrate_total [OF n1 good version_parts(2) [OF a]]
      migrate_skip [OF version_parts(1) [OF a], of exec no_outages "drop n migrations" ?t1] by auto
  from migrate_schema [OF n1 this] have s1': "schema_at exec (pg_schema s) (length migrations) s1" "pg_db s1 = pg_db ?t"
    by auto
  obtain s2 where s2: "seedAdministrator no_outages s1 = (s2, Inr ())"
    using seed seed_same_rows [OF s1'(2)] by (metis prod.collapse)
  have "initialize_body exec no_outages ?t = (s2, Inr ())"
    using s1 s2 by (simp add: initialize_body_def bindQ_query bindQ_read bindQ_create no_outages_def [THEN fun_cong])
      (simp add: bindQ_def query_def retQ_def no_outages_def)
  then have run: "initializeDatabase exec no_outages ?t = (s2, Inr ())"
    by (simp add: initializeDatabase_def no_outages_def)
  moreover have "pg_schema s2 = pg_schema s1" "applied s2 = applied s1"
    using seed_keeps_schema [OF s2] by (simp_all add: applied_def)
  ultimately show ?thesis using s1'(1) good by (auto simp: schema_at_def)
qed

section \<open>The seed\<close>

definition admin_conflict :: "db \<Rightarrow> bool" where
  "admin_conflict d \<longleftrightarrow> u_id admin_row \<in> u_id ` set (users d)
     \<or> external_identity admin_row \<in> external_identity ` set (users d)"

lemma store_admin:
  assumes "db_ok d"
  shows "store_users (users d @ [admin_row]) d =
    (if admin_conflict d \<or> admin_email \<in> u_email ` set (users d) then (d, Inl unique_violation)
     else (d\<lparr>users := users d @ [admin_row]\<rparr>, Inr ()))"
proof -
  have e: "external_identity admin_row = Some (S ''ten_9664c024babc4110'', S ''local'', S ''initial-admin'')"
    by (simp add: external_identity_def admin_row_def)
  have "u_email admin_row = admin_email" by (simp add: admin_row_def)
  then have "distinct (map u_email (users d @ [admin_row])) \<longleftrightarrow> admin_email \<notin> u_email ` set (users d)"
    using assms by (auto simp: db_ok_def)
  moreover have "distinct (map u_id (users d @ [admin_row])) \<longleftrightarrow> u_id admin_row \<notin> u_id ` set (users d)"
    using assms by (auto simp: db_ok_def)
  moreover have "unique_identities (users d @ [admin_row]) \<longleftrightarrow>
      external_identity admin_row \<notin> external_identity ` set (users d)"
  proof -
    let ?f = "external_identity" and ?xs = "filter (\<lambda>r. external_identity r \<noteq> None) (users d)"
    have "?f admin_row \<in> ?f ` set ?xs \<longleftrightarrow> ?f admin_row \<in> ?f ` set (users d)"
      unfolding e by (rule iffI) (erule imageE, rule image_eqI, assumption, simp, erule imageE, rule image_eqI, assumption, drule sym, simp)
    moreover have "distinct (map ?f ?xs)" using assms by (simp add: db_ok_def unique_identities_def)
    moreover have "filter (\<lambda>r. external_identity r \<noteq> None) (users d @ [admin_row]) = ?xs @ [admin_row]" using e by simp
    ultimately show ?thesis unfolding unique_identities_def by simp
  qed
  ultimately show ?thesis by (auto simp: store_users_def admin_conflict_def)
qed

definition role_conflict :: js_error where
  "role_conflict = plain_error (S ''initial administrator seed conflicts with a non-admin user'')"

text \<open>Who holds the address of the administrator once the user was seeded.\<close>

definition holder_role :: "db \<Rightarrow> jstr option" where
  "holder_role d = map_option u_system_role (find (\<lambda>u. u_email u = admin_email) (users d))"

lemma find_filter: "find P xs = (case filter P xs of [] \<Rightarrow> None | x # _ \<Rightarrow> Some x)"
  by (induction xs) auto

lemma seeded_users:
  assumes "db_ok (pg_db s)"
  shows "fst (seed_user s) = s\<lparr>pg_db := (pg_db s)\<lparr>users := users (pg_db s)
    @ (if holder_role (pg_db s) = None \<and> \<not> admin_conflict (pg_db s) then [admin_row] else [])\<rparr>\<rparr>"
proof -
  have "holder_role (pg_db s) = None \<longleftrightarrow> admin_email \<notin> u_email ` set (users (pg_db s))"
    by (auto simp: holder_role_def find_None_iff image_iff)
  then show ?thesis using store_admin [OF assms] by (auto simp: seed_user_def)
qed

lemma seed_cases:
  assumes "db_ok (pg_db s)" and "s1 = fst (seed_user s)"
  shows "seedAdministrator no_outages s = (if holder_role (pg_db s1) \<noteq> Some (S ''ADMIN'') then (s1, Inl role_conflict) else seed_permissions s1)"
    and "holder_role (pg_db s1) = (if holder_role (pg_db s) = None \<and> \<not> admin_conflict (pg_db s) then Some (S ''ADMIN'') else holder_role (pg_db s))"
proof -
  have "map u_system_role (filter P us) = [] \<or> hd (map u_system_role (filter P us)) \<noteq> r \<longleftrightarrow> map_option u_system_role (find P us) \<noteq> Some r" for P us r
    by (cases "filter P us") (auto simp: find_filter)
  note roles = this
  show "seedAdministrator no_outages s = (if holder_role (pg_db s1) \<noteq> Some (S ''ADMIN'') then (s1, Inl role_conflict) else seed_permissions s1)"
    by (simp only: seed_eq Let_def assms(2) holder_role_def role_conflict_def roles)
  have "find P (us @ [x]) = (case find P us of None \<Rightarrow> if P x then Some x else None | y \<Rightarrow> y)" for P us and x :: user_row
    by (induction us) auto
  moreover have "u_email admin_row = admin_email" "u_system_role admin_row = S ''ADMIN''" by (simp_all add: admin_row_def)
  ultimately show "holder_role (pg_db s1) = (if holder_role (pg_db s) = None \<and> \<not> admin_conflict (pg_db s) then Some (S ''ADMIN'') else holder_role (pg_db s))"
    unfolding assms(2) seeded_users [OF assms(1)] by (auto simp: holder_role_def)
qed

text \<open>
  C34. What the seed does, on every content of the tables. It adds the administrator when the address is unused
  and neither the identifier nor the external identity is taken. If afterwards the address is held by nobody
  or by a user of another role, it fails; otherwise it adds the permissions of the administrator that are
  missing, both or none: it fails with a unique violation when the fixed identifier of a missing
  permission belongs to another row, and with a foreign key violation when no user has the fixed identifier of the
  administrator, which stops every start although the role check accepted the holder of the address. A
  failure leaves the permissions alone, and a success leaves both granted; nothing else changes.
\<close>

theorem seed_outcomes:
  assumes "db_ok (pg_db s)" and "seedAdministrator no_outages s = (s', r)"
  shows "let d = pg_db s; d' = pg_db s';
       missing = filter (\<lambda>p. (tp_user_id p, tp_tool_pattern p) \<notin> (\<lambda>q. (tp_user_id q, tp_tool_pattern q)) ` set (user_tool_permissions d)) admin_permissions in
     s' = s\<lparr>pg_db := d\<lparr>users := users d @ (if holder_role d = None \<and> \<not> admin_conflict d then [admin_row] else []),
        user_tool_permissions := user_tool_permissions d @ (if r = Inr () then missing else [])\<rparr>\<rparr>
   \<and> r = (if holder_role d' \<noteq> Some (S ''ADMIN'') then Inl role_conflict
          else if \<exists>p \<in> set missing. tp_id p \<in> tp_id ` set (user_tool_permissions d) then Inl unique_violation
          else if missing \<noteq> [] \<and> S ''tg_usr_initial_admin'' \<notin> u_id ` set (users d') then Inl foreign_key_violation
          else Inr ())
   \<and> (r = Inr () \<longrightarrow> (\<exists>u \<in> set (users d'). u_email u = admin_email \<and> u_system_role u = S ''ADMIN'')
        \<and> (\<forall>pat \<in> {S ''knowledge.*'', S ''context7.*''}. \<exists>p \<in> set (user_tool_permissions d').
             tp_user_id p = S ''tg_usr_initial_admin'' \<and> tp_tool_pattern p = pat))"
proof -
  define s1 where "s1 = fst (seed_user s)"
  note s1 = s1_def [unfolded seeded_users [OF assms(1)]] and run = seed_cases(1) [OF assms(1) s1_def]
  have perms: "user_tool_permissions (pg_db s1) = user_tool_permissions (pg_db s)" unfolding s1 by simp
  then have miss: "missing_permissions (pg_db s1) = missing_permissions (pg_db s)" by (simp add: missing_permissions_def)
  let ?m = "missing_permissions (pg_db s)"
  have eq: "filter (\<lambda>p. (tp_user_id p, tp_tool_pattern p) \<notin> (\<lambda>q. (tp_user_id q, tp_tool_pattern q)) ` set (user_tool_permissions d)) admin_permissions
      = missing_permissions d" for d
    unfolding missing_permissions_def permission_pair_def [abs_def] ..
  have out: "r = (if holder_role (pg_db s1) \<noteq> Some (S ''ADMIN'') then Inl role_conflict
        else if \<exists>p \<in> set ?m. tp_id p \<in> tp_id ` set (user_tool_permissions (pg_db s)) then Inl unique_violation
        else if ?m \<noteq> [] \<and> S ''tg_usr_initial_admin'' \<notin> u_id ` set (users (pg_db s1)) then Inl foreign_key_violation else Inr ())"
    and state: "s' = (if r = Inr () then s1\<lparr>pg_db := (pg_db s1)\<lparr>user_tool_permissions := user_tool_permissions (pg_db s) @ ?m\<rparr>\<rparr> else s1)"
    using assms(2) unfolding run seed_permissions_def Let_def miss perms by (auto split: if_splits)
  have same: "users (pg_db s') = users (pg_db s1)" "holder_role (pg_db s') = holder_role (pg_db s1)"
    unfolding state holder_role_def by auto
  have frame: "s' = s\<lparr>pg_db := (pg_db s)\<lparr>users := users (pg_db s) @ (if holder_role (pg_db s) = None \<and> \<not> admin_conflict (pg_db s) then [admin_row] else []),
        user_tool_permissions := user_tool_permissions (pg_db s) @ (if r = Inr () then ?m else [])\<rparr>\<rparr>"
    unfolding state s1 by (cases "r = Inr ()") simp_all
  have holder: "\<exists>u \<in> set (users (pg_db s')). u_email u = admin_email \<and> u_system_role u = S ''ADMIN''" if "r = Inr ()"
  proof -
    from that out have "holder_role (pg_db s') = Some (S ''ADMIN'')" by (auto simp: same split: if_splits)
    then show ?thesis by (force simp: holder_role_def find_Some_iff)
  qed
  have granted: "\<exists>p \<in> set (user_tool_permissions (pg_db s')). tp_user_id p = S ''tg_usr_initial_admin'' \<and> tp_tool_pattern p = S pat"
    if pat: "r = Inr ()" "pat \<in> {''knowledge.*'', ''context7.*''}" for pat
  proof -
    have "(S ''tg_usr_initial_admin'', S pat) \<in> permission_pair ` set admin_permissions"
      using pat(2) by (elim insertE emptyE) (simp_all add: admin_permissions_def permission_pair_def)
    then obtain q where "(S ''tg_usr_initial_admin'', S pat) = permission_pair q" "q \<in> set admin_permissions" by (rule imageE)
    then have q: "q \<in> set admin_permissions" "tp_user_id q = S ''tg_usr_initial_admin''" "tp_tool_pattern q = S pat"
      by (simp_all add: permission_pair_def)
    show ?thesis
    proof (cases "q \<in> set ?m")
      case True
      then show ?thesis using q pat(1) unfolding frame by auto
    next
      case False
      with q(1) have "permission_pair q \<in> permission_pair ` set (user_tool_permissions (pg_db s))" by (simp add: missing_permissions_def)
      then obtain p where "p \<in> set (user_tool_permissions (pg_db s))" "permission_pair q = permission_pair p" by auto
      then show ?thesis using q pat(1) unfolding frame by (intro bexI [of _ p]) (auto simp: permission_pair_def)
    qed
  qed
  show ?thesis unfolding Let_def eq same
    by (intro conjI impI; (rule frame | rule out | rule holder [unfolded same] | use granted in auto)?; assumption?)
qed

section \<open>Concrete inputs\<close>

definition count_exec :: "migration \<Rightarrow> int list \<Rightarrow> int list result" where
  "count_exec m vs = Inr (vs @ [mg_version m])"

definition empty_pg :: "int list pg" where
  "empty_pg = \<lparr>pg_schema = [], pg_applied = None, pg_db = \<lparr>users = [], api_keys = [], user_mcp_upstreams = [],
     user_tool_permissions = [], lifecycle_states = (\<lambda>_. None), lifecycle_events = (\<lambda>_. None),
     lifecycle_last_seen = None, access_states = (\<lambda>_. None), access_events = (\<lambda>_. None), access_last_seen = None\<rparr>\<rparr>"

text \<open>A first start whose commit of migration 3 fails.\<close>

definition commit_outage :: outages where
  "commit_outage st = (if st = Commit 3 then Some (plain_error (S ''connection lost'')) else None)"

lemma count_exec_all: "for_each count_exec ms sch = Inr (sch @ map mg_version ms)"
  by (induction ms arbitrary: sch) (simp_all add: count_exec_def)

lemma outage_start: "pg_schema (starts count_exec [commit_outage] empty_pg) = [1, 2]"
  "pg_db (starts count_exec [commit_outage] empty_pg) = pg_db empty_pg"
  by (simp_all add: starts_def initializeDatabase_def initialize_body_def bindQ_query bindQ_read bindQ_create migrations_def
    commit_outage_def)
     (simp_all add: bindQ_def applyMigration_def Let_def query_def run_sql_def count_exec_def record_version_def retQ_def
      applied_def commit_outage_def empty_pg_def)

lemma empty_seed: "pg_db s = pg_db empty_pg \<Longrightarrow> snd (seedAdministrator no_outages s) = Inr ()"
proof -
  assume d: "pg_db s = pg_db empty_pg"
  then have ok: "db_ok (pg_db s)" by (simp add: db_ok_def empty_pg_def unique_identities_def)
  have "holder_role (pg_db s) = None \<and> \<not> admin_conflict (pg_db s)" unfolding d by (simp add: holder_role_def empty_pg_def admin_conflict_def)
  then have "fst (seed_user s) = s\<lparr>pg_db := (pg_db s)\<lparr>users := [admin_row]\<rparr>\<rparr>" "holder_role (pg_db (fst (seed_user s))) = Some (S ''ADMIN'')"
    using seeded_users [OF ok] seed_cases(2) [OF ok refl] d by (simp_all add: empty_pg_def)
  then show ?thesis using seed_cases(1) [OF ok refl] d
    by (simp add: seed_permissions_def Let_def empty_pg_def admin_row_def)
qed

theorem migrations_run_once_witness:
  "\<exists>n. applied (starts count_exec [commit_outage] empty_pg) = map recorded (take n migrations)
      \<and> [1, 2] = map mg_version (take n migrations)"
  using migrations_run_once [of empty_pg count_exec "[commit_outage]"] outage_start
  by (auto simp: count_exec_all) (auto simp: empty_pg_def)

theorem faultless_start_completes_witness:
  "\<exists>s'. initializeDatabase count_exec no_outages (starts count_exec [commit_outage] empty_pg) = (s', Inr ())
      \<and> pg_schema s' = [1, 2, 3, 4, 5, 6, 7, 8, 9, 10, 11, 12, 13, 14, 15]"
proof -
  have v: "map mg_version migrations = [1, 2, 3, 4, 5, 6, 7, 8, 9, 10, 11, 12, 13, 14, 15]" by (simp add: migrations_def)
  have e: "pg_schema empty_pg = []" "pg_applied empty_pg = None" by (simp_all add: empty_pg_def)
  from faultless_start_completes [OF e(2) count_exec_all empty_seed [OF outage_start(2)]] show ?thesis
    by (auto simp: e(1) v)
qed

text \<open>
  The first start of an empty database, and a start where an administrator holds the address under another
  identifier.
\<close>

definition other_admin :: user_row where
  "other_admin = admin_row\<lparr>u_id := S ''u7'', u_external_subject_id := Some (S ''s7'')\<rparr>"

theorem seed_outcomes_witness:
  "(\<exists>s'. seedAdministrator no_outages empty_pg = (s', Inr ()) \<and> users (pg_db s') = [admin_row] \<and> user_tool_permissions (pg_db s') = admin_permissions)
   \<and> snd (seedAdministrator no_outages (empty_pg\<lparr>pg_db := (pg_db empty_pg)\<lparr>users := [other_admin]\<rparr>\<rparr>)) = Inl foreign_key_violation"
proof
  have ok: "db_ok (pg_db empty_pg)" by (simp add: db_ok_def empty_pg_def unique_identities_def)
  obtain s' where s': "seedAdministrator no_outages empty_pg = (s', Inr ())" using empty_seed [OF refl] by (metis prod.collapse)
  have "holder_role (pg_db empty_pg) = None" "\<not> admin_conflict (pg_db empty_pg)" by (simp_all add: holder_role_def empty_pg_def admin_conflict_def)
  with seed_outcomes [OF ok s'] have "s' = empty_pg\<lparr>pg_db := (pg_db empty_pg)\<lparr>users := [admin_row], user_tool_permissions := admin_permissions\<rparr>\<rparr>"
    unfolding Let_def by (simp add: empty_pg_def)
  with s' show "\<exists>s'. seedAdministrator no_outages empty_pg = (s', Inr ()) \<and> users (pg_db s') = [admin_row] \<and> user_tool_permissions (pg_db s') = admin_permissions"
    by simp
next
  let ?s = "empty_pg\<lparr>pg_db := (pg_db empty_pg)\<lparr>users := [other_admin]\<rparr>\<rparr>"
  have ok: "db_ok (pg_db ?s)" by (simp add: db_ok_def empty_pg_def unique_identities_def)
  obtain s' r where s': "seedAdministrator no_outages ?s = (s', r)" by (cases "seedAdministrator no_outages ?s")
  have h: "holder_role ((pg_db empty_pg)\<lparr>users := [other_admin]\<rparr>) = Some (S ''ADMIN'')" by (simp add: holder_role_def other_admin_def admin_row_def)
  note o = seed_outcomes [OF ok s', unfolded Let_def]
  have u: "users (pg_db s') = [other_admin]" by (subst o [THEN conjunct1]) (simp add: h)
  then have "holder_role (pg_db s') = Some (S ''ADMIN'')" by (simp add: holder_role_def other_admin_def admin_row_def)
  then have "r = Inl foreign_key_violation"
    by (subst o [THEN conjunct2, THEN conjunct1]) (simp add: u other_admin_def admin_row_def empty_pg_def admin_permissions_def)
  then show "snd (seedAdministrator no_outages ?s) = Inl foreign_key_violation" using s' by simp
qed

end
