(* ===== verification/JsonParse.thy ===== *)
theory JsonParse
  imports Json Encodings
begin

text \<open>
  \<open>JSON.parse\<close>: a recursive descent over the code units, its recursion bounded by fuel that is always
  enough, and the round trip with \<open>JSON.stringify\<close> on the values JSON can carry: with safe
  integers, or with the numbers for which the conversions keep their law. A numeral with a fraction or an exponent, or beyond the safe integers, is read by
  the parameter \<open>num\<close> (rounding to a double).
\<close>

section \<open>The parser\<close>

definition json_space :: "nat \<Rightarrow> bool" where
  "json_space c \<longleftrightarrow> c = 32 \<or> c = 9 \<or> c = 10 \<or> c = 13"

definition skip_space :: "jstr \<Rightarrow> jstr" where
  "skip_space s = dropWhile json_space s"

text \<open>The character of a short escape, by the letter after the backslash.\<close>

definition escaped :: "nat \<Rightarrow> nat option" where
  "escaped c = (if c = 34 \<or> c = 92 \<or> c = 47 then Some c else if c = 98 then Some 8 else if c = 102 then Some 12
     else if c = 110 then Some 10 else if c = 114 then Some 13 else if c = 116 then Some 9 else None)"

definition hex4 :: "nat \<Rightarrow> nat \<Rightarrow> nat \<Rightarrow> nat \<Rightarrow> nat option" where
  "hex4 a b c d = (case (hex_value a, hex_value b, hex_value c, hex_value d) of
      (Some p, Some q, Some r, Some t) \<Rightarrow> Some (p * 4096 + q * 256 + r * 16 + t)
    | _ \<Rightarrow> None)"

text \<open>The characters up to the closing quote, and the rest.\<close>

fun read_string :: "jstr \<Rightarrow> (jstr \<times> jstr) option" where
  "read_string [] = None"
| "read_string (c # s) =
     (if c = 34 then Some ([], s)
      else if c < 32 then None
      else if c = 92 then (case s of
          [] \<Rightarrow> None
        | d # t \<Rightarrow> if d = 117 then (case t of
              p # q # r # u # w \<Rightarrow> (case (hex4 p q r u, read_string w) of
                  (Some x, Some (xs, rest)) \<Rightarrow> Some (x # xs, rest)
                | _ \<Rightarrow> None)
            | _ \<Rightarrow> None)
          else (case (escaped d, read_string t) of
              (Some x, Some (xs, rest)) \<Rightarrow> Some (x # xs, rest)
            | _ \<Rightarrow> None))
      else (case read_string s of Some (xs, rest) \<Rightarrow> Some (c # xs, rest) | None \<Rightarrow> None))"

definition numeral_char :: "nat \<Rightarrow> bool" where
  "numeral_char c \<longleftrightarrow> is_digit c \<or> one_of ''+-.eE'' c"

text \<open>The value of a numeral without fraction and exponent, and the syntax of any numeral.\<close>

definition digits_value :: "jstr \<Rightarrow> nat option" where
  "digits_value u = (if u \<noteq> [] \<and> list_all is_digit u \<and> (hd u \<noteq> 48 \<or> tl u = [])
     then Some (foldl (\<lambda>n c. 10 * n + (c - 48)) 0 u) else None)"

definition integer_value :: "jstr \<Rightarrow> int option" where
  "integer_value t = (case t of
      [] \<Rightarrow> None
    | c # u \<Rightarrow> if c = 45 then map_option (\<lambda>n. - int n) (digits_value u) else map_option int (digits_value t))"

definition numeral_re :: re where
  "numeral_re = rseqs [RBol, ropt (rchr 45), RAlt (rchr 48) (RSeq (RCls (\<lambda>c. 49 \<le> c \<and> c \<le> 57)) (RStar (RCls is_digit))),
     ropt (RSeq (rchr 46) (rplus (RCls is_digit))),
     ropt (rseqs [RCls (one_of ''eE''), ropt (RCls (one_of ''+-'')), rplus (RCls is_digit)]), REol]"

definition read_numeral :: "(jstr \<Rightarrow> jnum) \<Rightarrow> jstr \<Rightarrow> jnum option" where
  "read_numeral num t = (case integer_value t of
      Some i \<Rightarrow> Some (if \<bar>i\<bar> \<le> max_safe_integer then NInt i else num t)
    | None \<Rightarrow> if re_test numeral_re t then Some (num t) else None)"

definition read_word :: "(jstr \<Rightarrow> jnum) \<Rightarrow> jstr \<Rightarrow> (jv \<times> jstr) option" where
  "read_word num s =
     (if startsWith s (S ''null'') then Some (JNull, slice_from s 4)
      else if startsWith s (S ''true'') then Some (JBool True, slice_from s 4)
      else if startsWith s (S ''false'') then Some (JBool False, slice_from s 5)
      else map_option (\<lambda>n. (JNum n, dropWhile numeral_char s)) (read_numeral num (takeWhile numeral_char s)))"

fun read_value :: "(jstr \<Rightarrow> jnum) \<Rightarrow> nat \<Rightarrow> jstr \<Rightarrow> (jv \<times> jstr) option"
and read_elements :: "(jstr \<Rightarrow> jnum) \<Rightarrow> nat \<Rightarrow> jstr \<Rightarrow> (jv list \<times> jstr) option"
and read_members :: "(jstr \<Rightarrow> jnum) \<Rightarrow> nat \<Rightarrow> (jstr \<times> jv) list \<Rightarrow> jstr \<Rightarrow> ((jstr \<times> jv) list \<times> jstr) option"
where
  "read_value num 0 s = None"
| "read_value num (Suc n) s = (case skip_space s of
      [] \<Rightarrow> None
    | c # t \<Rightarrow>
        if c = 34 then map_option (\<lambda>(x, u). (JStr x, u)) (read_string t)
        else if c = 91 then (case skip_space t of
            [] \<Rightarrow> None
          | d # u \<Rightarrow> if d = 93 then Some (JArr [], u) else map_option (\<lambda>(xs, w). (JArr xs, w)) (read_elements num n (d # u)))
        else if c = 123 then (case skip_space t of
            [] \<Rightarrow> None
          | d # u \<Rightarrow> if d = 125 then Some (JObj [], u) else map_option (\<lambda>(kvs, w). (JObj kvs, w)) (read_members num n [] (d # u)))
        else read_word num (c # t))"
| "read_elements num 0 s = None"
| "read_elements num (Suc n) s = (case read_value num n s of
      None \<Rightarrow> None
    | Some (v, u) \<Rightarrow> (case skip_space u of
        [] \<Rightarrow> None
      | c # w \<Rightarrow> if c = 44 then map_option (\<lambda>(vs, z). (v # vs, z)) (read_elements num n w)
          else if c = 93 then Some ([v], w) else None))"
| "read_members num 0 acc s = None"
| "read_members num (Suc n) acc s = (case skip_space s of
      [] \<Rightarrow> None
    | c # t \<Rightarrow> if c \<noteq> 34 then None else (case read_string t of
        None \<Rightarrow> None
      | Some (k, u) \<Rightarrow> (case skip_space u of
          [] \<Rightarrow> None
        | d # w \<Rightarrow> if d \<noteq> 58 then None else (case read_value num n w of
            None \<Rightarrow> None
          | Some (v, x) \<Rightarrow> (case skip_space x of
              [] \<Rightarrow> None
            | e # y \<Rightarrow> if e = 44 then read_members num n (jput acc k v) y
                else if e = 125 then Some (jput acc k v, y) else None)))))"

text \<open>
  Each step of the descent consumes a character, except the one from the elements of an array to
  the first of them: twice the length of the text bounds the depth.
\<close>

definition parse_json :: "(jstr \<Rightarrow> jnum) \<Rightarrow> jstr \<Rightarrow> jv option" where
  "parse_json num s = (case read_value num (2 * length s + 1) s of
      Some (v, rest) \<Rightarrow> if skip_space rest = [] then Some v else None
    | None \<Rightarrow> None)"

section \<open>The fuel is enough\<close>

lemma skip_length: "length (skip_space s) \<le> length s"
  by (simp add: skip_space_def length_dropWhile_le)

lemma skip_Cons: "skip_space s = c # t \<Longrightarrow> length t < length s"
  using skip_length [of s] by simp

lemma read_string_length: "read_string s = Some (x, u) \<Longrightarrow> length u < length s"
proof (induction s arbitrary: x rule: read_string.induct)
  case (2 c s)
  then show ?case by (fastforce split: if_splits list.splits option.splits)
qed simp

lemma slice_length: "length (slice_from s n) = length s - n"
  by (simp add: slice_from_def)

lemma read_word_length: "read_word num (c # t) = Some (v, u) \<Longrightarrow> length u < length (c # t)"
proof -
  have "read_numeral num [] = None" 
    by (simp add: read_numeral_def integer_value_def numeral_re_def rseqs_def re_test_bol ropt_def rchr_def)
  then have "takeWhile numeral_char (c # t) \<noteq> []" if "read_numeral num (takeWhile numeral_char (c # t)) = Some n" for n
    using that by (auto split: if_splits)
  then show "read_word num (c # t) = Some (v, u) \<Longrightarrow> length u < length (c # t)"
    by (auto simp: read_word_def slice_length less_Suc_eq_le length_dropWhile_le split: if_splits)
qed

lemma read_length:
  "read_value num n s = Some (v, u) \<Longrightarrow> length u < length s"
  "read_elements num n s = Some (vs, u) \<Longrightarrow> length u < length s"
  "read_members num n acc s = Some (kvs, u) \<Longrightarrow> length u < length s"
proof (induction num n s and num n s and num n acc s arbitrary: v u and vs u and kvs u
    rule: read_value_read_elements_read_members.induct)
  case (2 num n s)
  then show ?case
    by (fastforce dest!: skip_Cons read_string_length read_word_length split: list.splits if_splits)
next
  case (4 num n s)
  then show ?case
    by (fastforce dest!: skip_Cons split: list.splits if_splits option.splits)
next
  case (6 num n acc s)
  then show ?case
    by (fastforce dest!: skip_Cons read_string_length split: list.splits if_splits option.splits)
qed simp_all

lemma fuel_enough:
  "2 * length s + 1 \<le> n \<Longrightarrow> 2 * length s + 1 \<le> m \<Longrightarrow> read_value num n s = read_value num m s"
  "2 * length s + 2 \<le> n \<Longrightarrow> 2 * length s + 2 \<le> m \<Longrightarrow> read_elements num n s = read_elements num m s"
  "2 * length s + 2 \<le> n \<Longrightarrow> 2 * length s + 2 \<le> m \<Longrightarrow> read_members num n acc s = read_members num m acc s"
proof (induction num n s and num n s and num n acc s arbitrary: m and m and m
    rule: read_value_read_elements_read_members.induct)
  case (2 num n s)
  from 2(4) obtain k where m: "m = Suc k" by (cases m) auto
  show ?case
  proof (cases "skip_space s")
    case Nil
    then show ?thesis by (simp add: m)
  next
    case (Cons c t)
    then have t: "length t < length s" by (rule skip_Cons)
    show ?thesis
    proof (cases "skip_space t")
      case Nil
      then show ?thesis by (simp add: m Cons)
    next
      case inner: (Cons d u)
      then have "length (d # u) \<le> length t" using skip_length [of t] by simp
      with t 2(3,4) m have le: "2 * length (d # u) + 2 \<le> n" "2 * length (d # u) + 2 \<le> k" by auto
      have e: "read_elements num n (d # u) = read_elements num k (d # u)" if "c \<noteq> 34" "c = 91" "d \<noteq> 93"
        by (rule 2(1) [OF Cons that(1,2) inner that(3) le])
      have f: "read_members num n [] (d # u) = read_members num k [] (d # u)" if "c \<noteq> 34" "c \<noteq> 91" "c = 123" "d \<noteq> 125"
        by (rule 2(2) [OF Cons that(1,2,3) inner that(4) le])
      show ?thesis by (simp add: m Cons inner e f)
    qed
  qed
next
  case (4 num n s)
  from 4(4) obtain k where m: "m = Suc k" by (cases m) auto
  have v: "read_value num n s = read_value num k s" by (rule 4(1)) (use 4(3,4) m in auto)
  show ?case
  proof (cases "read_value num n s")
    case None
    then show ?thesis using v by (simp add: m)
  next
    case (Some p)
    obtain x u where p: "p = (x, u)" by (cases p)
    show ?thesis
    proof (cases "skip_space u")
      case Nil
      then show ?thesis using Some v by (simp add: m p)
    next
      case (Cons c w)
      have "length w < length s" using read_length(1) [OF Some [unfolded p]] skip_Cons [OF Cons] by simp
      then have le: "2 * length w + 2 \<le> n" "2 * length w + 2 \<le> k" using 4(3,4) m by auto
      show ?thesis using 4(2) [OF Some p [symmetric] Cons _ le] Some v by (simp add: m p Cons)
    qed
  qed
next
  case (6 num n acc s)
  from 6(4) obtain k where m: "m = Suc k" by (cases m) auto
  show ?case
  proof (cases "\<exists>t x u w. skip_space s = 34 # t \<and> read_string t = Some (x, u) \<and> skip_space u = 58 # w")
    case False
    then show ?thesis by (auto simp: m split: list.split option.split)
  next
    case True
    then obtain t x u w where h: "skip_space s = 34 # t" "read_string t = Some (x, u)" "skip_space u = 58 # w" by blast
    have w: "length w < length s" using skip_Cons [OF h(1)] read_string_length [OF h(2)] skip_Cons [OF h(3)] by simp
    have v: "read_value num n w = read_value num k w"
      by (rule 6(1) [OF h(1) _ h(2) refl h(3)]) (use w 6(3,4) m in auto)
    show ?thesis
    proof (cases "\<exists>v y z. read_value num n w = Some (v, y) \<and> skip_space y = 44 # z")
      case False
      then show ?thesis using v by (auto simp: m h split: list.split option.split)
    next
      case True
      then obtain y z q where g: "read_value num n w = Some (q, y)" "skip_space y = 44 # z" by blast
      have z: "length z < length s" using w read_length(1) [OF g(1)] skip_Cons [OF g(2)] by simp
      have "read_members num n (jput acc x q) z = read_members num k (jput acc x q) z"
        by (rule 6(2) [OF h(1) _ h(2) refl h(3) _ g(1) refl g(2)]) (use z 6(3,4) m in auto)
      then show ?thesis using g v [symmetric] by (simp add: m h)
    qed
  qed
qed simp_all

section \<open>The round trip\<close>

lemma json_u_digits:
  assumes "c < 65536"
  shows "\<exists>p q r u. json_u c = [92, 117, hex_digit p, hex_digit q, hex_digit r, hex_digit u]
    \<and> p < 16 \<and> q < 16 \<and> r < 16 \<and> u < 16 \<and> c = p * 4096 + q * 256 + r * 16 + u"
proof -
  define a b where "a = c div 16" and "b = a div 16"
  have eqs: "c div 256 = b" "c div 4096 = b div 16" by (simp_all add: a_def b_def div_mult2_eq [symmetric])
  have "c = a * 16 + c mod 16" by (simp add: a_def)
  moreover have "a = b * 16 + a mod 16" by (simp add: b_def)
  moreover have "b = b div 16 * 16 + b mod 16" by simp
  moreover have "b div 16 < 16" using assms by (simp add: eqs(2) [symmetric])
  ultimately have "c = b div 16 * 4096 + b mod 16 * 256 + a mod 16 * 16 + c mod 16 \<and> b div 16 < 16" by linarith
  moreover have "json_u c = [92, 117, hex_digit (b div 16), hex_digit (b mod 16), hex_digit (a mod 16), hex_digit (c mod 16)]"
    using \<open>b div 16 < 16\<close> by (simp add: json_u_def eqs a_def [symmetric])
  ultimately show ?thesis by (intro exI conjI) auto
qed

lemma read_json_u:
  assumes "c < 65536"
  shows "read_string (json_u c @ s) = map_option (\<lambda>(x, u). (c # x, u)) (read_string s)"
proof -
  obtain p q r u where "json_u c = [92, 117, hex_digit p, hex_digit q, hex_digit r, hex_digit u]"
    "p < 16" "q < 16" "r < 16" "u < 16" "c = p * 4096 + q * 256 + r * 16 + u"
    using json_u_digits [OF assms] by blast
  then show ?thesis by (simp add: hex4_def split: option.split)
qed

lemma read_json_esc: "read_string (json_esc c @ s) = map_option (\<lambda>(x, u). (c # x, u)) (read_string s)"
proof -
  consider "c < 32" | "c = 34 \<or> c = 92" | "32 \<le> c" "c \<noteq> 34" "c \<noteq> 92" by linarith
  then show ?thesis
  proof cases
    case 1
    then show ?thesis
      by (simp add: json_esc_def read_json_u) (auto simp: escaped_def split: option.split)
  qed (auto simp: json_esc_def escaped_def split: option.split)
qed

lemma surrogate_small: "hi_surrogate c \<or> lo_surrogate c \<Longrightarrow> 32 \<le> c \<and> c < 65536 \<and> c \<noteq> 34 \<and> c \<noteq> 92"
  by (auto simp: hi_surrogate_def lo_surrogate_def)

lemma read_json_body: "read_string (json_body s @ 34 # rest) = Some (s, rest)"
proof (induction s rule: json_body.induct)
  case (2 c)
  then show ?case using surrogate_small [of c] by (auto simp: read_json_u read_json_esc simp del: read_string.simps) simp_all
next
  case (3 c d s)
  show ?case
  proof (cases "hi_surrogate c \<and> lo_surrogate d")
    case True
    then show ?thesis using 3(1) surrogate_small [of c] surrogate_small [of d] by simp
  next
    case False
    then have "json_body (c # d # s) = (if hi_surrogate c \<or> lo_surrogate c then json_u c else json_esc c) @ json_body (d # s)" by auto
    moreover have "read_string (json_body (d # s) @ 34 # rest) = Some (d # s, rest)" using 3(2,3) False by auto
    ultimately show ?thesis using surrogate_small [of c] by (simp add: read_json_u read_json_esc del: read_string.simps json_body.simps)
  qed
qed simp

lemma read_json_quote: "read_string (tl (json_quote s) @ rest) = Some (s, rest)"
  by (simp add: json_quote_def read_json_body del: read_string.simps)

lemma digits_value_dec: "digits_value (dec_nat n) = Some n"
proof -
  have "foldl (\<lambda>n c. 10 * n + (c - 48)) 0 (dec_nat n) = n"
  proof (induction n rule: dec_nat.induct)
    case (1 n)
    then show ?case by (subst dec_nat.simps) simp
  qed
  moreover have "hd (dec_nat n) \<noteq> 48 \<or> tl (dec_nat n) = []"
  proof (induction n rule: dec_nat.induct)
    case (1 n)
    show ?case
    proof (cases "n < 10")
      case False
      have "dec_nat (n div 10) \<noteq> [48]"
      proof
        assume "dec_nat (n div 10) = [48]"
        moreover have "dec_nat 0 = [48]" by (simp add: dec_nat.simps)
        ultimately have "n div 10 = 0" by (metis dec_nat_inject)
        with False show False by simp
      qed
      with 1 [OF False] have "hd (dec_nat (n div 10)) \<noteq> 48" by (metis dec_nat_nonempty list.collapse)
      with False show ?thesis by (subst dec_nat.simps) (simp add: hd_append)
    qed (simp add: dec_nat.simps)
  qed
  moreover have "list_all is_digit (dec_nat n)" by (auto simp: list_all_iff is_digit_def dest: dec_nat_digits)
  ultimately show ?thesis by (simp add: digits_value_def)
qed

lemma dec_int_chars: "list_all (\<lambda>c. is_digit c \<or> c = 45) (dec_int i)"
  by (auto simp: dec_int_def list_all_iff is_digit_def dest: dec_nat_digits)

lemma dec_int_nonempty [simp]: "dec_int i \<noteq> []"
  by (simp add: dec_int_def)

lemma integer_value_dec: "integer_value (dec_int i) = Some i"
proof (cases "i < 0")
  case True
  then show ?thesis by (simp add: integer_value_def dec_int_def digits_value_dec)
next
  case False
  obtain c u where cu: "dec_nat (nat i) = c # u" by (cases "dec_nat (nat i)") simp_all
  then have "c \<noteq> 45" using dec_nat_digits [of c "nat i"] by auto
  then show ?thesis using False digits_value_dec [of "nat i"] by (simp add: integer_value_def dec_int_def cu)
qed

text \<open>A text after which a numeral ends.\<close>

definition ends_numeral :: "jstr \<Rightarrow> bool" where
  "ends_numeral s \<longleftrightarrow> s = [] \<or> \<not> numeral_char (hd s)"

lemma ends_numeral_simps [simp]: "ends_numeral []" "ends_numeral (44 # s)" "ends_numeral (93 # s)" "ends_numeral (125 # s)"
  by (simp_all add: ends_numeral_def numeral_char_def is_digit_def one_of_def S_def)

text \<open>A value that JSON carries exactly: no \<open>undefined\<close>, no key twice, safe integers only.\<close>

fun json_value :: "jv \<Rightarrow> bool" where
  "json_value JUndef = False"
| "json_value (JNum n) = (case n of NInt i \<Rightarrow> \<bar>i\<bar> \<le> max_safe_integer | _ \<Rightarrow> False)"
| "json_value (JArr xs) = list_all json_value xs"
| "json_value (JObj kvs) = (distinct (map fst kvs) \<and> list_all (\<lambda>(k, v). json_value v) kvs)"
| "json_value _ = True"

text \<open>
  The same with numbers of a kind \<open>ok\<close>. The engine's number conversions keep the law of such a kind: the
  text of a number is a numeral, and reading it gives the number back. Safe integers keep it whatever the
  conversions of the other numbers are.
\<close>

fun carried :: "(jnum \<Rightarrow> bool) \<Rightarrow> jv \<Rightarrow> bool" where
  "carried ok JUndef = False"
| "carried ok (JNum n) = ok n"
| "carried ok (JArr xs) = list_all (carried ok) xs"
| "carried ok (JObj kvs) = (distinct (map fst kvs) \<and> list_all (\<lambda>(k, v). carried ok v) kvs)"
| "carried ok _ = True"

definition safe_int :: "jnum \<Rightarrow> bool" where
  "safe_int n = (case n of NInt i \<Rightarrow> \<bar>i\<bar> \<le> max_safe_integer | _ \<Rightarrow> False)"

definition number_law :: "(jnum \<Rightarrow> jstr) \<Rightarrow> (jstr \<Rightarrow> jnum) \<Rightarrow> (jnum \<Rightarrow> bool) \<Rightarrow> bool" where
  "number_law nt num ok \<longleftrightarrow> (\<forall>n. ok n \<longrightarrow> list_all numeral_char (json_num nt n)
     \<and> json_num nt n \<noteq> [] \<and> (is_digit (hd (json_num nt n)) \<or> hd (json_num nt n) = 45)
     \<and> read_numeral num (json_num nt n) = Some n)"

lemma number_lawD:
  assumes "number_law nt num ok" and "ok n"
  obtains c t where "json_num nt n = c # t" "is_digit c \<or> c = 45" "\<forall>d \<in> set (c # t). numeral_char d" "read_numeral num (c # t) = Some n"
  using assms by (cases "json_num nt n") (auto simp: number_law_def list_all_iff)

lemma number_head: "number_law nt num ok \<Longrightarrow> ok n \<Longrightarrow> \<exists>c t. json_num nt n = c # t \<and> (is_digit c \<or> c = 45)"
  using number_lawD [of nt num ok n] by metis

lemma carried_safe: "carried safe_int v \<longleftrightarrow> json_value v"
  by (induction v) (auto simp: safe_int_def list_all_iff)

lemma carried_mono: "carried p v \<Longrightarrow> (\<And>n. p n \<Longrightarrow> q n) \<Longrightarrow> carried q v"
  by (induction v) (auto simp: list_all_iff)

lemma json_num_int: "\<bar>i\<bar> \<le> max_safe_integer \<Longrightarrow> json_num nt (NInt i) = dec_int i"
  by (simp add: json_num_def max_safe_integer_def)

lemma number_law_safe: "number_law nt num safe_int"
proof -
  have "list_all numeral_char (dec_int i) \<and> (is_digit (hd (dec_int i)) \<or> hd (dec_int i) = 45)" for i
    using dec_int_chars [of i] by (cases "dec_int i") (auto simp: list_all_iff numeral_char_def one_of_def S_def)
  then show ?thesis
    by (auto simp: number_law_def safe_int_def json_num_int read_numeral_def integer_value_dec split: jnum.splits)
qed

lemma number_law_or: "number_law nt num p \<Longrightarrow> number_law nt num q \<Longrightarrow> number_law nt num (\<lambda>n. p n \<or> q n)"
  by (auto simp: number_law_def)

lemma read_word_number:
  assumes "number_law nt num ok" and "ok k" and "ends_numeral rest"
  shows "read_word num (json_num nt k @ rest) = Some (JNum k, rest)"
proof -
  from assms(1,2) obtain c t where n: "json_num nt k = c # t" "is_digit c \<or> c = 45" "\<forall>d \<in> set (c # t). numeral_char d"
    "read_numeral num (c # t) = Some k" by (rule number_lawD)
  have "takeWhile numeral_char rest = []" "dropWhile numeral_char rest = rest"
    using assms(3) by (cases rest; simp add: ends_numeral_def)+
  then have "takeWhile numeral_char (s @ rest) = s" "dropWhile numeral_char (s @ rest) = rest" if "\<forall>d \<in> set s. numeral_char d" for s
    using that by (simp_all add: takeWhile_append dropWhile_append)
  note this [OF n(3)]
  moreover have "\<not> startsWith ((c # t) @ rest) (d # w)" if "d \<in> {110, 116, 102}" for d w
    using n(2) that by (auto simp: startsWith_def is_digit_def)
  ultimately show ?thesis unfolding n(1) by (simp add: read_word_def n(4) S_Cons del: append_Cons)
qed

definition opens_value :: "nat \<Rightarrow> bool" where
  "opens_value c \<longleftrightarrow> \<not> json_space c \<and> c \<noteq> 93 \<and> c \<noteq> 125 \<and> c < 128"

lemma carried_head: "number_law nt num ok \<Longrightarrow> carried ok v \<Longrightarrow> \<exists>c t. stringify nt v = c # t \<and> opens_value c"
proof (cases v)
  case (JNum n)
  assume "number_law nt num ok" "carried ok v"
  then obtain c t where "json_num nt n = c # t" "is_digit c \<or> c = 45" using number_head [of nt num ok n] by (auto simp: JNum)
  then show ?thesis by (auto simp: JNum opens_value_def json_space_def is_digit_def)
qed (auto simp: json_quote_def opens_value_def json_space_def S_def)

lemma stringify_head: "json_value v \<Longrightarrow> \<exists>c t. stringify nt v = c # t \<and> opens_value c"
  using carried_head [OF number_law_safe] by (simp add: carried_safe)

lemma skip_opens: "opens_value c \<Longrightarrow> skip_space (c # t) = c # t"
  by (simp add: skip_space_def opens_value_def)

lemma skip_punctuation [simp]: "skip_space (34 # t) = 34 # t" "skip_space (44 # t) = 44 # t" "skip_space (58 # t) = 58 # t"
  "skip_space (93 # t) = 93 # t" "skip_space (125 # t) = 125 # t" "skip_space (91 # t) = 91 # t" "skip_space (123 # t) = 123 # t"
  by (simp_all add: skip_space_def json_space_def)

definition reads_back :: "(jnum \<Rightarrow> jstr) \<Rightarrow> (jstr \<Rightarrow> jnum) \<Rightarrow> jv \<Rightarrow> bool" where
  "reads_back nt num v \<longleftrightarrow> (\<forall>rest n. ends_numeral rest \<longrightarrow> 2 * length (stringify nt v @ rest) + 1 \<le> n \<longrightarrow>
     read_value num n (stringify nt v @ rest) = Some (v, rest))"

lemma reads_backD: "reads_back nt num v \<Longrightarrow> ends_numeral rest \<Longrightarrow> 2 * length (stringify nt v @ rest) + 1 \<le> n \<Longrightarrow>
    read_value num n (stringify nt v @ rest) = Some (v, rest)"
  by (simp add: reads_back_def)

lemma join_Cons: "join sep (t # ts) = (if ts = [] then t else t @ sep @ join sep ts)"
  by (cases ts) simp_all

lemma read_elements_back:
  "xs \<noteq> [] \<Longrightarrow> list_all (reads_back nt num) xs \<Longrightarrow>
   2 * length (join (S '','') (map (stringify nt) xs) @ 93 # rest) + 2 \<le> n \<Longrightarrow>
   read_elements num n (join (S '','') (map (stringify nt) xs) @ 93 # rest) = Some (xs, rest)"
proof (induction xs arbitrary: n)
  case (Cons x xs)
  from Cons.prems(3) obtain m where n: "n = Suc m" by (cases n) auto
  let ?tail = "if xs = [] then 93 # rest else 44 # join (S '','') (map (stringify nt) xs) @ 93 # rest"
  have shown: "join (S '','') (map (stringify nt) (x # xs)) @ 93 # rest = stringify nt x @ ?tail"
    by (simp add: join_Cons S_def)
  have v: "read_value num m (stringify nt x @ ?tail) = Some (x, ?tail)"
    using Cons.prems(2,3) n unfolding shown by (intro reads_backD) auto
  show ?case
  proof (cases "xs = []")
    case True
    then show ?thesis using v unfolding shown n by simp
  next
    case False
    have "read_elements num m (join (S '','') (map (stringify nt) xs) @ 93 # rest) = Some (xs, rest)"
      using False Cons.prems(2,3) n by (intro Cons.IH) (auto simp: join_Cons S_def)
    then show ?thesis using v False unfolding shown n by simp
  qed
qed simp

definition field_text :: "(jnum \<Rightarrow> jstr) \<Rightarrow> jstr \<times> jv \<Rightarrow> jstr" where
  "field_text nt kv = json_quote (fst kv) @ S '':'' @ stringify nt (snd kv)"

lemma read_members_back:
  "kvs \<noteq> [] \<Longrightarrow> list_all (\<lambda>(k, v). reads_back nt num v) kvs \<Longrightarrow> distinct (map fst (acc @ kvs)) \<Longrightarrow>
   2 * length (join (S '','') (map (field_text nt) kvs) @ 125 # rest) + 2 \<le> n \<Longrightarrow>
   read_members num n acc (join (S '','') (map (field_text nt) kvs) @ 125 # rest) = Some (acc @ kvs, rest)"
proof (induction kvs arbitrary: n acc)
  case (Cons kv kvs)
  from Cons.prems(4) obtain m where n: "n = Suc m" by (cases n) auto
  obtain k v where kv: "kv = (k, v)" by (cases kv)
  let ?tail = "if kvs = [] then 125 # rest else 44 # join (S '','') (map (field_text nt) kvs) @ 125 # rest"
  have shown: "join (S '','') (map (field_text nt) (kv # kvs)) @ 125 # rest = 34 # json_body k @ 34 # 58 # stringify nt v @ ?tail"
    by (simp add: join_Cons S_def field_text_def kv json_quote_def)
  have v: "read_value num m (stringify nt v @ ?tail) = Some (v, ?tail)"
    using Cons.prems(2,4) n kv unfolding shown by (intro reads_backD) auto
  have put: "jput acc k v = acc @ [(k, v)]" using Cons.prems(3) kv by (intro jput_new) auto
  show ?case
  proof (cases "kvs = []")
    case True
    then show ?thesis using v unfolding shown n by (simp add: read_json_body put kv del: read_string.simps)
  next
    case False
    have "read_members num m (acc @ [(k, v)]) (join (S '','') (map (field_text nt) kvs) @ 125 # rest) = Some ((acc @ [(k, v)]) @ kvs, rest)"
      using False Cons.prems(2,3,4) n kv by (intro Cons.IH) (auto simp: join_Cons S_def field_text_def)
    then show ?thesis using v False unfolding shown n by (simp add: read_json_body put kv del: read_string.simps)
  qed
qed simp

lemma carried_object: "carried ok (JObj kvs) \<Longrightarrow>
    stringify nt (JObj kvs) = 123 # join (S '','') (map (field_text nt) kvs) @ [125]"
proof -
  assume j: "carried ok (JObj kvs)"
  then have "filter (\<lambda>kv. snd kv \<noteq> JUndef) kvs = kvs" by (fastforce simp: filter_id_conv list_all_iff)
  moreover have "(\<lambda>p. json_quote (fst p) @ 58 # stringify nt (snd p)) = field_text nt" by (simp add: field_text_def fun_eq_iff S_def)
  ultimately show ?thesis by (simp add: S_def case_prod_unfold)
qed

lemma stringify_object: "json_value (JObj kvs) \<Longrightarrow>
    stringify nt (JObj kvs) = 123 # join (S '','') (map (field_text nt) kvs) @ [125]"
  using carried_object [of safe_int] by (simp only: carried_safe)

lemma carried_reads_back: "number_law nt num ok \<Longrightarrow> carried ok v \<Longrightarrow> reads_back nt num v"
proof (induction v)
  case (JArr xs)
  then have xs: "list_all (reads_back nt num) xs" by (auto simp: list_all_iff)
  show ?case unfolding reads_back_def
  proof (intro allI impI)
    fix rest n
    assume le: "2 * length (stringify nt (JArr xs) @ rest) + 1 \<le> n"
    then obtain m where n: "n = Suc m" by (cases n) auto
    show "read_value num n (stringify nt (JArr xs) @ rest) = Some (JArr xs, rest)"
    proof (cases xs)
      case Nil
      then show ?thesis by (simp add: n S_def)
    next
      case (Cons x ys)
      let ?body = "join (S '','') (map (stringify nt) xs) @ 93 # rest"
      have shown: "stringify nt (JArr xs) @ rest = 91 # ?body" by (simp add: S_def)
      obtain c t where ct: "stringify nt x = c # t" "opens_value c" using carried_head [OF JArr.prems(1), of x] JArr.prems(2) Cons by auto
      then obtain u where b: "?body = c # u" unfolding Cons by (cases "map (stringify nt) ys") auto
      have "read_elements num m ?body = Some (xs, rest)" using le n xs Cons shown by (intro read_elements_back) auto
      moreover have "skip_space ?body = ?body" "c \<noteq> 93" using ct(2) unfolding b by (auto simp: skip_opens opens_value_def)
      ultimately show ?thesis unfolding shown n b by simp
    qed
  qed
next
  case (JObj kvs)
  then have kvs: "list_all (\<lambda>(k, v). reads_back nt num v) kvs" by (fastforce simp: list_all_iff)
  show ?case unfolding reads_back_def
  proof (intro allI impI)
    fix rest n
    assume le: "2 * length (stringify nt (JObj kvs) @ rest) + 1 \<le> n"
    then obtain m where n: "n = Suc m" by (cases n) auto
    show "read_value num n (stringify nt (JObj kvs) @ rest) = Some (JObj kvs, rest)"
    proof (cases kvs)
      case Nil
      then show ?thesis by (simp add: n S_def)
    next
      case (Cons kv ys)
      let ?body = "join (S '','') (map (field_text nt) kvs) @ 125 # rest"
      have shown: "stringify nt (JObj kvs) @ rest = 123 # ?body" using carried_object [OF JObj.prems(2)] by simp
      obtain u where b: "?body = 34 # u" unfolding Cons by (cases "map (field_text nt) ys") (auto simp: field_text_def json_quote_def)
      have "read_members num m [] ?body = Some ([] @ kvs, rest)"
      proof (rule read_members_back)
        show "2 * length ?body + 2 \<le> m" using le n unfolding shown by simp
      qed (use kvs Cons JObj.prems in auto)
      then show ?thesis unfolding shown n b by simp
    qed
  qed
next
  case (JNum k)
  then have k: "number_law nt num ok" "ok k" by simp_all
  then obtain c t where ct: "json_num nt k = c # t" "is_digit c \<or> c = 45" using number_head by blast
  then have c: "skip_space (c # t @ r) = c # t @ r" "c \<noteq> 34" "c \<noteq> 91" "c \<noteq> 123" for r
    by (auto simp: skip_space_def json_space_def is_digit_def)
  show ?case unfolding reads_back_def
  proof (intro allI impI)
    fix rest n
    assume e: "ends_numeral rest" and le: "2 * length (stringify nt (JNum k) @ rest) + 1 \<le> n"
    then obtain m where n: "n = Suc m" by (cases n) auto
    show "read_value num n (stringify nt (JNum k) @ rest) = Some (JNum k, rest)"
      using read_word_number [OF k e] c by (simp add: n ct)
  qed
next
  case (JStr s)
  show ?case unfolding reads_back_def
  proof (intro allI impI)
    fix rest n
    assume "2 * length (stringify nt (JStr s) @ rest) + 1 \<le> n"
    then obtain m where "n = Suc m" by (cases n) auto
    then show "read_value num n (stringify nt (JStr s) @ rest) = Some (JStr s, rest)"
      by (simp add: json_quote_def read_json_body del: read_string.simps)
  qed
next
  case (JBool b)
  show ?case unfolding reads_back_def
  proof (intro allI impI)
    fix rest n
    assume "2 * length (stringify nt (JBool b) @ rest) + 1 \<le> n"
    then obtain m where "n = Suc m" by (cases n) auto
    then show "read_value num n (stringify nt (JBool b) @ rest) = Some (JBool b, rest)"
      by (cases b) (simp_all add: S_def skip_space_def json_space_def read_word_def startsWith_def slice_from_def)
  qed
next
  case JNull
  show ?case unfolding reads_back_def
  proof (intro allI impI)
    fix rest n
    assume "2 * length (stringify nt JNull @ rest) + 1 \<le> n"
    then obtain m where "n = Suc m" by (cases n) auto
    then show "read_value num n (stringify nt JNull @ rest) = Some (JNull, rest)"
      by (simp add: S_def skip_space_def json_space_def read_word_def startsWith_def slice_from_def)
  qed
qed simp

lemma json_value_reads_back: "json_value v \<Longrightarrow> reads_back nt num v"
  using carried_reads_back [OF number_law_safe] by (simp only: carried_safe)

lemma parse_carried: "number_law nt num ok \<Longrightarrow> carried ok v \<Longrightarrow> parse_json num (stringify nt v) = Some v"
  using reads_backD [OF carried_reads_back, where v = v and rest = "[]" and n = "2 * length (stringify nt v) + 1" and nt = nt and num = num]
  by (simp add: parse_json_def skip_space_def)

lemma parse_stringify: "json_value v \<Longrightarrow> parse_json num (stringify nt v) = Some v"
  using parse_carried [OF number_law_safe] by (simp only: carried_safe)

section \<open>The keys of a parsed object are distinct\<close>

lemma jput_wf: "wf_jv (JObj acc) \<Longrightarrow> wf_jv v \<Longrightarrow> wf_jv (JObj (jput acc k v))"
proof -
  have "map fst (jput acc k v) = (if k \<in> set (map fst acc) then map fst acc else map fst acc @ [k])"
    by (induction acc) (force split: if_splits)+
  then have "distinct (map fst acc) \<Longrightarrow> distinct (map fst (jput acc k v))" by simp
  moreover have "snd ` set (jput acc k v) \<subseteq> insert v (snd ` set acc)"
    by (induction acc) (force split: if_splits)+
  ultimately show "wf_jv (JObj acc) \<Longrightarrow> wf_jv v \<Longrightarrow> wf_jv (JObj (jput acc k v))" by fastforce
qed

lemma read_word_wf: "read_word num s = Some (v, u) \<Longrightarrow> wf_jv v"
  by (auto simp: read_word_def split: if_splits)

lemma read_wf:
  "read_value num n s = Some (v, u) \<Longrightarrow> wf_jv v"
  "read_elements num n s = Some (vs, u) \<Longrightarrow> \<forall>v \<in> set vs. wf_jv v"
  "read_members num n acc s = Some (kvs, u) \<Longrightarrow> wf_jv (JObj acc) \<Longrightarrow> wf_jv (JObj kvs)"
proof (induction num n s and num n s and num n acc s arbitrary: v u and vs u and kvs u
    rule: read_value_read_elements_read_members.induct)
  case (2 num n s)
  have "wf_jv (JObj [])" by simp
  with 2 show ?case
    by (fastforce dest: read_word_wf split: list.splits if_splits simp del: wf_jv.simps(2) intro: wf_jv.simps(2) [THEN iffD2])
next
  case (4 num n s)
  then show ?case by (fastforce split: list.splits if_splits option.splits)
next
  case (6 num n acc s)
  then show ?case
    by (fastforce dest: jput_wf split: list.splits if_splits option.splits simp del: wf_jv.simps(2))
qed simp_all

lemma parse_json_wf: "parse_json num s = Some v \<Longrightarrow> wf_jv v"
  by (auto simp: parse_json_def simp del: read_value.simps dest: read_wf(1) split: option.splits if_splits)

end
