(* ===== verification/DaemonModel.thy ===== *)
theory DaemonModel
  imports JsonParse RegexFacts "HOL-Library.Sorting_Algorithms"
begin

text \<open>
  The data of daemon management: errors, identities and reports (\<open>src/daemonManagement/model.ts\<close>),
  the management job and its schema (\<open>src/daemonManagement/jobs/contract.ts\<close>), and the two canonical
  texts that are hashed. A validation schema is a predicate on JavaScript values, an accepted value
  is read into a record.
\<close>

section \<open>The environment\<close>

text \<open>
  SHA-256 (hexadecimal), the text of a number that is not a small integer and the number of such a
  text, the ISO date format, the URL parser, and the collation of \<open>localeCompare\<close>.
\<close>

record daemon_env =
  de_sha :: "bytes \<Rightarrow> jstr"
  de_num :: "jnum \<Rightarrow> jstr"
  de_double :: "jstr \<Rightarrow> jnum"
  de_iso :: "jstr \<Rightarrow> int option"
  de_toISO :: "int \<Rightarrow> jstr"
  de_https :: "jstr \<Rightarrow> bool"
  de_collation :: "jstr comparator"

datatype daemon_error = ManagementError int jstr "jstr option" | OtherError js_error

definition mgmt_error :: "int \<Rightarrow> string \<Rightarrow> daemon_error" where
  "mgmt_error status code = ManagementError status (S code) None"

definition unavailable :: daemon_error where
  "unavailable = mgmt_error 503 ''authorization_state_unavailable''"

section \<open>Schemas\<close>

text \<open>A strict object: no other key than the listed ones, a required one present, each value checked.\<close>

definition strict_object :: "(string \<times> bool \<times> (jv \<Rightarrow> bool)) list \<Rightarrow> jv \<Rightarrow> bool" where
  "strict_object fs v = (case v of
      JObj kvs \<Rightarrow> only_keys (map fst fs) kvs
        \<and> list_all (\<lambda>(k, required, chk). if jhas kvs (S k) then chk (jget kvs (S k)) else \<not> required) fs
    | _ \<Rightarrow> False)"

definition int_between :: "int \<Rightarrow> int \<Rightarrow> jv \<Rightarrow> bool" where
  "int_between lo hi v = (case v of JNum (NInt i) \<Rightarrow> lo \<le> i \<and> i \<le> hi | _ \<Rightarrow> False)"

definition int_of :: "jv \<Rightarrow> int" where
  "int_of v = (case v of JNum (NInt i) \<Rightarrow> i | _ \<Rightarrow> 0)"

definition array_of :: "nat \<Rightarrow> (jv \<Rightarrow> bool) \<Rightarrow> jv \<Rightarrow> bool" where
  "array_of n chk v = (case v of JArr xs \<Rightarrow> length xs \<le> n \<and> list_all chk xs | _ \<Rightarrow> False)"

definition literal :: "jv \<Rightarrow> jv \<Rightarrow> bool" where
  "literal a v \<longleftrightarrow> v = a"

definition positive :: "jv \<Rightarrow> bool" where
  "positive = int_between 1 max_safe_integer"

definition timestamp :: "jv \<Rightarrow> bool" where
  "timestamp = int_between 0 max_safe_integer"

definition nullable :: "(jv \<Rightarrow> bool) \<Rightarrow> jv \<Rightarrow> bool" where
  "nullable chk v \<longleftrightarrow> v = JNull \<or> chk v"

definition whole :: "re list \<Rightarrow> re" where
  "whole rs = RSeq RBol (rseqs (rs @ [REol]))"

definition is_id_char :: "nat \<Rightarrow> bool" where
  "is_id_char c \<longleftrightarrow> is_alnum c \<or> one_of ''._:-'' c"

definition is_url64 :: "nat \<Rightarrow> bool" where
  "is_url64 c \<longleftrightarrow> is_alnum c \<or> c = 95 \<or> c = 45"

definition job_id_ok :: "jstr \<Rightarrow> bool" where
  "job_id_ok s = re_test (whole [RCls is_alnum, rupto 127 (RCls is_id_char)]) s"

definition digest_ok :: "jstr \<Rightarrow> bool" where
  "digest_ok s = re_test (whole [rrep 64 (RCls is_hex_lower)]) s"

definition key43_ok :: "jstr \<Rightarrow> bool" where
  "key43_ok s = re_test (whole [rrep 43 (RCls is_url64)]) s"

definition report_id_ok :: "jstr \<Rightarrow> bool" where
  "report_id_ok s \<longleftrightarrow> 1 \<le> length s \<and> length s \<le> 255 \<and> re_test (whole [rplus (RCls is_id_char)]) s"

definition daemon_version_ok :: "jstr \<Rightarrow> bool" where
  "daemon_version_ok s \<longleftrightarrow> length s \<le> 64 \<and> re_test (whole [rplus (RCls is_digit), rchr 46, rplus (RCls is_digit), rchr 46,
     rplus (RCls is_digit), ropt (RSeq (RCls (one_of ''-+'')) (rplus (RCls (\<lambda>c. is_alnum c \<or> one_of ''.-'' c))))]) s"

section \<open>Reports\<close>

record device_identity =
  id_issuer :: jstr
  id_tenant :: jstr
  id_subject :: jstr
  id_organization :: jstr
  id_client :: jstr
  id_resource :: jstr
  id_device :: jstr
  id_version :: int
  id_jkt :: jstr
  id_userVersion :: jstr
  id_serviceVersion :: jstr

record job_result =
  jr_job_id :: jstr
  jr_digest :: jstr
  jr_resource_id :: jstr
  jr_state_version :: int
  jr_termination :: jstr

record report =
  rp_report_id :: jstr
  rp_sequence :: int
  rp_observed_at :: jstr
  rp_connection :: jstr
  rp_policy :: "(jstr \<times> jv) option"
  rp_job_results :: "job_result list"
  rp_json :: jv

record receipt =
  rt_report_id :: jstr
  rt_sequence :: int
  rt_received_at :: jstr

record stored_report =
  st_identity :: device_identity
  st_report :: report
  st_receipt :: receipt

definition job_result_schema :: "jv \<Rightarrow> bool" where
  "job_result_schema = strict_object
     [(''job_id'', True, is_text report_id_ok), (''digest'', True, is_text digest_ok),
      (''resource_id'', True, is_text report_id_ok), (''state_version'', True, positive),
      (''admission'', True, literal (JStr (S ''blocked''))), (''termination'', True, is_one_of [''confirmed'', ''unknown''])]"

definition event_schema :: "jv \<Rightarrow> bool" where
  "event_schema = strict_object
     [(''sequence'', True, positive),
      (''kind'', True, is_one_of [''denied'', ''intent'', ''completed'', ''failed'', ''interrupted'']),
      (''timestamp'', True, timestamp), (''policy_revision'', True, nullable positive)]"

definition status_schema :: "jv \<Rightarrow> bool" where
  "status_schema = strict_object
     [(''connection'', True, is_one_of [''connected'', ''unavailable'']),
      (''daemon_version'', False, is_text daemon_version_ok),
      (''scope'', False, literal (JStr (S ''native_mcp_worker''))),
      (''policy'', False, strict_object [(''state'', True, is_one_of [''valid'', ''expired'', ''unverified'']),
         (''revision'', True, nullable positive)]),
      (''execution'', False, strict_object [(''state'', True, is_one_of [''preflight_passed'', ''blocked'', ''unverified''])]),
      (''job_results'', False, array_of 20 job_result_schema),
      (''recent_events'', False, array_of 20 event_schema)]"

definition report_schema :: "daemon_env \<Rightarrow> jv \<Rightarrow> bool" where
  "report_schema E = strict_object
     [(''schema_version'', True, literal (JNum (NInt 1))), (''report_id'', True, is_text report_id_ok),
      (''sequence'', True, positive), (''observed_at'', True, is_text (\<lambda>s. de_iso E s \<noteq> None)),
      (''status'', True, status_schema)]"

definition prop_of :: "jv \<Rightarrow> string \<Rightarrow> jv" where
  "prop_of v k = jget (fields_of v) (S k)"

definition elements_of :: "jv \<Rightarrow> jv list" where
  "elements_of v = (case v of JArr xs \<Rightarrow> xs | _ \<Rightarrow> [])"

definition read_job_result :: "jv \<Rightarrow> job_result" where
  "read_job_result v = \<lparr>jr_job_id = text_of (prop_of v ''job_id''), jr_digest = text_of (prop_of v ''digest''),
     jr_resource_id = text_of (prop_of v ''resource_id''), jr_state_version = int_of (prop_of v ''state_version''),
     jr_termination = text_of (prop_of v ''termination'')\<rparr>"

definition read_report :: "jv \<Rightarrow> report" where
  "read_report v = (let status = prop_of v ''status''; policy = prop_of status ''policy'' in
     \<lparr>rp_report_id = text_of (prop_of v ''report_id''), rp_sequence = int_of (prop_of v ''sequence''),
      rp_observed_at = text_of (prop_of v ''observed_at''), rp_connection = text_of (prop_of status ''connection''),
      rp_policy = (if policy = JUndef then None else Some (text_of (prop_of policy ''state''), prop_of policy ''revision'')),
      rp_job_results = map read_job_result (elements_of (prop_of status ''job_results'')), rp_json = v\<rparr>)"

definition parse_report :: "daemon_env \<Rightarrow> jv \<Rightarrow> report option" where
  "parse_report E v = (if report_schema E v then Some (read_report v) else None)"

text \<open>Age in milliseconds; both times were validated when they were stored.\<close>

definition date_parse :: "daemon_env \<Rightarrow> jstr \<Rightarrow> int" where
  "date_parse E s = (case de_iso E s of Some t \<Rightarrow> t | None \<Rightarrow> 0)"

definition fresh_age :: "int \<Rightarrow> bool" where
  "fresh_age age \<longleftrightarrow> -5000 \<le> age \<and> age \<le> 90000"

definition is_fresh :: "daemon_env \<Rightarrow> stored_report \<Rightarrow> int \<Rightarrow> bool" where
  "is_fresh E r now = fresh_age (now - min (date_parse E (rp_observed_at (st_report r))) (date_parse E (rt_received_at (st_receipt r))))"

section \<open>Jobs\<close>

record job_resource =
  rs_id :: jstr
  rs_version :: int
  rs_sha256 :: jstr

record approval =
  av_subject :: jstr
  av_authorization_id :: jstr
  av_approved_at :: int

record job =
  jb_job_id :: jstr
  jb_iss :: jstr
  jb_identity_issuer :: jstr
  jb_tenant_id :: jstr
  jb_organization_id :: jstr
  jb_subject :: jstr
  jb_device_id :: jstr
  jb_device_version :: int
  jb_key_jkt :: jstr
  jb_approved_by :: approval
  jb_resource :: job_resource
  jb_policy_revision :: int
  jb_expected_state_version :: int
  jb_iat :: int
  jb_exp :: int

definition JOB_TYPE :: jstr where "JOB_TYPE = S ''lynply-daemon-job+jws''"
definition JOB_AUDIENCE :: jstr where "JOB_AUDIENCE = S ''urn:lynply:tools-daemon:management-jobs:v1''"
definition MAX_JOB_BYTES :: nat where "MAX_JOB_BYTES = 16384"

definition url_ok :: "daemon_env \<Rightarrow> jstr \<Rightarrow> bool" where
  "url_ok E s \<longleftrightarrow> length s \<le> 512 \<and> re_test (whole [rplus (RCls (\<lambda>c. 33 \<le> c \<and> c \<le> 126))]) s \<and> de_https E s"

definition resource_schema :: "jv \<Rightarrow> bool" where
  "resource_schema = strict_object
     [(''id'', True, is_text job_id_ok), (''version'', True, positive), (''sha256'', True, is_text digest_ok)]"

definition approval_schema :: "jv \<Rightarrow> bool" where
  "approval_schema = strict_object
     [(''subject'', True, is_text job_id_ok), (''authorization_id'', True, is_text job_id_ok), (''approved_at'', True, timestamp)]"

definition job_schema :: "daemon_env \<Rightarrow> jv \<Rightarrow> bool" where
  "job_schema E = strict_object
     [(''schema_version'', True, literal (JNum (NInt 1))), (''job_id'', True, is_text job_id_ok), (''iss'', True, is_text (url_ok E)),
      (''aud'', True, literal (JStr JOB_AUDIENCE)), (''identity_issuer'', True, is_text (url_ok E)),
      (''tenant_id'', True, is_text job_id_ok), (''organization_id'', True, is_text job_id_ok), (''subject'', True, is_text job_id_ok),
      (''device_id'', True, is_text job_id_ok), (''device_version'', True, positive), (''key_jkt'', True, is_text key43_ok),
      (''approved_by'', True, approval_schema), (''operation'', True, literal (JStr (S ''managed_worker.revoke''))),
      (''resource'', True, resource_schema), (''policy_revision'', True, positive), (''expected_state_version'', True, positive),
      (''iat'', True, timestamp), (''exp'', True, timestamp)]"

definition resource_json :: "job_resource \<Rightarrow> jv" where
  "resource_json r = JObj [(S ''id'', JStr (rs_id r)), (S ''version'', JNum (NInt (rs_version r))), (S ''sha256'', JStr (rs_sha256 r))]"

definition read_resource :: "jv \<Rightarrow> job_resource" where
  "read_resource v = \<lparr>rs_id = text_of (prop_of v ''id''), rs_version = int_of (prop_of v ''version''),
     rs_sha256 = text_of (prop_of v ''sha256'')\<rparr>"

definition job_json :: "job \<Rightarrow> jv" where
  "job_json j = JObj
     [(S ''schema_version'', JNum (NInt 1)), (S ''job_id'', JStr (jb_job_id j)), (S ''iss'', JStr (jb_iss j)),
      (S ''aud'', JStr JOB_AUDIENCE), (S ''identity_issuer'', JStr (jb_identity_issuer j)), (S ''tenant_id'', JStr (jb_tenant_id j)),
      (S ''organization_id'', JStr (jb_organization_id j)), (S ''subject'', JStr (jb_subject j)), (S ''device_id'', JStr (jb_device_id j)),
      (S ''device_version'', JNum (NInt (jb_device_version j))), (S ''key_jkt'', JStr (jb_key_jkt j)),
      (S ''approved_by'', JObj [(S ''subject'', JStr (av_subject (jb_approved_by j))),
         (S ''authorization_id'', JStr (av_authorization_id (jb_approved_by j))),
         (S ''approved_at'', JNum (NInt (av_approved_at (jb_approved_by j))))]),
      (S ''operation'', JStr (S ''managed_worker.revoke'')), (S ''resource'', resource_json (jb_resource j)),
      (S ''policy_revision'', JNum (NInt (jb_policy_revision j))),
      (S ''expected_state_version'', JNum (NInt (jb_expected_state_version j))),
      (S ''iat'', JNum (NInt (jb_iat j))), (S ''exp'', JNum (NInt (jb_exp j)))]"

definition read_job :: "jv \<Rightarrow> job" where
  "read_job v = (let a = prop_of v ''approved_by'' in
     \<lparr>jb_job_id = text_of (prop_of v ''job_id''), jb_iss = text_of (prop_of v ''iss''),
      jb_identity_issuer = text_of (prop_of v ''identity_issuer''), jb_tenant_id = text_of (prop_of v ''tenant_id''),
      jb_organization_id = text_of (prop_of v ''organization_id''), jb_subject = text_of (prop_of v ''subject''),
      jb_device_id = text_of (prop_of v ''device_id''), jb_device_version = int_of (prop_of v ''device_version''),
      jb_key_jkt = text_of (prop_of v ''key_jkt''),
      jb_approved_by = \<lparr>av_subject = text_of (prop_of a ''subject''),
        av_authorization_id = text_of (prop_of a ''authorization_id''), av_approved_at = int_of (prop_of a ''approved_at'')\<rparr>,
      jb_resource = read_resource (prop_of v ''resource''), jb_policy_revision = int_of (prop_of v ''policy_revision''),
      jb_expected_state_version = int_of (prop_of v ''expected_state_version''),
      jb_iat = int_of (prop_of v ''iat''), jb_exp = int_of (prop_of v ''exp'')\<rparr>)"

definition parse_job :: "daemon_env \<Rightarrow> jv \<Rightarrow> job option" where
  "parse_job E v = (if job_schema E v then Some (read_job v) else None)"

section \<open>Canonical texts\<close>

text \<open>
  The members of an object sorted by key: by collation in \<open>postgresStore.ts\<close>, by code units in
  \<open>contract.ts\<close>. A value that is neither array nor object is the text of \<open>JSON.stringify\<close>.
\<close>

definition member_text :: "jstr \<times> jstr \<Rightarrow> jstr" where
  "member_text kt = json_quote (fst kt) @ S '':'' @ snd kt"

fun canonical_by :: "(jstr \<times> jstr) comparator \<Rightarrow> (jnum \<Rightarrow> jstr) \<Rightarrow> jv \<Rightarrow> jstr" where
  "canonical_by cmp num (JArr xs) = S ''['' @ join (S '','') (map (canonical_by cmp num) xs) @ S '']''"
| "canonical_by cmp num (JObj kvs) = S ''{'' @ join (S '','')
     (map member_text (Sorting_Algorithms.sort cmp (map (\<lambda>(k, v). (k, canonical_by cmp num v)) kvs))) @ S ''}''"
| "canonical_by cmp num v = stringify num v"

definition canonical :: "daemon_env \<Rightarrow> jv \<Rightarrow> jstr" where
  "canonical E = canonical_by (key fst (de_collation E)) (de_num E)"

text \<open>Comparison of strings by code units, the order of \<open>Array.prototype.sort\<close>.\<close>

fun code_units :: "jstr \<Rightarrow> jstr \<Rightarrow> comp" where
  "code_units [] [] = Equiv"
| "code_units [] (d # t) = Less"
| "code_units (c # s) [] = Greater"
| "code_units (c # s) (d # t) = (if c < d then Less else if d < c then Greater else code_units s t)"

section \<open>The characters a pattern admits\<close>

fun only_chars :: "(nat \<Rightarrow> bool) \<Rightarrow> re \<Rightarrow> bool" where
  "only_chars P (RCls Q) = (\<forall>c. Q c \<longrightarrow> P c)"
| "only_chars P (RSeq a b) = (only_chars P a \<and> only_chars P b)"
| "only_chars P (RAlt a b) = (only_chars P a \<and> only_chars P b)"
| "only_chars P (RStar a) = only_chars P a"
| "only_chars P (RCap i a) = only_chars P a"
| "only_chars P _ = True"

definition consumes :: "(nat \<Rightarrow> bool) \<Rightarrow> mpos \<Rightarrow> mpos \<Rightarrow> bool" where
  "consumes P p q \<longleftrightarrow> (\<exists>a. mrest p = a @ mrest q \<and> list_all P a)"

lemma consumes_refl: "mrest q = mrest p \<Longrightarrow> consumes P p q"
  by (simp add: consumes_def)

lemma consumes_trans: "consumes P p m \<Longrightarrow> consumes P m q \<Longrightarrow> consumes P p q"
  by (fastforce simp: consumes_def)

lemma Matches_consumes: "only_chars P r \<Longrightarrow> Matches r p q \<Longrightarrow> consumes P p q"
proof (induction r arbitrary: p q)
  case (RCls Q)
  then show ?case by (fastforce simp: consumes_def)
next
  case (RSeq a b)
  then obtain m where "consumes P p m" "consumes P m q" by fastforce
  then show ?case by (rule consumes_trans)
next
  case (RStar a)
  have "Star (Matches a) p q" using RStar.prems(2) by simp
  then show ?case
  proof (induction rule: Star.induct)
    case (Star_refl p)
    show ?case by (rule consumes_refl) simp
  next
    case (Star_step p m q)
    then have "consumes P p m" using RStar.IH RStar.prems(1) by simp
    then show ?case using Star_step.IH by (rule consumes_trans)
  qed
next
  case (RCap i a)
  then show ?case by (fastforce simp: consumes_def with_cap_def)
qed (auto intro: consumes_refl)

lemma only_chars_build [simp]: "only_chars P (rrep n r) \<longleftrightarrow> n = 0 \<or> only_chars P r" "only_chars P (rupto n r) \<longleftrightarrow> n = 0 \<or> only_chars P r"
  "only_chars P (rplus r) \<longleftrightarrow> only_chars P r" "only_chars P (ropt r) \<longleftrightarrow> only_chars P r"
  by (induction n) (auto simp: rplus_def ropt_def)

lemma whole_chars:
  assumes "re_test (whole rs) s" and "list_all (only_chars P) rs"
  shows "list_all P s"
proof -
  obtain q where q: "Matches (rseqs (rs @ [REol])) (MPos None s []) q"
    using assms(1) by (auto simp: whole_def re_test_bol)
  have "only_chars P (rseqs (rs @ [REol]))" using assms(2) by (induction rs) auto
  then have c: "consumes P (MPos None s []) q" using Matches_consumes q by blast
  have "Matches (rseqs (rs @ [REol])) p q \<Longrightarrow> mrest q = []" for p
    by (induction rs arbitrary: p) (auto split: if_splits)
  with q c show ?thesis by (auto simp: consumes_def)
qed

text \<open>The greatest number of characters that a pattern without repetition takes.\<close>

fun re_width :: "re \<Rightarrow> nat" where
  "re_width (RCls Q) = 1"
| "re_width (RSeq a b) = re_width a + re_width b"
| "re_width (RAlt a b) = max (re_width a) (re_width b)"
| "re_width (RCap i a) = re_width a"
| "re_width _ = 0"

fun star_free :: "re \<Rightarrow> bool" where
  "star_free (RSeq a b) \<longleftrightarrow> star_free a \<and> star_free b"
| "star_free (RAlt a b) \<longleftrightarrow> star_free a \<and> star_free b"
| "star_free (RStar a) \<longleftrightarrow> False"
| "star_free (RCap i a) \<longleftrightarrow> star_free a"
| "star_free _ \<longleftrightarrow> True"

lemma Matches_width: "star_free r \<Longrightarrow> Matches r p q \<Longrightarrow> length (mrest p) \<le> length (mrest q) + re_width r"
proof (induction r arbitrary: p q)
  case (RSeq a b)
  then obtain m where "length (mrest p) \<le> length (mrest m) + re_width a" "length (mrest m) \<le> length (mrest q) + re_width b" by fastforce
  then show ?case by simp
next
  case (RAlt a b)
  then show ?case by (fastforce simp: le_max_iff_disj)
next
  case (RCap i a)
  then show ?case by (fastforce simp: with_cap_def)
qed auto

lemma width_build [simp]: "re_width (rrep n r) = n * re_width r" "re_width (rupto n r) = n * re_width r"
  "star_free (rrep n r) \<longleftrightarrow> n = 0 \<or> star_free r" "star_free (rupto n r) \<longleftrightarrow> n = 0 \<or> star_free r"
  by (induction n) auto

lemma whole_width:
  assumes "re_test (whole rs) s" and "list_all star_free rs"
  shows "length s \<le> sum_list (map re_width rs)"
proof -
  obtain q where q: "Matches (rseqs (rs @ [REol])) (MPos None s []) q"
    using assms(1) by (auto simp: whole_def re_test_bol)
  have "star_free (rseqs (rs @ [REol]))" "re_width (rseqs (rs @ [REol])) = sum_list (map re_width rs)"
    using assms(2) by (induction rs) auto
  moreover have "Matches (rseqs (rs @ [REol])) p q \<Longrightarrow> mrest q = []" for p
    by (induction rs arbitrary: p) (auto split: if_splits)
  ultimately show ?thesis using Matches_width [OF _ q] q by fastforce
qed

text \<open>Printable ASCII.\<close>

definition printable :: "nat \<Rightarrow> bool" where
  "printable c \<longleftrightarrow> 32 \<le> c \<and> c \<le> 126"

lemma job_id_text: "job_id_ok s \<Longrightarrow> list_all printable s \<and> length s \<le> 128"
  unfolding job_id_ok_def
  using whole_chars [of "[RCls is_alnum, rupto 127 (RCls is_id_char)]" s printable] whole_width [of "[RCls is_alnum, rupto 127 (RCls is_id_char)]" s]
  by (auto simp: is_id_char_def is_alnum_def is_alpha_def is_digit_def one_of_def S_def printable_def)

lemma digest_text: "digest_ok s \<Longrightarrow> list_all printable s \<and> length s \<le> 64"
  unfolding digest_ok_def
  using whole_chars [of "[rrep 64 (RCls is_hex_lower)]" s printable] whole_width [of "[rrep 64 (RCls is_hex_lower)]" s]
  by (auto simp: is_hex_lower_def is_digit_def printable_def)

lemma key43_text: "key43_ok s \<Longrightarrow> list_all printable s \<and> length s \<le> 43"
  unfolding key43_ok_def
  using whole_chars [of "[rrep 43 (RCls is_url64)]" s printable] whole_width [of "[rrep 43 (RCls is_url64)]" s]
  by (auto simp: is_url64_def is_alnum_def is_alpha_def is_digit_def printable_def)

lemma url_text: "url_ok E s \<Longrightarrow> list_all printable s \<and> length s \<le> 512"
  unfolding url_ok_def using whole_chars [of "[rplus (RCls (\<lambda>c. 33 \<le> c \<and> c \<le> 126))]" s printable] by (auto simp: printable_def)

end
