(* ===== verification/CanonicalJson.thy ===== *)
theory CanonicalJson
  imports DaemonModel
begin

text \<open>
  The canonical text of \<open>jobs/contract.ts\<close>: it is the JSON text of the value with all members sorted, it reads back
  as that value, and a strict schema fixes the value up to the order of the members. Texts whose
  strings are printable ASCII stay printable, with a bound on their length.
\<close>

section \<open>The canonical text\<close>

lemma code_units_refl: "code_units s s = Equiv"
  by (induction s) auto

lemma code_units_Equiv: "code_units s t = Equiv \<longleftrightarrow> s = t"
  by (induction s t rule: code_units.induct) auto

lemma code_units_flip: "code_units t s = Greater \<longleftrightarrow> code_units s t = Less"
proof (induction s t rule: code_units.induct)
  case (4 c s d t)
  then show ?case by (cases "c < d"; cases "d < c") simp_all
qed simp_all

lemma code_units_trans: "code_units s t = Less \<Longrightarrow> code_units t u = Less \<Longrightarrow> code_units s u = Less"
proof (induction s arbitrary: t u)
  case Nil
  then show ?case by (cases t; cases u) simp_all
next
  case (Cons c s)
  then obtain d t' where t: "t = d # t'" by (cases t) simp_all
  with Cons.prems obtain e u' where u: "u = e # u'" by (cases u) simp_all
  have "c < d \<or> c = d \<and> code_units s t' = Less" using Cons.prems(1) t by (auto split: if_splits)
  moreover have "d < e \<or> d = e \<and> code_units t' u' = Less" using Cons.prems(2) t u by (auto split: if_splits)
  ultimately show ?case using Cons.IH u by auto
qed

lift_definition unit_order :: "jstr comparator" is code_units
  by standard (simp_all add: code_units_refl code_units_Equiv code_units_flip, rule code_units_trans)

definition canonicalJobJson :: "daemon_env \<Rightarrow> jv \<Rightarrow> jstr" where
  "canonicalJobJson E = canonical_by (key fst unit_order) (de_num E)"

text \<open>The value with the members of every object in the order of the canonical text.\<close>

fun sort_value :: "jv \<Rightarrow> jv" where
  "sort_value (JArr xs) = JArr (map sort_value xs)"
| "sort_value (JObj kvs) = JObj (Sorting_Algorithms.sort (key fst unit_order) (map (\<lambda>(k, v). (k, sort_value v)) kvs))"
| "sort_value v = v"

lemma sort_map_fst:
  assumes "\<And>x. fst (g x) = fst x"
  shows "Sorting_Algorithms.sort (key fst cmp) (map g xs) = map g (Sorting_Algorithms.sort (key fst cmp) xs)"
proof -
  have "Sorting_Algorithms.insort (key fst cmp) (g x) (map g ys) = map g (Sorting_Algorithms.insort (key fst cmp) x ys)" for x ys
    by (induction ys) (simp_all add: assms key.rep_eq)
  then show ?thesis by (induction xs) simp_all
qed

lemma sort_sorted: "Sorting_Algorithms.sort cmp (Sorting_Algorithms.sort cmp xs) = Sorting_Algorithms.sort cmp xs"
  by (rule sort_eqI) (simp_all add: stable_sort)

lemma sort_distinct:
  assumes "mset xs = mset ys" and "distinct (map fst xs)"
  shows "Sorting_Algorithms.sort (key fst unit_order) xs = Sorting_Algorithms.sort (key fst unit_order) ys"
proof (rule sort_eqI)
  show "mset xs = mset (Sorting_Algorithms.sort (key fst unit_order) ys)" using assms(1) by simp
  fix y assume y: "y \<in> set xs"
  have e: "compare (key fst unit_order) y z = Equiv \<longleftrightarrow> fst y = fst z" for z
    by (simp add: key.rep_eq unit_order.rep_eq code_units_Equiv)
  have one: "filter (\<lambda>z. fst y = fst z) zs = [y]" if "mset zs = mset xs" for zs
  proof (rule filter_unique [where f = fst])
    show "distinct (map fst zs)" using assms(2) that by (metis mset_map mset_eq_imp_distinct_iff)
    show "y \<in> set zs" using y mset_eq_setD [OF that] by simp
  qed auto
  show "stable_segment (key fst unit_order) y xs = stable_segment (key fst unit_order) y (Sorting_Algorithms.sort (key fst unit_order) ys)"
    using one [of xs] one [of "Sorting_Algorithms.sort (key fst unit_order) ys"] assms(1) by (simp add: unit_order.rep_eq code_units_Equiv)
qed simp

lemma fst_pair_map [simp]: "map fst (map (\<lambda>(k, v). (k, f v)) kvs) = map fst kvs"
  by (induction kvs) auto

lemma fst_pair_comp [simp]: "fst \<circ> (\<lambda>(k, v). (k, f v)) = fst"
  by auto

text \<open>The canonical text is the JSON text of the sorted value.\<close>

lemma canonical_stringify: "json_value v \<Longrightarrow> canonicalJobJson E v = stringify (de_num E) (sort_value v)"
proof (induction v)
  case (JArr xs)
  then have "map (canonical_by (key fst unit_order) (de_num E)) xs = map (stringify (de_num E)) (map sort_value xs)"
    by (auto simp: canonicalJobJson_def list_all_iff)
  then show ?case by (simp add: canonicalJobJson_def del: map_map)
next
  case (JObj kvs)
  let ?can = "canonical_by (key fst unit_order) (de_num E)" and ?str = "stringify (de_num E)"
  let ?sort = "Sorting_Algorithms.sort (key fst unit_order)"
  let ?sv = "map (\<lambda>(k, v). (k, sort_value v)) kvs"
  have "map (\<lambda>(k, v). (k, ?can v)) kvs = map (\<lambda>(k, v). (k, ?str v)) ?sv"
    using JObj by (fastforce simp: canonicalJobJson_def list_all_iff)
  then have "?sort (map (\<lambda>(k, v). (k, ?can v)) kvs) = map (\<lambda>(k, v). (k, ?str v)) (?sort ?sv)"
    by (simp only:) (rule sort_map_fst, auto)
  moreover have "sort_value v \<noteq> JUndef" if "json_value v" for v using that by (cases v) auto
  then have "filter (\<lambda>kv. snd kv \<noteq> JUndef) (?sort ?sv) = ?sort ?sv"
    using JObj.prems by (fastforce simp: filter_id_conv list_all_iff)
  ultimately show ?case
    by (simp add: canonicalJobJson_def member_text_def case_prod_unfold comp_def)
qed (simp_all add: canonicalJobJson_def)

text \<open>The text determines the sorted value, and sorting changes no text.\<close>

lemma sort_value_json: "json_value (sort_value v) \<longleftrightarrow> json_value v"
proof (induction v)
  case (JObj kvs)
  let ?sv = "map (\<lambda>(k, v). (k, sort_value v)) kvs"
  have "mset (map fst (Sorting_Algorithms.sort (key fst unit_order) ?sv)) = mset (map fst ?sv)" by (simp only: mset_map Sorting_Algorithms.mset_sort)
  from mset_eq_imp_distinct_iff [OF this]
  have "distinct (map fst (Sorting_Algorithms.sort (key fst unit_order) ?sv)) \<longleftrightarrow> distinct (map fst kvs)"
    by (simp only: fst_pair_map)
  moreover have "list_all (\<lambda>(k, v). json_value v) ?sv \<longleftrightarrow> list_all (\<lambda>(k, v). json_value v) kvs" using JObj by (fastforce simp: list_all_iff)
  ultimately show ?case by (simp add: list_all_iff)
qed (auto simp: list_all_iff)

lemma sort_value_idem: "sort_value (sort_value v) = sort_value v"
proof (induction v)
  case (JObj kvs)
  let ?f = "\<lambda>(k, v). (k, sort_value v)" and ?sort = "Sorting_Algorithms.sort (key fst unit_order)"
  have "map ?f (?sort (map ?f kvs)) = ?sort (map ?f (map ?f kvs))" by (rule sort_map_fst [symmetric]) auto
  also have "map ?f (map ?f kvs) = map ?f kvs" using JObj by fastforce
  finally show ?case by (simp add: sort_sorted)
qed simp_all

lemma canonical_sorted: "json_value v \<Longrightarrow> canonicalJobJson E (sort_value v) = canonicalJobJson E v"
  by (simp add: canonical_stringify sort_value_json sort_value_idem)

lemma canonical_parse: "json_value v \<Longrightarrow> parse_json num (canonicalJobJson E v) = Some (sort_value v)"
  by (simp add: canonical_stringify parse_stringify sort_value_json)

lemma canonical_inject: "json_value v \<Longrightarrow> json_value w \<Longrightarrow> canonicalJobJson E v = canonicalJobJson E w \<longleftrightarrow> sort_value v = sort_value w"
  by (metis canonical_parse canonical_stringify option.inject)

lemma jget_map_of: "jget kvs k = (case map_of kvs k of None \<Rightarrow> JUndef | Some v \<Rightarrow> v)"
  by (induction kvs) auto

lemma jget_sort:
  assumes "distinct (map fst kvs)"
  shows "jget (Sorting_Algorithms.sort (key fst cmp) kvs) k = jget kvs k"
proof -
  have "distinct (map fst (Sorting_Algorithms.sort (key fst cmp) kvs))"
    using assms by (metis mset_map mset_sort mset_eq_imp_distinct_iff)
  then have "map_of (Sorting_Algorithms.sort (key fst cmp) kvs) k = map_of kvs k"
    using assms by (metis map_of_eq_Some_iff not_Some_eq set_sort)
  then show ?thesis by (simp add: jget_map_of)
qed

section \<open>Schemas do not see the order of the members\<close>

lemma jget_map_sort_value: "jget (map (\<lambda>(k, v). (k, sort_value v)) kvs) k = sort_value (jget kvs k)"
  by (induction kvs) auto

lemma jget_sort_value: "distinct (map fst kvs) \<Longrightarrow>
    jget (Sorting_Algorithms.sort (key fst unit_order) (map (\<lambda>(k, v). (k, sort_value v)) kvs)) k = sort_value (jget kvs k)"
  by (simp add: jget_sort jget_map_sort_value)

lemma prop_of_sort_value: "json_value v \<Longrightarrow> prop_of (sort_value v) k = sort_value (prop_of v k)"
  by (cases v) (simp_all add: prop_of_def fields_of_def jget_sort_value)

lemma text_of_sort_value [simp]: "text_of (sort_value v) = text_of v"
  by (cases v) (simp_all add: text_of_def)

lemma int_of_sort_value [simp]: "int_of (sort_value v) = int_of v"
  by (cases v) (simp_all add: int_of_def)

lemma json_jget: "list_all (\<lambda>(k, v). json_value v) kvs \<Longrightarrow> jhas kvs k \<Longrightarrow> json_value (jget kvs k)"
  by (induction kvs) (force simp: jhas_def)+

lemma carried_prop: "carried ok v \<Longrightarrow> prop_of v (k :: string) \<noteq> JUndef \<Longrightarrow> carried ok (prop_of v k)"
proof (cases v)
  case (JObj kvs)
  assume "carried ok v" "prop_of v k \<noteq> JUndef"
  then have "list_all (\<lambda>(k, v). carried ok v) kvs" "jget kvs (S k) \<noteq> JUndef" by (simp_all add: JObj prop_of_def fields_of_def)
  then have "carried ok (jget kvs (S k))" by (induction kvs) auto
  then show ?thesis by (simp add: JObj prop_of_def fields_of_def)
qed (simp_all add: prop_of_def fields_of_def)

lemma json_prop: "json_value v \<Longrightarrow> prop_of v k \<noteq> JUndef \<Longrightarrow> json_value (prop_of v k)"
  using carried_prop [of safe_int] by (simp only: carried_safe)

definition order_free :: "(jv \<Rightarrow> bool) \<Rightarrow> bool" where
  "order_free chk \<longleftrightarrow> (\<forall>v. json_value v \<longrightarrow> chk (sort_value v) = chk v)"

lemma order_free_text [simp]: "order_free (is_text P)"
  unfolding order_free_def by (intro allI impI) (case_tac v; simp add: is_text_def)

lemma order_free_int [simp]: "order_free (int_between lo hi)"
  unfolding order_free_def by (intro allI impI) (case_tac v; simp add: int_between_def)

lemma order_free_one_of [simp]: "order_free (is_one_of names)"
  using order_free_text by (auto simp: order_free_def is_one_of_def)

lemma order_free_literal [simp]: "order_free (literal (JStr s))" "order_free (literal (JNum n))"
  unfolding order_free_def literal_def by (intro allI impI; case_tac v; simp)+

lemma order_free_object:
  assumes "\<forall>(k, r, chk) \<in> set fs. order_free chk"
  shows "order_free (strict_object fs)"
  unfolding order_free_def
proof (intro allI impI)
  fix v
  assume v: "json_value v"
  show "strict_object fs (sort_value v) = strict_object fs v"
  proof (cases v)
    case (JObj kvs)
    define kvs' where "kvs' = fields_of (sort_value v)"
    have f: "sort_value v = JObj kvs'" by (simp add: JObj fields_of_def kvs'_def)
    have keys: "fst ` set kvs' = fst ` set kvs" by (force simp: JObj fields_of_def kvs'_def)
    have has: "jhas kvs' k = jhas kvs k" for k by (simp add: jhas_def keys)
    have "chk (jget kvs' k) = chk (jget kvs k)" if "order_free chk" "jhas kvs k" for chk k
    proof -
      have "json_value (jget kvs k)" using v that(2) by (auto simp: JObj intro: json_jget)
      then show ?thesis using that(1) v by (simp add: JObj kvs'_def fields_of_def jget_sort_value order_free_def)
    qed
    then have "list_all (\<lambda>(k, r, chk). if jhas kvs' (S k) then chk (jget kvs' (S k)) else \<not> r) fs
        = list_all (\<lambda>(k, r, chk). if jhas kvs (S k) then chk (jget kvs (S k)) else \<not> r) fs"
      using assms by (intro list.pred_cong refl) (fastforce simp: has)
    moreover have "only_keys names kvs' = only_keys names kvs" for names by (simp add: only_keys_def keys)
    ultimately show ?thesis unfolding f by (simp add: strict_object_def JObj)
  qed (simp_all add: strict_object_def)
qed

section \<open>The value a schema accepts\<close>

lemma object_members:
  assumes "distinct (map fst kvs)" and "fst ` set kvs = set ks" and "distinct ks"
  shows "mset kvs = mset (map (\<lambda>k. (k, jget kvs k)) ks)"
proof -
  have "jget kvs k = v" if "(k, v) \<in> set kvs" for k v using that assms(1) by (simp add: jget_map_of)
  then have "set kvs = (\<lambda>k. (k, jget kvs k)) ` set ks" unfolding assms(2) [symmetric] by force
  moreover have "distinct kvs" using assms(1) by (simp add: distinct_map)
  moreover have "distinct (map (\<lambda>k. (k, jget kvs k)) ks)" using assms(3) by (simp add: distinct_map inj_on_def)
  ultimately show ?thesis by (metis set_eq_iff_mset_eq_distinct list.set_map)
qed

lemma strict_sorted:
  assumes "strict_object fs (JObj kvs)" and "json_value (JObj kvs)"
    and "\<forall>(k, r, chk) \<in> set fs. r" and "distinct (map fst fs)"
  shows "sort_value (JObj kvs) = sort_value (JObj (map (\<lambda>k. (S k, jget kvs (S k))) (map fst fs)))"
proof -
  let ?f = "\<lambda>(k, v). (k, sort_value v)" and ?ks = "map S (map fst fs)"
  have "fst ` set kvs \<subseteq> set ?ks" using assms(1) by (auto simp: strict_object_def only_keys_def)
  moreover have "set ?ks \<subseteq> fst ` set kvs" using assms(1,3)
    by (fastforce simp: strict_object_def list_all_iff jhas_def split: if_splits)
  moreover have "distinct ?ks" using assms(4) by (subst distinct_map) (auto simp: inj_on_def)
  ultimately have "mset kvs = mset (map (\<lambda>k. (k, jget kvs k)) ?ks)"
    using assms(2) by (intro object_members) auto
  then have "mset (map ?f kvs) = mset (map ?f (map (\<lambda>k. (k, jget kvs k)) ?ks))" by (simp only: mset_map)
  moreover have "distinct (map fst (map ?f kvs))" using assms(2) by (simp only: fst_pair_map json_value.simps)
  ultimately have "Sorting_Algorithms.sort (key fst unit_order) (map ?f kvs)
      = Sorting_Algorithms.sort (key fst unit_order) (map ?f (map (\<lambda>k. (k, jget kvs k)) ?ks))"
    by (rule sort_distinct)
  then show ?thesis by (simp add: comp_def)
qed

lemma is_text_value: "is_text P v \<Longrightarrow> sort_value v = JStr (text_of v)"
  by (cases v) (simp_all add: is_text_def text_of_def)

lemma int_value: "int_between lo hi v \<Longrightarrow> sort_value v = JNum (NInt (int_of v))"
  by (auto simp: int_between_def int_of_def split: jv.splits jnum.splits)

lemma literal_value: "literal (JStr s) v \<Longrightarrow> sort_value v = JStr s" "literal (JNum n) v \<Longrightarrow> sort_value v = JNum n"
  by (simp_all add: literal_def)

lemma schema_fields: "strict_object fs v \<Longrightarrow> list_all (\<lambda>(k, r, chk). r \<longrightarrow> chk (prop_of v k)) fs"
  by (cases v) (fastforce simp: strict_object_def list_all_iff prop_of_def fields_of_def split: if_splits)+

lemma schema_object: "strict_object fs v \<Longrightarrow> v = JObj (fields_of v)"
  by (cases v) (simp_all add: strict_object_def fields_of_def)

lemma sort_fields: "map (\<lambda>(k, v). (k, sort_value v)) a = map (\<lambda>(k, v). (k, sort_value v)) b \<Longrightarrow> sort_value (JObj a) = sort_value (JObj b)"
  by simp

lemma strict_value_sorted:
  assumes "strict_object fs v" and "json_value v" and "\<forall>(k, r, chk) \<in> set fs. r" and "distinct (map fst fs)"
    and "map (\<lambda>(k, v). (k, sort_value v)) a = map (\<lambda>k. (S k, sort_value (prop_of v k))) (map fst fs)"
  shows "sort_value v = sort_value (JObj a)"
proof -
  have "sort_value v = sort_value (JObj (map (\<lambda>k. (S k, prop_of v k)) (map fst fs)))"
    using strict_sorted [of fs "fields_of v"] assms(1-4) schema_object [OF assms(1)] by (simp add: prop_of_def)
  also have "\<dots> = sort_value (JObj a)" by (rule sort_fields) (simp add: assms(5))
  finally show ?thesis .
qed

text \<open>A parsed value that the schema accepts carries no other number than safe integers.\<close>

definition carries :: "(jv \<Rightarrow> bool) \<Rightarrow> bool" where
  "carries chk \<longleftrightarrow> (\<forall>v. wf_jv v \<longrightarrow> chk v \<longrightarrow> json_value v)"

lemma carries_simps [simp]: "carries (is_text P)" "carries (literal (JStr s))" "carries positive" "carries timestamp"
  "carries (literal (JNum (NInt 1)))"
  by (auto simp: carries_def is_text_def literal_def positive_def timestamp_def int_between_def max_safe_integer_def
    split: jv.splits jnum.splits)

lemma wf_jget: "wf_jv (JObj kvs) \<Longrightarrow> wf_jv (jget kvs k)"
  by (induction kvs) auto

lemma carries_object:
  assumes "\<forall>(k, r, chk) \<in> set fs. carries chk"
  shows "carries (strict_object fs)"
  unfolding carries_def
proof (intro allI impI)
  fix v
  assume v: "wf_jv v" "strict_object fs v"
  then obtain kvs where kvs: "v = JObj kvs" by (cases v) (auto simp: strict_object_def)
  have "json_value w" if kw: "(k, w) \<in> set kvs" for k w
  proof -
    obtain name r chk where n: "(name, r, chk) \<in> set fs" "k = S name"
      using v(2) kw unfolding kvs strict_object_def only_keys_def by fastforce
    have w: "jget kvs k = w" using v(1) kw by (simp add: kvs jget_map_of)
    have "jhas kvs k" using kw by (force simp: jhas_def)
    then have "chk w" using v(2) n w by (fastforce simp: kvs strict_object_def list_all_iff)
    moreover have "wf_jv w" using wf_jget v(1) kvs w by blast
    ultimately show ?thesis using assms n(1) by (fastforce simp: carries_def)
  qed
  then show "json_value v" using v(1) by (auto simp: kvs list_all_iff)
qed

section \<open>Printable texts and their length\<close>

lemma printable_marks [simp]: "printable 34" "printable 44" "printable 58" "printable 91" "printable 93" "printable 123" "printable 125"
  by (simp_all add: printable_def)

lemma printable_plain: "printable c \<Longrightarrow> \<not> hi_surrogate c \<and> \<not> lo_surrogate c \<and> c < 128"
  by (auto simp: printable_def hi_surrogate_def lo_surrogate_def)

lemma printable_esc: "printable c \<Longrightarrow> list_all printable (json_esc c) \<and> length (json_esc c) \<le> 2"
  by (auto simp: printable_def json_esc_def)

lemma printable_body: "list_all printable s \<Longrightarrow> list_all printable (json_body s) \<and> length (json_body s) \<le> 2 * length s"
proof (induction s rule: json_body.induct)
  case (2 c)
  then show ?case using printable_esc [of c] printable_plain [of c] by simp
next
  case (3 c d s)
  then show ?case using printable_esc [of c] printable_plain [of c] by simp
qed simp

lemma printable_well_formed: "list_all printable s \<Longrightarrow> well_formed s"
  by (induction s rule: well_formed.induct) (auto dest: printable_plain)

lemma utf8_printable: "list_all printable s \<Longrightarrow> length (utf8_encode s) = length s"
  by (induction s rule: utf8_encode.induct) (auto dest!: printable_plain simp: utf8_unit_def)

lemma printable_dec_int: "list_all printable (dec_int i)"
  using dec_int_chars [of i] by (auto simp: list_all_iff is_digit_def printable_def)

lemma dec_nat_length: "n < 10 ^ k \<Longrightarrow> 0 < k \<Longrightarrow> length (dec_nat n) \<le> k"
proof (induction n arbitrary: k rule: dec_nat.induct)
  case (1 n)
  show ?case
  proof (cases "n < 10")
    case False
    then obtain m where k: "k = Suc m" "0 < m" using 1(2,3) by (cases k; cases "k - 1") auto
    then have "n div 10 < 10 ^ m" using 1(2) by (simp add: less_mult_imp_div_less mult.commute)
    then show ?thesis using 1(1) [OF False] k False by (subst dec_nat.simps) simp
  qed (use 1(3) in \<open>simp add: dec_nat.simps\<close>)
qed

lemma dec_int_length: "\<bar>i\<bar> \<le> max_safe_integer \<Longrightarrow> length (dec_int i) \<le> 17"
proof -
  assume i: "\<bar>i\<bar> \<le> max_safe_integer"
  have "length (dec_nat n) \<le> 16" if "int n \<le> max_safe_integer" for n
    using that by (intro dec_nat_length) (simp_all add: max_safe_integer_def)
  from this [of "nat (- i)"] this [of "nat i"] i show ?thesis by (auto simp: dec_int_def)
qed

fun printable_value :: "jv \<Rightarrow> bool" where
  "printable_value (JStr s) = list_all printable s"
| "printable_value (JArr xs) = list_all printable_value xs"
| "printable_value (JObj kvs) = list_all (\<lambda>(k, v). list_all printable k \<and> printable_value v) kvs"
| "printable_value _ = True"

fun text_bound :: "jv \<Rightarrow> nat" where
  "text_bound (JStr s) = 2 * length s + 2"
| "text_bound (JArr xs) = 2 + sum_list (map (\<lambda>x. text_bound x + 1) xs)"
| "text_bound (JObj kvs) = 2 + sum_list (map (\<lambda>(k, v). 2 * length k + text_bound v + 4) kvs)"
| "text_bound _ = 17"

lemma printable_join: "list_all (list_all printable) ts \<Longrightarrow> list_all printable (join (S '','') ts)"
  by (induction ts) (auto simp: join_Cons S_def)

lemma join_length: "length (join (S '','') ts) \<le> sum_list (map (\<lambda>t. length t + 1) ts)"
  by (induction ts) (auto simp: join_Cons S_def)

lemma stringify_printable: "json_value v \<Longrightarrow> printable_value v \<Longrightarrow>
    list_all printable (stringify nt v) \<and> length (stringify nt v) \<le> text_bound v"
proof (induction v)
  case (JNum n)
  then obtain i where "n = NInt i" "\<bar>i\<bar> \<le> max_safe_integer" by (auto split: jnum.splits)
  then show ?case by (simp add: json_num_int printable_dec_int dec_int_length)
next
  case (JStr s)
  then show ?case using printable_body [of s] by (simp add: json_quote_def)
next
  case (JArr xs)
  have "list_all (list_all printable) (map (stringify nt) xs)" using JArr by (auto simp: list_all_iff)
  moreover have "sum_list (map (\<lambda>t. length t + 1) (map (stringify nt) xs)) \<le> sum_list (map (\<lambda>x. text_bound x + 1) xs)"
    unfolding map_map by (rule sum_list_mono) (use JArr in \<open>auto simp: list_all_iff\<close>)
  ultimately show ?case using printable_join join_length [of "map (stringify nt) xs"] by (fastforce simp: S_def)
next
  case (JObj kvs)
  have f: "list_all printable (field_text nt kv) \<and> length (field_text nt kv) + 1 \<le> 2 * length (fst kv) + text_bound (snd kv) + 4"
    if "kv \<in> set kvs" for kv
  proof -
    obtain k v where kv: "kv = (k, v)" by (cases kv)
    have "list_all printable (stringify nt v) \<and> length (stringify nt v) \<le> text_bound v" "list_all printable k"
      using JObj that by (fastforce simp: kv list_all_iff)+
    then show ?thesis using printable_body [of k] by (simp add: kv field_text_def json_quote_def S_def)
  qed
  have "list_all (list_all printable) (map (field_text nt) kvs)" using f by (simp add: list_all_iff)
  moreover have "sum_list (map (\<lambda>t. length t + 1) (map (field_text nt) kvs)) \<le> sum_list (map (\<lambda>(k, v). 2 * length k + text_bound v + 4) kvs)"
    unfolding map_map by (rule sum_list_mono) (use f in \<open>fastforce simp: case_prod_unfold\<close>)
  ultimately show ?case unfolding stringify_object [OF JObj.prems(1)]
    using printable_join join_length [of "map (field_text nt) kvs"] by fastforce
qed (auto simp: S_def printable_def)

lemma sort_value_printable: "printable_value v \<Longrightarrow> printable_value (sort_value v)"
  by (induction v) (fastforce simp: list_all_iff)+

lemma sort_sum: "sum_list (map (f :: _ \<Rightarrow> nat) (Sorting_Algorithms.sort cmp xs)) = sum_list (map f xs)"
proof -
  have "mset (map f (Sorting_Algorithms.sort cmp xs)) = mset (map f xs)" by (simp only: mset_map Sorting_Algorithms.mset_sort)
  then show ?thesis using sum_mset_sum_list [of "map f (Sorting_Algorithms.sort cmp xs)"] sum_mset_sum_list [of "map f xs"] by (simp only:)
qed

lemma sort_value_bound: "text_bound (sort_value v) = text_bound v"
proof (induction v)
  case (JArr xs)
  then have "map (\<lambda>x. text_bound x + 1) (map sort_value xs) = map (\<lambda>x. text_bound x + 1) xs" by simp
  then show ?case by (simp only: sort_value.simps text_bound.simps)
next
  case (JObj kvs)
  then have "map (\<lambda>(k, v). 2 * length k + text_bound v + 4) (map (\<lambda>(k, v). (k, sort_value v)) kvs) = map (\<lambda>(k, v). 2 * length k + text_bound v + 4) kvs"
    by fastforce
  then show ?case by (simp only: sort_value.simps text_bound.simps sort_sum)
qed simp_all

lemma canonical_printable:
  assumes "json_value v" and "printable_value v"
  shows "list_all printable (canonicalJobJson E v)" and "length (canonicalJobJson E v) \<le> text_bound v"
  using stringify_printable [of "sort_value v" "de_num E"] assms
  by (simp_all add: canonical_stringify sort_value_json sort_value_printable sort_value_bound)

end
