(* ===== verification/JobContract.thy ===== *)
theory JobContract
  imports CanonicalJson
begin

text \<open>
  Signed management jobs (\<open>jobs/contract.ts\<close> and \<open>jobs/signer.ts\<close> under \<open>src/daemonManagement\<close>): the
  signer, the verification of a compact job against a binding, and the plan that a verified job yields
  on the current state of its resource. Ed25519 is a parameter.
\<close>

section \<open>The value of a job\<close>

lemma order_free_schemas [simp]: "order_free positive" "order_free timestamp" "order_free resource_schema" "order_free approval_schema"
proof -
  show p: "order_free positive" "order_free timestamp" by (simp_all add: positive_def timestamp_def)
  show "order_free resource_schema" unfolding resource_schema_def by (rule order_free_object) (simp add: p)
  show "order_free approval_schema" unfolding approval_schema_def by (rule order_free_object) (simp add: p)
qed

lemma order_free_job: "order_free (job_schema E)"
  unfolding job_schema_def by (rule order_free_object) simp

lemma job_schema_sorted: "json_value v \<Longrightarrow> job_schema E (sort_value v) = job_schema E v"
  using order_free_job by (simp add: order_free_def)

lemma read_job_sorted: "json_value v \<Longrightarrow> read_job (sort_value v) = read_job v"
proof -
  assume v: "json_value v"
  have inner: "prop_of (sort_value (prop_of v k)) l = sort_value (prop_of (prop_of v k) l)" for k l
  proof (cases "prop_of v k = JUndef")
    case False
    then show ?thesis using v by (simp add: prop_of_sort_value json_prop)
  qed (simp add: prop_of_def fields_of_def)
  show ?thesis by (simp add: read_job_def read_resource_def Let_def prop_of_sort_value [OF v] inner)
qed

lemma resource_sorted:
  assumes "resource_schema v" and "json_value v"
  shows "sort_value v = sort_value (resource_json (read_resource v))"
proof -
  have f: "is_text job_id_ok (prop_of v ''id'')" "positive (prop_of v ''version'')" "is_text digest_ok (prop_of v ''sha256'')"
    using schema_fields [OF assms(1) [unfolded resource_schema_def]] by simp_all
  note eqs = is_text_value [OF f(1)] int_value [OF f(2) [unfolded positive_def]] is_text_value [OF f(3)]
  show ?thesis unfolding resource_json_def
    by (rule strict_value_sorted [OF assms(1) [unfolded resource_schema_def] assms(2)]) (simp_all add: read_resource_def eqs)
qed

lemma approval_sorted:
  assumes "approval_schema v" and "json_value v"
  shows "sort_value v = sort_value (JObj [(S ''subject'', JStr (text_of (prop_of v ''subject''))),
    (S ''authorization_id'', JStr (text_of (prop_of v ''authorization_id''))),
    (S ''approved_at'', JNum (NInt (int_of (prop_of v ''approved_at''))))])"
proof -
  have f: "is_text job_id_ok (prop_of v ''subject'')" "is_text job_id_ok (prop_of v ''authorization_id'')"
    "timestamp (prop_of v ''approved_at'')"
    using schema_fields [OF assms(1) [unfolded approval_schema_def]] by simp_all
  note eqs = is_text_value [OF f(1)] is_text_value [OF f(2)] int_value [OF f(3) [unfolded timestamp_def]]
  show ?thesis
    by (rule strict_value_sorted [OF assms(1) [unfolded approval_schema_def] assms(2)]) (simp_all add: eqs)
qed

text \<open>The value of a job that satisfies the schema is, up to the order of its members, the one of the job read from it.\<close>

lemma job_sorted:
  assumes "job_schema E v" and "json_value v"
  shows "sort_value v = sort_value (job_json (read_job v))"
proof -
  note sch = assms(1) [unfolded job_schema_def]
  have f: "literal (JNum (NInt 1)) (prop_of v ''schema_version'')" "is_text job_id_ok (prop_of v ''job_id'')"
    "is_text (url_ok E) (prop_of v ''iss'')" "literal (JStr JOB_AUDIENCE) (prop_of v ''aud'')"
    "is_text (url_ok E) (prop_of v ''identity_issuer'')" "is_text job_id_ok (prop_of v ''tenant_id'')"
    "is_text job_id_ok (prop_of v ''organization_id'')" "is_text job_id_ok (prop_of v ''subject'')"
    "is_text job_id_ok (prop_of v ''device_id'')" "positive (prop_of v ''device_version'')"
    "is_text key43_ok (prop_of v ''key_jkt'')" "approval_schema (prop_of v ''approved_by'')"
    "literal (JStr (S ''managed_worker.revoke'')) (prop_of v ''operation'')" "resource_schema (prop_of v ''resource'')"
    "positive (prop_of v ''policy_revision'')" "positive (prop_of v ''expected_state_version'')"
    "timestamp (prop_of v ''iat'')" "timestamp (prop_of v ''exp'')"
    using schema_fields [OF sch] by simp_all
  have inner: "json_value (prop_of v ''approved_by'')" "json_value (prop_of v ''resource'')"
    using f(12,14) by (auto intro!: json_prop assms(2) simp: approval_schema_def resource_schema_def strict_object_def)
  note texts = f(2,3,5,6,7,8,9,11) [THEN is_text_value]
  note ints = f(10,15,16) [unfolded positive_def, THEN int_value] f(17,18) [unfolded timestamp_def, THEN int_value]
  note lits = literal_value(2) [OF f(1)] f(4,13) [THEN literal_value(1)]
  show ?thesis unfolding job_json_def
    by (rule strict_value_sorted [OF sch assms(2)])
      (simp_all add: read_job_def Let_def approval_sorted [OF f(12) inner(1)] resource_sorted [OF f(14) inner(2)] lits texts ints
        del: sort_value.simps(2))
qed

section \<open>Trust, binding and the signer\<close>

record job_trust =
  jt_kid :: jstr
  jt_public :: jstr

record job_binding =
  jn_gateway :: jstr
  jn_identityIssuer :: jstr
  jn_tenant :: jstr
  jn_organization :: jstr
  jn_subject :: jstr
  jn_device :: jstr
  jn_deviceVersion :: int
  jn_jkt :: jstr

record verified_job =
  vj_job :: job
  vj_digest :: jstr
  vj_verified_at :: int

definition header_json :: "job_trust \<Rightarrow> jv" where
  "header_json trust = JObj [(S ''alg'', JStr (S ''EdDSA'')), (S ''kid'', JStr (jt_kid trust)), (S ''typ'', JStr JOB_TYPE)]"

definition segment_of :: "jstr \<Rightarrow> jstr" where
  "segment_of raw = base64url (utf8_encode raw)"

definition sign_input :: "daemon_env \<Rightarrow> job_trust \<Rightarrow> job \<Rightarrow> jstr" where
  "sign_input E trust j = segment_of (canonicalJobJson E (header_json trust)) @ S ''.'' @ segment_of (canonicalJobJson E (job_json j))"

text \<open>The signer holds its trust record and the private key, here the signing function of that key.\<close>

definition sign :: "daemon_env \<Rightarrow> (jstr \<Rightarrow> bytes) \<Rightarrow> job_trust \<Rightarrow> job \<Rightarrow> jstr option" where
  "sign E sig trust j = (if job_schema E (job_json j)
     then (let input = sign_input E trust j in Some (input @ S ''.'' @ base64url (sig input))) else None)"

section \<open>Verification\<close>

fun split_units :: "nat \<Rightarrow> jstr \<Rightarrow> jstr list" where
  "split_units d [] = [[]]"
| "split_units d (c # s) = (if c = d then [] # split_units d s
     else (case split_units d s of [] \<Rightarrow> [[c]] | t # ts \<Rightarrow> (c # t) # ts))"

definition job_fail :: "string \<Rightarrow> jstr + 'a" where
  "job_fail code = Inl (S code)"

definition decode_segment :: "jstr \<Rightarrow> jstr + bytes" where
  "decode_segment s = (if \<not> re_test (whole_plus is_url64) s then job_fail ''job_invalid''
     else case from_base64url s of Some bs \<Rightarrow> Inr bs | None \<Rightarrow> job_fail ''job_invalid'')"

text \<open>\<open>TextDecoder\<close> drops a byte order mark.\<close>

definition strip_bom :: "jstr \<Rightarrow> jstr" where
  "strip_bom s = (case s of [] \<Rightarrow> [] | c # t \<Rightarrow> if c = 0xFEFF then t else s)"

definition parse_canonical :: "daemon_env \<Rightarrow> bytes \<Rightarrow> jstr + jv" where
  "parse_canonical E bs = (case utf8_decode bs of
      None \<Rightarrow> job_fail ''job_invalid''
    | Some s \<Rightarrow> (case parse_json (de_double E) (strip_bom s) of
        None \<Rightarrow> job_fail ''job_invalid''
      | Some v \<Rightarrow> if canonicalJobJson E v = strip_bom s then Inr v else job_fail ''job_invalid''))"

definition header_schema :: "jv \<Rightarrow> bool" where
  "header_schema = strict_object
     [(''alg'', True, literal (JStr (S ''EdDSA''))), (''typ'', True, literal (JStr JOB_TYPE)), (''kid'', True, is_text job_id_ok)]"

definition trusted_key :: "job_trust \<Rightarrow> jstr \<Rightarrow> bool" where
  "trusted_key trust kid \<longleftrightarrow> kid = jt_kid trust \<and> job_id_ok (jt_kid trust) \<and> key43_ok (jt_public trust)
     \<and> from_base64url (jt_public trust) \<noteq> None"

definition check_window :: "job \<Rightarrow> bool" where
  "check_window j \<longleftrightarrow> jb_iat j < jb_exp j \<and> jb_exp j - jb_iat j \<le> 300 \<and> av_approved_at (jb_approved_by j) \<le> jb_iat j
     \<and> jb_iat j - av_approved_at (jb_approved_by j) \<le> 300"

definition bound_to :: "job_binding \<Rightarrow> job \<Rightarrow> bool" where
  "bound_to b j \<longleftrightarrow> jb_iss j = jn_gateway b \<and> jb_identity_issuer j = jn_identityIssuer b \<and> jb_tenant_id j = jn_tenant b
     \<and> jb_organization_id j = jn_organization b \<and> jb_subject j = jn_subject b \<and> jb_device_id j = jn_device b
     \<and> jb_device_version j = jn_deviceVersion b \<and> jb_key_jkt j = jn_jkt b"

definition job_checks :: "job \<Rightarrow> job_binding \<Rightarrow> int \<Rightarrow> jstr + unit" where
  "job_checks j b now = checks
     [ensure (S ''job_invalid'') (check_window j), ensure (S ''job_binding_mismatch'') (bound_to b j),
      ensure (S ''job_not_yet_valid'') (jb_iat j \<le> now + 5), ensure (S ''job_expired'') (now < jb_exp j)]"

definition clock_ok :: "int \<Rightarrow> bool" where
  "clock_ok now \<longleftrightarrow> 0 \<le> now \<and> now \<le> max_safe_integer"

text \<open>\<open>ed key input signature\<close>: the library accepts the signature of the input under the public key.\<close>

definition verify_segments :: "daemon_env \<Rightarrow> (jstr \<Rightarrow> jstr \<Rightarrow> bytes \<Rightarrow> bool) \<Rightarrow> job_trust \<Rightarrow> job_binding \<Rightarrow> int \<Rightarrow>
    jstr \<Rightarrow> jstr \<Rightarrow> jstr \<Rightarrow> jstr + verified_job" where
  "verify_segments E ed trust b now s0 s1 s2 =
     bindE (bindE (decode_segment s0) (parse_canonical E)) (\<lambda>header.
     bindE (ensure (S ''job_invalid'') (header_schema header)) (\<lambda>_.
     bindE (ensure (S ''job_key_untrusted'') (trusted_key trust (text_of (prop_of header ''kid'')))) (\<lambda>_.
     bindE (decode_segment s1) (\<lambda>payload.
     bindE (decode_segment s2) (\<lambda>signature.
     bindE (ensure (S ''job_signature_invalid'') (length signature = 64 \<and> ed (jt_public trust) (s0 @ S ''.'' @ s1) signature)) (\<lambda>_.
     bindE (parse_canonical E payload) (\<lambda>v.
     (case parse_job E v of
        None \<Rightarrow> job_fail ''job_invalid''
      | Some j \<Rightarrow> bindE (job_checks j b now) (\<lambda>_. Inr \<lparr>vj_job = j, vj_digest = de_sha E payload, vj_verified_at = now\<rparr>)))))))))"

definition verify_job :: "daemon_env \<Rightarrow> (jstr \<Rightarrow> jstr \<Rightarrow> bytes \<Rightarrow> bool) \<Rightarrow> jstr \<Rightarrow> job_trust \<Rightarrow> job_binding \<Rightarrow> int \<Rightarrow>
    jstr + verified_job" where
  "verify_job E ed token trust b now =
     (if MAX_JOB_BYTES < length token \<or> \<not> clock_ok now then job_fail ''job_invalid''
      else case split_units 46 token of
          [s0, s1, s2] \<Rightarrow> verify_segments E ed trust b now s0 s1 s2
        | _ \<Rightarrow> job_fail ''job_invalid'')"

section \<open>Planning\<close>

datatype admission =
    Already_recorded (ad_job_id: jstr) (ad_digest: jstr)
  | Prepare_revoke (ad_job_id: jstr) (ad_digest: jstr) (ad_resource_id: jstr) (ad_expected: int) (ad_next: int)

definition state_schema :: "jv \<Rightarrow> bool" where
  "state_schema = strict_object
     [(''resource'', True, resource_schema), (''policy_revision'', True, positive), (''state_version'', True, positive),
      (''status'', True, is_one_of [''active'', ''revoked''])]"

definition prior_schema :: "jv \<Rightarrow> bool" where
  "prior_schema = strict_object [(''job_id'', True, is_text job_id_ok), (''digest'', True, is_text digest_ok)]"

definition plan_checks :: "daemon_env \<Rightarrow> verified_job \<Rightarrow> jv \<Rightarrow> int \<Rightarrow> jv option \<Rightarrow> jstr + unit" where
  "plan_checks E vj current now prior = checks
     [ensure (S ''job_invalid'') (clock_ok now), ensure (S ''job_clock_regressed'') (vj_verified_at vj \<le> now),
      ensure (S ''job_not_yet_valid'') (jb_iat (vj_job vj) \<le> now + 5), ensure (S ''job_expired'') (now < jb_exp (vj_job vj)),
      ensure (S ''job_state_invalid'') (state_schema current \<and> pred_option prior_schema prior)]"

definition revoke_checks :: "daemon_env \<Rightarrow> verified_job \<Rightarrow> jv \<Rightarrow> jstr + unit" where
  "revoke_checks E vj current = checks
     [ensure (S ''job_resource_mismatch'')
        (canonicalJobJson E (prop_of current ''resource'') = canonicalJobJson E (resource_json (jb_resource (vj_job vj)))),
      ensure (S ''job_stale_state'') (int_of (prop_of current ''policy_revision'') = jb_policy_revision (vj_job vj)
        \<and> int_of (prop_of current ''state_version'') = jb_expected_state_version (vj_job vj)),
      ensure (S ''job_resource_revoked'') (text_of (prop_of current ''status'') = S ''active''),
      ensure (S ''job_state_invalid'') (int_of (prop_of current ''state_version'') \<noteq> max_safe_integer)]"

definition plan :: "daemon_env \<Rightarrow> verified_job \<Rightarrow> jv \<Rightarrow> int \<Rightarrow> jv option \<Rightarrow> jstr + admission" where
  "plan E vj current now prior = bindE (plan_checks E vj current now prior) (\<lambda>_.
     (case prior of
        Some p \<Rightarrow> bindE (ensure (S ''job_conflict'') (text_of (prop_of p ''job_id'') = jb_job_id (vj_job vj)
            \<and> text_of (prop_of p ''digest'') = vj_digest vj)) (\<lambda>_.
          Inr (Already_recorded (jb_job_id (vj_job vj)) (vj_digest vj)))
      | None \<Rightarrow> bindE (revoke_checks E vj current) (\<lambda>_.
          Inr (Prepare_revoke (jb_job_id (vj_job vj)) (vj_digest vj) (rs_id (jb_resource (vj_job vj)))
            (int_of (prop_of current ''state_version'')) (int_of (prop_of current ''state_version'') + 1)))))"

section \<open>A signed job verifies\<close>

lemma split_units_none: "d \<notin> set s \<Longrightarrow> split_units d s = [s]"
  by (induction s) auto

lemma split_units_append: "d \<notin> set s \<Longrightarrow> split_units d (s @ d # t) = s # split_units d t"
  by (induction s) auto

lemma base64url_chars: "is_bytes bs \<Longrightarrow> list_all is_url64 (base64url bs)"
  unfolding base64url_def
  by (erule b64_groups_symbols [rotated]) (auto simp: b64_symbol_def is_url64_def is_alnum_def is_alpha_def is_digit_def)

lemma no_dot: "is_bytes bs \<Longrightarrow> 46 \<notin> set (base64url bs)"
  using base64url_chars [of bs] by (auto simp: list_all_iff is_url64_def is_alnum_def is_alpha_def is_digit_def)

lemma decode_segment_base64url: "is_bytes bs \<Longrightarrow> bs \<noteq> [] \<Longrightarrow> decode_segment (base64url bs) = Inr bs"
proof -
  assume bs: "is_bytes bs" "bs \<noteq> []"
  then have "base64url bs \<noteq> []" by (cases bs; cases "tl bs"; cases "tl (tl bs)") (auto simp: base64url_def)
  with bs show ?thesis by (simp add: decode_segment_def re_test_whole_plus base64url_chars base64url_roundtrip)
qed

lemma base64url_length: "length (base64url bs) \<le> 2 * length bs"
proof -
  have "length (b64_groups sy [] bs) \<le> 2 * length bs" for sy
    by (induction bs rule: triple_induct) simp_all
  then show ?thesis by (simp add: base64url_def)
qed

section \<open>The round trip of a job\<close>

lemma job_json_fields:
  assumes "job_schema E (job_json j)"
  shows "job_id_ok (jb_job_id j)" "url_ok E (jb_iss j)" "url_ok E (jb_identity_issuer j)" "job_id_ok (jb_tenant_id j)"
    "job_id_ok (jb_organization_id j)" "job_id_ok (jb_subject j)" "job_id_ok (jb_device_id j)" "key43_ok (jb_key_jkt j)"
    "positive (JNum (NInt (jb_device_version j)))" "positive (JNum (NInt (jb_policy_revision j)))"
    "positive (JNum (NInt (jb_expected_state_version j)))" "timestamp (JNum (NInt (jb_iat j)))" "timestamp (JNum (NInt (jb_exp j)))"
    "job_id_ok (av_subject (jb_approved_by j))" "job_id_ok (av_authorization_id (jb_approved_by j))"
    "timestamp (JNum (NInt (av_approved_at (jb_approved_by j))))"
    "job_id_ok (rs_id (jb_resource j))" "positive (JNum (NInt (rs_version (jb_resource j))))" "digest_ok (rs_sha256 (jb_resource j))"
proof -
  note eval = prop_of_def fields_of_def job_json_def resource_json_def is_text_def
  note f = schema_fields [OF assms [unfolded job_schema_def]]
  show "job_id_ok (jb_job_id j)" "url_ok E (jb_iss j)" "url_ok E (jb_identity_issuer j)" "job_id_ok (jb_tenant_id j)"
    "job_id_ok (jb_organization_id j)" "job_id_ok (jb_subject j)" "job_id_ok (jb_device_id j)" "key43_ok (jb_key_jkt j)"
    "positive (JNum (NInt (jb_device_version j)))" "positive (JNum (NInt (jb_policy_revision j)))"
    "positive (JNum (NInt (jb_expected_state_version j)))" "timestamp (JNum (NInt (jb_iat j)))" "timestamp (JNum (NInt (jb_exp j)))"
    using f by (simp_all add: eval)
  have "approval_schema (prop_of (job_json j) ''approved_by'')" "resource_schema (prop_of (job_json j) ''resource'')"
    using f by simp_all
  then show "job_id_ok (av_subject (jb_approved_by j))" "job_id_ok (av_authorization_id (jb_approved_by j))"
    "timestamp (JNum (NInt (av_approved_at (jb_approved_by j))))"
    "job_id_ok (rs_id (jb_resource j))" "positive (JNum (NInt (rs_version (jb_resource j))))" "digest_ok (rs_sha256 (jb_resource j))"
    by (auto dest!: schema_fields simp: eval approval_schema_def resource_schema_def)
qed

lemma list_all_S: "list_all P (map of_char s) \<Longrightarrow> list_all P (S s)"
  by (simp add: S_def)

text \<open>The value of a job that the schema accepts can be written and read back, and its text is short.\<close>

lemma job_json_value:
  assumes "job_schema E (job_json j)"
  shows "json_value (job_json j)" and "printable_value (job_json j)" and "text_bound (job_json j) \<le> 6500"
proof -
  note f = job_json_fields [OF assms]
  note ids = f(1,4,5,6,7,14,15,17) [THEN job_id_text] f(2,3) [THEN url_text] key43_text [OF f(8)] digest_text [OF f(19)]
  note ints = f(9-13,16,18)
  show "json_value (job_json j)"
    using ints by (simp add: job_json_def resource_json_def positive_def timestamp_def int_between_def)
  show "printable_value (job_json j)"
    using ids by (simp add: job_json_def resource_json_def JOB_AUDIENCE_def S_def printable_def)
  show "text_bound (job_json j) \<le> 6500"
    using ids by (simp add: job_json_def resource_json_def JOB_AUDIENCE_def)
qed
lemma read_job_json: "read_job (job_json j) = j"
  by (simp add: read_job_def job_json_def read_resource_def resource_json_def prop_of_def fields_of_def text_of_def int_of_def Let_def)

definition ed25519_key :: "(jstr \<Rightarrow> jstr \<Rightarrow> bytes \<Rightarrow> bool) \<Rightarrow> (jstr \<Rightarrow> bytes) \<Rightarrow> jstr \<Rightarrow> bool" where
  "ed25519_key ed sig public \<longleftrightarrow> (\<forall>m. is_bytes (sig m) \<and> length (sig m) = 64 \<and> ed public m (sig m))"

lemma canonical_segment:
  assumes "json_value v" and "printable_value v"
  shows "decode_segment (segment_of (canonicalJobJson E v)) = Inr (utf8_encode (canonicalJobJson E v))"
    and "parse_canonical E (utf8_encode (canonicalJobJson E v)) = Inr (sort_value v)"
    and "46 \<notin> set (segment_of (canonicalJobJson E v))"
    and "length (segment_of (canonicalJobJson E v)) \<le> 2 * text_bound v"
proof -
  let ?raw = "canonicalJobJson E v"
  note p = canonical_printable [OF assms, of E]
  have wf: "well_formed ?raw" using p(1) by (rule printable_well_formed)
  obtain c t where "?raw = c # t" "opens_value c"
    unfolding canonical_stringify [OF assms(1)] using stringify_head [of "sort_value v" "de_num E"] assms(1) by (auto simp: sort_value_json)
  then have ct: "?raw = c # t" "c \<noteq> 0xFEFF" by (auto simp: opens_value_def)
  show "46 \<notin> set (segment_of ?raw)" unfolding segment_of_def by (rule no_dot) (rule is_bytes_utf8 [OF wf])
  have u: "utf8_decode (utf8_encode ?raw) = Some ?raw" using wf by (rule utf8_roundtrip)
  then have "utf8_encode ?raw \<noteq> []" using ct by auto
  then show "decode_segment (segment_of ?raw) = Inr (utf8_encode ?raw)"
    unfolding segment_of_def by (intro decode_segment_base64url is_bytes_utf8 wf)
  have "strip_bom ?raw = ?raw" using ct by (simp add: strip_bom_def)
  with u show "parse_canonical E (utf8_encode ?raw) = Inr (sort_value v)"
    by (simp add: parse_canonical_def canonical_parse assms(1) canonical_sorted)
  show "length (segment_of ?raw) \<le> 2 * text_bound v"
    using base64url_length [of "utf8_encode ?raw"] p utf8_printable [OF p(1)] by (simp add: segment_of_def)
qed

lemma checks_Cons: "checks (c # cs) = bindE c (\<lambda>_. checks cs)"
  by (cases c) (simp_all add: checks_def)

lemma checks_Nil: "checks [] = Inr ()"
  by (simp add: checks_def)

lemma job_checks_ok: "job_checks j b now = Inr () \<longleftrightarrow>
    check_window j \<and> bound_to b j \<and> jb_iat j \<le> now + 5 \<and> now < jb_exp j"
  by (simp add: job_checks_def checks_ok)

lemma header_sorted: "trusted_key trust kid \<Longrightarrow> json_value (header_json trust) \<and> printable_value (header_json trust) \<and> text_bound (header_json trust) \<le> 400
    \<and> header_schema (sort_value (header_json trust)) \<and> text_of (prop_of (sort_value (header_json trust)) ''kid'') = jt_kid trust"
proof -
  assume t: "trusted_key trust kid"
  have j: "json_value (header_json trust)" by (simp add: header_json_def)
  have h: "header_schema (header_json trust)" using t
    by (simp add: header_schema_def strict_object_def header_json_def only_keys_def jhas_def literal_def is_text_def trusted_key_def)
  have "order_free header_schema" unfolding header_schema_def by (rule order_free_object) simp
  then have "header_schema (sort_value (header_json trust))" using h j by (simp add: order_free_def)
  moreover have "text_of (prop_of (sort_value (header_json trust)) ''kid'') = jt_kid trust"
    unfolding prop_of_sort_value [OF j] by (simp add: header_json_def prop_of_def fields_of_def text_of_def)
  moreover have "printable_value (header_json trust) \<and> text_bound (header_json trust) \<le> 400" using t job_id_text [of "jt_kid trust"]
    by (simp add: header_json_def trusted_key_def JOB_TYPE_def S_def printable_def)
  ultimately show ?thesis using j by blast
qed

lemma sign_verify:
  assumes "sign E sig trust j = Some token" and "trusted_key trust (jt_kid trust)" and "ed25519_key ed sig (jt_public trust)"
    and "check_window j" and "bound_to b j" and "jb_iat j \<le> now + 5" and "now < jb_exp j" and "clock_ok now"
  shows "verify_job E ed token trust b now =
    Inr \<lparr>vj_job = j, vj_digest = de_sha E (utf8_encode (canonicalJobJson E (job_json j))), vj_verified_at = now\<rparr>"
proof -
  from assms(1) have sch: "job_schema E (job_json j)"
    and token: "token = sign_input E trust j @ 46 # base64url (sig (sign_input E trust j))"
    by (auto simp: sign_def Let_def S_def split: if_splits)
  let ?s0 = "segment_of (canonicalJobJson E (header_json trust))" and ?s1 = "segment_of (canonicalJobJson E (job_json j))"
  let ?sig = "sig (sign_input E trust j)"
  have sig: "is_bytes ?sig" "length ?sig = 64" "ed (jt_public trust) (?s0 @ S ''.'' @ ?s1) ?sig"
    using assms(3) by (simp_all add: ed25519_key_def sign_input_def)
  note header = header_sorted [OF assms(2)]
  note j = job_json_value [OF sch]
  have h': "json_value (header_json trust)" "printable_value (header_json trust)" "text_bound (header_json trust) \<le> 400"
    using header by simp_all
  note h = canonical_segment [OF h'(1,2), of E]
  note p = canonical_segment [OF j(1,2), of E]
  have len: "length token \<le> MAX_JOB_BYTES"
    using h(4) p(4) h'(3) j(3) base64url_length [of ?sig] sig(2) by (simp add: token sign_input_def S_def MAX_JOB_BYTES_def)
  have "split_units 46 (base64url ?sig) = [base64url ?sig]" by (intro split_units_none no_dot sig(1))
  moreover have "token = ?s0 @ 46 # ?s1 @ 46 # base64url ?sig" using token by (simp add: sign_input_def S_def)
  ultimately have sp: "split_units 46 token = [?s0, ?s1, base64url ?sig]"
    by (simp only: split_units_append h(3) p(3) not_False_eq_True)
  have "decode_segment (base64url ?sig) = Inr ?sig" using sig by (intro decode_segment_base64url) auto
  moreover have "parse_job E (sort_value (job_json j)) = Some j"
    using sch j(1) by (simp add: parse_job_def job_schema_sorted read_job_sorted read_job_json)
  ultimately show ?thesis
    using len sp assms(2,8) sig header job_checks_ok [of j b now] assms(4-7) h(1,2) p(1,2)
    by (simp add: verify_job_def verify_segments_def ensure_def)
qed

text \<open>
  C4. A job that the signer accepts comes back from the verifier: under the trust record of the signer,
  for the binding the job names and at a time of its validity, the verification of the signed text
  yields the job itself, with the hash of its canonical text as digest.
\<close>

theorem signed_job_verifies:
  assumes "sign E sig trust j = Some token" and "trusted_key trust (jt_kid trust)" and "ed25519_key ed sig (jt_public trust)"
    and "check_window j" and "bound_to b j" and "jb_iat j \<le> now + 5" and "now < jb_exp j" and "clock_ok now"
  shows "verify_job E ed token trust b now =
    Inr \<lparr>vj_job = j, vj_digest = de_sha E (utf8_encode (canonicalJobJson E (job_json j))), vj_verified_at = now\<rparr>"
  by (rule sign_verify [OF assms])

lemma split_units_nonempty: "split_units d s \<noteq> []"
  by (induction s) (auto split: list.split)

lemma split_units_join: "join [d] (split_units d s) = s"
proof (induction s)
  case (Cons c s)
  then show ?case using split_units_nonempty [of d s] by (auto simp: join_Cons split: list.split)
qed simp

lemma decode_segment_Inr: "decode_segment s = Inr bs \<Longrightarrow> from_base64url s = Some bs"
  by (auto simp: decode_segment_def job_fail_def split: if_splits option.splits)

lemma carries_job: "carries (job_schema E)"
proof -
  have "carries resource_schema" unfolding resource_schema_def by (rule carries_object) simp
  moreover have "carries approval_schema" unfolding approval_schema_def by (rule carries_object) simp
  ultimately show ?thesis unfolding job_schema_def by (intro carries_object) simp
qed

lemma parse_canonical_Inr:
  assumes "parse_canonical E bs = Inr v"
  obtains raw where "utf8_decode bs = Some raw" "strip_bom raw = canonicalJobJson E v" "wf_jv v"
  using assms parse_json_wf by (fastforce simp: parse_canonical_def job_fail_def split: option.splits if_splits)

lemma verify_segments_Inr:
  assumes "verify_segments E ed trust b now s0 s1 s2 = Inr vj"
  obtains payload signature v where "decode_segment s1 = Inr payload" "decode_segment s2 = Inr signature"
    "ed (jt_public trust) (s0 @ S ''.'' @ s1) signature" "parse_canonical E payload = Inr v" "job_schema E v"
    "job_checks (read_job v) b now = Inr ()" "vj = \<lparr>vj_job = read_job v, vj_digest = de_sha E payload, vj_verified_at = now\<rparr>"
  using assms
  by (fastforce simp: verify_segments_def bindE_Inr_iff parse_job_def job_fail_def split: option.splits if_splits)

text \<open>
  C6. Whatever the verifier accepts was signed: the text is two segments and a signature that the library
  accepts for these segments under the trusted key. The job is bound to the device, and is accepted
  inside its window, which never exceeds five minutes. The digest is that of the signed bytes, and
  these are the canonical text of the job: the same job has no other text (but for a leading byte
  order mark, which the decoder drops).
\<close>

theorem verified_job_authentic:
  assumes "verify_job E ed token trust b now = Inr vj"
  shows "\<exists>s0 s1 s2 payload signature raw. token = s0 @ S ''.'' @ s1 @ S ''.'' @ s2
    \<and> from_base64url s1 = Some payload \<and> from_base64url s2 = Some signature
    \<and> ed (jt_public trust) (s0 @ S ''.'' @ s1) signature
    \<and> utf8_decode payload = Some raw \<and> vj_digest vj = de_sha E payload
    \<and> strip_bom raw = canonicalJobJson E (job_json (vj_job vj))
    \<and> bound_to b (vj_job vj) \<and> check_window (vj_job vj)
    \<and> now < jb_exp (vj_job vj) \<and> jb_exp (vj_job vj) \<le> now + 305 \<and> vj_verified_at vj = now"
proof -
  obtain s0 s1 s2 where sp: "split_units 46 token = [s0, s1, s2]" "verify_segments E ed trust b now s0 s1 s2 = Inr vj"
    using assms by (auto simp: verify_job_def job_fail_def split: if_splits list.splits)
  then have token: "token = s0 @ S ''.'' @ s1 @ S ''.'' @ s2" using split_units_join [of 46 token] by (simp add: S_def)
  from sp(2) obtain payload signature v where seg: "decode_segment s1 = Inr payload" "decode_segment s2 = Inr signature"
    "ed (jt_public trust) (s0 @ S ''.'' @ s1) signature" "parse_canonical E payload = Inr v" "job_schema E v"
    "job_checks (read_job v) b now = Inr ()" "vj = \<lparr>vj_job = read_job v, vj_digest = de_sha E payload, vj_verified_at = now\<rparr>"
    by (rule verify_segments_Inr)
  obtain raw where raw: "utf8_decode payload = Some raw" "strip_bom raw = canonicalJobJson E v" "wf_jv v"
    using seg(4) by (rule parse_canonical_Inr)
  have v: "json_value v" using carries_job raw(3) seg(5) by (auto simp: carries_def)
  have sorted: "sort_value v = sort_value (job_json (read_job v))" using seg(5) v by (rule job_sorted)
  then have "json_value (job_json (read_job v))" using v by (metis sort_value_json)
  then have "canonicalJobJson E v = canonicalJobJson E (job_json (read_job v))" using v sorted by (simp add: canonical_inject)
  with raw(2) have "strip_bom raw = canonicalJobJson E (job_json (vj_job vj))" by (simp add: seg(7))
  moreover have "bound_to b (vj_job vj)" "check_window (vj_job vj)" "now < jb_exp (vj_job vj)" "jb_iat (vj_job vj) \<le> now + 5"
    using seg(6) by (simp_all add: seg(7) job_checks_ok)
  moreover from this have "jb_exp (vj_job vj) \<le> now + 305" by (simp add: check_window_def)
  moreover have "vj_digest vj = de_sha E payload" "vj_verified_at vj = now" by (simp_all add: seg(7))
  moreover note decode_segment_Inr [OF seg(1)] decode_segment_Inr [OF seg(2)]
  ultimately show ?thesis using token seg(3) raw(1)
    by (intro exI [of _ s0] exI [of _ s1] exI [of _ s2] exI [of _ payload] exI [of _ signature] exI [of _ raw] conjI)
qed

section \<open>The plan\<close>

lemma read_resource_sorted: "json_value v \<Longrightarrow> read_resource (sort_value v) = read_resource v"
  by (simp add: read_resource_def prop_of_sort_value)

lemma read_resource_json: "read_resource (resource_json r) = r"
  by (simp add: read_resource_def resource_json_def prop_of_def fields_of_def text_of_def int_of_def)

lemma carries_resource: "carries resource_schema"
  unfolding resource_schema_def by (rule carries_object) simp

lemma wf_prop: "wf_jv v \<Longrightarrow> wf_jv (prop_of v k)"
  by (cases v) (auto simp: prop_of_def fields_of_def intro: wf_jget)

lemma same_resource:
  assumes "wf_jv v" and "resource_schema v" and "json_value (resource_json r)"
  shows "canonicalJobJson E v = canonicalJobJson E (resource_json r) \<longleftrightarrow> read_resource v = r"
proof -
  have v: "json_value v" using assms(1,2) carries_resource by (simp add: carries_def)
  have "sort_value v = sort_value (resource_json r) \<longleftrightarrow> read_resource v = r"
    using resource_sorted [OF assms(2) v] read_resource_sorted v assms(3) read_resource_json by metis
  then show ?thesis by (simp add: canonical_inject v assms(3))
qed

lemma verified_resource:
  assumes "verify_job E ed token trust b now = Inr vj"
  shows "json_value (resource_json (jb_resource (vj_job vj)))" and "vj_verified_at vj = now"
proof -
  obtain s0 s1 s2 where "verify_segments E ed trust b now s0 s1 s2 = Inr vj"
    using assms by (auto simp: verify_job_def job_fail_def split: if_splits list.splits)
  then obtain payload v where v: "parse_canonical E payload = Inr v" "job_schema E v"
      "vj = \<lparr>vj_job = read_job v, vj_digest = de_sha E payload, vj_verified_at = now\<rparr>"
    by (rule verify_segments_Inr)
  obtain raw where "wf_jv v" using v(1) by (rule parse_canonical_Inr)
  then have r: "wf_jv (prop_of v ''resource'')" by (rule wf_prop)
  have s: "resource_schema (prop_of v ''resource'')" using schema_fields [OF v(2) [unfolded job_schema_def]] by simp
  then have "json_value (prop_of v ''resource'')" using r carries_resource by (simp add: carries_def)
  with resource_sorted [OF s this] show "json_value (resource_json (jb_resource (vj_job vj)))"
    by (simp add: v(3) read_job_def Let_def) (metis sort_value_json)
  show "vj_verified_at vj = now" by (simp add: v(3))
qed

lemma plan_checks_ok: "plan_checks E vj current now prior = Inr () \<longleftrightarrow> clock_ok now \<and> vj_verified_at vj \<le> now
    \<and> jb_iat (vj_job vj) \<le> now + 5 \<and> now < jb_exp (vj_job vj) \<and> state_schema current \<and> pred_option prior_schema prior"
  by (simp add: plan_checks_def checks_ok)

text \<open>
  C21. What a verified job may do: it plans a revocation exactly when, inside its window and with a clock
  that did not run back, the state of the resource is well-formed and active, is the very resource the
  job names (identifier, version and hash), at the policy revision and the state version the job
  expects; the plan then moves that version by one. With a prior record of the same job and digest it
  plans nothing, with any other record it fails: one job is never planned twice.
\<close>

theorem plan_decision:
  assumes "verify_job E ed token trust b t0 = Inr vj" and "wf_jv current"
  shows "plan E vj current now prior = Inr a \<longleftrightarrow>
    clock_ok now \<and> t0 \<le> now \<and> jb_iat (vj_job vj) \<le> now + 5 \<and> now < jb_exp (vj_job vj)
    \<and> state_schema current \<and> pred_option prior_schema prior
    \<and> (case prior of
        Some p \<Rightarrow> text_of (prop_of p ''job_id'') = jb_job_id (vj_job vj) \<and> text_of (prop_of p ''digest'') = vj_digest vj
          \<and> a = Already_recorded (jb_job_id (vj_job vj)) (vj_digest vj)
      | None \<Rightarrow> read_resource (prop_of current ''resource'') = jb_resource (vj_job vj)
          \<and> int_of (prop_of current ''policy_revision'') = jb_policy_revision (vj_job vj)
          \<and> int_of (prop_of current ''state_version'') = jb_expected_state_version (vj_job vj)
          \<and> text_of (prop_of current ''status'') = S ''active''
          \<and> jb_expected_state_version (vj_job vj) \<noteq> max_safe_integer
          \<and> a = Prepare_revoke (jb_job_id (vj_job vj)) (vj_digest vj) (rs_id (jb_resource (vj_job vj)))
              (jb_expected_state_version (vj_job vj)) (jb_expected_state_version (vj_job vj) + 1))"
proof -
  note vr = verified_resource [OF assms(1)]
  have "canonicalJobJson E (prop_of current ''resource'') = canonicalJobJson E (resource_json (jb_resource (vj_job vj)))
      \<longleftrightarrow> read_resource (prop_of current ''resource'') = jb_resource (vj_job vj)" if "state_schema current"
    using schema_fields [OF that [unfolded state_schema_def]] by (intro same_resource wf_prop assms(2) vr(1)) simp
  then show ?thesis
    by (cases prior) (auto simp: plan_def bindE_Inr_iff plan_checks_ok vr(2) revoke_checks_def checks_ok)
qed

section \<open>A concrete job\<close>

definition demo_denv :: daemon_env where
  "demo_denv = \<lparr>de_sha = (\<lambda>bs. replicate 64 97), de_num = (\<lambda>_. []), de_double = (\<lambda>_. NaN), de_iso = (\<lambda>_. Some 0),
     de_toISO = (\<lambda>_. []), de_https = (\<lambda>_. True), de_collation = unit_order\<rparr>"

definition demo_sig :: "jstr \<Rightarrow> bytes" where
  "demo_sig m = replicate 64 (length m mod 256)"

definition demo_ed :: "jstr \<Rightarrow> jstr \<Rightarrow> bytes \<Rightarrow> bool" where
  "demo_ed public m s \<longleftrightarrow> s = demo_sig m"

definition demo_trust :: job_trust where
  "demo_trust = \<lparr>jt_kid = S ''k1'', jt_public = replicate 43 65\<rparr>"

definition demo_job :: job where
  "demo_job = \<lparr>jb_job_id = S ''j1'', jb_iss = S ''g'', jb_identity_issuer = S ''i'', jb_tenant_id = S ''t'',
     jb_organization_id = S ''o'', jb_subject = S ''s'', jb_device_id = S ''d'', jb_device_version = 1,
     jb_key_jkt = replicate 43 65, jb_approved_by = \<lparr>av_subject = S ''a'', av_authorization_id = S ''z'', av_approved_at = 100\<rparr>,
     jb_resource = \<lparr>rs_id = S ''r'', rs_version = 1, rs_sha256 = replicate 64 97\<rparr>, jb_policy_revision = 7,
     jb_expected_state_version = 3, jb_iat = 100, jb_exp = 400\<rparr>"

definition demo_binding :: job_binding where
  "demo_binding = \<lparr>jn_gateway = S ''g'', jn_identityIssuer = S ''i'', jn_tenant = S ''t'', jn_organization = S ''o'',
     jn_subject = S ''s'', jn_device = S ''d'', jn_deviceVersion = 1, jn_jkt = replicate 43 65\<rparr>"

definition demo_token :: jstr where
  "demo_token = the (sign demo_denv demo_sig demo_trust demo_job)"

definition demo_current :: jv where
  "demo_current = JObj [(S ''resource'', resource_json (jb_resource demo_job)), (S ''policy_revision'', JNum (NInt 7)),
     (S ''state_version'', JNum (NInt 3)), (S ''status'', JStr (S ''active''))]"

lemma demo_schema: "job_schema demo_denv (job_json demo_job)"
  by code_simp

lemma demo_key: "trusted_key demo_trust (jt_kid demo_trust)"
  by code_simp

lemma demo_signed: "sign demo_denv demo_sig demo_trust demo_job = Some demo_token"
  by (simp add: demo_token_def sign_def demo_schema Let_def)

lemma demo_pair: "ed25519_key demo_ed demo_sig (jt_public demo_trust)"
  by (simp add: ed25519_key_def demo_ed_def demo_sig_def is_bytes_def)

lemma demo_times: "check_window demo_job" "bound_to demo_binding demo_job" "jb_iat demo_job \<le> 200 + 5" "200 < jb_exp demo_job" "clock_ok 200"
  by (simp_all add: check_window_def bound_to_def demo_job_def demo_binding_def clock_ok_def max_safe_integer_def)

lemmas demo_verified = sign_verify [OF demo_signed demo_key demo_pair demo_times]

theorem signed_job_verifies_witness:
  "verify_job demo_denv demo_ed demo_token demo_trust demo_binding 200 = Inr \<lparr>vj_job = demo_job,
     vj_digest = de_sha demo_denv (utf8_encode (canonicalJobJson demo_denv (job_json demo_job))), vj_verified_at = 200\<rparr>"
  by (rule signed_job_verifies [OF demo_signed demo_key demo_pair demo_times])

theorem verified_job_authentic_witness:
  "\<exists>s0 s1 s2. demo_token = s0 @ S ''.'' @ s1 @ S ''.'' @ s2"
  using verified_job_authentic [OF demo_verified] by blast

lemma demo_current_ok: "wf_jv demo_current" "state_schema demo_current"
  by (code_simp)+

theorem plan_decision_witness:
  "\<exists>vj. verify_job demo_denv demo_ed demo_token demo_trust demo_binding 200 = Inr vj
     \<and> plan demo_denv vj demo_current 300 None = Inr (Prepare_revoke (S ''j1'') (replicate 64 97) (S ''r'') 3 4)"
proof -
  let ?vj = "\<lparr>vj_job = demo_job, vj_digest = de_sha demo_denv (utf8_encode (canonicalJobJson demo_denv (job_json demo_job))),
    vj_verified_at = 200\<rparr>"
  have "read_resource (prop_of demo_current ''resource'') = jb_resource demo_job"
    by (simp add: demo_current_def prop_of_def fields_of_def) (simp add: read_resource_json)
  then have "plan demo_denv ?vj demo_current 300 None = Inr (Prepare_revoke (S ''j1'') (replicate 64 97) (S ''r'') 3 4)"
    unfolding plan_decision [OF demo_verified demo_current_ok(1)]
    using demo_current_ok(2) demo_times
    by (simp add: clock_ok_def max_safe_integer_def demo_job_def demo_denv_def demo_current_def prop_of_def fields_of_def int_of_def text_of_def)
  then show ?thesis using demo_verified by blast
qed

end
