(* ===== verification/DaemonStore.thy ===== *)
theory DaemonStore
  imports JobContract
begin

text \<open>
  The tables of daemon management and their operations (\<open>postgresStore.ts\<close> and \<open>jobs/store.ts\<close> under
  \<open>src/daemonManagement\<close>): nonces and proofs of the DPoP exchange, the reports of a device, the jobs of
  an organization and their results. \<open>clk k\<close> is the clock of the database (milliseconds) at statement
  \<open>k\<close> of an operation, \<open>flt k\<close> its failure for a reason outside the model.
\<close>

section \<open>The tables\<close>

record head_row =
  hd_issuer :: jstr
  hd_tenant :: jstr
  hd_subject :: jstr
  hd_sequence :: int
  hd_stored :: "stored_report option"

record report_row =
  rr_device_key :: jstr
  rr_report_id :: jstr
  rr_sequence :: int
  rr_payload_hash :: jstr
  rr_receipt :: receipt

record authority =
  au_tenant_id :: jstr
  au_subject :: jstr
  au_organization_id :: jstr
  au_client_id :: jstr
  au_user_version :: jstr
  au_service_access_version :: jstr
  au_checked_at :: int

record stored_job =
  sj_job :: job
  sj_compact :: jstr
  sj_kid :: jstr
  sj_authority :: authority

record job_row =
  jo_issuer :: jstr
  jo_tenant :: jstr
  jo_organization :: jstr
  jo_request_id :: jstr
  jo_request_hash :: jstr
  jo_job_id :: jstr
  jo_device_id :: jstr
  jo_kid :: jstr
  jo_expires_at :: int
  jo_record :: stored_job
  jo_created_at :: int

record result_row =
  re_job_id :: jstr
  re_device_key :: jstr
  re_report_id :: jstr
  re_sequence :: int
  re_result :: job_result
  re_observed_at :: int
  re_received_at :: int

record dstore =
  ds_nonces :: "jstr \<Rightarrow> int option"
  ds_proofs :: "jstr \<Rightarrow> int option"
  ds_heads :: "(jstr \<times> head_row) list"
  ds_reports :: "report_row list"
  ds_jobs :: "job_row list"
  ds_results :: "result_row list"

type_synonym dfaults = "nat \<Rightarrow> daemon_error option"
type_synonym 'a dstm = "(dstore, daemon_error, 'a) stm"

definition empty_store :: dstore where
  "empty_store = \<lparr>ds_nonces = (\<lambda>_. None), ds_proofs = (\<lambda>_. None), ds_heads = [], ds_reports = [], ds_jobs = [], ds_results = []\<rparr>"

definition store_digest :: "daemon_env \<Rightarrow> jstr list \<Rightarrow> jstr" where
  "store_digest E values = de_sha E (utf8_encode (stringify (de_num E) (JArr (map JStr values))))"

definition drop_expired :: "int \<Rightarrow> (jstr \<Rightarrow> int option) \<Rightarrow> jstr \<Rightarrow> int option" where
  "drop_expired now m k = (case m k of Some t \<Rightarrow> if t \<le> now then None else Some t | None \<Rightarrow> None)"

definition daemon_unique_violation :: daemon_error where
  "daemon_unique_violation = OtherError (plain_error (S ''duplicate key value violates unique constraint''))"

section \<open>Nonces and proofs\<close>

definition issueNonce :: "daemon_env \<Rightarrow> dfaults \<Rightarrow> (nat \<Rightarrow> int) \<Rightarrow> jstr \<Rightarrow> jstr \<Rightarrow> jstr \<Rightarrow> jstr dstm" where
  "issueNonce E flt clk verifier jkt nonce =
     bindQ (query flt 0 (\<lambda>s. (s\<lparr>ds_nonces := drop_expired (clk 0) (ds_nonces s)\<rparr>, Inr ()))) (\<lambda>_.
     bindQ (query flt 1 (\<lambda>s. let k = store_digest E [verifier, jkt, nonce] in
       if ds_nonces s k \<noteq> None then (s, Inl daemon_unique_violation)
       else (s\<lparr>ds_nonces := (ds_nonces s)(k \<mapsto> clk 1 + 60000)\<rparr>, Inr ()))) (\<lambda>_.
     retQ nonce))"

definition validNonce :: "daemon_env \<Rightarrow> dfaults \<Rightarrow> (nat \<Rightarrow> int) \<Rightarrow> jstr \<Rightarrow> jstr \<Rightarrow> jstr \<Rightarrow> bool dstm" where
  "validNonce E flt clk verifier jkt nonce = query flt 0 (\<lambda>s.
     (s, Inr (case ds_nonces s (store_digest E [verifier, jkt, nonce]) of Some t \<Rightarrow> clk 0 < t | None \<Rightarrow> False)))"

text \<open>The two statements of \<open>consumeProof\<close>; each is atomic, and replicas interleave them.\<close>

definition take_proof :: "int \<Rightarrow> jstr \<Rightarrow> bool dstm" where
  "take_proof now k s = (case ds_proofs s k of
      Some t \<Rightarrow> if t \<le> now then (s\<lparr>ds_proofs := (ds_proofs s)(k \<mapsto> now + 120000)\<rparr>, Inr True) else (s, Inr False)
    | None \<Rightarrow> (s\<lparr>ds_proofs := (ds_proofs s)(k \<mapsto> now + 120000)\<rparr>, Inr True))"

definition clean_proofs :: "int \<Rightarrow> unit dstm" where
  "clean_proofs now s = (s\<lparr>ds_proofs := drop_expired now (ds_proofs s)\<rparr>, Inr ())"

definition consumeProof :: "daemon_env \<Rightarrow> dfaults \<Rightarrow> (nat \<Rightarrow> int) \<Rightarrow> jstr \<Rightarrow> jstr \<Rightarrow> jstr \<Rightarrow> bool dstm" where
  "consumeProof E flt clk verifier jkt jti =
     bindQ (query flt 0 (take_proof (clk 0) (store_digest E [verifier, jkt, jti]))) (\<lambda>taken.
     bindQ (query flt 1 (clean_proofs (clk 1))) (\<lambda>_.
     retQ taken))"

section \<open>Accepting a report\<close>

definition device_key :: "daemon_env \<Rightarrow> device_identity \<Rightarrow> jstr" where
  "device_key E i = store_digest E [id_issuer i, id_tenant i, id_device i]"

definition payload_hash :: "daemon_env \<Rightarrow> report \<Rightarrow> jstr" where
  "payload_hash E rp = de_sha E (utf8_encode (canonical E (rp_json rp)))"

definition insert_head :: "jstr \<Rightarrow> device_identity \<Rightarrow> unit dstm" where
  "insert_head k i s = (if map_of (ds_heads s) k = None
     then (s\<lparr>ds_heads := ds_heads s @ [(k, \<lparr>hd_issuer = id_issuer i, hd_tenant = id_tenant i, hd_subject = id_subject i,
       hd_sequence = 0, hd_stored = None\<rparr>)]\<rparr>, Inr ())
     else (s, Inr ()))"

definition select_head :: "jstr \<Rightarrow> head_row dstm" where
  "select_head k s = (s, (case map_of (ds_heads s) k of Some h \<Rightarrow> Inr h
     | None \<Rightarrow> Inl (OtherError (plain_error (S ''Cannot read properties of undefined'')))))"

definition same_report :: "jstr \<Rightarrow> report \<Rightarrow> report_row \<Rightarrow> bool" where
  "same_report k rp r \<longleftrightarrow> rr_device_key r = k \<and> (rr_report_id r = rp_report_id rp \<or> rr_sequence r = rp_sequence rp)"

definition select_duplicates :: "jstr \<Rightarrow> report \<Rightarrow> report_row list dstm" where
  "select_duplicates k rp s = (s, Inr (filter (same_report k rp) (ds_reports s)))"

definition insert_report :: "jstr \<Rightarrow> report \<Rightarrow> jstr \<Rightarrow> receipt \<Rightarrow> unit dstm" where
  "insert_report k rp h rt s = (if list_ex (same_report k rp) (ds_reports s) then (s, Inl daemon_unique_violation)
     else (s\<lparr>ds_reports := ds_reports s @ [\<lparr>rr_device_key = k, rr_report_id = rp_report_id rp, rr_sequence = rp_sequence rp,
       rr_payload_hash = h, rr_receipt = rt\<rparr>]\<rparr>, Inr ()))"

definition select_job :: "device_identity \<Rightarrow> jstr \<Rightarrow> job option dstm" where
  "select_job i jid s = (s, Inr (case filter (\<lambda>r. jo_job_id r = jid \<and> jo_issuer r = id_issuer i \<and> jo_tenant r = id_tenant i) (ds_jobs s) of
      [] \<Rightarrow> None | r # _ \<Rightarrow> Some (sj_job (jo_record r))))"

definition result_matches :: "daemon_env \<Rightarrow> device_identity \<Rightarrow> report \<Rightarrow> job_result \<Rightarrow> job option \<Rightarrow> bool" where
  "result_matches E i rp r jo = (case jo of None \<Rightarrow> False | Some j \<Rightarrow>
     jb_iss j = id_resource i \<and> jb_subject j = id_subject i \<and> jb_organization_id j = id_organization i
     \<and> jb_device_id j = id_device i \<and> jb_device_version j = id_version i \<and> jb_key_jkt j = id_jkt i
     \<and> rs_id (jb_resource j) = jr_resource_id r \<and> jb_expected_state_version j + 1 = jr_state_version r
     \<and> de_sha E (utf8_encode (canonicalJobJson E (job_json j))) = jr_digest r
     \<and> jb_iat j * 1000 - 5000 \<le> date_parse E (rp_observed_at rp))"

definition upsert_result :: "result_row \<Rightarrow> unit dstm" where
  "upsert_result r s =
     (if list_ex (\<lambda>q. re_job_id q = re_job_id r) (ds_results s)
      then (s\<lparr>ds_results := map (\<lambda>q. if re_job_id q = re_job_id r \<and> re_device_key q = re_device_key r \<and> re_sequence q < re_sequence r
        then r else q) (ds_results s)\<rparr>, Inr ())
      else (s\<lparr>ds_results := ds_results s @ [r]\<rparr>, Inr ()))"

definition mismatch :: daemon_error where
  "mismatch = mgmt_error 409 ''job_result_mismatch''"

fun store_results :: "daemon_env \<Rightarrow> dfaults \<Rightarrow> device_identity \<Rightarrow> report \<Rightarrow> receipt \<Rightarrow> jstr list \<Rightarrow> nat \<Rightarrow> job_result list \<Rightarrow> unit dstm" where
  "store_results E flt i rp rt seen k [] = retQ ()"
| "store_results E flt i rp rt seen k (r # rs) =
     (if jr_job_id r \<in> set seen then throwQ mismatch
      else bindQ (query flt k (select_job i (jr_job_id r))) (\<lambda>jo.
        if \<not> result_matches E i rp r jo then throwQ mismatch
        else bindQ (query flt (k + 1) (upsert_result \<lparr>re_job_id = jr_job_id r, re_device_key = device_key E i,
              re_report_id = rp_report_id rp, re_sequence = rp_sequence rp, re_result = r,
              re_observed_at = date_parse E (rp_observed_at rp), re_received_at = date_parse E (rt_received_at rt)\<rparr>)) (\<lambda>_.
          store_results E flt i rp rt (jr_job_id r # seen) (k + 2) rs)))"

definition update_head :: "jstr \<Rightarrow> device_identity \<Rightarrow> report \<Rightarrow> receipt \<Rightarrow> unit dstm" where
  "update_head k i rp rt s = (s\<lparr>ds_heads := map (\<lambda>(k', h). (k', if k' = k
     then h\<lparr>hd_sequence := rp_sequence rp, hd_stored := Some \<lparr>st_identity = i, st_report = rp, st_receipt = rt\<rparr>\<rparr> else h)) (ds_heads s)\<rparr>, Inr ())"

definition accept_new :: "daemon_env \<Rightarrow> dfaults \<Rightarrow> (nat \<Rightarrow> int) \<Rightarrow> device_identity \<Rightarrow> report \<Rightarrow> head_row \<Rightarrow> receipt dstm" where
  "accept_new E flt clk i rp head =
     (if rp_sequence rp \<le> hd_sequence head then throwQ (mgmt_error 409 ''report_out_of_order'')
      else bindQ (query flt 4 (\<lambda>s. (s, Inr \<lparr>rt_report_id = rp_report_id rp, rt_sequence = rp_sequence rp, rt_received_at = de_toISO E (clk 4)\<rparr>))) (\<lambda>rt.
        bindQ (query flt 5 (insert_report (device_key E i) rp (payload_hash E rp) rt)) (\<lambda>_.
        bindQ (store_results E flt i rp rt [] 100 (rp_job_results rp)) (\<lambda>_.
        bindQ (query flt 6 (update_head (device_key E i) i rp rt)) (\<lambda>_.
        commit flt 7 rt)))))"

definition accept_duplicate :: "daemon_env \<Rightarrow> dfaults \<Rightarrow> report \<Rightarrow> report_row list \<Rightarrow> receipt dstm" where
  "accept_duplicate E flt rp dups = (case dups of
      [prior] \<Rightarrow> if rr_report_id prior \<noteq> rp_report_id rp \<or> rr_sequence prior \<noteq> rp_sequence rp \<or> rr_payload_hash prior \<noteq> payload_hash E rp
        then throwQ (mgmt_error 409 ''report_conflict'') else commit flt 4 (rr_receipt prior)
    | _ \<Rightarrow> throwQ (mgmt_error 409 ''report_conflict''))"

definition accept_body :: "daemon_env \<Rightarrow> dfaults \<Rightarrow> (nat \<Rightarrow> int) \<Rightarrow> device_identity \<Rightarrow> report \<Rightarrow> receipt dstm" where
  "accept_body E flt clk i rp =
     bindQ (query flt 1 (insert_head (device_key E i) i)) (\<lambda>_.
     bindQ (query flt 2 (select_head (device_key E i))) (\<lambda>head.
     if hd_subject head \<noteq> id_subject i then throwQ (mgmt_error 403 ''device_not_authorized'')
     else bindQ (query flt 3 (select_duplicates (device_key E i) rp)) (\<lambda>dups.
       if dups \<noteq> [] then accept_duplicate E flt rp dups else accept_new E flt clk i rp head)))"

definition accept_report :: "daemon_env \<Rightarrow> dfaults \<Rightarrow> (nat \<Rightarrow> int) \<Rightarrow> device_identity \<Rightarrow> report \<Rightarrow> receipt dstm" where
  "accept_report E flt clk i rp = transaction flt (accept_body E flt clk i rp)"

definition list_reports :: "dfaults \<Rightarrow> jstr \<Rightarrow> jstr \<Rightarrow> jstr \<Rightarrow> stored_report list dstm" where
  "list_reports flt issuer tenant subject = query flt 0 (\<lambda>s. (s, Inr (List.map_filter (\<lambda>(k, h). hd_stored h) (take 100
     (Sorting_Algorithms.sort (key fst unit_order) (filter (\<lambda>(k, h). hd_issuer h = issuer \<and> hd_tenant h = tenant
       \<and> hd_subject h = subject \<and> 0 < hd_sequence h) (ds_heads s)))))))"

section \<open>The jobs of an organization\<close>

definition same_request :: "jstr \<Rightarrow> jstr \<Rightarrow> jstr \<Rightarrow> jstr \<Rightarrow> job_row \<Rightarrow> bool" where
  "same_request issuer tenant organization requestId r \<longleftrightarrow> jo_issuer r = issuer \<and> jo_tenant r = tenant
     \<and> jo_organization r = organization \<and> jo_request_id r = requestId"

definition insert_job :: "job_row \<Rightarrow> unit dstm" where
  "insert_job r s =
     (if list_ex (\<lambda>q. same_request (jo_issuer r) (jo_tenant r) (jo_organization r) (jo_request_id r) q \<or> jo_job_id q = jo_job_id r) (ds_jobs s)
      then (s, Inl daemon_unique_violation) else (s\<lparr>ds_jobs := ds_jobs s @ [r]\<rparr>, Inr ()))"

definition job_row_of :: "jstr \<Rightarrow> jstr \<Rightarrow> jstr \<Rightarrow> jstr \<Rightarrow> jstr \<Rightarrow> int \<Rightarrow> stored_job \<Rightarrow> job_row" where
  "job_row_of issuer tenant organization requestId requestHash now r =
     \<lparr>jo_issuer = issuer, jo_tenant = tenant, jo_organization = organization, jo_request_id = requestId,
      jo_request_hash = requestHash, jo_job_id = jb_job_id (sj_job r), jo_device_id = jb_device_id (sj_job r), jo_kid = sj_kid r,
      jo_expires_at = jb_exp (sj_job r) * 1000, jo_record = r, jo_created_at = now\<rparr>"

text \<open>\<open>build\<close> makes and signs the record when there is none for the request; it does not use the tables.\<close>

definition issue_body :: "dfaults \<Rightarrow> (nat \<Rightarrow> int) \<Rightarrow> jstr \<Rightarrow> jstr \<Rightarrow> jstr \<Rightarrow> jstr \<Rightarrow> jstr \<Rightarrow>
    (unit \<Rightarrow> daemon_error + stored_job) \<Rightarrow> stored_job dstm" where
  "issue_body flt clk issuer tenant organization requestId requestHash build =
     bindQ (query flt 1 (retQ ())) (\<lambda>_.
     bindQ (query flt 2 (\<lambda>s. (s, Inr (filter (same_request issuer tenant organization requestId) (ds_jobs s))))) (\<lambda>prior.
     (case prior of
        row # _ \<Rightarrow> if jo_request_hash row \<noteq> requestHash then throwQ (mgmt_error 409 ''job_request_conflict'')
          else if \<not> clk 2 < jo_expires_at row then throwQ (mgmt_error 409 ''job_request_expired'')
          else commit flt 3 (jo_record row)
      | [] \<Rightarrow> (case build () of
          Inl e \<Rightarrow> throwQ e
        | Inr r \<Rightarrow> bindQ (query flt 3 (insert_job (job_row_of issuer tenant organization requestId requestHash (clk 3) r)))
            (\<lambda>_. commit flt 4 r)))))"

definition issue_job :: "dfaults \<Rightarrow> (nat \<Rightarrow> int) \<Rightarrow> jstr \<Rightarrow> jstr \<Rightarrow> jstr \<Rightarrow> jstr \<Rightarrow> jstr \<Rightarrow>
    (unit \<Rightarrow> daemon_error + stored_job) \<Rightarrow> stored_job dstm" where
  "issue_job flt clk issuer tenant organization requestId requestHash build =
     transaction flt (issue_body flt clk issuer tenant organization requestId requestHash build)"

text \<open>\<open>ORDER BY\<close>: a stable insertion sort.\<close>

fun insert_by :: "('a \<Rightarrow> 'a \<Rightarrow> bool) \<Rightarrow> 'a \<Rightarrow> 'a list \<Rightarrow> 'a list" where
  "insert_by le x [] = [x]"
| "insert_by le x (y # ys) = (if le x y then x # y # ys else y # insert_by le x ys)"

definition order_by :: "('a \<Rightarrow> 'a \<Rightarrow> bool) \<Rightarrow> 'a list \<Rightarrow> 'a list" where
  "order_by le xs = foldr (insert_by le) xs []"

lemma set_order_by [simp]: "set (order_by le xs) = set xs"
proof -
  have "set (insert_by le x ys) = insert x (set ys)" for x ys by (induction ys) auto
  then show ?thesis by (induction xs) (simp_all add: order_by_def)
qed

definition created_first :: "job_row \<Rightarrow> job_row \<Rightarrow> bool" where
  "created_first r q \<longleftrightarrow> jo_created_at r < jo_created_at q
     \<or> jo_created_at r = jo_created_at q \<and> code_units (jo_job_id r) (jo_job_id q) \<noteq> Greater"

definition created_last :: "job_row \<Rightarrow> job_row \<Rightarrow> bool" where
  "created_last r q \<longleftrightarrow> jo_created_at q < jo_created_at r
     \<or> jo_created_at r = jo_created_at q \<and> code_units (jo_job_id r) (jo_job_id q) \<noteq> Greater"

definition confirmed :: "result_row list \<Rightarrow> jstr \<Rightarrow> bool" where
  "confirmed rs jid \<longleftrightarrow> list_ex (\<lambda>r. re_job_id r = jid \<and> jr_termination (re_result r) = S ''confirmed'') rs"

definition pending_jobs :: "dfaults \<Rightarrow> (nat \<Rightarrow> int) \<Rightarrow> device_identity \<Rightarrow> jstr \<Rightarrow> stored_job list dstm" where
  "pending_jobs flt clk i kid = query flt 0 (\<lambda>s. (s, Inr (map jo_record (take 20 (order_by created_first
     (filter (\<lambda>r. jo_issuer r = id_issuer i \<and> jo_tenant r = id_tenant i \<and> jo_organization r = id_organization i
        \<and> jo_device_id r = id_device i \<and> jo_kid r = kid \<and> clk 0 < jo_expires_at r \<and> \<not> confirmed (ds_results s) (jo_job_id r))
      (ds_jobs s)))))))"

definition target_report :: "dfaults \<Rightarrow> jstr \<Rightarrow> jstr \<Rightarrow> jstr \<Rightarrow> jstr \<Rightarrow> stored_report option dstm" where
  "target_report flt issuer tenant organization device = query flt 0 (\<lambda>s. (s, Inr (case List.map_filter (\<lambda>(k, h). hd_stored h)
       (filter (\<lambda>(k, h). hd_issuer h = issuer \<and> hd_tenant h = tenant
          \<and> pred_option (\<lambda>r. id_organization (st_identity r) = organization \<and> id_device (st_identity r) = device) (hd_stored h)) (ds_heads s)) of
      [] \<Rightarrow> None | r # _ \<Rightarrow> Some r)))"

record observed_job =
  ob_record :: stored_job
  ob_result :: "job_result option"
  ob_observed_at :: "jstr option"
  ob_received_at :: "jstr option"

definition observe :: "daemon_env \<Rightarrow> result_row list \<Rightarrow> job_row \<Rightarrow> observed_job" where
  "observe E rs j = (case filter (\<lambda>r. re_job_id r = jo_job_id j) rs of
      [] \<Rightarrow> \<lparr>ob_record = jo_record j, ob_result = None, ob_observed_at = None, ob_received_at = None\<rparr>
    | r # _ \<Rightarrow> \<lparr>ob_record = jo_record j, ob_result = Some (re_result r), ob_observed_at = Some (de_toISO E (re_observed_at r)),
        ob_received_at = Some (de_toISO E (re_received_at r))\<rparr>)"

definition list_jobs :: "daemon_env \<Rightarrow> dfaults \<Rightarrow> jstr \<Rightarrow> jstr \<Rightarrow> jstr \<Rightarrow> jstr option \<Rightarrow> observed_job list dstm" where
  "list_jobs E flt issuer tenant subject organization = query flt 0 (\<lambda>s. (s, Inr (map (observe E (ds_results s)) (take 100 (order_by created_last
     (filter (\<lambda>r. jo_issuer r = issuer \<and> jo_tenant r = tenant
        \<and> (case organization of None \<Rightarrow> jb_subject (sj_job (jo_record r)) = subject | Some g \<Rightarrow> jo_organization r = g)) (ds_jobs s)))))))"

end
