(* ===== verification/DaemonLedger.thy ===== *)
theory DaemonLedger
  imports DaemonStore
begin

text \<open>
  What the tables of daemon management keep: the invariant of every reachable store, with any failures
  and any interleaving of the operations; reports are accepted once, in order, and a retry gets its
  receipt; a proof is taken at most once in two minutes.
\<close>

section \<open>Traces\<close>

text \<open>The operations between two times of the database clock, with what they answered.\<close>

datatype devent = Reported device_identity report "daemon_error + receipt" | Took int jstr bool | Cleaned | Nonced | Issued

definition in_time :: "int \<Rightarrow> int \<Rightarrow> (nat \<Rightarrow> int) \<Rightarrow> bool" where
  "in_time t t' clk \<longleftrightarrow> t \<le> t' \<and> (\<forall>k. t \<le> clk k \<and> clk k \<le> t')"

inductive dstep :: "daemon_env \<Rightarrow> int \<times> dstore \<Rightarrow> devent \<Rightarrow> int \<times> dstore \<Rightarrow> bool" for E where
  step_report: "accept_report E flt clk i rp s = (s', r) \<Longrightarrow> in_time t t' clk \<Longrightarrow> dstep E (t, s) (Reported i rp r) (t', s')"
| step_take: "take_proof now k s = (s', Inr b) \<Longrightarrow> t \<le> now \<Longrightarrow> dstep E (t, s) (Took now k b) (now, s')"
| step_clean: "clean_proofs now s = (s', Inr ()) \<Longrightarrow> t \<le> now \<Longrightarrow> dstep E (t, s) Cleaned (now, s')"
| step_nonce: "issueNonce E flt clk verifier jkt nonce s = (s', r) \<Longrightarrow> in_time t t' clk \<Longrightarrow> dstep E (t, s) Nonced (t', s')"
| step_issue: "issue_job flt clk issuer tenant organization requestId requestHash build s = (s', r) \<Longrightarrow> in_time t t' clk \<Longrightarrow>
    dstep E (t, s) Issued (t', s')"

inductive dtrace :: "daemon_env \<Rightarrow> int \<times> dstore \<Rightarrow> devent list \<Rightarrow> int \<times> dstore \<Rightarrow> bool" for E where
  trace_nil: "dtrace E c [] c"
| trace_cons: "dstep E c e c1 \<Longrightarrow> dtrace E c1 es c2 \<Longrightarrow> dtrace E c (e # es) c2"

inductive_simps dtrace_simps: "dtrace E c [] c2" "dtrace E c (e # es) c2"
inductive_cases dstep_TookE: "dstep E c (Took now k b) c2"

lemma dtrace_append: "dtrace E c (xs @ ys) c2 \<longleftrightarrow> (\<exists>c1. dtrace E c xs c1 \<and> dtrace E c1 ys c2)"
  by (induction xs arbitrary: c) (auto simp only: append_Nil append_Cons dtrace_simps)

lemma dtrace_invariant:
  assumes "dtrace E c es c'" and "P c" and "\<And>c e c'. dstep E c e c' \<Longrightarrow> P c \<Longrightarrow> P c'"
  shows "P c'"
  using assms by (induction rule: dtrace.induct) auto

section \<open>The shape of the operations\<close>

lemma insert_head_Inr: "\<exists>s0. insert_head k i s = (s0, Inr ())"
  by (simp add: insert_head_def)

definition with_head :: "jstr \<Rightarrow> device_identity \<Rightarrow> dstore \<Rightarrow> dstore" where
  "with_head k i s = fst (insert_head k i s)"

lemma insert_head_eq: "insert_head k i s = (with_head k i s, Inr ())"
  by (simp add: with_head_def insert_head_def)

lemma with_head_simps [simp]: "ds_proofs (with_head k i s) = ds_proofs s" "ds_reports (with_head k i s) = ds_reports s"
  "ds_jobs (with_head k i s) = ds_jobs s" "ds_results (with_head k i s) = ds_results s" "ds_nonces (with_head k i s) = ds_nonces s"
  by (simp_all add: with_head_def insert_head_def)

definition report_row_of :: "daemon_env \<Rightarrow> device_identity \<Rightarrow> report \<Rightarrow> receipt \<Rightarrow> report_row" where
  "report_row_of E i rp rt = \<lparr>rr_device_key = device_key E i, rr_report_id = rp_report_id rp, rr_sequence = rp_sequence rp,
     rr_payload_hash = payload_hash E rp, rr_receipt = rt\<rparr>"

definition result_row_of :: "daemon_env \<Rightarrow> device_identity \<Rightarrow> report \<Rightarrow> receipt \<Rightarrow> job_result \<Rightarrow> result_row" where
  "result_row_of E i rp rt r = \<lparr>re_job_id = jr_job_id r, re_device_key = device_key E i, re_report_id = rp_report_id rp,
     re_sequence = rp_sequence rp, re_result = r, re_observed_at = date_parse E (rp_observed_at rp),
     re_received_at = date_parse E (rt_received_at rt)\<rparr>"

text \<open>The evidence behind a result: an issued job of the device, with the reported digest, resource and version.\<close>

definition evidence :: "daemon_env \<Rightarrow> job_row list \<Rightarrow> result_row \<Rightarrow> bool" where
  "evidence E js q \<longleftrightarrow> (\<exists>r \<in> set js. let j = sj_job (jo_record r) in jo_job_id r = re_job_id q
     \<and> re_device_key q = store_digest E [jo_issuer r, jo_tenant r, jb_device_id j]
     \<and> jr_digest (re_result q) = de_sha E (utf8_encode (canonicalJobJson E (job_json j)))
     \<and> jr_resource_id (re_result q) = rs_id (jb_resource j) \<and> jr_state_version (re_result q) = jb_expected_state_version j + 1)"

lemma evidence_mono: "evidence E js q \<Longrightarrow> set js \<subseteq> set js' \<Longrightarrow> evidence E js' q"
  by (fastforce simp: evidence_def)

lemma result_evidence:
  assumes "select_job i (jr_job_id r) s = (s', Inr jo)" and "result_matches E i rp r jo"
  shows "evidence E (ds_jobs s) (result_row_of E i rp rt r)"
proof -
  let ?P = "\<lambda>q. jo_job_id q = jr_job_id r \<and> jo_issuer q = id_issuer i \<and> jo_tenant q = id_tenant i"
  obtain q qs where q: "filter ?P (ds_jobs s) = q # qs" "jo = Some (sj_job (jo_record q))"
    using assms by (auto simp: select_job_def result_matches_def split: list.splits)
  then have "q \<in> set (filter ?P (ds_jobs s))" by simp
  then have "q \<in> set (ds_jobs s)" "?P q" by auto
  with assms(2) q(2) show ?thesis
    by (fastforce simp: evidence_def result_row_of_def result_matches_def device_key_def Let_def)
qed

definition results_ok :: "daemon_env \<Rightarrow> dstore \<Rightarrow> bool" where
  "results_ok E s \<longleftrightarrow> distinct (map re_job_id (ds_results s)) \<and> (\<forall>q \<in> set (ds_results s). evidence E (ds_jobs s) q)"

lemma upsert_result_ok:
  assumes "upsert_result q s = (s', Inr ())" and "results_ok E s" and "evidence E (ds_jobs s) q"
  shows "results_ok E s' \<and> s' = s\<lparr>ds_results := ds_results s'\<rparr>"
proof (cases "list_ex (\<lambda>p. re_job_id p = re_job_id q) (ds_results s)")
  case True
  let ?f = "\<lambda>p. if re_job_id p = re_job_id q \<and> re_device_key p = re_device_key q \<and> re_sequence p < re_sequence q then q else p"
  have s': "s' = s\<lparr>ds_results := map ?f (ds_results s)\<rparr>" using assms(1) True by (simp add: upsert_result_def)
  have "re_job_id \<circ> ?f = re_job_id" by auto
  then show ?thesis using assms(2,3) by (auto simp: s' results_ok_def)
next
  case False
  then have "s' = s\<lparr>ds_results := ds_results s @ [q]\<rparr>" "re_job_id q \<notin> re_job_id ` set (ds_results s)"
    using assms(1) by (auto simp: upsert_result_def list_ex_iff)
  then show ?thesis using assms(2,3) by (auto simp: results_ok_def)
qed

lemma store_results_ok:
  "store_results E flt i rp rt seen k rs s = (s', Inr ()) \<Longrightarrow> results_ok E s \<Longrightarrow>
   results_ok E s' \<and> s' = s\<lparr>ds_results := ds_results s'\<rparr>"
proof (induction rs arbitrary: seen k s)
  case (Cons r rs)
  from Cons.prems(1) obtain jo s1 where step: "select_job i (jr_job_id r) s = (s, Inr jo)" "result_matches E i rp r jo"
      "upsert_result (result_row_of E i rp rt r) s = (s1, Inr ())"
      "store_results E flt i rp rt (jr_job_id r # seen) (k + 2) rs s1 = (s', Inr ())"
    by (auto simp: bindQ_Inr_iff query_Inr_iff throwQ_def result_row_of_def select_job_def split: if_splits)
  have s1: "results_ok E s1 \<and> s1 = s\<lparr>ds_results := ds_results s1\<rparr>"
    using step(3) Cons.prems(2) result_evidence [OF step(1,2)] by (rule upsert_result_ok)
  with Cons.IH [OF step(4)] have "results_ok E s'" "s' = s1\<lparr>ds_results := ds_results s'\<rparr>" by auto
  moreover from this(2) s1 have "s' = s\<lparr>ds_results := ds_results s'\<rparr>" by (metis (no_types, lifting) dstore.surjective dstore.update_convs(6))
  ultimately show ?case by blast
qed (simp add: retQ_def)

definition accepted_state :: "daemon_env \<Rightarrow> device_identity \<Rightarrow> report \<Rightarrow> receipt \<Rightarrow> result_row list \<Rightarrow> dstore \<Rightarrow> dstore" where
  "accepted_state E i rp rt R s = fst (update_head (device_key E i) i rp rt
     ((with_head (device_key E i) i s)\<lparr>ds_reports := ds_reports s @ [report_row_of E i rp rt], ds_results := R\<rparr>))"

lemma accept_cases:
  assumes "accept_report E flt clk i rp s = (s', r)" and "results_ok E s"
  obtains (failed) e where "r = Inl e" "s' = s"
  | (repeated) prior h where "r = Inr (rr_receipt prior)" "s' = with_head (device_key E i) i s"
      "map_of (ds_heads s') (device_key E i) = Some h" "hd_subject h = id_subject i"
      "filter (same_report (device_key E i) rp) (ds_reports s) = [prior]" "rr_report_id prior = rp_report_id rp"
      "rr_sequence prior = rp_sequence rp" "rr_payload_hash prior = payload_hash E rp"
  | (fresh) rt h R where "r = Inr rt" "s' = accepted_state E i rp rt R s"
      "map_of (ds_heads (with_head (device_key E i) i s)) (device_key E i) = Some h" "hd_subject h = id_subject i"
      "filter (same_report (device_key E i) rp) (ds_reports s) = []" "hd_sequence h < rp_sequence rp"
      "rt_report_id rt = rp_report_id rp" "rt_sequence rt = rp_sequence rp" "results_ok E (s\<lparr>ds_results := R\<rparr>)"
proof (cases r)
  case (Inl e)
  with assms(1) have "s' = s" by (auto simp: accept_report_def dest: transaction_Inl)
  with Inl show thesis by (rule failed)
next
  case (Inr rt)
  let ?k = "device_key E i"
  let ?dups = "filter (same_report ?k rp) (ds_reports s)"
  have body: "accept_body E flt clk i rp s = (s', Inr rt)" using assms(1) Inr by (simp add: accept_report_def transaction_Inr_iff)
  then obtain h where h: "map_of (ds_heads (with_head ?k i s)) ?k = Some h" "hd_subject h = id_subject i"
    and rest: "(if ?dups \<noteq> [] then accept_duplicate E flt rp ?dups else accept_new E flt clk i rp h) (with_head ?k i s) = (s', Inr rt)"
    by (auto simp: accept_body_def bindQ_Inr_iff query_Inr_iff insert_head_eq select_head_def select_duplicates_def throwQ_def
      split: if_splits option.splits)
  show thesis
  proof (cases "?dups = []")
    case False
    then obtain prior where dups: "?dups = [prior]" and m: "rr_report_id prior = rp_report_id rp" "rr_sequence prior = rp_sequence rp"
        "rr_payload_hash prior = payload_hash E rp" and res: "s' = with_head ?k i s" "rt = rr_receipt prior"
      using rest by (auto simp: accept_duplicate_def throwQ_def commit_Inr_iff split: list.splits if_splits)
    show thesis by (rule repeated [OF _ res(1) _ h(2) dups m]) (simp_all add: Inr res h(1))
  next
    case True
    let ?s1 = "(with_head ?k i s)\<lparr>ds_reports := ds_reports s @ [report_row_of E i rp rt]\<rparr>"
    obtain s2 where n: "hd_sequence h < rp_sequence rp" "rt_report_id rt = rp_report_id rp" "rt_sequence rt = rp_sequence rp"
        "store_results E flt i rp rt [] 100 (rp_job_results rp) ?s1 = (s2, Inr ())" "s' = fst (update_head ?k i rp rt s2)"
      using rest True
      by (auto simp: accept_new_def bindQ_Inr_iff query_Inr_iff throwQ_def insert_report_def commit_Inr_iff report_row_of_def update_head_def
        split: if_splits)
    have "results_ok E ?s1" using assms(2) by (simp add: results_ok_def)
    with store_results_ok [OF n(4)] have r: "results_ok E s2" "s2 = ?s1\<lparr>ds_results := ds_results s2\<rparr>" by auto
    have "s' = accepted_state E i rp rt (ds_results s2) s" unfolding accepted_state_def n(5) by (subst r(2)) simp
    moreover have "results_ok E (s\<lparr>ds_results := ds_results s2\<rparr>)" using r(1) by (subst (asm) r(2)) (simp add: results_ok_def)
    ultimately show thesis using Inr h True n(1-3) by (intro fresh)
  qed
qed

section \<open>The invariant\<close>

definition latest :: "daemon_env \<Rightarrow> report_row list \<Rightarrow> jstr \<Rightarrow> head_row \<Rightarrow> bool" where
  "latest E rs k h \<longleftrightarrow> (case hd_stored h of
      None \<Rightarrow> hd_sequence h = 0 \<and> (\<forall>r \<in> set rs. rr_device_key r \<noteq> k)
    | Some st \<Rightarrow> k = device_key E (st_identity st) \<and> hd_subject h = id_subject (st_identity st) \<and> hd_sequence h = rp_sequence (st_report st)
        \<and> report_row_of E (st_identity st) (st_report st) (st_receipt st) \<in> set rs)"

definition reports_ok :: "daemon_env \<Rightarrow> dstore \<Rightarrow> bool" where
  "reports_ok E s \<longleftrightarrow> distinct (map fst (ds_heads s))
     \<and> distinct (map (\<lambda>r. (rr_device_key r, rr_report_id r)) (ds_reports s))
     \<and> distinct (map (\<lambda>r. (rr_device_key r, rr_sequence r)) (ds_reports s))
     \<and> (\<forall>r \<in> set (ds_reports s). rt_report_id (rr_receipt r) = rr_report_id r \<and> rt_sequence (rr_receipt r) = rr_sequence r
          \<and> (\<exists>h. map_of (ds_heads s) (rr_device_key r) = Some h \<and> rr_sequence r \<le> hd_sequence h))
     \<and> (\<forall>(k, h) \<in> set (ds_heads s). latest E (ds_reports s) k h)"

definition jobs_ok :: "dstore \<Rightarrow> bool" where
  "jobs_ok s \<longleftrightarrow> distinct (map jo_job_id (ds_jobs s))
     \<and> distinct (map (\<lambda>r. (jo_issuer r, jo_tenant r, jo_organization r, jo_request_id r)) (ds_jobs s))
     \<and> (\<forall>r \<in> set (ds_jobs s). jo_job_id r = jb_job_id (sj_job (jo_record r)) \<and> jo_kid r = sj_kid (jo_record r)
          \<and> jo_device_id r = jb_device_id (sj_job (jo_record r)) \<and> jo_expires_at r = jb_exp (sj_job (jo_record r)) * 1000)"

definition store_ok :: "daemon_env \<Rightarrow> dstore \<Rightarrow> bool" where
  "store_ok E s \<longleftrightarrow> reports_ok E s \<and> jobs_ok s \<and> results_ok E s"

lemma reports_ok_cong: "ds_heads s' = ds_heads s \<Longrightarrow> ds_reports s' = ds_reports s \<Longrightarrow> reports_ok E s' = reports_ok E s"
  by (simp only: reports_ok_def)

lemma store_ok_empty: "store_ok E empty_store"
  by (simp add: store_ok_def reports_ok_def jobs_ok_def results_ok_def empty_store_def)

lemma with_head_heads: "ds_heads (with_head k i s) = (if map_of (ds_heads s) k = None
    then ds_heads s @ [(k, \<lparr>hd_issuer = id_issuer i, hd_tenant = id_tenant i, hd_subject = id_subject i, hd_sequence = 0, hd_stored = None\<rparr>)]
    else ds_heads s)"
  by (simp add: with_head_def insert_head_def)

lemma map_of_with_head: "map_of (ds_heads s) k' = Some h \<Longrightarrow> map_of (ds_heads (with_head k i s)) k' = Some h"
  by (simp add: with_head_heads map_add_Some_iff)

lemma with_head_ok:
  assumes "reports_ok E s"
  shows "reports_ok E (with_head k i s)"
proof (cases "map_of (ds_heads s) k = None")
  case True
  have keep: "\<exists>h. map_of (ds_heads (with_head k i s)) (rr_device_key r) = Some h \<and> rr_sequence r \<le> hd_sequence h" if "r \<in> set (ds_reports s)" for r
    using assms that map_of_with_head by (fastforce simp: reports_ok_def)
  have "rr_device_key r \<noteq> k" if "r \<in> set (ds_reports s)" for r using assms that True by (fastforce simp: reports_ok_def)
  moreover have "k \<notin> fst ` set (ds_heads s)" using True by (simp add: map_of_eq_None_iff)
  ultimately show ?thesis using assms True keep unfolding reports_ok_def with_head_simps
    by (auto simp: with_head_heads latest_def)
next
  case False
  then have same: "ds_heads (with_head k i s) = ds_heads s" by (simp add: with_head_heads)
  show ?thesis using assms unfolding reports_ok_def with_head_simps same .
qed

lemma map_of_update: "map_of (map (\<lambda>(k', h). (k', if k' = k then f h else h)) hs) k'
    = map_option (\<lambda>h. if k' = k then f h else h) (map_of hs k')"
  by (induction hs) auto

lemma no_same_report: "filter (same_report k rp) rs = [] \<Longrightarrow> r \<in> set rs \<Longrightarrow> rr_device_key r = k \<Longrightarrow>
    rr_report_id r \<noteq> rp_report_id rp \<and> rr_sequence r \<noteq> rp_sequence rp"
  by (auto simp: filter_empty_conv same_report_def)

lemma accepted_state_ok:
  assumes "reports_ok E s" and h: "map_of (ds_heads (with_head (device_key E i) i s)) (device_key E i) = Some h"
    and sub: "hd_subject h = id_subject i" and none: "filter (same_report (device_key E i) rp) (ds_reports s) = []"
    and less: "hd_sequence h < rp_sequence rp" and rt: "rt_report_id rt = rp_report_id rp" "rt_sequence rt = rp_sequence rp"
  shows "reports_ok E (accepted_state E i rp rt R s)"
proof -
  let ?k = "device_key E i" and ?row = "report_row_of E i rp rt"
  let ?new = "\<lambda>h. h\<lparr>hd_sequence := rp_sequence rp, hd_stored := Some \<lparr>st_identity = i, st_report = rp, st_receipt = rt\<rparr>\<rparr>"
  define s0 where "s0 = with_head ?k i s"
  have ok: "reports_ok E s0" unfolding s0_def using assms(1) by (rule with_head_ok)
  have reps: "ds_reports s0 = ds_reports s" by (simp add: s0_def)
  have heads: "ds_heads (accepted_state E i rp rt R s) = map (\<lambda>(k', h). (k', if k' = ?k then ?new h else h)) (ds_heads s0)"
    and reports: "ds_reports (accepted_state E i rp rt R s) = ds_reports s0 @ [?row]"
    by (simp_all add: accepted_state_def update_head_def s0_def)
  have row: "rr_device_key ?row = ?k" "rr_report_id ?row = rp_report_id rp" "rr_sequence ?row = rp_sequence rp" "rr_receipt ?row = rt"
    by (simp_all add: report_row_of_def)
  have other: "rp_report_id rp \<noteq> rr_report_id r" "rp_sequence rp \<noteq> rr_sequence r" if "r \<in> set (ds_reports s0)" "?k = rr_device_key r" for r
    using no_same_report [OF none, of r] that by (auto simp: reps)
  have hk: "map_of (ds_heads s0) ?k = Some h" using h by (simp add: s0_def)
  have unique: "h' = h" if "(?k, h') \<in> set (ds_heads s0)" for h'
    using ok hk that by (auto simp: reports_ok_def)
  show ?thesis
    unfolding reports_ok_def heads reports
  proof (intro conjI)
    show "distinct (map fst (map (\<lambda>(k', h). (k', if k' = ?k then ?new h else h)) (ds_heads s0)))"
      using ok by (simp add: reports_ok_def case_prod_unfold comp_def)
    show "distinct (map (\<lambda>r. (rr_device_key r, rr_report_id r)) (ds_reports s0 @ [?row]))"
      "distinct (map (\<lambda>r. (rr_device_key r, rr_sequence r)) (ds_reports s0 @ [?row]))"
    proof -
      have new: "(?k, x) \<notin> (\<lambda>r. (rr_device_key r, f r)) ` set (ds_reports s0)"
        if "\<And>r. r \<in> set (ds_reports s0) \<Longrightarrow> ?k = rr_device_key r \<Longrightarrow> x \<noteq> f r" for x :: 'b and f
        using that by blast
      note new [OF other(1)] new [OF other(2)]
      then show "distinct (map (\<lambda>r. (rr_device_key r, rr_report_id r)) (ds_reports s0 @ [?row]))"
        "distinct (map (\<lambda>r. (rr_device_key r, rr_sequence r)) (ds_reports s0 @ [?row]))"
        using ok by (simp_all add: reports_ok_def row)
    qed
    show "\<forall>r \<in> set (ds_reports s0 @ [?row]). rt_report_id (rr_receipt r) = rr_report_id r \<and> rt_sequence (rr_receipt r) = rr_sequence r
        \<and> (\<exists>h. map_of (map (\<lambda>(k', h). (k', if k' = ?k then ?new h else h)) (ds_heads s0)) (rr_device_key r) = Some h \<and> rr_sequence r \<le> hd_sequence h)"
    proof
      fix r
      assume "r \<in> set (ds_reports s0 @ [?row])"
      then consider "r \<in> set (ds_reports s0)" | "r = ?row" by auto
      then show "rt_report_id (rr_receipt r) = rr_report_id r \<and> rt_sequence (rr_receipt r) = rr_sequence r
        \<and> (\<exists>h. map_of (map (\<lambda>(k', h). (k', if k' = ?k then ?new h else h)) (ds_heads s0)) (rr_device_key r) = Some h \<and> rr_sequence r \<le> hd_sequence h)"
      proof cases
        case 1
        from ok have "\<forall>r \<in> set (ds_reports s0). rt_report_id (rr_receipt r) = rr_report_id r \<and> rt_sequence (rr_receipt r) = rr_sequence r
            \<and> (\<exists>h. map_of (ds_heads s0) (rr_device_key r) = Some h \<and> rr_sequence r \<le> hd_sequence h)" unfolding reports_ok_def by blast
        with 1 obtain h' where h': "rt_report_id (rr_receipt r) = rr_report_id r \<and> rt_sequence (rr_receipt r) = rr_sequence r"
            "map_of (ds_heads s0) (rr_device_key r) = Some h'" "rr_sequence r \<le> hd_sequence h'" by blast
        show ?thesis
        proof (cases "rr_device_key r = ?k")
          case True
          with h'(2) hk have "h' = h" by simp
          with True h' hk less show ?thesis by (simp add: map_of_update)
        qed (simp add: map_of_update h')
      next
        case 2
        then show ?thesis using hk rt by (simp add: map_of_update row)
      qed
    qed
    have "latest E (ds_reports s0 @ [?row]) k (if k = ?k then ?new h' else h')" if "(k, h') \<in> set (ds_heads s0)" for k h'
    proof (cases "k = ?k")
      case True
      then show ?thesis using unique that sub by (auto simp: latest_def)
    next
      case False
      have "latest E (ds_reports s0) k h'" using ok that by (auto simp: reports_ok_def)
      with False show ?thesis by (auto simp: latest_def row split: option.splits)
    qed
    then show "\<forall>(k, h) \<in> set (map (\<lambda>(k', h). (k', if k' = ?k then ?new h else h)) (ds_heads s0)). latest E (ds_reports s0 @ [?row]) k h"
      by auto
  qed
qed

section \<open>Every step\<close>

lemma take_proof_shape: "take_proof now k s = (s', r) \<Longrightarrow> \<exists>m. s' = s\<lparr>ds_proofs := m\<rparr>"
  by (auto simp: take_proof_def split: option.splits if_splits intro: exI [of _ "ds_proofs s"])

lemma issueNonce_shape: "issueNonce E flt clk verifier jkt nonce s = (s', r) \<Longrightarrow> \<exists>m. s' = s\<lparr>ds_nonces := m\<rparr>"
  by (auto simp: issueNonce_def bindQ_def query_def retQ_def Let_def split: option.splits if_splits prod.splits sum.splits
    intro: exI [of _ "ds_nonces s"])

lemma issue_job_shape:
  assumes "issue_job flt clk issuer tenant organization requestId requestHash build s = (s', r)"
  shows "s' = s \<or> (\<exists>row. s' = s\<lparr>ds_jobs := ds_jobs s @ [row]\<rparr> \<and> insert_job row s = (s', Inr ())
    \<and> (\<exists>rec now. row = job_row_of issuer tenant organization requestId requestHash now rec))"
proof (cases r)
  case (Inl e)
  then show ?thesis using assms by (auto simp: issue_job_def dest: transaction_Inl)
next
  case (Inr rec)
  then have "issue_body flt clk issuer tenant organization requestId requestHash build s = (s', Inr rec)"
    using assms by (simp add: issue_job_def transaction_Inr_iff)
  then show ?thesis
    by (auto simp: issue_body_def bindQ_Inr_iff query_Inr_iff retQ_Inr_iff commit_Inr_iff throwQ_def insert_job_def split: list.splits if_splits sum.splits)
qed

lemma jobs_ok_insert:
  assumes "insert_job row s = (s', Inr ())" and "jobs_ok s" and "row = job_row_of issuer tenant organization requestId requestHash now rec"
  shows "jobs_ok s'"
proof -
  have s': "s' = s\<lparr>ds_jobs := ds_jobs s @ [row]\<rparr>"
    and new: "\<And>q. q \<in> set (ds_jobs s) \<Longrightarrow> jo_job_id q \<noteq> jo_job_id row
      \<and> (jo_issuer q, jo_tenant q, jo_organization q, jo_request_id q) \<noteq> (jo_issuer row, jo_tenant row, jo_organization row, jo_request_id row)"
    using assms(1) by (auto simp: insert_job_def list_ex_iff same_request_def split: if_splits)
  have row: "jo_job_id row = jb_job_id (sj_job (jo_record row))" "jo_kid row = sj_kid (jo_record row)"
    "jo_device_id row = jb_device_id (sj_job (jo_record row))" "jo_expires_at row = jb_exp (sj_job (jo_record row)) * 1000"
    by (simp_all add: assms(3) job_row_of_def)
  have "jo_job_id row \<notin> jo_job_id ` set (ds_jobs s)" using new by (metis imageE)
  moreover have "(jo_issuer row, jo_tenant row, jo_organization row, jo_request_id row)
      \<notin> (\<lambda>r. (jo_issuer r, jo_tenant r, jo_organization r, jo_request_id r)) ` set (ds_jobs s)"
    using new by (metis (no_types, lifting) imageE)
  ultimately show ?thesis using assms(2) row unfolding jobs_ok_def s' by auto
qed

text \<open>What never shrinks: the heads with their subjects, the reports and the jobs.\<close>

definition grows :: "dstore \<Rightarrow> dstore \<Rightarrow> bool" where
  "grows s s' \<longleftrightarrow> set (ds_reports s) \<subseteq> set (ds_reports s') \<and> set (ds_jobs s) \<subseteq> set (ds_jobs s')
     \<and> (\<forall>k h. map_of (ds_heads s) k = Some h \<longrightarrow> (\<exists>h'. map_of (ds_heads s') k = Some h' \<and> hd_subject h' = hd_subject h
          \<and> hd_sequence h \<le> hd_sequence h'))"

lemma grows_refl [simp]: "grows s s"
  by (simp add: grows_def)

lemma grows_trans:
  assumes "grows a b" and "grows b c"
  shows "grows a c"
  unfolding grows_def
proof (intro conjI allI impI)
  fix k h
  assume "map_of (ds_heads a) k = Some h"
  with assms(1) obtain h1 where h1: "map_of (ds_heads b) k = Some h1" "hd_subject h1 = hd_subject h" "hd_sequence h \<le> hd_sequence h1"
    unfolding grows_def by blast
  with assms(2) obtain h2 where "map_of (ds_heads c) k = Some h2" "hd_subject h2 = hd_subject h1" "hd_sequence h1 \<le> hd_sequence h2"
    unfolding grows_def by blast
  with h1 show "\<exists>h'. map_of (ds_heads c) k = Some h' \<and> hd_subject h' = hd_subject h \<and> hd_sequence h \<le> hd_sequence h'" by auto
qed (use assms in \<open>auto simp: grows_def\<close>)

lemma with_head_grows: "grows s (with_head k i s)"
  by (auto simp: grows_def map_of_with_head)

lemma accepted_grows:
  assumes "map_of (ds_heads (with_head (device_key E i) i s)) (device_key E i) = Some h" and "hd_sequence h < rp_sequence rp"
  shows "grows s (accepted_state E i rp rt R s)"
proof -
  let ?s0 = "with_head (device_key E i) i s"
  have heads: "map_of (ds_heads (accepted_state E i rp rt R s)) k' = map_option (\<lambda>h. if k' = device_key E i
      then h\<lparr>hd_sequence := rp_sequence rp, hd_stored := Some \<lparr>st_identity = i, st_report = rp, st_receipt = rt\<rparr>\<rparr> else h) (map_of (ds_heads ?s0) k')" for k'
    by (simp add: accepted_state_def update_head_def map_of_update)
  have "grows ?s0 (accepted_state E i rp rt R s)"
    unfolding grows_def heads using assms by (auto simp: accepted_state_def update_head_def)
  with with_head_grows show ?thesis by (rule grows_trans)
qed

lemma dstep_facts:
  assumes "dstep E c e c'" and "store_ok E (snd c)"
  shows "store_ok E (snd c') \<and> grows (snd c) (snd c') \<and> fst c \<le> fst c'"
  using assms
proof cases
  case (step_report flt clk i rp s s' r t t')
  have ok: "reports_ok E s" "jobs_ok s" "results_ok E s" using assms(2) step_report by (simp_all add: store_ok_def)
  have time: "t \<le> t'" using step_report by (simp add: in_time_def)
  from step_report(4) ok(3) show ?thesis
  proof (cases rule: accept_cases)
    case (failed e)
    then show ?thesis using assms(2) step_report(1,3) time by simp
  next
    case (repeated prior h)
    then show ?thesis using with_head_ok [OF ok(1)] ok(2,3) step_report(1,3) time with_head_grows
      by (simp add: store_ok_def jobs_ok_def results_ok_def)
  next
    case (fresh rt h R)
    have "reports_ok E s'" unfolding fresh(2) using ok(1) fresh(3-8) by (rule accepted_state_ok)
    moreover have "grows s s'" unfolding fresh(2) using fresh(3,6) by (rule accepted_grows)
    moreover have "ds_jobs s' = ds_jobs s" "ds_results s' = R" by (simp_all add: fresh(2) accepted_state_def update_head_def)
    ultimately show ?thesis using ok(2) fresh(9) step_report(1,3) time by (simp add: store_ok_def jobs_ok_def results_ok_def)
  qed
next
  case (step_take now k s s' b t)
  then show ?thesis using assms(2) take_proof_shape [OF step_take(4)]
    by (auto simp: store_ok_def reports_ok_def jobs_ok_def results_ok_def grows_def)
next
  case (step_clean now s s' t)
  then show ?thesis using assms(2)
    by (auto simp: clean_proofs_def store_ok_def reports_ok_def jobs_ok_def results_ok_def grows_def)
next
  case (step_nonce flt clk verifier jkt nonce s s' r t t')
  then show ?thesis using assms(2) issueNonce_shape [OF step_nonce(4)]
    by (auto simp: store_ok_def reports_ok_def jobs_ok_def results_ok_def grows_def in_time_def)
next
  case (step_issue flt clk issuer tenant organization requestId requestHash build s s' r t t')
  have time: "t \<le> t'" using step_issue by (simp add: in_time_def)
  have ok: "reports_ok E s" "jobs_ok s" "results_ok E s" using assms(2) step_issue by (simp_all add: store_ok_def)
  from issue_job_shape [OF step_issue(4)] show ?thesis
  proof (elim disjE exE conjE)
    assume "s' = s"
    then show ?thesis using assms(2) step_issue(1,3) time by simp
  next
    fix row rec now
    assume row: "s' = s\<lparr>ds_jobs := ds_jobs s @ [row]\<rparr>" "insert_job row s = (s', Inr ())"
      "row = job_row_of issuer tenant organization requestId requestHash now rec"
    have "jobs_ok s'" using row(2) ok(2) row(3) by (rule jobs_ok_insert)
    moreover have "reports_ok E s'" using ok(1) reports_ok_cong [of s' s E] by (simp add: row(1))
    moreover have "results_ok E s'" using ok(3) by (auto simp: row(1) results_ok_def intro: evidence_mono)
    moreover have "grows s s'" by (auto simp: row(1) grows_def)
    ultimately show ?thesis using step_issue(1,3) time by (simp add: store_ok_def)
  qed
qed

lemma dtrace_facts: "dtrace E c es c' \<Longrightarrow> store_ok E (snd c) \<Longrightarrow> store_ok E (snd c') \<and> grows (snd c) (snd c') \<and> fst c \<le> fst c'"
proof (induction rule: dtrace.induct)
  case (trace_cons c e c1 es c2)
  note one = dstep_facts [OF trace_cons(1,4)]
  with trace_cons(3) have "store_ok E (snd c2) \<and> grows (snd c1) (snd c2) \<and> fst c1 \<le> fst c2" by blast
  with one grows_trans show ?case by (meson order_trans)
qed simp

text \<open>
  C25. Whatever is issued, reported, replayed or cleaned up, with any statement failing anywhere, the tables
  stay consistent: no device has two reports with one identifier or one sequence number, the head of
  a device is its latest accepted report, no two jobs share an identifier or a request, and every
  stored result belongs to an issued job of that device, with its digest, resource and state version.
\<close>

theorem daemon_store_invariant:
  "dtrace E (t, empty_store) es (t', s) \<Longrightarrow> store_ok E s"
  using dtrace_facts [of E "(t, empty_store)" es "(t', s)"] store_ok_empty by simp

section \<open>Retries\<close>

text \<open>After an accepted report, its row is in the table and its device is the subject's.\<close>

definition recorded :: "daemon_env \<Rightarrow> device_identity \<Rightarrow> report \<Rightarrow> receipt \<Rightarrow> dstore \<Rightarrow> bool" where
  "recorded E i rp rt s \<longleftrightarrow> report_row_of E i rp rt \<in> set (ds_reports s)
     \<and> (\<exists>h. map_of (ds_heads s) (device_key E i) = Some h \<and> hd_subject h = id_subject i)"

lemma recorded_grows: "recorded E i rp rt s \<Longrightarrow> grows s s' \<Longrightarrow> recorded E i rp rt s'"
  unfolding recorded_def grows_def by fastforce

lemma accept_records:
  assumes "accept_report E flt clk i rp s = (s', Inr rt)" and "store_ok E s"
  shows "recorded E i rp rt s'"
proof -
  have "results_ok E s" using assms(2) by (simp add: store_ok_def)
  with assms(1) show ?thesis
  proof (cases rule: accept_cases)
    case (repeated prior h)
    have "prior \<in> set (filter (same_report (device_key E i) rp) (ds_reports s))" using repeated(5) by simp
    then have "prior \<in> set (ds_reports s)" "rr_device_key prior = device_key E i" by (auto simp: same_report_def)
    then have "prior = report_row_of E i rp rt" using repeated by (simp add: report_row_of_def)
    then show ?thesis using repeated \<open>prior \<in> set (ds_reports s)\<close> by (auto simp: recorded_def)
  next
    case (fresh rt' h R)
    then show ?thesis by (simp add: recorded_def accepted_state_def update_head_def map_of_update)
  qed simp
qed

lemma recorded_duplicates:
  assumes "recorded E i rp rt s" and "reports_ok E s"
  shows "filter (same_report (device_key E i) rp) (ds_reports s) = [report_row_of E i rp rt]"
proof (rule filter_unique [where f = "\<lambda>r. (rr_device_key r, rr_report_id r)"])
  let ?row = "report_row_of E i rp rt"
  have row: "?row \<in> set (ds_reports s)" using assms(1) by (simp add: recorded_def)
  then show "?row \<in> set (ds_reports s)" .
  show "distinct (map (\<lambda>r. (rr_device_key r, rr_report_id r)) (ds_reports s))" using assms(2) unfolding reports_ok_def by blast
  show "same_report (device_key E i) rp ?row" by (simp add: same_report_def report_row_of_def)
  have seqs: "distinct (map (\<lambda>r. (rr_device_key r, rr_sequence r)) (ds_reports s))" using assms(2) unfolding reports_ok_def by blast
  fix r
  assume r: "r \<in> set (ds_reports s)" "same_report (device_key E i) rp r"
  show "(rr_device_key r, rr_report_id r) = (rr_device_key ?row, rr_report_id ?row)"
  proof (cases "rr_sequence r = rp_sequence rp")
    case True
    then have "(rr_device_key r, rr_sequence r) = (rr_device_key ?row, rr_sequence ?row)"
      using r(2) by (simp add: same_report_def report_row_of_def)
    then have "r = ?row" using seqs r(1) row by (auto simp: distinct_map dest: inj_onD)
    then show ?thesis by simp
  qed (use r(2) in \<open>auto simp: same_report_def report_row_of_def\<close>)
qed

lemma recorded_retry:
  assumes "recorded E i rp rt s" and "reports_ok E s"
  shows "accept_report E (\<lambda>_. None) clk i rp s = (s, Inr rt)"
proof -
  let ?k = "device_key E i"
  from assms(1) obtain h where h: "map_of (ds_heads s) ?k = Some h" "hd_subject h = id_subject i" by (auto simp: recorded_def)
  then have w: "with_head ?k i s = s" by (simp add: with_head_def insert_head_def)
  have "accept_body E (\<lambda>_. None) clk i rp s = (s, Inr rt)"
    using recorded_duplicates [OF assms] h
    by (simp add: accept_body_def bindQ_def query_def insert_head_eq w select_head_def select_duplicates_def accept_duplicate_def
      commit_def retQ_def report_row_of_def)
  then show ?thesis by (simp add: accept_report_def transaction_Inr_iff)
qed

lemma recorded_conflict:
  assumes "recorded E i rp rt s" and "store_ok E s" and "accept_report E flt clk i rp' s = (s', Inr rt')"
    and "rp_report_id rp' = rp_report_id rp \<or> rp_sequence rp' = rp_sequence rp"
  shows "rp_report_id rp' = rp_report_id rp \<and> rp_sequence rp' = rp_sequence rp \<and> payload_hash E rp' = payload_hash E rp"
proof -
  let ?row = "report_row_of E i rp rt"
  have ok: "results_ok E s" using assms(2) by (simp add: store_ok_def)
  have row: "?row \<in> set (ds_reports s)" using assms(1) by (simp add: recorded_def)
  have same: "same_report (device_key E i) rp' ?row" using assms(4) by (auto simp: same_report_def report_row_of_def)
  from assms(3) ok show ?thesis
  proof (cases rule: accept_cases)
    case (repeated prior h)
    have "?row \<in> set (filter (same_report (device_key E i) rp') (ds_reports s))" using row same by simp
    then have "prior = ?row" using repeated(5) by simp
    then show ?thesis using repeated(6-8) by (simp add: report_row_of_def)
  next
    case (fresh rt' h R)
    then show ?thesis using row same by (auto simp: filter_empty_conv)
  qed simp
qed

text \<open>
  C10. Reporting is safe to retry: once a report of a device is accepted, then at any later moment, whatever
  happened in between, sending it again returns the first receipt and changes nothing, and a report
  that reuses its identifier or its sequence number with any other content is refused.
\<close>

theorem report_retry:
  assumes "dtrace E (t0, empty_store) es (t1, s1)" and "accept_report E flt clk i rp s1 = (s2, Inr rt)" and "in_time t1 t2 clk"
    and "dtrace E (t2, s2) es' (t3, s3)"
  shows "accept_report E (\<lambda>_. None) clk' i rp s3 = (s3, Inr rt)
    \<and> (\<forall>flt' clk' rp' s4 rt'. (rp_report_id rp' = rp_report_id rp \<or> rp_sequence rp' = rp_sequence rp)
        \<and> accept_report E flt' clk' i rp' s3 = (s4, Inr rt')
        \<longrightarrow> rp_report_id rp' = rp_report_id rp \<and> rp_sequence rp' = rp_sequence rp \<and> payload_hash E rp' = payload_hash E rp)"
proof -
  have ok1: "store_ok E s1" using dtrace_facts [OF assms(1)] store_ok_empty by simp
  have "dstep E (t1, s1) (Reported i rp (Inr rt)) (t2, s2)" using assms(2,3) by (rule step_report)
  then have ok2: "store_ok E s2" using dstep_facts ok1 by fastforce
  have g: "store_ok E s3" "grows s2 s3" using dtrace_facts [OF assms(4)] ok2 by simp_all
  have rec: "recorded E i rp rt s3" using accept_records [OF assms(2) ok1] g(2) by (rule recorded_grows)
  have "reports_ok E s3" using g(1) by (simp add: store_ok_def)
  with rec have "accept_report E (\<lambda>_. None) clk' i rp s3 = (s3, Inr rt)" by (rule recorded_retry)
  with recorded_conflict [OF rec g(1)] show ?thesis by blast
qed

section \<open>Proofs\<close>

text \<open>The proof is held, or two minutes have passed.\<close>

definition held :: "jstr \<Rightarrow> int \<Rightarrow> int \<times> dstore \<Rightarrow> bool" where
  "held k until c \<longleftrightarrow> until \<le> fst c \<or> ds_proofs (snd c) k = Some until"

lemma held_frame: "ds_proofs s' = ds_proofs s \<Longrightarrow> t \<le> t' \<Longrightarrow> held k until (t, s) \<Longrightarrow> held k until (t', s')"
  by (auto simp: held_def)

lemma accept_keeps_proofs:
  assumes "accept_report E flt clk i rp s = (s', r)"
  shows "ds_proofs s' = ds_proofs s"
proof -
  have res: "store_results E flt i rp rt seen k rs s1 = (s2, q) \<Longrightarrow> ds_proofs s2 = ds_proofs s1" for rt seen k rs s1 s2 q
  proof (induction rs arbitrary: seen k s1)
    case (Cons x rs)
    have up: "upsert_result y s = (s', z) \<Longrightarrow> ds_proofs s' = ds_proofs s" for y s s' and z :: "daemon_error + unit"
      by (auto simp: upsert_result_def split: if_splits)
    show ?case using Cons
      by (auto simp: bindQ_def query_def throwQ_def select_job_def split: if_splits option.splits prod.splits sum.splits dest!: up)
  qed (simp add: retQ_def)
  show ?thesis
  proof (cases r)
    case (Inl e)
    then show ?thesis using assms by (auto simp: accept_report_def dest: transaction_Inl)
  next
    case (Inr rt)
    then have "accept_body E flt clk i rp s = (s', Inr rt)" using assms by (simp add: accept_report_def transaction_Inr_iff)
    then show ?thesis
      by (auto simp: accept_body_def bindQ_Inr_iff query_Inr_iff insert_head_eq select_head_def select_duplicates_def throwQ_def
        accept_duplicate_def accept_new_def insert_report_def commit_Inr_iff update_head_def dest!: res split: if_splits option.splits list.splits)
  qed
qed

lemma held_step:
  assumes "dstep E c e c'" and "held k until c"
  shows "held k until c'"
  using assms
proof cases
  case (step_report flt clk i rp s s' r t t')
  then show ?thesis using assms(2) accept_keeps_proofs held_frame by (metis in_time_def)
next
  case (step_take now k' s s' b t)
  then show ?thesis using assms(2) by (auto simp: held_def take_proof_def split: option.splits if_splits)
next
  case (step_clean now s s' t)
  then show ?thesis using assms(2) by (auto simp: held_def clean_proofs_def drop_expired_def split: if_splits)
next
  case (step_nonce flt clk verifier jkt nonce s s' r t t')
  then show ?thesis using assms(2) issueNonce_shape [OF step_nonce(4)] by (auto simp: held_def in_time_def)
next
  case (step_issue flt clk issuer tenant organization requestId requestHash build s s' r t t')
  then show ?thesis using assms(2) issue_job_shape [OF step_issue(4)] by (auto simp: held_def in_time_def)
qed

lemma taken_held: "take_proof t k s = (s', Inr True) \<Longrightarrow> held k (t + 120000) (t, s')"
  by (auto simp: held_def take_proof_def split: option.splits if_splits)

lemma held_taken: "held k until (t, s) \<Longrightarrow> t \<le> now \<Longrightarrow> take_proof now k s = (s', Inr True) \<Longrightarrow> until \<le> now"
  by (auto simp: held_def take_proof_def split: option.splits if_splits)

lemma held_trace: "dtrace E c es c' \<Longrightarrow> held k until c \<Longrightarrow> held k until c'"
  using dtrace_invariant [where P = "held k until"] held_step by blast

section \<open>A concrete report\<close>

definition demo_identity :: device_identity where
  "demo_identity = \<lparr>id_issuer = S ''i'', id_tenant = S ''t'', id_subject = S ''s'', id_organization = S ''o'', id_client = S ''c'',
     id_resource = S ''g'', id_device = S ''d'', id_version = 1, id_jkt = replicate 43 65, id_userVersion = S ''1'', id_serviceVersion = S ''1''\<rparr>"

definition demo_report :: report where
  "demo_report = \<lparr>rp_report_id = S ''r1'', rp_sequence = 5, rp_observed_at = S ''x'', rp_connection = S ''connected'', rp_policy = None,
     rp_job_results = [], rp_json = JNull\<rparr>"

lemma demo_accept: "\<exists>s rt. accept_report demo_denv (\<lambda>_. None) (\<lambda>_. 7) demo_identity demo_report empty_store = (s, Inr rt)"
  by (simp add: accept_report_def transaction_Inr_iff accept_body_def bindQ_def query_def insert_head_def empty_store_def select_head_def
    select_duplicates_def accept_new_def insert_report_def update_head_def commit_def retQ_def demo_report_def demo_identity_def)

theorem report_retry_witness:
  "\<exists>s rt. accept_report demo_denv (\<lambda>_. None) (\<lambda>_. 7) demo_identity demo_report empty_store = (s, Inr rt)
     \<and> accept_report demo_denv (\<lambda>_. None) (\<lambda>_. 9) demo_identity demo_report s = (s, Inr rt)"
proof -
  obtain s rt where a: "accept_report demo_denv (\<lambda>_. None) (\<lambda>_. 7) demo_identity demo_report empty_store = (s, Inr rt)"
    using demo_accept by blast
  have "in_time 0 8 (\<lambda>_. 7)" by (simp add: in_time_def)
  from report_retry [OF trace_nil a this trace_nil, where clk' = "\<lambda>_. 9"] a show ?thesis by blast
qed

theorem daemon_store_invariant_witness:
  "\<exists>s rt. accept_report demo_denv (\<lambda>_. None) (\<lambda>_. 7) demo_identity demo_report empty_store = (s, Inr rt) \<and> store_ok demo_denv s"
proof -
  obtain s rt where a: "accept_report demo_denv (\<lambda>_. None) (\<lambda>_. 7) demo_identity demo_report empty_store = (s, Inr rt)"
    using demo_accept by blast
  have "in_time 0 8 (\<lambda>_. 7)" by (simp add: in_time_def)
  with a have "dstep demo_denv (0, empty_store) (Reported demo_identity demo_report (Inr rt)) (8, s)" by (rule step_report)
  then have "dtrace demo_denv (0, empty_store) [Reported demo_identity demo_report (Inr rt)] (8, s)" by (rule trace_cons) (rule trace_nil)
  with a daemon_store_invariant show ?thesis by blast
qed

end
