(* ===== verification/DaemonVerifier.thy ===== *)
theory DaemonVerifier
  imports DaemonLedger
begin

text \<open>
  The verification of a daemon request (\<open>src/daemonManagement/verifier.ts\<close>): the access token, the DPoP
  proof that binds the request to the key of the device, the nonce and the single use of the proof.
  The JOSE library is a parameter; what it decodes is checked here as the source checks it.
\<close>

section \<open>The library and the configuration\<close>

record management_config =
  mc_issuer :: jstr
  mc_tenant :: jstr
  mc_resource :: jstr
  mc_client :: jstr
  mc_readerClient :: jstr
  mc_readerSecret :: jstr

text \<open>
  \<open>jwtVerify\<close> (with the key set, issuer, audience and type of the configuration) on a token at a time,
  \<open>decodeProtectedHeader\<close>, \<open>calculateJwkThumbprint\<close>, and \<open>compactVerify\<close> under an imported key.
\<close>

datatype jwt_outcome = Jwt_ok jv jv | Jwt_unavailable | Jwt_invalid

record jose =
  jl_jwt :: "jstr \<Rightarrow> int \<Rightarrow> jwt_outcome"
  jl_header :: "jstr \<Rightarrow> jv option"
  jl_thumbprint :: "jv \<Rightarrow> jstr option"
  jl_compact :: "jstr \<Rightarrow> jv \<Rightarrow> bytes option"

datatype purpose = For_report | For_jobs

section \<open>The access token\<close>

definition hash_token :: "daemon_env \<Rightarrow> jstr \<Rightarrow> jstr" where
  "hash_token E s = base64url (hex_decode (de_sha E (utf8_encode s)))"

definition claim_text :: "jv \<Rightarrow> bool" where
  "claim_text = is_text (\<lambda>s. 0 < length s \<and> length s \<le> 255)"

definition version_re :: re where
  "version_re = whole [RCls (\<lambda>c. 49 \<le> c \<and> c \<le> 57), rupto 18 (RCls is_digit)]"

definition claim_version :: "jv \<Rightarrow> bool" where
  "claim_version = is_text (re_test version_re)"

definition bearer_ok :: "jstr \<Rightarrow> bool" where
  "bearer_ok a \<longleftrightarrow> re_test (RSeq RBol (RSeq (rlit (S ''DPoP '')) (RSeq (rplus (RCls (\<lambda>c. is_url64 c \<or> c = 46))) REol))) a
     \<and> length a \<le> 16384"

definition device_claim :: "jv \<Rightarrow> jv" where
  "device_claim p = prop_of p ''https://lynply.com/claims/device''"

definition single_audience :: "jv \<Rightarrow> bool" where
  "single_audience a = (case a of JArr xs \<Rightarrow> length xs = 1 | _ \<Rightarrow> True)"

definition token_times :: "int \<Rightarrow> jv \<Rightarrow> bool" where
  "token_times now p \<longleftrightarrow> is_safe_integer (prop_of p ''iat'') \<and> is_safe_integer (prop_of p ''exp'')
     \<and> (let iat = int_of (prop_of p ''iat''); exp = int_of (prop_of p ''exp'') in
        iat \<le> now + 5 \<and> now < exp \<and> exp \<le> iat + 300 \<and> iat < exp)"

definition device_ok :: "jv \<Rightarrow> bool" where
  "device_ok d \<longleftrightarrow> is_record d \<and> prop_of d ''v'' = JNum (NInt 1) \<and> claim_text (prop_of d ''id'')
     \<and> is_safe_integer (prop_of d ''version'') \<and> 1 \<le> int_of (prop_of d ''version'')"

definition token_ok :: "management_config \<Rightarrow> int \<Rightarrow> jv \<Rightarrow> jv \<Rightarrow> bool" where
  "token_ok cfg now p h \<longleftrightarrow> claim_text (prop_of h ''kid'')
     \<and> \<not> truthy (prop_of h ''jku'') \<and> \<not> truthy (prop_of h ''x5u'') \<and> \<not> truthy (prop_of h ''jwk'') \<and> \<not> truthy (prop_of h ''crit'')
     \<and> single_audience (prop_of p ''aud'')
     \<and> prop_of p ''client_id'' = JStr (mc_client cfg) \<and> prop_of p ''tenant_id'' = JStr (mc_tenant cfg)
     \<and> claim_text (prop_of p ''sub'') \<and> claim_text (prop_of p ''active_organization_id'') \<and> claim_text (prop_of p ''jti'')
     \<and> token_times now p \<and> device_ok (device_claim p)
     \<and> is_record (prop_of p ''cnf'') \<and> is_text key43_ok (prop_of (prop_of p ''cnf'') ''jkt'')
     \<and> claim_version (prop_of p ''user_version'') \<and> claim_version (prop_of p ''service_access_version'')"

definition purpose_scope :: "purpose \<Rightarrow> jstr" where
  "purpose_scope u = (case u of For_report \<Rightarrow> S ''gateway:daemon:report'' | For_jobs \<Rightarrow> S ''gateway:daemon:jobs:read'')"

definition scope_ok :: "purpose \<Rightarrow> jv \<Rightarrow> bool" where
  "scope_ok u v = is_text (\<lambda>s. S ''device:identity'' \<in> set (split_units 32 s) \<and> purpose_scope u \<in> set (split_units 32 s)) v"

definition identity_of :: "management_config \<Rightarrow> jv \<Rightarrow> device_identity" where
  "identity_of cfg p = \<lparr>id_issuer = mc_issuer cfg, id_tenant = mc_tenant cfg, id_subject = text_of (prop_of p ''sub''),
     id_organization = text_of (prop_of p ''active_organization_id''), id_client = mc_client cfg, id_resource = mc_resource cfg,
     id_device = text_of (prop_of (device_claim p) ''id''), id_version = int_of (prop_of (device_claim p) ''version''),
     id_jkt = text_of (prop_of (prop_of p ''cnf'') ''jkt''), id_userVersion = text_of (prop_of p ''user_version''),
     id_serviceVersion = text_of (prop_of p ''service_access_version'')\<rparr>"

definition invalid_token :: daemon_error where
  "invalid_token = mgmt_error 401 ''invalid_token''"

definition verify_token :: "jose \<Rightarrow> management_config \<Rightarrow> int \<Rightarrow> jstr \<Rightarrow> purpose \<Rightarrow> daemon_error + device_identity" where
  "verify_token J cfg now_ms token u = (case jl_jwt J token now_ms of
      Jwt_unavailable \<Rightarrow> Inl unavailable
    | Jwt_invalid \<Rightarrow> Inl invalid_token
    | Jwt_ok p h \<Rightarrow>
        if \<not> token_ok cfg (now_ms div 1000) p h then Inl invalid_token
        else if \<not> scope_ok u (prop_of p ''scope'') then Inl (mgmt_error 403 ''insufficient_scope'')
        else Inr (identity_of cfg p))"

section \<open>The proof\<close>

definition jwk_ok :: "jv \<Rightarrow> bool" where
  "jwk_ok k \<longleftrightarrow> prop_of k ''kty'' = JStr (S ''EC'') \<and> prop_of k ''crv'' = JStr (S ''P-256'')
     \<and> truthy (prop_of k ''x'') \<and> truthy (prop_of k ''y'') \<and> only_keys [''kty'', ''crv'', ''x'', ''y''] (fields_of k)"

definition proof_header_ok :: "jv \<Rightarrow> bool" where
  "proof_header_ok h \<longleftrightarrow> prop_of h ''typ'' = JStr (S ''dpop+jwt'') \<and> prop_of h ''alg'' = JStr (S ''ES256'') \<and> truthy (prop_of h ''jwk'')
     \<and> \<not> truthy (prop_of h ''jku'') \<and> \<not> truthy (prop_of h ''x5u'') \<and> \<not> truthy (prop_of h ''crit'')
     \<and> only_keys [''typ'', ''alg'', ''jwk''] (fields_of h) \<and> jwk_ok (prop_of h ''jwk'')"

definition purpose_method :: "purpose \<Rightarrow> jstr" where
  "purpose_method u = (case u of For_report \<Rightarrow> S ''POST'' | For_jobs \<Rightarrow> S ''GET'')"

definition purpose_path :: "purpose \<Rightarrow> jstr" where
  "purpose_path u = (case u of For_report \<Rightarrow> S ''reports'' | For_jobs \<Rightarrow> S ''jobs/pending'')"

definition proof_claims_ok :: "daemon_env \<Rightarrow> management_config \<Rightarrow> int \<Rightarrow> jstr \<Rightarrow> purpose \<Rightarrow> jv \<Rightarrow> bool" where
  "proof_claims_ok E cfg now token u p \<longleftrightarrow> is_record p \<and> claim_text (prop_of p ''jti'') \<and> is_safe_integer (prop_of p ''iat'')
     \<and> now - 60 \<le> int_of (prop_of p ''iat'') \<and> int_of (prop_of p ''iat'') \<le> now + 5
     \<and> prop_of p ''htm'' = JStr (purpose_method u)
     \<and> prop_of p ''htu'' = JStr (mc_resource cfg @ S ''/'' @ purpose_path u) \<and> prop_of p ''ath'' = JStr (hash_token E token)"

text \<open>The payload of a proof, from its text alone.\<close>

definition proof_payload :: "daemon_env \<Rightarrow> jose \<Rightarrow> jstr \<Rightarrow> (jstr \<times> jv) option" where
  "proof_payload E J raw = (case jl_header J raw of
      None \<Rightarrow> None
    | Some h \<Rightarrow> if \<not> proof_header_ok h then None
        else (case (jl_thumbprint J (prop_of h ''jwk''), jl_compact J raw (prop_of h ''jwk'')) of
            (Some jkt, Some bs) \<Rightarrow> (case utf8_decode bs of
                None \<Rightarrow> None
              | Some s \<Rightarrow> map_option (\<lambda>p. (jkt, p)) (parse_json (de_double E) (strip_bom s)))
          | _ \<Rightarrow> None))"

definition verify_proof :: "daemon_env \<Rightarrow> jose \<Rightarrow> management_config \<Rightarrow> int \<Rightarrow> jstr \<Rightarrow> jv \<Rightarrow> purpose \<Rightarrow> device_identity \<Rightarrow> daemon_error + jv" where
  "verify_proof E J cfg now token rawProof u i = (case rawProof of
      JStr raw \<Rightarrow> (case proof_payload E J raw of
          Some (jkt, p) \<Rightarrow> if length raw \<le> 8192 \<and> jkt = id_jkt i \<and> proof_claims_ok E cfg now token u p then Inr p
            else Inl (mgmt_error 401 ''invalid_dpop_proof'')
        | None \<Rightarrow> Inl (mgmt_error 401 ''invalid_dpop_proof''))
    | _ \<Rightarrow> Inl (mgmt_error 401 ''invalid_dpop_proof''))"

section \<open>Nonce and single use\<close>

definition to_management :: "daemon_error \<Rightarrow> daemon_error" where
  "to_management e = (case e of ManagementError _ _ _ \<Rightarrow> e | OtherError _ \<Rightarrow> unavailable)"

definition catch_other :: "'a dstm \<Rightarrow> 'a dstm" where
  "catch_other m s = (case m s of (s', Inl e) \<Rightarrow> (s', Inl (to_management e)) | (s', Inr x) \<Rightarrow> (s', Inr x))"

text \<open>The failures and clocks of the three operations, and the nonce drawn when one is issued.\<close>

record store_calls =
  sc_valid :: "dfaults \<times> (nat \<Rightarrow> int)"
  sc_issue :: "dfaults \<times> (nat \<Rightarrow> int)"
  sc_consume :: "dfaults \<times> (nat \<Rightarrow> int)"
  sc_nonce :: jstr

definition check_nonce :: "daemon_env \<Rightarrow> management_config \<Rightarrow> store_calls \<Rightarrow> jstr \<Rightarrow> jv \<Rightarrow> bool dstm" where
  "check_nonce E cfg C jkt nonce = (if claim_text nonce
     then validNonce E (fst (sc_valid C)) (snd (sc_valid C)) (mc_resource cfg) jkt (text_of nonce) else retQ False)"

definition use_proof :: "daemon_env \<Rightarrow> management_config \<Rightarrow> store_calls \<Rightarrow> jstr \<Rightarrow> jv \<Rightarrow> unit dstm" where
  "use_proof E cfg C jkt p = catch_other (bindQ (check_nonce E cfg C jkt (prop_of p ''nonce'')) (\<lambda>valid.
     if \<not> valid then bindQ (issueNonce E (fst (sc_issue C)) (snd (sc_issue C)) (mc_resource cfg) jkt (sc_nonce C))
       (\<lambda>nonce. throwQ (ManagementError 401 (S ''use_dpop_nonce'') (Some nonce)))
     else bindQ (consumeProof E (fst (sc_consume C)) (snd (sc_consume C)) (mc_resource cfg) jkt (text_of (prop_of p ''jti'')))
       (\<lambda>taken. if taken then retQ () else throwQ (mgmt_error 401 ''invalid_dpop_proof''))))"

text \<open>\<open>ManagementVerifier.verify\<close> on the two header values.\<close>

definition verify_request :: "daemon_env \<Rightarrow> jose \<Rightarrow> management_config \<Rightarrow> store_calls \<Rightarrow> int \<Rightarrow> jv \<Rightarrow> jv \<Rightarrow> purpose \<Rightarrow> device_identity dstm" where
  "verify_request E J cfg C now_ms authorization rawProof u =
     (if \<not> is_text bearer_ok authorization then throwQ invalid_token
      else let token = slice_from (text_of authorization) 5 in
        (case verify_token J cfg now_ms token u of
           Inl e \<Rightarrow> throwQ e
         | Inr i \<Rightarrow> (case verify_proof E J cfg (now_ms div 1000) token rawProof u i of
             Inl e \<Rightarrow> throwQ e
           | Inr p \<Rightarrow> bindQ (use_proof E cfg C (id_jkt i) p) (\<lambda>_. retQ i))))"

section \<open>One proof, one request\<close>

definition proof_key :: "daemon_env \<Rightarrow> jose \<Rightarrow> management_config \<Rightarrow> jstr \<Rightarrow> jstr" where
  "proof_key E J cfg raw = (case proof_payload E J raw of
      Some (jkt, p) \<Rightarrow> store_digest E [mc_resource cfg, jkt, text_of (prop_of p ''jti'')] | None \<Rightarrow> [])"

definition proof_iat :: "daemon_env \<Rightarrow> jose \<Rightarrow> jstr \<Rightarrow> int" where
  "proof_iat E J raw = (case proof_payload E J raw of Some (jkt, p) \<Rightarrow> int_of (prop_of p ''iat'') | None \<Rightarrow> 0)"

lemma verify_request_takes:
  assumes "verify_request E J cfg C now_ms authorization rawProof u s = (s', Inr i)"
  obtains raw s1 where "rawProof = JStr raw" "take_proof (snd (sc_consume C) 0) (proof_key E J cfg raw) s = (s1, Inr True)"
    "clean_proofs (snd (sc_consume C) 1) s1 = (s', Inr ())"
    "now_ms div 1000 - 60 \<le> proof_iat E J raw" "proof_iat E J raw \<le> now_ms div 1000 + 5"
proof -
  obtain i0 p where a: "verify_proof E J cfg (now_ms div 1000) (slice_from (text_of authorization) 5) rawProof u i0 = Inr p"
      "use_proof E cfg C (id_jkt i0) p s = (s', Inr ())"
    using assms by (auto simp: verify_request_def Let_def throwQ_def bindQ_Inr_iff retQ_Inr_iff split: if_splits sum.splits)
  then obtain raw where raw: "rawProof = JStr raw" "proof_payload E J raw = Some (id_jkt i0, p)"
      "proof_claims_ok E cfg (now_ms div 1000) (slice_from (text_of authorization) 5) u p"
    by (auto simp: verify_proof_def split: jv.splits option.splits if_splits)
  have key: "proof_key E J cfg raw = store_digest E [mc_resource cfg, id_jkt i0, text_of (prop_of p ''jti'')]"
    "proof_iat E J raw = int_of (prop_of p ''iat'')"
    by (simp_all add: proof_key_def proof_iat_def raw(2))
  have "\<exists>s0. bindQ (consumeProof E (fst (sc_consume C)) (snd (sc_consume C)) (mc_resource cfg) (id_jkt i0) (text_of (prop_of p ''jti'')))
      (\<lambda>taken. if taken then retQ () else throwQ (mgmt_error 401 ''invalid_dpop_proof'')) s = (s', Inr ())"
    using a(2) by (auto simp: use_proof_def catch_other_def check_nonce_def bindQ_Inr_iff validNonce_def query_Inr_iff retQ_Inr_iff throwQ_def
      split: if_splits prod.splits sum.splits)
  then obtain s1 where "take_proof (snd (sc_consume C) 0) (proof_key E J cfg raw) s = (s1, Inr True)"
      "clean_proofs (snd (sc_consume C) 1) s1 = (s', Inr ())"
    by (auto simp: consumeProof_def bindQ_Inr_iff query_Inr_iff retQ_Inr_iff throwQ_def key split: if_splits)
  then show thesis using raw(1,3) key(2) by (intro that) (auto simp: proof_claims_ok_def)
qed

text \<open>
  C3. A DPoP proof serves one request: after a request was accepted with it, no request is accepted with the
  same proof, at any replica and whatever happens in between, as long as the clock of the gateway
  and the clock of the database differ by less than 27 seconds. (The proof is held two minutes, its
  own time admits 65 seconds.)
\<close>

theorem proof_used_once:
  assumes "verify_request E J cfg C1 now1 auth1 (JStr raw) u1 s1 = (s2, Inr i1)"
    and "in_time t1 t2 (snd (sc_consume C1))" and "snd (sc_consume C1) 0 \<le> snd (sc_consume C1) 1"
    and "dtrace E (t2, s2) es (t3, s3)" and "in_time t3 t4 (snd (sc_consume C2))"
    and "\<bar>now1 - snd (sc_consume C1) 0\<bar> < 27000" and "\<bar>now2 - snd (sc_consume C2) 0\<bar> < 27000"
  shows "snd (verify_request E J cfg C2 now2 auth2 (JStr raw) u2 s3) \<noteq> Inr i2"
proof
  assume "snd (verify_request E J cfg C2 now2 auth2 (JStr raw) u2 s3) = Inr i2"
  then obtain s4 where v2: "verify_request E J cfg C2 now2 auth2 (JStr raw) u2 s3 = (s4, Inr i2)"
    by (metis prod.collapse)
  let ?k = "proof_key E J cfg raw" and ?c1 = "snd (sc_consume C1)" and ?c2 = "snd (sc_consume C2)"
  obtain sa where v1: "take_proof (?c1 0) ?k s1 = (sa, Inr True)" "clean_proofs (?c1 1) sa = (s2, Inr ())"
      "now1 div 1000 - 60 \<le> proof_iat E J raw" "proof_iat E J raw \<le> now1 div 1000 + 5"
    using assms(1) by (rule verify_request_takes) auto
  obtain sb where v2: "take_proof (?c2 0) ?k s3 = (sb, Inr True)"
      "now2 div 1000 - 60 \<le> proof_iat E J raw" "proof_iat E J raw \<le> now2 div 1000 + 5"
    using v2 by (rule verify_request_takes) auto
  have clean: "dstep E (?c1 0, sa) Cleaned (?c1 1, s2)" using v1(2) assms(3) by (rule step_clean)
  have "held ?k (?c1 0 + 120000) (?c1 1, s2)" using clean taken_held [OF v1(1)] by (rule held_step)
  then have "held ?k (?c1 0 + 120000) (t2, s2)" by (rule held_frame [rotated 2]) (use assms(2) in \<open>simp_all add: in_time_def\<close>)
  with assms(4) have "held ?k (?c1 0 + 120000) (t3, s3)" by (rule held_trace)
  then have "?c1 0 + 120000 \<le> ?c2 0" by (rule held_taken [OF _ _ v2(1)]) (use assms(5) in \<open>simp add: in_time_def\<close>)
  moreover have "now2 div 1000 - now1 div 1000 \<le> 65" using v1(3,4) v2(2,3) by linarith
  ultimately show False using assms(6,7) by linarith
qed

section \<open>A concrete request\<close>

definition demo_mcfg :: management_config where
  "demo_mcfg = \<lparr>mc_issuer = S ''i'', mc_tenant = S ''t'', mc_resource = S ''g'', mc_client = S ''c'', mc_readerClient = S ''rc'',
     mc_readerSecret = S ''rs''\<rparr>"

definition demo_short :: daemon_env where
  "demo_short = demo_denv\<lparr>de_sha := (\<lambda>_. S ''a1'')\<rparr>"

definition demo_claims :: jv where
  "demo_claims = JObj [(S ''aud'', JStr (S ''g'')), (S ''client_id'', JStr (S ''c'')), (S ''tenant_id'', JStr (S ''t'')),
     (S ''sub'', JStr (S ''s'')), (S ''active_organization_id'', JStr (S ''o'')), (S ''jti'', JStr (S ''j'')),
     (S ''iat'', JNum (NInt 1000)), (S ''exp'', JNum (NInt 1200)),
     (S ''https://lynply.com/claims/device'', JObj [(S ''v'', JNum (NInt 1)), (S ''id'', JStr (S ''d'')), (S ''version'', JNum (NInt 1))]),
     (S ''cnf'', JObj [(S ''jkt'', JStr (replicate 43 65))]), (S ''user_version'', JStr (S ''1'')),
     (S ''service_access_version'', JStr (S ''1'')), (S ''scope'', JStr (S ''device:identity gateway:daemon:report''))]"

definition demo_proof :: jv where
  "demo_proof = JObj [(S ''ath'', JStr (S ''oQ'')), (S ''htm'', JStr (S ''POST'')), (S ''htu'', JStr (S ''g/reports'')),
     (S ''iat'', JNum (NInt 1000)), (S ''jti'', JStr (S ''p'')), (S ''nonce'', JStr (S ''n''))]"

definition demo_jwk :: jv where
  "demo_jwk = JObj [(S ''kty'', JStr (S ''EC'')), (S ''crv'', JStr (S ''P-256'')), (S ''x'', JStr (S ''x'')), (S ''y'', JStr (S ''y''))]"

definition demo_head :: jv where
  "demo_head = JObj [(S ''typ'', JStr (S ''dpop+jwt'')), (S ''alg'', JStr (S ''ES256'')), (S ''jwk'', demo_jwk)]"

definition demo_jose :: jose where
  "demo_jose = \<lparr>jl_jwt = (\<lambda>_ _. Jwt_ok demo_claims (JObj [(S ''kid'', JStr (S ''k''))])), jl_header = (\<lambda>_. Some demo_head),
     jl_thumbprint = (\<lambda>_. Some (replicate 43 65)), jl_compact = (\<lambda>_ _. Some (utf8_encode (canonicalJobJson demo_short demo_proof)))\<rparr>"

definition demo_calls :: store_calls where
  "demo_calls = \<lparr>sc_valid = (\<lambda>_. None, \<lambda>_. 1000000), sc_issue = (\<lambda>_. None, \<lambda>_. 1000000), sc_consume = (\<lambda>_. None, \<lambda>_. 1000000),
     sc_nonce = S ''m''\<rparr>"

definition demo_dstore :: dstore where
  "demo_dstore = empty_store\<lparr>ds_nonces := (\<lambda>_. Some 1010000)\<rparr>"

definition demo_request :: "device_identity dstm" where
  "demo_request = verify_request demo_short demo_jose demo_mcfg demo_calls 1000000 (JStr (S ''DPoP t'')) (JStr (S ''p'')) For_report"

lemma demo_hash: "hash_token demo_short s = S ''oQ''"
proof -
  have "hex_decode (S ''a1'') = [161]" by code_simp
  moreover have "base64url [161] = S ''oQ''" by code_simp
  ultimately show ?thesis by (simp add: hash_token_def demo_short_def)
qed

lemma demo_accepts_token: "is_text bearer_ok (JStr (S ''DPoP t''))" "token_ok demo_mcfg 1000 demo_claims (JObj [(S ''kid'', JStr (S ''k''))])"
    "scope_ok For_report (prop_of demo_claims ''scope'')" "id_jkt (identity_of demo_mcfg demo_claims) = replicate 43 65"
  by code_simp+

lemma demo_printable: "json_value demo_proof" "printable_value demo_proof"
  by code_simp+

lemma demo_header: "proof_header_ok demo_head" "prop_of demo_head ''jwk'' = demo_jwk"
  by code_simp+

lemma demo_payload: "proof_payload demo_short demo_jose raw = Some (replicate 43 65, sort_value demo_proof)"
proof -
  have "utf8_decode (utf8_encode (canonicalJobJson demo_short demo_proof)) = Some (canonicalJobJson demo_short demo_proof)"
    by (intro utf8_roundtrip printable_well_formed canonical_printable demo_printable)
  then show ?thesis
    using canonical_segment(2) [OF demo_printable, of demo_short] demo_printable(1)
    by (simp add: proof_payload_def demo_jose_def demo_header parse_canonical_def job_fail_def split: option.splits if_splits)
qed

lemma demo_claims_ok: "proof_claims_ok demo_short demo_mcfg 1000 (S ''t'') For_report (sort_value demo_proof)"
    "prop_of (sort_value demo_proof) ''nonce'' = JStr (S ''n'')"
proof -
  have p: "prop_of (sort_value demo_proof) f = sort_value (prop_of demo_proof f)" for f
    using demo_printable(1) by (rule prop_of_sort_value)
  have r: "is_record (sort_value demo_proof)" by (simp add: demo_proof_def is_record_def)
  have v: "prop_of demo_proof ''ath'' = JStr (S ''oQ'')" "prop_of demo_proof ''htm'' = JStr (purpose_method For_report)"
      "prop_of demo_proof ''htu'' = JStr (mc_resource demo_mcfg @ S ''/'' @ purpose_path For_report)"
      "prop_of demo_proof ''iat'' = JNum (NInt 1000)" "prop_of demo_proof ''jti'' = JStr (S ''p'')" "prop_of demo_proof ''nonce'' = JStr (S ''n'')"
    by code_simp+
  show "proof_claims_ok demo_short demo_mcfg 1000 (S ''t'') For_report (sort_value demo_proof)"
    unfolding proof_claims_ok_def demo_hash p v using r by (simp add: claim_text_def is_text_def int_of_def S_def max_safe_integer_def)
  show "prop_of (sort_value demo_proof) ''nonce'' = JStr (S ''n'')" by (simp add: p v)
qed

lemma demo_request_ok: "\<exists>s. demo_request demo_dstore = (s, Inr (identity_of demo_mcfg demo_claims))"
proof -
  have "claim_text (prop_of (sort_value demo_proof) ''nonce'')" by (simp add: demo_claims_ok(2) claim_text_def is_text_def S_def)
  then have use: "\<exists>s. use_proof demo_short demo_mcfg demo_calls jkt (sort_value demo_proof) demo_dstore = (s, Inr ())" for jkt
    by (simp add: use_proof_def catch_other_def check_nonce_def bindQ_def query_def validNonce_def demo_calls_def demo_dstore_def
      empty_store_def retQ_def consumeProof_def take_proof_def clean_proofs_def)
  have "verify_token demo_jose demo_mcfg 1000000 (slice_from (S ''DPoP t'') 5) For_report = Inr (identity_of demo_mcfg demo_claims)"
    using demo_accepts_token(2,3) by (simp add: verify_token_def demo_jose_def)
  moreover have "slice_from (S ''DPoP t'') 5 = S ''t''" by code_simp
  moreover have "verify_proof demo_short demo_jose demo_mcfg 1000 (S ''t'') (JStr (S ''p'')) For_report (identity_of demo_mcfg demo_claims) = Inr (sort_value demo_proof)"
    using demo_accepts_token(4) demo_claims_ok(1) by (simp add: verify_proof_def demo_payload S_def)
  moreover obtain s where "use_proof demo_short demo_mcfg demo_calls (id_jkt (identity_of demo_mcfg demo_claims)) (sort_value demo_proof) demo_dstore = (s, Inr ())"
    using use by blast
  ultimately show ?thesis
    using demo_accepts_token(1) by (simp add: demo_request_def verify_request_def bindQ_def retQ_def text_of_def)
qed

theorem proof_used_once_witness:
  "\<exists>s i. demo_request demo_dstore = (s, Inr i) \<and> snd (demo_request s) \<noteq> Inr i"
proof -
  obtain s i where r: "demo_request demo_dstore = (s, Inr i)"
    using demo_request_ok by blast
  have c: "in_time 1000000 1000000 (snd (sc_consume demo_calls))" "snd (sc_consume demo_calls) 0 \<le> snd (sc_consume demo_calls) 1"
    "\<bar>1000000 - snd (sc_consume demo_calls) 0\<bar> < 27000"
    by (simp_all add: demo_calls_def in_time_def)
  have "snd (demo_request s) \<noteq> Inr i"
    unfolding demo_request_def by (rule proof_used_once [OF r [unfolded demo_request_def] c(1,2) trace_nil c(1,3,3)])
  with r show ?thesis by blast
qed

end
