(* ===== verification/Http.thy ===== *)
theory Http
  imports JobContract
begin

text \<open>
  What the source uses of HTTP and of URLs: percent encoding, form bodies, cookies, basic
  credentials, and the requests it sends to other services with their replies.
  A reply is what the network gives back; its body is \<open>None\<close> when it is not JSON.
\<close>

section \<open>Percent encoding\<close>

definition upper_hex :: "nat \<Rightarrow> nat" where
  "upper_hex n = (if n < 10 then 48 + n else 55 + n)"

definition percent :: "(nat \<Rightarrow> bool) \<Rightarrow> bytes \<Rightarrow> jstr" where
  "percent keep bs = concat (map (\<lambda>b. if keep b then [b] else [37, upper_hex (b div 16), upper_hex (b mod 16)]) bs)"

definition uri_char :: "nat \<Rightarrow> bool" where
  "uri_char c \<longleftrightarrow> is_alnum c \<or> one_of ''-_.!~*'' c \<or> c = 39 \<or> c = 40 \<or> c = 41"

definition uri_error :: js_error where
  "uri_error = \<lparr>err_name = S ''URIError'', err_message = S ''URI malformed'', err_code = None, err_status = None\<rparr>"

definition encodeURIComponent :: "jstr \<Rightarrow> jstr result" where
  "encodeURIComponent s = (if well_formed s then Inr (percent uri_char (utf8_encode s)) else Inl uri_error)"

text \<open>Decoding; the bytes of the escapes read so far are pending, the last one first.\<close>

fun uri_decode :: "bytes \<Rightarrow> jstr \<Rightarrow> jstr option" where
  "uri_decode acc [] = utf8_decode (rev acc)"
| "uri_decode acc (c # s) =
     (if c = 37 then (case s of
         d # e # t \<Rightarrow> (case (hex_value d, hex_value e) of
             (Some x, Some y) \<Rightarrow> uri_decode ((16 * x + y) # acc) t | _ \<Rightarrow> None)
       | _ \<Rightarrow> None)
      else (case utf8_decode (rev acc) of None \<Rightarrow> None
        | Some u \<Rightarrow> map_option (\<lambda>r. u @ c # r) (uri_decode [] s)))"

definition decodeURIComponent :: "jstr \<Rightarrow> jstr result" where
  "decodeURIComponent s = (case uri_decode [] s of None \<Rightarrow> Inl uri_error | Some t \<Rightarrow> Inr t)"

text \<open>The encoding of \<open>URLSearchParams\<close>.\<close>

definition form_char :: "nat \<Rightarrow> bool" where
  "form_char c \<longleftrightarrow> is_alnum c \<or> one_of ''*-._'' c"

definition form_text :: "jstr \<Rightarrow> jstr" where
  "form_text s = map (\<lambda>c. if c = 32 then 43 else c) (percent (\<lambda>c. form_char c \<or> c = 32) (utf8_encode s))"

definition form_body :: "(string \<times> jstr) list \<Rightarrow> jstr" where
  "form_body ps = join (S ''&'') (map (\<lambda>(k, v). form_text (S k) @ S ''='' @ form_text v) ps)"

section \<open>Credentials, requests and replies\<close>

definition basic_auth :: "jstr \<Rightarrow> jstr \<Rightarrow> jstr" where
  "basic_auth user secret = S ''Basic '' @ base64 (utf8_encode (user @ S '':'' @ secret))"

record http_request =
  hq_url :: jstr
  hq_headers :: "(string \<times> jstr) list"
  hq_body :: jstr

datatype reply = No_reply | Reply int "jv option"

definition reply_ok :: "int \<Rightarrow> bool" where
  "reply_ok status \<longleftrightarrow> 200 \<le> status \<and> status \<le> 299"

text \<open>\<open>url.replace(/\\/$/, "")\<close>: one trailing slash is dropped.\<close>

definition drop_slash :: "jstr \<Rightarrow> jstr" where
  "drop_slash s = (if s \<noteq> [] \<and> last s = 47 then butlast s else s)"

section \<open>Cookies\<close>

text \<open>\<open>cookieValue\<close> of \<open>src/api/managementRoutes.ts\<close>; an invalid escape throws.\<close>

fun cookie_parts :: "jstr \<Rightarrow> jstr list \<Rightarrow> jstr option result" where
  "cookie_parts name [] = Inr None"
| "cookie_parts name (part # parts) = (case split_units 61 (trim part) of
      k # value \<Rightarrow> if k = name then bindE (decodeURIComponent (join (S ''='') value)) (\<lambda>v. Inr (Some v)) else cookie_parts name parts
    | [] \<Rightarrow> cookie_parts name parts)"

definition cookieValue :: "jstr option \<Rightarrow> jstr \<Rightarrow> jstr option result" where
  "cookieValue header name = (case header of None \<Rightarrow> Inr None
     | Some cookie \<Rightarrow> if cookie = [] then Inr None else cookie_parts name (split_units 59 cookie))"

definition sessionCookie :: "jstr \<Rightarrow> jstr result" where
  "sessionCookie sessionId = bindE (encodeURIComponent sessionId)
     (\<lambda>v. Inr (S ''tg_session='' @ v @ S ''; Path=/; HttpOnly; Secure; SameSite=Lax''))"

section \<open>Round trips\<close>

lemma upper_hex_value [simp]: "n < 16 \<Longrightarrow> hex_value (upper_hex n) = Some n"
  by (auto simp: hex_value_def upper_hex_def)

lemma percent_simps [simp]: "percent keep [] = []"
  "percent keep (b # bs) = (if keep b then [b] else [37, upper_hex (b div 16), upper_hex (b mod 16)]) @ percent keep bs"
  "percent keep (bs @ cs) = percent keep bs @ percent keep cs"
  by (simp_all add: percent_def)

lemma uri_char_plain [simp]: "uri_char c \<Longrightarrow> c < 128" "\<not> uri_char 37"
  by (auto simp: uri_char_def is_alnum_def is_alpha_def is_digit_def one_of_def S_def)

lemma uri_decode_escaped:
  "is_bytes bs \<Longrightarrow> list_all (\<lambda>b. \<not> uri_char b) bs \<Longrightarrow> uri_decode acc (percent uri_char bs @ s) = uri_decode (rev bs @ acc) s"
  by (induction bs arbitrary: acc) (auto simp: less_mult_imp_div_less)

lemma well_formed_append: "well_formed u \<Longrightarrow> well_formed (u @ v) = well_formed v"
proof (induction u rule: well_formed.induct)
  case (2 c)
  then show ?case by (cases v) simp_all
qed (auto split: if_splits)

lemma utf8_encode_append: "well_formed u \<Longrightarrow> utf8_encode (u @ v) = utf8_encode u @ utf8_encode v"
proof (induction u rule: well_formed.induct)
  case (2 c)
  then show ?case by (cases v) simp_all
qed (auto split: if_splits)

lemma utf8_unit_escaped: "c < 0x10000 \<Longrightarrow> \<not> uri_char c \<Longrightarrow> list_all (\<lambda>b. \<not> uri_char b) (utf8_unit c)"
  by (auto simp: utf8_unit_def dest: uri_char_plain(1))

lemma uri_decode_encode:
  "well_formed u \<Longrightarrow> well_formed s \<Longrightarrow> uri_decode (rev (utf8_encode u)) (percent uri_char (utf8_encode s)) = Some (u @ s)"
proof (induction s arbitrary: u rule: well_formed.induct)
  case 1
  then show ?case by (simp add: utf8_roundtrip)
next
  case (2 c)
  then have u: "well_formed (u @ [c])" "utf8_encode (u @ [c]) = utf8_encode u @ utf8_unit c"
    by (simp_all add: well_formed_append utf8_encode_append)
  show ?case
  proof (cases "uri_char c")
    case True
    then have "c < 128" "c \<noteq> 37" by auto
    then show ?thesis using 2 True by (simp add: utf8_unit_def utf8_roundtrip)
  next
    case False
    then have "uri_decode (rev (utf8_encode u)) (percent uri_char (utf8_unit c)) = utf8_decode (utf8_encode u @ utf8_unit c)"
      using uri_decode_escaped [of "utf8_unit c" _ "[]"] is_bytes_utf8 [of "[c]"] utf8_unit_escaped [of c] 2(2) by simp
    then show ?thesis using 2(2) utf8_roundtrip [OF u(1)] by (simp add: u(2))
  qed
next
  case (3 c d s)
  show ?case
  proof (cases "hi_surrogate c \<and> lo_surrogate d")
    case True
    then have u: "well_formed (u @ [c, d])" "utf8_encode (u @ [c, d]) = utf8_encode u @ utf8_pair c d"
      using 3(3) by (simp_all add: well_formed_append utf8_encode_append)
    have "is_bytes (utf8_pair c d)" "list_all (\<lambda>b. \<not> uri_char b) (utf8_pair c d)"
      using is_bytes_utf8 [of "[c, d]"] True by (auto simp: utf8_pair_def Let_def dest: uri_char_plain(1))
    from uri_decode_escaped [OF this] have "uri_decode (rev (utf8_encode u)) (percent uri_char (utf8_encode (c # d # s)))
        = uri_decode (rev (utf8_encode (u @ [c, d]))) (percent uri_char (utf8_encode s))"
      using True by (simp add: u(2))
    then show ?thesis using 3(1) [OF True u(1)] 3(4) True by simp
  next
    case False
    then have c: "c < 0x10000" "\<not> hi_surrogate c" "\<not> lo_surrogate c" "well_formed (d # s)" using 3(4) by auto
    have u: "well_formed (u @ [c])" "utf8_encode (u @ [c]) = utf8_encode u @ utf8_unit c"
      using 3(3) c by (simp_all add: well_formed_append utf8_encode_append)
    show ?thesis
    proof (cases "uri_char c")
      case True
      then have "c < 128" "c \<noteq> 37" by auto
      then show ?thesis using True False 3(2) [of "[]"] 3(3) c by (simp add: utf8_unit_def utf8_roundtrip)
    next
      case n: False
      have "is_bytes (utf8_unit c)" using is_bytes_utf8 [of "[c]"] c by simp
      from uri_decode_escaped [OF this utf8_unit_escaped [OF c(1) n]]
      have "uri_decode (rev (utf8_encode u)) (percent uri_char (utf8_encode (c # d # s)))
        = uri_decode (rev (utf8_encode (u @ [c]))) (percent uri_char (utf8_encode (d # s)))"
        using False c by (simp add: u(2))
      then show ?thesis using 3(2) [OF False u(1) c(4)] by simp
    qed
  qed
qed

lemma uri_component_roundtrip: "encodeURIComponent s = Inr t \<Longrightarrow> decodeURIComponent t = Inr s"
  using uri_decode_encode [of "[]" s] by (auto simp: encodeURIComponent_def decodeURIComponent_def split: if_splits)

lemma encoded_chars: "encodeURIComponent s = Inr t \<Longrightarrow> list_all (\<lambda>c. uri_char c \<or> c = 37) t"
proof -
  have hex: "uri_char (upper_hex n)" if "n < 16" for n
    using that by (auto simp: upper_hex_def uri_char_def is_alnum_def is_digit_def is_alpha_def)
  have "is_bytes bs \<Longrightarrow> list_all (\<lambda>c. uri_char c \<or> c = 37) (percent uri_char bs)" for bs
    by (induction bs) (auto simp: hex less_mult_imp_div_less)
  then show "encodeURIComponent s = Inr t \<Longrightarrow> list_all (\<lambda>c. uri_char c \<or> c = 37) t"
    by (auto simp: encodeURIComponent_def is_bytes_utf8 split: if_splits)
qed

text \<open>A cookie as a browser sends it: the text before the first semicolon of \<open>set-cookie\<close>.\<close>

definition cookie_pair :: "jstr \<Rightarrow> jstr" where
  "cookie_pair c = takeWhile (\<lambda>x. x \<noteq> 59) c"

definition other_cookie :: "jstr \<Rightarrow> bool" where
  "other_cookie p \<longleftrightarrow> 59 \<notin> set p \<and> hd (split_units 61 (trim p)) \<noteq> S ''tg_session''"

lemma trim_space: "trim (32 # s) = trim s"
  by (simp add: trim_def is_space_def)

lemma trim_no_space: "s \<noteq> [] \<Longrightarrow> \<not> is_space (hd s) \<Longrightarrow> \<not> is_space (last s) \<Longrightarrow> trim s = s"
proof -
  assume s: "s \<noteq> []" "\<not> is_space (hd s)" "\<not> is_space (last s)"
  then have "dropWhile is_space s = s" "dropWhile is_space (rev s) = rev s" by (simp_all add: dropWhile_eq_self_iff hd_rev)
  then show ?thesis by (simp add: trim_def)
qed

lemma split_cookies: "list_all (\<lambda>p. 59 \<notin> set p) (p # ps) \<Longrightarrow>
    split_units 59 (join (S ''; '') (p # ps)) = p # map (\<lambda>q. 32 # q) ps"
proof (induction ps arbitrary: p)
  case Nil
  then show ?case by (simp add: split_units_none)
next
  case (Cons q ps)
  have "split_units 59 (join (S ''; '') ((32 # q) # ps)) = (32 # q) # map (\<lambda>q. 32 # q) ps" if "list_all (\<lambda>p. 59 \<notin> set p) (q # ps)" for q
    using Cons.IH [of "32 # q"] that by simp
  moreover have "join (S ''; '') (p # q # ps) = p @ 59 # join (S ''; '') ((32 # q) # ps)"
    by (cases ps) (simp_all add: S_def)
  ultimately show ?case using Cons by (simp add: split_units_append)
qed

lemma cookie_parts_trim: "map trim ps = map trim qs \<Longrightarrow> cookie_parts name ps = cookie_parts name qs"
proof (induction ps arbitrary: qs)
  case (Cons p ps)
  then show ?case by (cases qs) (auto split: list.split)
qed simp

lemma cookie_parts_skip: "list_all other_cookie ps \<Longrightarrow> cookie_parts (S ''tg_session'') (ps @ qs) = cookie_parts (S ''tg_session'') qs"
  by (induction ps) (auto simp: other_cookie_def split: list.split)

text \<open>
  The session cookie comes back as it was set: from the cookie header in which a browser returns it, among
  any other cookies, the gateway reads the session identifier that it had put into the cookie.
\<close>

theorem session_cookie_roundtrip:
  assumes "sessionCookie sessionId = Inr c" and "list_all other_cookie ps" and "list_all other_cookie qs"
  shows "cookieValue (Some (join (S ''; '') (ps @ cookie_pair c # qs))) (S ''tg_session'') = Inr (Some sessionId)"
proof -
  from assms(1) obtain t where t: "encodeURIComponent sessionId = Inr t" "c = S ''tg_session='' @ t @ S ''; Path=/; HttpOnly; Secure; SameSite=Lax''"
    by (auto simp: sessionCookie_def bindE_Inr_iff)
  have ch: "list_all (\<lambda>c. uri_char c \<or> c = 37) t" using t(1) by (rule encoded_chars)
  have no: "59 \<notin> set t" "61 \<notin> set t" "\<not> is_space x" if "x \<in> set t" for x
    using ch that by (auto simp: list_all_iff uri_char_def is_alnum_def is_alpha_def is_digit_def one_of_def S_def is_space_def)
  have sep: "59 \<notin> set t" "61 \<notin> set t"
    using ch by (auto simp: list_all_iff uri_char_def is_alnum_def is_alpha_def is_digit_def one_of_def S_def)
  have pair: "cookie_pair c = S ''tg_session'' @ 61 # t"
    using sep(1) by (simp add: cookie_pair_def t(2) S_def takeWhile_append)
  have "\<not> is_space (last (S ''tg_session'' @ 61 # t))"
    using no(3) [of "last t"] by (cases "t = []") (simp_all add: is_space_def)
  then have trimmed: "trim (cookie_pair c) = S ''tg_session'' @ 61 # t"
    by (simp add: pair trim_no_space S_def is_space_def)
  have "split_units 61 (trim (cookie_pair c)) = [S ''tg_session'', t]"
    using sep(2) unfolding trimmed by (subst split_units_append) (simp_all add: S_def split_units_none)
  then have found: "cookie_parts (S ''tg_session'') (cookie_pair c # qs) = Inr (Some sessionId)"
    using uri_component_roundtrip [OF t(1)] by simp
  let ?all = "ps @ cookie_pair c # qs"
  have "list_all (\<lambda>p. 59 \<notin> set p) ?all" using assms(2,3) sep(1) by (auto simp: list_all_iff other_cookie_def pair S_def)
  moreover obtain x xs where x: "?all = x # xs" by (cases ps) auto
  ultimately have split: "split_units 59 (join (S ''; '') ?all) = x # map (\<lambda>q. 32 # q) xs" using split_cookies [of x xs] by simp
  then have "cookie_parts (S ''tg_session'') (split_units 59 (join (S ''; '') ?all)) = cookie_parts (S ''tg_session'') ?all"
    unfolding split x by (intro cookie_parts_trim) (simp add: trim_space)
  also have "\<dots> = Inr (Some sessionId)" using cookie_parts_skip [OF assms(2)] found by simp
  finally have "cookie_parts (S ''tg_session'') (split_units 59 (join (S ''; '') ?all)) = Inr (Some sessionId)" .
  moreover have "join (S ''; '') ?all \<noteq> []"
  proof
    assume "join (S ''; '') ?all = []"
    with split have "x = []" "xs = []" by simp_all
    with x show False by (cases ps) (simp_all add: pair)
  qed
  ultimately show ?thesis by (simp add: cookieValue_def)
qed

theorem session_cookie_roundtrip_witness:
  "\<exists>c. sessionCookie (S ''a b'') = Inr c
     \<and> cookieValue (Some (S ''theme=dark; '' @ cookie_pair c)) (S ''tg_session'') = Inr (Some (S ''a b''))"
proof -
  have "well_formed (S ''a b'')" by (simp add: S_def hi_surrogate_def lo_surrogate_def)
  then obtain c where c: "sessionCookie (S ''a b'') = Inr c" by (simp add: sessionCookie_def encodeURIComponent_def)
  have "list_all other_cookie [S ''theme=dark'']" by (simp add: other_cookie_def trim_no_space) (simp add: S_def is_space_def trim_no_space)
  from session_cookie_roundtrip [OF c this, of "[]"] c show ?thesis by (simp add: S_def)
qed

end
