(* ===== verification/DaemonReader.thy ===== *)
theory DaemonReader
  imports DaemonVerifier Http
begin

text \<open>
  The client of the identity service (\<open>src/daemonManagement/iamReader.ts\<close>): the bounded reading of a reply,
  the token of the reader, the authorization of a device with its cache, and the authority of a manager.
  \<open>clk\<close> is the monotone clock of the process in milliseconds. A request that fails in any way is
  \<open>No_reply\<close>: both callers turn every such failure into \<open>unavailable\<close>.
\<close>

section \<open>The bounded reading of a body\<close>

datatype chunk = Chunk bytes | Body_end | Body_broken js_error

partial_function (option) read_body :: "(nat \<Rightarrow> chunk) \<Rightarrow> nat \<Rightarrow> nat \<Rightarrow> bytes list \<Rightarrow> (daemon_error + bytes list) option" where
  "read_body src k len chunks = (case src k of
      Body_end \<Rightarrow> Some (Inr chunks)
    | Body_broken e \<Rightarrow> Some (Inl (OtherError e))
    | Chunk bs \<Rightarrow> if 65536 < len + length bs then Some (Inl unavailable)
        else read_body src (Suc k) (len + length bs) (chunks @ [bs]))"

text \<open>A reply of the network: the status and the chunks of the body, if it has one.\<close>

record raw_reply =
  rw_status :: int
  rw_body :: "(nat \<Rightarrow> chunk) option"

definition boundedFetch :: "(jstr \<Rightarrow> bool) \<Rightarrow> (http_request \<Rightarrow> raw_reply option) \<Rightarrow> http_request \<Rightarrow> (daemon_error + int \<times> bytes) option" where
  "boundedFetch is_https net q = (if \<not> is_https (hq_url q) then Some (Inl unavailable)
     else (case net q of
        None \<Rightarrow> Some (Inl (OtherError (plain_error (S ''fetch failed''))))
      | Some rw \<Rightarrow> (case rw_body rw of
          None \<Rightarrow> Some (Inr (rw_status rw, []))
        | Some src \<Rightarrow> map_option (\<lambda>r. case r of Inl e \<Rightarrow> Inl e | Inr cs \<Rightarrow> Inr (rw_status rw, concat cs)) (read_body src 0 0 []))))"

definition chunks_until :: "(nat \<Rightarrow> chunk) \<Rightarrow> nat \<Rightarrow> bytes list" where
  "chunks_until src n = map (\<lambda>k. case src k of Chunk bs \<Rightarrow> bs | _ \<Rightarrow> []) [0..<n]"

lemma chunks_until_simps [simp]: "chunks_until src 0 = []"
  "chunks_until src (Suc n) = chunks_until src n @ [case src n of Chunk bs \<Rightarrow> bs | _ \<Rightarrow> []]"
  by (simp_all add: chunks_until_def)

definition reads_to :: "(nat \<Rightarrow> chunk) \<Rightarrow> nat \<Rightarrow> daemon_error + bytes list \<Rightarrow> bool" where
  "reads_to src n r \<longleftrightarrow> (\<forall>i < n. \<exists>bs. src i = Chunk bs)
     \<and> (case r of Inr cs \<Rightarrow> src n = Body_end \<and> cs = chunks_until src n \<and> length (concat cs) \<le> 65536
        | Inl e \<Rightarrow> (\<exists>x. src n = Body_broken x \<and> e = OtherError x)
            \<or> (\<exists>bs. src n = Chunk bs \<and> 65536 < length (concat (chunks_until src n)) + length bs \<and> e = unavailable))"

lemma read_body_result:
  assumes "\<forall>k. src k \<noteq> Chunk []" and "\<forall>i < k. \<exists>bs. src i = Chunk bs" and "k \<le> len" and "len \<le> 65536"
    and "len = length (concat (chunks_until src k))"
  shows "\<exists>r n. read_body src k len (chunks_until src k) = Some r \<and> n \<le> 65536 \<and> reads_to src n r"
  using assms
proof (induction "65536 - len" arbitrary: k len rule: less_induct)
  case less
  show ?case
  proof (cases "src k")
    case (Chunk bs)
    have ne: "0 < length bs" using less.prems(1) Chunk by (cases bs) auto
    have step: "read_body src k len (chunks_until src k) = (if 65536 < len + length bs then Some (Inl unavailable)
        else read_body src (Suc k) (len + length bs) (chunks_until src (Suc k)))"
      by (subst read_body.simps) (simp add: Chunk)
    show ?thesis
    proof (cases "65536 < len + length bs")
      case True
      then have "reads_to src k (Inl unavailable)" using less.prems(2,5) Chunk by (auto simp: reads_to_def)
      then show ?thesis using True step less.prems(3,4) by (intro exI [of _ "Inl unavailable"] exI [of _ k]) simp
    next
      case False
      have "\<exists>r n. read_body src (Suc k) (len + length bs) (chunks_until src (Suc k)) = Some r \<and> n \<le> 65536 \<and> reads_to src n r"
      proof (rule less.hyps)
        show "65536 - (len + length bs) < 65536 - len" using False ne by linarith
        show "Suc k \<le> len + length bs" using less.prems(3) ne by linarith
      qed (use less.prems Chunk False ne in \<open>auto simp: less_Suc_eq\<close>)
      then show ?thesis using False step by simp
    qed
  next
    case Body_end
    then have "reads_to src k (Inr (chunks_until src k))" using less.prems(2,4,5) by (simp add: reads_to_def)
    moreover have "read_body src k len (chunks_until src k) = Some (Inr (chunks_until src k))" by (subst read_body.simps) (simp add: Body_end)
    ultimately show ?thesis using less.prems(3,4) by (intro exI conjI) auto
  next
    case (Body_broken e)
    then have "reads_to src k (Inl (OtherError e))" using less.prems(2) by (simp add: reads_to_def)
    moreover have "read_body src k len (chunks_until src k) = Some (Inl (OtherError e))" by (subst read_body.simps) (simp add: Body_broken)
    ultimately show ?thesis using less.prems(3,4) by (intro exI conjI) auto
  qed
qed

text \<open>
  C31. The reading of a reply ends and is bounded: on every body whose chunks are not empty it returns
  after at most 65536 chunks, with the whole body when that has at most 65536 bytes, and otherwise
  with the error of the transport or with \<open>unavailable\<close> at the first chunk that exceeds the bound.
\<close>

theorem bounded_body:
  assumes "\<forall>k. src k \<noteq> Chunk []"
  shows "\<exists>r n. read_body src 0 0 [] = Some r \<and> n \<le> 65536 \<and> reads_to src n r"
  using read_body_result [OF assms, of 0 0] by simp

theorem bounded_body_witness:
  "\<exists>r n. read_body (\<lambda>k. if k = 0 then Chunk [1, 2] else Body_end) 0 0 [] = Some r \<and> n \<le> 65536
     \<and> reads_to (\<lambda>k. if k = 0 then Chunk [1, 2] else Body_end) n r"
  by (rule bounded_body) simp

section \<open>The token of the reader\<close>

record iam_reader =
  ir_token :: "(jstr \<times> rat) option"
  ir_cache :: "(jstr \<times> rat) list"

type_synonym 'a irm = "iam_reader \<Rightarrow> iam_reader \<times> (daemon_error + 'a)"

definition reader_init :: iam_reader where
  "reader_init = \<lparr>ir_token = None, ir_cache = []\<rparr>"

definition number_value :: "jv \<Rightarrow> rat option" where
  "number_value v = (case v of JNum (NInt i) \<Rightarrow> Some (of_int i) | JNum (NFrac q) \<Rightarrow> Some q | _ \<Rightarrow> None)"

definition token_lifetime :: "jv \<Rightarrow> rat option" where
  "token_lifetime p = (if prop_of p ''token_type'' = JStr (S ''Bearer'')
       \<and> is_text (\<lambda>s. length s \<le> 16384 \<and> s \<noteq> []) (prop_of p ''access_token'') \<and> \<not> truthy (prop_of p ''refresh_token'')
     then (case number_value (prop_of p ''expires_in'') of Some x \<Rightarrow> if 0 < x \<and> x \<le> 300 then Some x else None | None \<Rightarrow> None)
     else None)"

definition reader_token_request :: "management_config \<Rightarrow> http_request option" where
  "reader_token_request cfg = (case (encodeURIComponent (mc_readerClient cfg), encodeURIComponent (mc_readerSecret cfg)) of
      (Inr client, Inr secret) \<Rightarrow> Some \<lparr>hq_url = mc_issuer cfg @ S ''/oauth2/token'',
        hq_headers = [(''authorization'', basic_auth client secret), (''content-type'', S ''application/x-www-form-urlencoded'')],
        hq_body = form_body [(''grant_type'', S ''client_credentials''), (''scope'', S ''iam:device-status:read''),
          (''resource'', mc_issuer cfg @ S ''/api/v1/device-status'')]\<rparr>
    | _ \<Rightarrow> None)"

definition token_live :: "rat \<Rightarrow> iam_reader \<Rightarrow> jstr option" where
  "token_live start s = (case ir_token s of None \<Rightarrow> None
     | Some (v, until) \<Rightarrow> if start < until \<and> until - 300000 \<le> start then Some v else None)"

definition fetch_token :: "management_config \<Rightarrow> (http_request \<Rightarrow> reply) \<Rightarrow> (jstr \<times> rat) option" where
  "fetch_token cfg net = (case reader_token_request cfg of None \<Rightarrow> None
     | Some q \<Rightarrow> (case net q of
          Reply status (Some p) \<Rightarrow> if \<not> reply_ok status then None
            else map_option (\<lambda>x. (text_of (prop_of p ''access_token''), x)) (token_lifetime p)
        | _ \<Rightarrow> None))"

definition readerToken :: "management_config \<Rightarrow> (http_request \<Rightarrow> reply) \<Rightarrow> rat \<Rightarrow> jstr irm" where
  "readerToken cfg net start s = (case token_live start s of
      Some v \<Rightarrow> (s, Inr v)
    | None \<Rightarrow> (case fetch_token cfg net of
        None \<Rightarrow> (s\<lparr>ir_token := None\<rparr>, Inl unavailable)
      | Some (v, x) \<Rightarrow> (s\<lparr>ir_token := Some (v, start + x * 1000 - 5000)\<rparr>, Inr v)))"

section \<open>The authorization of a device\<close>

definition identity_json :: "device_identity \<Rightarrow> jv" where
  "identity_json i = JObj [(S ''issuer'', JStr (id_issuer i)), (S ''tenant'', JStr (id_tenant i)), (S ''resource'', JStr (id_resource i)),
     (S ''client'', JStr (id_client i)), (S ''subject'', JStr (id_subject i)), (S ''organization'', JStr (id_organization i)),
     (S ''device'', JStr (id_device i)), (S ''version'', JNum (NInt (id_version i))), (S ''jkt'', JStr (id_jkt i)),
     (S ''userVersion'', JStr (id_userVersion i)), (S ''serviceVersion'', JStr (id_serviceVersion i))]"

definition identity_key :: "daemon_env \<Rightarrow> device_identity \<Rightarrow> jstr" where
  "identity_key E i = stringify (de_num E) (identity_json i)"

definition check_request :: "daemon_env \<Rightarrow> management_config \<Rightarrow> device_identity \<Rightarrow> jstr \<Rightarrow> http_request" where
  "check_request E cfg i token = \<lparr>hq_url = mc_issuer cfg @ S ''/api/v1/device-status/check'',
     hq_headers = [(''authorization'', S ''Bearer '' @ token), (''content-type'', S ''application/json'')],
     hq_body = stringify (de_num E) (JObj [(S ''device_id'', JStr (id_device i)), (S ''subject'', JStr (id_subject i)),
       (S ''client_id'', JStr (id_client i)), (S ''resource'', JStr (id_resource i))])\<rparr>"

definition device_confirmed :: "device_identity \<Rightarrow> jv \<Rightarrow> bool" where
  "device_confirmed i p \<longleftrightarrow> prop_of p ''device_id'' = JStr (id_device i) \<and> prop_of p ''subject'' = JStr (id_subject i)
     \<and> prop_of p ''tenant_id'' = JStr (id_tenant i) \<and> prop_of p ''organization_id'' = JStr (id_organization i)
     \<and> prop_of p ''device_version'' = JNum (NInt (id_version i)) \<and> prop_of p ''key_jkt'' = JStr (id_jkt i)
     \<and> prop_of p ''user_version'' = JStr (id_userVersion i) \<and> prop_of p ''service_access_version'' = JStr (id_serviceVersion i)
     \<and> prop_of p ''status'' = JStr (S ''ACTIVE'') \<and> prop_of p ''authorized'' = JBool True \<and> is_safe_integer (prop_of p ''checked_at'')"

text \<open>The three stretches between the requests: the cache is read, the answer judged, the cache written.\<close>

definition look :: "daemon_env \<Rightarrow> rat \<Rightarrow> rat \<Rightarrow> device_identity \<Rightarrow> iam_reader \<Rightarrow> iam_reader \<times> bool" where
  "look E cacheMs start i s = (case map_of (ir_cache s) (identity_key E i) of
      Some c \<Rightarrow> if c \<le> start \<and> start - c < cacheMs then (s, True)
        else (s\<lparr>ir_cache := filter (\<lambda>(k, t). k \<noteq> identity_key E i) (ir_cache s)\<rparr>, False)
    | None \<Rightarrow> (s, False))"

definition judge :: "(jv \<Rightarrow> daemon_error + 'a) \<Rightarrow> string \<Rightarrow> reply \<Rightarrow> 'a irm" where
  "judge read denied rp s = (case rp of
      No_reply \<Rightarrow> (s, Inl unavailable)
    | Reply status body \<Rightarrow>
        if status = 403 \<or> status = 404 then (s, Inl (mgmt_error 403 denied))
        else if \<not> reply_ok status then (if status = 401 then s\<lparr>ir_token := None\<rparr> else s, Inl unavailable)
        else (case body of None \<Rightarrow> (s, Inl unavailable) | Some p \<Rightarrow> (s, read p)))"

definition read_device :: "device_identity \<Rightarrow> jv \<Rightarrow> daemon_error + unit" where
  "read_device i p = (if p = JNull then Inl unavailable
     else if \<not> device_confirmed i p then Inl (mgmt_error 403 ''device_not_authorized'') else Inr ())"

fun cache_set :: "jstr \<Rightarrow> rat \<Rightarrow> (jstr \<times> rat) list \<Rightarrow> (jstr \<times> rat) list" where
  "cache_set k t [] = [(k, t)]"
| "cache_set k t ((k', t') # c) = (if k' = k then (k, t) # c else (k', t') # cache_set k t c)"

definition remember :: "daemon_env \<Rightarrow> rat \<Rightarrow> rat \<Rightarrow> device_identity \<Rightarrow> unit irm" where
  "remember E start finish i s = (if finish < start \<or> 15000 \<le> finish - start then (s, Inl unavailable)
     else (s\<lparr>ir_cache := cache_set (identity_key E i) start (if 10000 \<le> length (ir_cache s) then [] else ir_cache s)\<rparr>, Inr ()))"

definition authorize :: "daemon_env \<Rightarrow> management_config \<Rightarrow> rat \<Rightarrow> (http_request \<Rightarrow> reply) \<Rightarrow> (nat \<Rightarrow> rat) \<Rightarrow> device_identity \<Rightarrow> unit irm" where
  "authorize E cfg cacheMs net clk i s = (case look E cacheMs (clk 0) i s of
      (s, True) \<Rightarrow> (s, Inr ())
    | (s, False) \<Rightarrow> (case readerToken cfg net (clk 1) s of
        (s, Inl e) \<Rightarrow> (s, Inl e)
      | (s, Inr token) \<Rightarrow> (case judge (read_device i) ''device_not_authorized'' (net (check_request E cfg i token)) s of
          (s, Inl e) \<Rightarrow> (s, Inl e)
        | (s, Inr _) \<Rightarrow> remember E (clk 0) (clk 2) i s)))"

section \<open>The authority of a manager\<close>

definition authority_request :: "daemon_env \<Rightarrow> management_config \<Rightarrow> jstr \<Rightarrow> jstr \<Rightarrow> jstr \<Rightarrow> jstr \<Rightarrow> http_request" where
  "authority_request E cfg subject organization client token = \<lparr>hq_url = mc_issuer cfg @ S ''/api/v1/device-status/management-authority'',
     hq_headers = [(''authorization'', S ''Bearer '' @ token), (''content-type'', S ''application/json'')],
     hq_body = stringify (de_num E) (JObj [(S ''subject'', JStr subject), (S ''organization_id'', JStr organization), (S ''client_id'', JStr client)])\<rparr>"

definition authority_schema :: "management_config \<Rightarrow> jstr \<Rightarrow> jstr \<Rightarrow> jstr \<Rightarrow> jv \<Rightarrow> bool" where
  "authority_schema cfg subject organization client = strict_object
     [(''tenant_id'', True, literal (JStr (mc_tenant cfg))), (''subject'', True, literal (JStr subject)),
      (''organization_id'', True, literal (JStr organization)), (''client_id'', True, literal (JStr client)),
      (''role'', True, literal (JStr (S ''ORG_ADMIN''))), (''authorized'', True, literal (JBool True)),
      (''user_version'', True, claim_version), (''service_access_version'', True, claim_version), (''checked_at'', True, timestamp)]"

definition read_authority :: "management_config \<Rightarrow> int \<Rightarrow> jstr \<Rightarrow> jstr \<Rightarrow> jstr \<Rightarrow> jv \<Rightarrow> daemon_error + authority" where
  "read_authority cfg now_s subject organization client p =
     (if \<not> authority_schema cfg subject organization client p \<or> int_of (prop_of p ''checked_at'') > now_s + 5
         \<or> int_of (prop_of p ''checked_at'') < now_s - 5 then Inl unavailable
      else Inr \<lparr>au_tenant_id = mc_tenant cfg, au_subject = subject, au_organization_id = organization, au_client_id = client,
        au_user_version = text_of (prop_of p ''user_version''), au_service_access_version = text_of (prop_of p ''service_access_version''),
        au_checked_at = int_of (prop_of p ''checked_at'')\<rparr>)"

definition authority_of :: "daemon_env \<Rightarrow> management_config \<Rightarrow> (http_request \<Rightarrow> reply) \<Rightarrow> rat \<Rightarrow> int \<Rightarrow> jstr \<Rightarrow> jstr \<Rightarrow> jstr \<Rightarrow> authority irm" where
  "authority_of E cfg net start now_s subject organization client s = (case readerToken cfg net start s of
      (s, Inl e) \<Rightarrow> (s, Inl e)
    | (s, Inr token) \<Rightarrow> judge (read_authority cfg now_s subject organization client) ''job_not_authorized''
        (net (authority_request E cfg subject organization client token)) s)"

section \<open>Concurrent requests\<close>

text \<open>
  The requests of one process interleave between the stretches. An event records what a stretch did;
  \<open>Confirmed i start\<close> is an answer of the identity service for \<open>i\<close> to a request sent after \<open>start\<close>.
\<close>

datatype rd_event = Looked device_identity rat bool | Tokened | Confirmed device_identity rat rat | Judged

inductive rd_step :: "daemon_env \<Rightarrow> management_config \<Rightarrow> rat \<Rightarrow> iam_reader \<Rightarrow> rd_event \<Rightarrow> iam_reader \<Rightarrow> bool" for E cfg cacheMs where
  rd_look: "look E cacheMs start i s = (s', h) \<Longrightarrow> rd_step E cfg cacheMs s (Looked i start h) s'"
| rd_token: "readerToken cfg net start s = (s', r) \<Longrightarrow> rd_step E cfg cacheMs s Tokened s'"
| rd_judge: "judge (read_device i) denied rp s = (s', r) \<Longrightarrow> rd_step E cfg cacheMs s Judged s'"
| rd_judge_authority: "judge (read_authority cfg now_s subject organization client) denied rp s = (s', r) \<Longrightarrow> rd_step E cfg cacheMs s Judged s'"
| rd_remember: "judge (read_device i) denied rp s = (s1, Inr ()) \<Longrightarrow> remember E start finish i s2 = (s', Inr ())
    \<Longrightarrow> rd_step E cfg cacheMs s2 (Confirmed i start finish) s'"

inductive rd_trace :: "daemon_env \<Rightarrow> management_config \<Rightarrow> rat \<Rightarrow> iam_reader \<Rightarrow> rd_event list \<Rightarrow> iam_reader \<Rightarrow> bool" for E cfg cacheMs where
  rd_nil: "rd_trace E cfg cacheMs s [] s"
| rd_snoc: "rd_trace E cfg cacheMs s es s1 \<Longrightarrow> rd_step E cfg cacheMs s1 e s2 \<Longrightarrow> rd_trace E cfg cacheMs s (es @ [e]) s2"

definition cache_confirmed :: "daemon_env \<Rightarrow> rd_event list \<Rightarrow> iam_reader \<Rightarrow> bool" where
  "cache_confirmed E es s \<longleftrightarrow> (\<forall>(k, t) \<in> set (ir_cache s). \<exists>i finish. k = identity_key E i \<and> Confirmed i t finish \<in> set es
     \<and> t \<le> finish \<and> finish - t < 15000)"

lemma set_cache_set: "set (cache_set k t c) \<subseteq> insert (k, t) (set c)"
  by (induction k t c rule: cache_set.induct) auto

lemma cache_confirmed_mono:
  "cache_confirmed E es s \<Longrightarrow> set (ir_cache s') \<subseteq> set (ir_cache s) \<Longrightarrow> cache_confirmed E (es @ [e]) s'"
  unfolding cache_confirmed_def by fastforce

lemma token_keeps_cache: "readerToken cfg net start s = (s', r) \<Longrightarrow> ir_cache s' = ir_cache s"
  by (auto simp: readerToken_def split: option.splits)

lemma judge_keeps_cache: "judge read denied rp s = (s', r) \<Longrightarrow> ir_cache s' = ir_cache s"
  by (auto simp: judge_def split: reply.splits if_splits option.splits)

lemma look_cache: "look E cacheMs start i s = (s', h) \<Longrightarrow> set (ir_cache s') \<subseteq> set (ir_cache s)"
  by (auto simp: look_def split: option.splits if_splits)

lemma rd_step_confirmed:
  assumes "rd_step E cfg cacheMs s e s'" and "cache_confirmed E es s"
  shows "cache_confirmed E (es @ [e]) s'"
  using assms(1)
proof cases
  case (rd_remember i denied rp s0 s1 start finish)
  then have f: "start \<le> finish" "finish - start < 15000" and c: "set (ir_cache s') \<subseteq> insert (identity_key E i, start) (set (ir_cache s))"
    by (auto simp: remember_def split: if_splits dest!: set_cache_set [THEN subsetD])
  show ?thesis unfolding cache_confirmed_def
  proof (intro ballI, clarify)
    fix k t assume "(k, t) \<in> set (ir_cache s')"
    then consider "k = identity_key E i" "t = start" | "(k, t) \<in> set (ir_cache s)" using c by auto
    then show "\<exists>i finish. k = identity_key E i \<and> Confirmed i t finish \<in> set (es @ [e]) \<and> t \<le> finish \<and> finish - t < 15000"
    proof cases
      case 1
      then show ?thesis using f rd_remember(1) by auto
    next
      case 2
      then show ?thesis using assms(2) unfolding cache_confirmed_def by fastforce
    qed
  qed
qed (use assms(2) token_keeps_cache judge_keeps_cache look_cache in \<open>metis cache_confirmed_mono order_refl\<close>)+

lemma rd_trace_confirmed: "rd_trace E cfg cacheMs s es s' \<Longrightarrow> ir_cache s = [] \<Longrightarrow> cache_confirmed E es s'"
proof (induction rule: rd_trace.induct)
  case rd_nil
  then show ?case by (simp add: cache_confirmed_def)
next
  case (rd_snoc es s1 e s2)
  then show ?case by (auto intro: rd_step_confirmed)
qed

definition safe_identity :: "device_identity \<Rightarrow> bool" where
  "safe_identity i \<longleftrightarrow> \<bar>id_version i\<bar> \<le> max_safe_integer"

lemma identity_key_inject:
  assumes "safe_identity i" and "safe_identity j" and "identity_key E i = identity_key E j"
  shows "i = j"
proof -
  have "json_value (identity_json i)" "json_value (identity_json j)" using assms(1,2) by (simp_all add: safe_identity_def identity_json_def S_def)
  then have "Some (identity_json i) = Some (identity_json j)"
    using assms(3) parse_stringify unfolding identity_key_def by metis
  then show ?thesis by (cases i; cases j) (simp add: identity_json_def)
qed

definition asks_safely :: "rd_event \<Rightarrow> bool" where
  "asks_safely e = (case e of Confirmed i start finish \<Rightarrow> safe_identity i | _ \<Rightarrow> True)"

text \<open>
  C12. Every authorization of a device is backed by the identity service: however the requests of a process
  interleave, a device is authorized only if the service has confirmed exactly that identity (device, key,
  owner, organization, versions) in an answer to a request sent less than 15 seconds before, either in
  this call or in an earlier one whose result the cache holds.
\<close>

theorem authorization_confirmed:
  assumes "rd_trace E cfg 15000 reader_init es s" and "list_all asks_safely es" and "safe_identity i"
    and "authorize E cfg 15000 net clk i s = (s', Inr ())"
  shows "(\<exists>start finish. Confirmed i start finish \<in> set es \<and> start \<le> clk 0 \<and> clk 0 - start < 15000)
    \<or> (\<exists>token status p. net (check_request E cfg i token) = Reply status (Some p) \<and> reply_ok status \<and> device_confirmed i p
        \<and> clk 0 \<le> clk 2 \<and> clk 2 - clk 0 < 15000)"
proof -
  have conf: "cache_confirmed E es s" using rd_trace_confirmed [OF assms(1)] by (simp add: reader_init_def)
  obtain s1 h where l: "look E 15000 (clk 0) i s = (s1, h)" by (cases "look E 15000 (clk 0) i s")
  show ?thesis
  proof (cases h)
    case True
    then obtain c where c: "map_of (ir_cache s) (identity_key E i) = Some c" "c \<le> clk 0" "clk 0 - c < 15000"
      using l by (auto simp: look_def split: option.splits if_splits)
    then have "(identity_key E i, c) \<in> set (ir_cache s)" by (simp add: map_of_SomeD)
    then obtain j finish where j: "identity_key E i = identity_key E j" "Confirmed j c finish \<in> set es"
      using conf unfolding cache_confirmed_def by fastforce
    have "safe_identity j" using j(2) assms(2) by (auto simp: list_all_iff asks_safely_def split: rd_event.splits)
    then have "i = j" using assms(3) j(1) identity_key_inject by blast
    then show ?thesis using j(2) c(2,3) by blast
  next
    case False
    then obtain s2 token s3 u where a: "judge (read_device i) ''device_not_authorized'' (net (check_request E cfg i token)) s2 = (s3, Inr u)"
        "remember E (clk 0) (clk 2) i s3 = (s', Inr ())"
      using assms(4) l by (auto simp: authorize_def split: prod.splits sum.splits)
    from a(1) obtain status p where "net (check_request E cfg i token) = Reply status (Some p)" "reply_ok status" "device_confirmed i p"
      by (auto simp: judge_def read_device_def split: reply.splits if_splits option.splits)
    moreover have "clk 0 \<le> clk 2" "clk 2 - clk 0 < 15000" using a(2) by (auto simp: remember_def split: if_splits)
    ultimately show ?thesis by blast
  qed
qed

text \<open>A first call that asks, and a second one five seconds later that is answered by the cache.\<close>

definition demo_answer :: jv where
  "demo_answer = JObj [(S ''device_id'', JStr (S ''d'')), (S ''subject'', JStr (S ''s'')), (S ''tenant_id'', JStr (S ''t'')),
     (S ''organization_id'', JStr (S ''o'')), (S ''device_version'', JNum (NInt 1)), (S ''key_jkt'', JStr (replicate 43 65)),
     (S ''user_version'', JStr (S ''1'')), (S ''service_access_version'', JStr (S ''1'')), (S ''status'', JStr (S ''ACTIVE'')),
     (S ''authorized'', JBool True), (S ''checked_at'', JNum (NInt 9))]"

definition demo_reader :: iam_reader where
  "demo_reader = \<lparr>ir_token = None, ir_cache = [(identity_key demo_denv demo_identity, 0)]\<rparr>"

theorem authorization_confirmed_witness:
  "authorize demo_denv demo_mcfg 15000 (\<lambda>_. No_reply) (\<lambda>_. 5000) demo_identity demo_reader = (demo_reader, Inr ())
   \<and> (\<exists>start finish. Confirmed demo_identity start finish \<in> {Confirmed demo_identity 0 1000} \<and> start \<le> 5000 \<and> 5000 - start < 15000)"
proof -
  have "device_confirmed demo_identity demo_answer"
    by (simp add: device_confirmed_def demo_identity_def demo_answer_def prop_of_def fields_of_def S_def max_safe_integer_def)
  moreover have "demo_answer \<noteq> JNull" by (simp add: demo_answer_def)
  ultimately have j: "judge (read_device demo_identity) ''device_not_authorized'' (Reply 200 (Some demo_answer)) reader_init = (reader_init, Inr ())"
    by (simp add: judge_def reply_ok_def read_device_def)
  have "remember demo_denv 0 1000 demo_identity reader_init = (demo_reader, Inr ())"
    by (simp add: remember_def reader_init_def demo_reader_def)
  with j have "rd_step demo_denv demo_mcfg 15000 reader_init (Confirmed demo_identity 0 1000) demo_reader" by (rule rd_remember)
  then have "rd_trace demo_denv demo_mcfg 15000 reader_init ([] @ [Confirmed demo_identity 0 1000]) demo_reader" by (rule rd_snoc [OF rd_nil])
  then have tr: "rd_trace demo_denv demo_mcfg 15000 reader_init [Confirmed demo_identity 0 1000] demo_reader" by simp
  have s: "safe_identity demo_identity" by (simp add: safe_identity_def demo_identity_def max_safe_integer_def)
  then have l: "list_all asks_safely [Confirmed demo_identity 0 1000]" by (simp add: asks_safely_def)
  have a: "authorize demo_denv demo_mcfg 15000 (\<lambda>_. No_reply) (\<lambda>_. 5000) demo_identity demo_reader = (demo_reader, Inr ())"
    by (simp add: authorize_def look_def demo_reader_def)
  from authorization_confirmed [OF tr l s a] a show ?thesis by auto
qed

end
