(* ===== verification/OAuthSession.thy ===== *)
theory OAuthSession
  imports Http Db
begin

text \<open>
  The browser sign-in (\<open>src/auth/oauthSession.ts\<close>): the authorization request with PKCE, the exchange of
  the code, the validation of the tokens, and the sessions kept in Redis. Parameters: SHA-256, the
  random texts, the token endpoint, the JWT verification of the JOSE library, and \<open>Number\<close> on texts,
  arrays and objects.
\<close>

section \<open>Configuration and records\<close>

record oauth_config =
  oc_issuer :: jstr
  oc_authorizationEndpoint :: jstr
  oc_tokenEndpoint :: jstr
  oc_signoutUrl :: jstr
  oc_clientId :: jstr
  oc_clientSecret :: jstr
  oc_tenantId :: jstr
  oc_redirectUri :: jstr
  oc_scope :: jstr
  oc_sessionTtlSeconds :: int
  oc_loginTtlSeconds :: int
  oc_enforcement :: bool

text \<open>\<open>oe_jwt\<close> is \<open>jwtVerify\<close> with the key set, issuer, audience and algorithm of the configuration.\<close>

record oauth_env =
  oe_sha :: "bytes \<Rightarrow> jstr"
  oe_num :: "jnum \<Rightarrow> jstr"
  oe_double :: "jstr \<Rightarrow> jnum"
  oe_number :: "jv \<Rightarrow> jnum"
  oe_jwt :: "jstr \<Rightarrow> jv result"

record gateway_session =
  gs_subject :: jv
  gs_tenantId :: jv
  gs_email :: jv
  gs_name :: "jv option"
  gs_userVersion :: jv
  gs_serviceAccessVersion :: jv
  gs_iamAccessToken :: "jv option"

definition sha_hex :: "oauth_env \<Rightarrow> jstr \<Rightarrow> jstr" where
  "sha_hex E s = oe_sha E (utf8_encode s)"

definition loginKey :: "oauth_env \<Rightarrow> jstr \<Rightarrow> jstr" where
  "loginKey E v = S ''tg:oauth:login:'' @ sha_hex E v"

definition sessionKey :: "oauth_env \<Rightarrow> jstr \<Rightarrow> jstr" where
  "sessionKey E v = S ''tg:web:session:'' @ sha_hex E v"

definition userKey :: "jv \<Rightarrow> jstr" where
  "userKey subject = S ''tg:web:user:'' @ text_of subject"

section \<open>Coercions\<close>

definition to_number :: "oauth_env \<Rightarrow> jv \<Rightarrow> jnum" where
  "to_number E v = (case v of JUndef \<Rightarrow> NaN | JNull \<Rightarrow> NInt 0 | JBool b \<Rightarrow> NInt (if b then 1 else 0) | JNum n \<Rightarrow> n | _ \<Rightarrow> oe_number E v)"

definition num_le_int :: "jnum \<Rightarrow> int \<Rightarrow> bool" where
  "num_le_int n i = (case n of NInt k \<Rightarrow> k \<le> i | NFrac q \<Rightarrow> q \<le> of_int i | NInf up \<Rightarrow> \<not> up | NaN \<Rightarrow> False)"

definition int_less_num :: "int \<Rightarrow> jnum \<Rightarrow> bool" where
  "int_less_num i n = (case n of NInt k \<Rightarrow> i < k | NFrac q \<Rightarrow> of_int i < q | NInf up \<Rightarrow> up | NaN \<Rightarrow> False)"

definition num_less_int :: "jnum \<Rightarrow> int \<Rightarrow> bool" where
  "num_less_int n i = (case n of NInt k \<Rightarrow> k < i | NFrac q \<Rightarrow> q < of_int i | NInf up \<Rightarrow> \<not> up | NaN \<Rightarrow> False)"

definition nullish :: "jv \<Rightarrow> jv \<Rightarrow> jv" where
  "nullish v w = (if v = JUndef \<or> v = JNull then w else v)"

definition type_error :: js_error where
  "type_error = \<lparr>err_name = S ''TypeError'', err_message = S ''Cannot read properties of null'', err_code = None, err_status = None\<rparr>"

section \<open>The Redis commands\<close>

definition r_getdel :: "int \<Rightarrow> jstr \<Rightarrow> redis \<Rightarrow> redis \<times> jstr option result" where
  "r_getdel now k r = (case live now r k of None \<Rightarrow> (r, Inr None)
     | Some (RText s) \<Rightarrow> (r_del [k] r, Inr (Some s)) | Some _ \<Rightarrow> (r, Inl wrong_type))"

definition r_get :: "int \<Rightarrow> jstr \<Rightarrow> redis \<Rightarrow> redis \<times> jstr option result" where
  "r_get now k r = (r, (case live now r k of None \<Rightarrow> Inr None | Some (RText s) \<Rightarrow> Inr (Some s) | Some _ \<Rightarrow> Inl wrong_type))"

text \<open>A set whose last member is removed is gone.\<close>

definition r_srem :: "int \<Rightarrow> jstr \<Rightarrow> jstr \<Rightarrow> redis \<Rightarrow> redis \<times> unit result" where
  "r_srem now k m r = (case live now r k of None \<Rightarrow> (r, Inr ())
     | Some (RMembers ms) \<Rightarrow> (if removeAll m ms = [] then r_del [k] r else r(k \<mapsto> (RMembers (removeAll m ms), expiry r k)), Inr ())
     | Some _ \<Rightarrow> (r, Inl wrong_type))"

definition r_put :: "(redis \<Rightarrow> redis) \<Rightarrow> redis \<Rightarrow> redis \<times> unit result" where
  "r_put f r = (f r, Inr ())"

section \<open>Beginning a login\<close>

definition challenge_of :: "oauth_env \<Rightarrow> jstr \<Rightarrow> jstr" where
  "challenge_of E verifier = base64url (hex_decode (sha_hex E verifier))"

definition authorization_url :: "oauth_env \<Rightarrow> oauth_config \<Rightarrow> jstr \<Rightarrow> jstr \<Rightarrow> jstr" where
  "authorization_url E cfg state verifier = oc_authorizationEndpoint cfg @ S ''?'' @ form_body
     [(''response_type'', S ''code''), (''client_id'', oc_clientId cfg), (''redirect_uri'', oc_redirectUri cfg), (''scope'', oc_scope cfg),
      (''state'', state), (''code_challenge'', challenge_of E verifier), (''code_challenge_method'', S ''S256'')]"

definition beginLogin :: "oauth_env \<Rightarrow> oauth_config \<Rightarrow> faults \<Rightarrow> int \<Rightarrow> jstr \<Rightarrow> jstr \<Rightarrow> redis \<Rightarrow> redis \<times> jstr result" where
  "beginLogin E cfg flt now state verifier r =
     bindR (rcall (flt 0) (r_put (r_set_ex now (loginKey E state) (RText verifier) (oc_loginTtlSeconds cfg))) r) (\<lambda>_ r.
     (r, Inr (authorization_url E cfg state verifier)))"

section \<open>Validating the tokens\<close>

definition token_email :: "jv \<Rightarrow> jv \<Rightarrow> string \<Rightarrow> jv" where
  "token_email access idc f = nullish (prop_of idc f) (prop_of access f)"

definition version_claim :: "oauth_env \<Rightarrow> jv \<Rightarrow> int option" where
  "version_claim E v = (case to_number E v of NInt i \<Rightarrow> if \<bar>i\<bar> \<le> max_safe_integer \<and> 1 \<le> i then Some i else None | _ \<Rightarrow> None)"

definition id_claims :: "oauth_env \<Rightarrow> jv \<Rightarrow> jv result" where
  "id_claims E payload = (case prop_of payload ''id_token'' of JStr s \<Rightarrow> oe_jwt E s | _ \<Rightarrow> Inr JUndef)"

definition session_json :: "oauth_config \<Rightarrow> int \<Rightarrow> jv \<Rightarrow> jv \<Rightarrow> jv \<Rightarrow> int \<Rightarrow> int option \<Rightarrow> jstr \<Rightarrow> jv" where
  "session_json cfg now_s access email name userVersion accessVersion token = JObj (
     [(S ''subject'', prop_of access ''sub''), (S ''tenantId'', prop_of access ''tenant_id''), (S ''email'', email)]
     @ (if truthy name then [(S ''name'', name)] else [])
     @ [(S ''userVersion'', JNum (NInt userVersion))]
     @ (case accessVersion of None \<Rightarrow> [] | Some a \<Rightarrow> [(S ''serviceAccessVersion'', JNum (NInt a))])
     @ [(S ''iamAccessToken'', JStr token), (S ''iamAccessTokenExpiresAt'', prop_of access ''exp''),
        (S ''expiresAt'', JNum (NInt (now_s + oc_sessionTtlSeconds cfg)))])"

definition claims_belong :: "oauth_config \<Rightarrow> jv \<Rightarrow> jv \<Rightarrow> bool" where
  "claims_belong cfg access email \<longleftrightarrow> prop_of access ''client_id'' = JStr (oc_clientId cfg)
     \<and> prop_of access ''tenant_id'' = JStr (oc_tenantId cfg) \<and> truthy (prop_of access ''sub'') \<and> truthy email \<and> truthy (prop_of access ''exp'')"

definition session_of_claims :: "oauth_env \<Rightarrow> oauth_config \<Rightarrow> int \<Rightarrow> jstr \<Rightarrow> jv \<Rightarrow> jv \<Rightarrow> jv result" where
  "session_of_claims E cfg now_ms token access idc =
     (let email = token_email access idc ''email''; name = token_email access idc ''name'' in
      if \<not> claims_belong cfg access email then Inl (plain_error (S ''OAuth token claims do not belong to Tools Gateway''))
      else (case version_claim E (nullish (prop_of access ''user_version'') (JNum (NInt 1))) of
          None \<Rightarrow> Inl (plain_error (S ''OAuth token user_version is invalid''))
        | Some v \<Rightarrow>
            if \<not> oc_enforcement cfg then Inr (session_json cfg (now_ms div 1000) access email name v None token)
            else (case version_claim E (prop_of access ''service_access_version'') of
                None \<Rightarrow> Inl (plain_error (S ''OAuth token service_access_version is invalid or missing''))
              | Some a \<Rightarrow> Inr (session_json cfg (now_ms div 1000) access email name v (Some a) token))))"

definition validateTokens :: "oauth_env \<Rightarrow> oauth_config \<Rightarrow> int \<Rightarrow> jv \<Rightarrow> jv result" where
  "validateTokens E cfg now_ms payload = (if payload = JNull then Inl type_error else
     (case prop_of payload ''access_token'' of
        JStr token \<Rightarrow> bindE (oe_jwt E token) (\<lambda>access. bindE (id_claims E payload) (\<lambda>idc. session_of_claims E cfg now_ms token access idc))
      | _ \<Rightarrow> Inl (plain_error (S ''OAuth token response is incomplete''))))"

section \<open>Sessions\<close>

definition session_principal :: "oauth_env \<Rightarrow> int \<Rightarrow> jv \<Rightarrow> gateway_session" where
  "session_principal E now_ms s = \<lparr>gs_subject = prop_of s ''subject'', gs_tenantId = prop_of s ''tenantId'', gs_email = prop_of s ''email'',
     gs_name = (if truthy (prop_of s ''name'') then Some (prop_of s ''name'') else None), gs_userVersion = prop_of s ''userVersion'',
     gs_serviceAccessVersion = prop_of s ''serviceAccessVersion'',
     gs_iamAccessToken = (if int_less_num (now_ms div 1000) (to_number E (prop_of s ''iamAccessTokenExpiresAt''))
       then Some (prop_of s ''iamAccessToken'') else None)\<rparr>"

definition token_request :: "oauth_config \<Rightarrow> jstr \<Rightarrow> jstr \<Rightarrow> http_request" where
  "token_request cfg code verifier = \<lparr>hq_url = oc_tokenEndpoint cfg,
     hq_headers = [(''authorization'', basic_auth (oc_clientId cfg) (oc_clientSecret cfg)),
       (''content-type'', S ''application/x-www-form-urlencoded''), (''accept'', S ''application/json'')],
     hq_body = form_body [(''grant_type'', S ''authorization_code''), (''code'', code), (''redirect_uri'', oc_redirectUri cfg),
       (''code_verifier'', verifier), (''client_id'', oc_clientId cfg)]\<rparr>"

definition fetch_failed :: js_error where
  "fetch_failed = \<lparr>err_name = S ''TypeError'', err_message = S ''fetch failed'', err_code = None, err_status = None\<rparr>"

definition exchange_code :: "oauth_env \<Rightarrow> oauth_config \<Rightarrow> (http_request \<Rightarrow> reply) \<Rightarrow> int \<Rightarrow> jstr \<Rightarrow> jstr \<Rightarrow> jv result" where
  "exchange_code E cfg net now_ms code verifier = (case net (token_request cfg code verifier) of
      No_reply \<Rightarrow> Inl fetch_failed
    | Reply status body \<Rightarrow>
        if \<not> reply_ok status then Inl (plain_error (S ''OAuth code exchange failed''))
        else (case body of None \<Rightarrow> Inl (plain_error (S ''Unexpected token in JSON'')) | Some payload \<Rightarrow> validateTokens E cfg now_ms payload))"

definition no_login :: js_error where
  "no_login = plain_error (S ''OAuth login state is missing or expired'')"

text \<open>\<open>clk k\<close> is the clock of Redis at command \<open>k\<close>, \<open>now_ms\<close> that of the gateway.\<close>

definition store_session :: "oauth_env \<Rightarrow> oauth_config \<Rightarrow> faults \<Rightarrow> (nat \<Rightarrow> int) \<Rightarrow> jstr \<Rightarrow> jv \<Rightarrow> redis \<Rightarrow> redis \<times> unit result" where
  "store_session E cfg flt clk sid s r =
     bindR (rcall (flt 1) (r_put (r_set_ex (clk 1) (sessionKey E sid) (RText (stringify (oe_num E) s)) (oc_sessionTtlSeconds cfg))) r) (\<lambda>_ r.
     bindR (rcall (flt 2) (r_sadd (clk 2) (userKey (prop_of s ''subject'')) (sessionKey E sid)) r) (\<lambda>_ r.
     rcall (flt 3) (r_put (r_expire (clk 3) (userKey (prop_of s ''subject'')) (oc_sessionTtlSeconds cfg + 60))) r))"

text \<open>The first command of a callback consumes the state of the login.\<close>

definition take_state :: "oauth_env \<Rightarrow> faults \<Rightarrow> (nat \<Rightarrow> int) \<Rightarrow> jstr \<Rightarrow> redis \<Rightarrow> redis \<times> jstr option result" where
  "take_state E flt clk state r = rcall (flt 0) (r_getdel (clk 0) (loginKey E state)) r"

definition completeLogin :: "oauth_env \<Rightarrow> oauth_config \<Rightarrow> (http_request \<Rightarrow> reply) \<Rightarrow> faults \<Rightarrow> (nat \<Rightarrow> int) \<Rightarrow> int \<Rightarrow> jstr \<Rightarrow>
    jstr \<Rightarrow> jstr \<Rightarrow> redis \<Rightarrow> redis \<times> (jstr \<times> gateway_session) result" where
  "completeLogin E cfg net flt clk now_ms sid code state r =
     bindR (take_state E flt clk state r) (\<lambda>v r.
     if v = None \<or> v = Some [] then (r, Inl no_login)
     else (case exchange_code E cfg net now_ms code (the v) of
         Inl e \<Rightarrow> (r, Inl e)
       | Inr s \<Rightarrow> bindR (store_session E cfg flt clk sid s r) (\<lambda>_ r. (r, Inr (sid, session_principal E now_ms s)))))"

definition session_valid :: "oauth_env \<Rightarrow> oauth_config \<Rightarrow> int \<Rightarrow> jv \<Rightarrow> bool" where
  "session_valid E cfg now_s s \<longleftrightarrow> s \<noteq> JNull \<and> \<not> num_le_int (to_number E (prop_of s ''expiresAt'')) now_s
     \<and> truthy (prop_of s ''subject'') \<and> prop_of s ''tenantId'' = JStr (oc_tenantId cfg) \<and> truthy (prop_of s ''email'')
     \<and> is_safe_integer (prop_of s ''userVersion'') \<and> 1 \<le> int_of (prop_of s ''userVersion'')
     \<and> (oc_enforcement cfg \<longrightarrow> truthy (prop_of s ''serviceAccessVersion'') \<and> \<not> num_less_int (to_number E (prop_of s ''serviceAccessVersion'')) 1)"

text \<open>A failing deletion inside the \<open>try\<close> block is repeated by the handler.\<close>

definition drop_session :: "oauth_env \<Rightarrow> faults \<Rightarrow> jstr \<Rightarrow> redis \<Rightarrow> redis \<times> gateway_session option result" where
  "drop_session E flt sid r = (case flt 1 of
      None \<Rightarrow> (r_del [sessionKey E sid] r, Inr None)
    | Some _ \<Rightarrow> bindR (rcall (flt 2) (r_put (r_del [sessionKey E sid])) r) (\<lambda>_ r. (r, Inr None)))"

definition resolve_session :: "oauth_env \<Rightarrow> oauth_config \<Rightarrow> faults \<Rightarrow> int \<Rightarrow> int \<Rightarrow> jstr \<Rightarrow> redis \<Rightarrow> redis \<times> gateway_session option result" where
  "resolve_session E cfg flt now now_ms sid r =
     bindR (rcall (flt 0) (r_get now (sessionKey E sid)) r) (\<lambda>raw r.
     if raw = None \<or> raw = Some [] then (r, Inr None)
     else (case parse_json (oe_double E) (the raw) of
         Some s \<Rightarrow> if session_valid E cfg (now_ms div 1000) s then (r, Inr (Some (session_principal E now_ms s)))
           else drop_session E flt sid r
       | None \<Rightarrow> bindR (rcall (flt 1) (r_put (r_del [sessionKey E sid])) r) (\<lambda>_ r. (r, Inr None))))"

text \<open>An error of the last command is swallowed with those of the parser.\<close>

definition revoke_session :: "oauth_env \<Rightarrow> faults \<Rightarrow> int \<Rightarrow> jstr \<Rightarrow> redis \<Rightarrow> redis \<times> unit result" where
  "revoke_session E flt now sid r =
     bindR (rcall (flt 0) (r_get now (sessionKey E sid)) r) (\<lambda>raw r.
     bindR (rcall (flt 1) (r_put (r_del [sessionKey E sid])) r) (\<lambda>_ r.
     if raw = None \<or> raw = Some [] then (r, Inr ())
     else (case parse_json (oe_double E) (the raw) of
         Some s \<Rightarrow> if truthy (prop_of s ''subject'')
           then (fst (rcall (flt 2) (r_srem now (userKey (prop_of s ''subject'')) (sessionKey E sid)) r), Inr ()) else (r, Inr ())
       | None \<Rightarrow> (r, Inr ()))))"

lemma bindR_Inr_iff: "bindR p f = (r', Inr y) \<longleftrightarrow> (\<exists>r x. p = (r, Inr x) \<and> f x r = (r', Inr y))"
  by (auto simp: bindR_def split: prod.splits sum.splits)

lemma rcall_Inr_iff: "rcall flt m r = (r', Inr x) \<longleftrightarrow> flt = None \<and> m r = (r', Inr x)"
  by (auto simp: rcall_def split: option.splits)

section \<open>The commands of all replicas\<close>

text \<open>
  What the sign-ins, the session lookups and the invalidation of a user do to Redis, in any order, each
  command at its own time.
\<close>

datatype rcmd = Began jstr | State_taken jstr | Saved jstr | Keys_dropped "jstr list" | Indexed jstr | Unindexed jstr

inductive rstep :: "oauth_env \<Rightarrow> int \<times> redis \<Rightarrow> rcmd \<Rightarrow> int \<times> redis \<Rightarrow> bool" for E where
  step_began: "t \<le> now \<Longrightarrow> rstep E (t, r) (Began st) (now, r_set_ex now (loginKey E st) v ttl r)"
| step_took: "t \<le> now \<Longrightarrow> r_getdel now (loginKey E st) r = (r', x) \<Longrightarrow> rstep E (t, r) (State_taken st) (now, r')"
| step_saved: "t \<le> now \<Longrightarrow> rstep E (t, r) (Saved sid) (now, r_set_ex now (sessionKey E sid) v ttl r)"
| step_dropped: "t \<le> now \<Longrightarrow> rstep E (t, r) (Keys_dropped ks) (now, r_del ks r)"
| step_indexed: "t \<le> now \<Longrightarrow> r_sadd now (userKey u) m r = (r', x) \<Longrightarrow> rstep E (t, r) (Indexed m) (now, r')"
| step_lives: "t \<le> now \<Longrightarrow> rstep E (t, r) (Indexed m) (now, r_expire now (userKey u) ttl r)"
| step_unindexed: "t \<le> now \<Longrightarrow> r_srem now (userKey u) m r = (r', x) \<Longrightarrow> rstep E (t, r) (Unindexed m) (now, r')"

inductive rtrace :: "oauth_env \<Rightarrow> int \<times> redis \<Rightarrow> rcmd list \<Rightarrow> int \<times> redis \<Rightarrow> bool" for E where
  rtrace_nil: "rtrace E c [] c"
| rtrace_cons: "rstep E c e c1 \<Longrightarrow> rtrace E c1 es c2 \<Longrightarrow> rtrace E c (e # es) c2"

inductive_simps rtrace_simps: "rtrace E c [] c2" "rtrace E c (e # es) c2"

definition keeps_login :: "oauth_env \<Rightarrow> jstr \<Rightarrow> rcmd \<Rightarrow> bool" where
  "keeps_login E st c = (case c of Began st' \<Rightarrow> sha_hex E st' \<noteq> sha_hex E st | _ \<Rightarrow> True)"

definition keeps_session :: "oauth_env \<Rightarrow> jstr \<Rightarrow> rcmd \<Rightarrow> bool" where
  "keeps_session E sid c = (case c of Saved s \<Rightarrow> sha_hex E s \<noteq> sha_hex E sid | Keys_dropped ks \<Rightarrow> sessionKey E sid \<notin> set ks | _ \<Rightarrow> True)"

definition saves_other :: "oauth_env \<Rightarrow> jstr \<Rightarrow> rcmd \<Rightarrow> bool" where
  "saves_other E sid c = (case c of Saved s \<Rightarrow> sha_hex E s \<noteq> sha_hex E sid | _ \<Rightarrow> True)"

definition drops :: "oauth_env \<Rightarrow> jstr \<Rightarrow> rcmd \<Rightarrow> bool" where
  "drops E sid c = (case c of Keys_dropped ks \<Rightarrow> sessionKey E sid \<in> set ks | _ \<Rightarrow> False)"

lemma key_classes [simp]: "loginKey E a \<noteq> sessionKey E b" "sessionKey E b \<noteq> loginKey E a" "loginKey E a \<noteq> userKey u" "sessionKey E b \<noteq> userKey u"
    "userKey u \<noteq> loginKey E a" "userKey u \<noteq> sessionKey E b"
    "loginKey E a = loginKey E b \<longleftrightarrow> sha_hex E a = sha_hex E b" "sessionKey E a = sessionKey E b \<longleftrightarrow> sha_hex E a = sha_hex E b"
  by (simp_all add: loginKey_def sessionKey_def userKey_def S_def)

lemma r_index_frame:
  "r_sadd now k m r = (r', x) \<Longrightarrow> k' \<noteq> k \<Longrightarrow> r' k' = r k'" "r_srem now k m r = (r', x) \<Longrightarrow> k' \<noteq> k \<Longrightarrow> r' k' = r k'"
  "k' \<noteq> k \<Longrightarrow> r_expire now k ttl r k' = r k'" "k' \<noteq> k \<Longrightarrow> r_set_ex now k v ttl r k' = r k'"
  "r_getdel now k r = (r', y) \<Longrightarrow> k' \<noteq> k \<Longrightarrow> r' k' = r k'"
  by (auto simp: r_sadd_def r_srem_def r_expire_def r_set_ex_def r_getdel_def r_del_def split: option.splits rval.splits if_splits)

text \<open>An absent key stays absent: time only removes keys.\<close>

lemma gone_later: "live t r k = None \<Longrightarrow> t \<le> t' \<Longrightarrow> live t' r k = None"
  by (auto simp: live_def split: option.splits if_splits)

lemma live_frame: "r' k = r k \<Longrightarrow> live t r' k = live t r k"
  by (simp add: live_def)

text \<open>The keys a command writes.\<close>

definition touches :: "oauth_env \<Rightarrow> rcmd \<Rightarrow> jstr \<Rightarrow> bool" where
  "touches E c k = (case c of Began st \<Rightarrow> k = loginKey E st | State_taken st \<Rightarrow> k = loginKey E st | Saved sid \<Rightarrow> k = sessionKey E sid
     | Keys_dropped ks \<Rightarrow> k \<in> set ks | Indexed m \<Rightarrow> \<exists>u. k = userKey u | Unindexed m \<Rightarrow> \<exists>u. k = userKey u)"

lemma rstep_frame: "rstep E c e c' \<Longrightarrow> fst c \<le> fst c' \<and> (\<not> touches E e k \<longrightarrow> snd c' k = snd c k)"
  by (induction rule: rstep.induct) (auto simp: touches_def r_index_frame r_del_def)

lemma rstep_removes:
  assumes "rstep E c e c'" and "k = loginKey E st" and "e = State_taken st' \<or> e = Keys_dropped ks" and "live (fst c) (snd c) k = None"
  shows "live (fst c') (snd c') k = None"
  using assms
proof cases
  case (step_took t now st'' r r' x)
  have a: "live now r k = None" using step_took assms(4) gone_later by fastforce
  have "r' k = r k \<or> r' k = None"
    using step_took(5) by (auto simp: r_getdel_def r_del_def split: option.splits rval.splits if_splits)
  moreover have "live now r' k = None" if "r' k = r k" using live_frame [of r' k r now] that a by simp
  ultimately have "live now r' k = None" by (auto simp: live_def)
  then show ?thesis using step_took by simp
qed (use assms(4) in \<open>auto simp: gone_later\<close>)

lemma rstep_login_gone:
  assumes "rstep E c e c'" and "keeps_login E st e" and "live (fst c) (snd c) (loginKey E st) = None"
  shows "live (fst c') (snd c') (loginKey E st) = None"
proof (cases "touches E e (loginKey E st)")
  case True
  with assms(2) obtain st' ks where "e = State_taken st' \<or> e = Keys_dropped ks"
    by (auto simp: touches_def keeps_login_def split: rcmd.splits)
  with assms(1) refl show ?thesis using assms(3) by (rule rstep_removes)
next
  case False
  then show ?thesis using rstep_frame [OF assms(1), of "loginKey E st"] assms(3) gone_later live_frame by metis
qed

lemma rtrace_login_gone:
  "rtrace E c es c' \<Longrightarrow> list_all (keeps_login E st) es \<Longrightarrow> live (fst c) (snd c) (loginKey E st) = None \<Longrightarrow>
    live (fst c') (snd c') (loginKey E st) = None"
  by (induction rule: rtrace.induct) (auto dest: rstep_login_gone)

text \<open>After its first command a callback leaves the login states alone.\<close>

lemma store_session_login: "fst (store_session E cfg flt clk sid s r) (loginKey E st) = r (loginKey E st)"
proof -
  let ?k = "loginKey E st" and ?u = "userKey (prop_of s ''subject'')"
  have "fst (r_sadd now ?u m r') ?k = r' ?k" for now m r' using r_index_frame(1) [of now ?u m r' _ _ ?k] by (cases "r_sadd now ?u m r'") simp
  then have index: "fst (bindR (rcall (flt 2) (r_sadd now ?u m) r') (\<lambda>_ r. rcall (flt 3) (r_put (r_expire now' ?u n)) r)) ?k = r' ?k" for now now' m n r'
    by (cases "flt 2"; cases "flt 3"; cases "r_sadd now ?u m r'") (auto simp: bindR_def r_put_def r_index_frame(3) split: sum.split dest: r_index_frame(1) [where k' = ?k])
  show ?thesis
    by (cases "flt 1") (simp_all add: store_session_def r_put_def index r_index_frame(4))
qed

lemma completeLogin_login:
  assumes "completeLogin E cfg net flt clk now_ms sid code state r = (r1, res)"
  shows "r1 (loginKey E st) = fst (take_state E flt clk state r) (loginKey E st)"
proof -
  obtain ra x where take: "take_state E flt clk state r = (ra, x)" by (cases "take_state E flt clk state r")
  have "fst (bindR (store_session E cfg flt clk sid s ra) (\<lambda>_ r. (r, Inr (sid, p)))) (loginKey E st) = ra (loginKey E st)" for s and p :: gateway_session
    using store_session_login [of E cfg flt clk sid s ra st] by (auto simp: bindR_def split: prod.split sum.split)
  then have "fst (completeLogin E cfg net flt clk now_ms sid code state r) (loginKey E st) = ra (loginKey E st)"
    by (simp add: completeLogin_def take bindR_def [of "(ra, x)"] split: sum.split)
  then show ?thesis using assms take by simp
qed

text \<open>
  C18. A login is completed once. Of the callbacks that come for a pending login, the first to take its state
  is the only one that can succeed: every callback that starts later with that state, whether the first
  has ended, well or badly, or is still asking for its tokens, fails and changes nothing in Redis,
  whatever other sign-ins, lookups and invalidations do in between, unless a new login drew the same
  state.
\<close>

theorem login_state_single_use:
  assumes "completeLogin E cfg net flt clk now_ms sid code state r = (r1, res)" and "flt 0 = None"
    and "live (clk 0) r (loginKey E state) = Some (RText v)" and "ra = r1 \<or> ra = fst (take_state E flt clk state r)"
    and "clk 0 \<le> t1" and "rtrace E (t1, ra) es (t2, r2)" and "list_all (keeps_login E state) es" and "t2 \<le> clk' 0"
  shows "\<exists>e. completeLogin E cfg' net' flt' clk' now_ms' sid' code' state r2 = (r2, Inl e) \<and> (flt' 0 = None \<longrightarrow> e = no_login)"
proof -
  have "fst (take_state E flt clk state r) (loginKey E state) = None"
    using assms(2,3) by (simp add: take_state_def r_getdel_def r_del_def)
  with assms(4) completeLogin_login [OF assms(1), of state] have "live t1 ra (loginKey E state) = None" by (auto simp: live_def)
  then have "live t2 r2 (loginKey E state) = None" using rtrace_login_gone [OF assms(6,7)] by simp
  then have "live (clk' 0) r2 (loginKey E state) = None" using assms(8) by (rule gone_later)
  then show ?thesis by (simp add: completeLogin_def take_state_def rcall_def r_getdel_def split: option.split)
qed

section \<open>The life of a session\<close>

lemma rtrace_frame: "rtrace E c es c' \<Longrightarrow> list_all (\<lambda>e. \<not> touches E e k) es \<Longrightarrow> snd c' k = snd c k"
  by (induction rule: rtrace.induct) (auto dest!: rstep_frame [where k = k])

lemma keeps_session_touches: "keeps_session E sid e \<longleftrightarrow> \<not> touches E e (sessionKey E sid)"
  by (auto simp: keeps_session_def touches_def split: rcmd.splits)

lemma rtrace_time: "rtrace E c es c' \<Longrightarrow> fst c \<le> fst c'"
  by (induction rule: rtrace.induct) (auto dest!: rstep_frame)

lemma rstep_session_gone:
  assumes "rstep E c e c'" and "saves_other E sid e" and "live (fst c) (snd c) (sessionKey E sid) = None"
  shows "live (fst c') (snd c') (sessionKey E sid) = None"
proof (cases "touches E e (sessionKey E sid)")
  case True
  with assms(2) obtain ks where "e = Keys_dropped ks" by (auto simp: touches_def saves_other_def split: rcmd.splits)
  with assms(1,3) show ?thesis by (auto elim!: rstep.cases simp: gone_later)
next
  case False
  then show ?thesis using rstep_frame [OF assms(1), of "sessionKey E sid"] assms(3) gone_later live_frame by metis
qed

lemma rtrace_session_gone:
  "rtrace E c es c' \<Longrightarrow> list_all (saves_other E sid) es \<Longrightarrow>
    live (fst c) (snd c) (sessionKey E sid) = None \<or> list_ex (drops E sid) es \<Longrightarrow> live (fst c') (snd c') (sessionKey E sid) = None"
proof (induction rule: rtrace.induct)
  case (rtrace_cons c e c1 es c2)
  have "live (fst c1) (snd c1) (sessionKey E sid) = None" if "drops E sid e"
    using that rtrace_cons(1) by (auto simp: drops_def elim!: rstep.cases)
  moreover have "live (fst c1) (snd c1) (sessionKey E sid) = None" if "live (fst c) (snd c) (sessionKey E sid) = None"
    using rstep_session_gone [OF rtrace_cons(1)] rtrace_cons(4) that by simp
  ultimately show ?case using rtrace_cons(3-5) by auto
qed simp

text \<open>What a completed login leaves behind.\<close>

lemma completeLogin_cases:
  assumes "completeLogin E cfg net flt clk now_ms sid code state r = (r1, Inr (sid', p))"
  obtains v token access idc s where "sid' = sid" "p = session_principal E now_ms s" "oe_jwt E token = Inr access" "idc = JUndef \<or> (\<exists>i. oe_jwt E i = Inr idc)"
    "session_of_claims E cfg now_ms token access idc = Inr s"
    "r1 (sessionKey E sid) = Some (RText (stringify (oe_num E) s), Some (clk 1 + 1000 * oc_sessionTtlSeconds cfg))"
proof -
  obtain ra w where w: "(if w = None \<or> w = Some [] then (ra, Inl no_login)
     else (case exchange_code E cfg net now_ms code (the w) of
         Inl e \<Rightarrow> (ra, Inl e)
       | Inr s \<Rightarrow> bindR (store_session E cfg flt clk sid s ra) (\<lambda>_ r. (r, Inr (sid, session_principal E now_ms s))))) = (r1, Inr (sid', p))"
    using assms unfolding completeLogin_def bindR_Inr_iff by blast
  then have "w \<noteq> None \<and> w \<noteq> Some []" by (cases "w = None \<or> w = Some []") simp_all
  with w have w2: "(case exchange_code E cfg net now_ms code (the w) of Inl e \<Rightarrow> (ra, Inl e)
       | Inr s \<Rightarrow> bindR (store_session E cfg flt clk sid s ra) (\<lambda>_ r. (r, Inr (sid, session_principal E now_ms s)))) = (r1, Inr (sid', p))"
    by simp
  then obtain s where c1: "exchange_code E cfg net now_ms code (the w) = Inr s"
      "bindR (store_session E cfg flt clk sid s ra) (\<lambda>_ r. (r, Inr (sid, session_principal E now_ms s))) = (r1, Inr (sid', p))"
    by (cases "exchange_code E cfg net now_ms code (the w)") simp_all
  then have c: "exchange_code E cfg net now_ms code (the w) = Inr s" "store_session E cfg flt clk sid s ra = (r1, Inr ())"
      "sid' = sid" "p = session_principal E now_ms s"
    unfolding bindR_Inr_iff by auto
  from c(1) obtain token payload access idc where t: "prop_of payload ''access_token'' = JStr token" "oe_jwt E token = Inr access"
      "id_claims E payload = Inr idc" "session_of_claims E cfg now_ms token access idc = Inr s"
    by (auto simp: exchange_code_def validateTokens_def bindE_Inr_iff split: reply.splits if_splits option.splits jv.splits)
  have idc: "idc = JUndef \<or> (\<exists>i. oe_jwt E i = Inr idc)" using t(3) by (auto simp: id_claims_def split: jv.splits)
  from c(2) obtain rc where st: "r_sadd (clk 2) (userKey (prop_of s ''subject'')) (sessionKey E sid)
        (r_set_ex (clk 1) (sessionKey E sid) (RText (stringify (oe_num E) s)) (oc_sessionTtlSeconds cfg) ra) = (rc, Inr ())"
      "r1 = r_expire (clk 3) (userKey (prop_of s ''subject'')) (oc_sessionTtlSeconds cfg + 60) rc"
    by (auto simp: store_session_def bindR_Inr_iff rcall_Inr_iff r_put_def)
  have "r1 (sessionKey E sid) = Some (RText (stringify (oe_num E) s), Some (clk 1 + 1000 * oc_sessionTtlSeconds cfg))"
    unfolding st(2) using r_index_frame(1) [OF st(1), of "sessionKey E sid"] by (simp add: r_index_frame(3)) (simp add: r_set_ex_def)
  with that c(3,4) t(2,4) idc show thesis by blast
qed

lemma version_claim_bounds: "version_claim E v = Some i \<Longrightarrow> 1 \<le> i \<and> i \<le> max_safe_integer"
  by (auto simp: version_claim_def split: jnum.splits if_splits)

lemma session_of_claims_shape:
  assumes "session_of_claims E cfg now_ms token access idc = Inr s"
  obtains v a where "s = session_json cfg (now_ms div 1000) access (token_email access idc ''email'') (token_email access idc ''name'') v a token"
    "claims_belong cfg access (token_email access idc ''email'')" "1 \<le> v" "v \<le> max_safe_integer"
    "pred_option (\<lambda>i. 1 \<le> i \<and> i \<le> max_safe_integer) a" "oc_enforcement cfg \<longleftrightarrow> a \<noteq> None"
  using assms version_claim_bounds
  by (auto simp: session_of_claims_def Let_def split: if_splits option.splits)

text \<open>The fields of the session record, and that it is a JSON value.\<close>

lemma session_json_fields:
  assumes "s = session_json cfg now_s access email name v a token"
  shows "prop_of s ''subject'' = prop_of access ''sub''" "prop_of s ''tenantId'' = prop_of access ''tenant_id''"
    "prop_of s ''email'' = email" "prop_of s ''name'' = (if truthy name then name else JUndef)"
    "prop_of s ''userVersion'' = JNum (NInt v)" "prop_of s ''serviceAccessVersion'' = (case a of None \<Rightarrow> JUndef | Some i \<Rightarrow> JNum (NInt i))"
    "prop_of s ''iamAccessToken'' = JStr token" "prop_of s ''iamAccessTokenExpiresAt'' = prop_of access ''exp''"
    "prop_of s ''expiresAt'' = JNum (NInt (now_s + oc_sessionTtlSeconds cfg))"
  by (simp_all add: assms session_json_def prop_of_def fields_of_def S_def split: option.split)

text \<open>The numbers a token may carry besides the safe integers are of a kind \<open>ok\<close>.\<close>

definition token_number :: "(jnum \<Rightarrow> bool) \<Rightarrow> jnum \<Rightarrow> bool" where
  "token_number ok n \<longleftrightarrow> safe_int n \<or> ok n"

lemma token_number_int [simp]: "\<bar>i\<bar> \<le> max_safe_integer \<Longrightarrow> token_number ok (NInt i)"
  by (simp add: token_number_def safe_int_def)

lemma token_number_law: "number_law nt num ok \<Longrightarrow> number_law nt num (token_number ok)"
  unfolding token_number_def [abs_def] by (rule number_law_or [OF number_law_safe])

lemma session_json_value:
  assumes "carried (token_number ok) access" and "carried (token_number ok) email" and "truthy name \<Longrightarrow> carried (token_number ok) name" and "claims_belong cfg access email"
    and "\<bar>v\<bar> \<le> max_safe_integer" and "pred_option (\<lambda>i. 1 \<le> i \<and> i \<le> max_safe_integer) a" and "\<bar>now_s + oc_sessionTtlSeconds cfg\<bar> \<le> max_safe_integer"
  shows "carried (token_number ok) (session_json cfg now_s access email name v a token)"
proof -
  have "carried (token_number ok) (prop_of access ''sub'')" "carried (token_number ok) (prop_of access ''exp'')"
    using assms(1,4) by (auto simp: claims_belong_def intro!: carried_prop)
  moreover have "carried (token_number ok) (prop_of access ''tenant_id'')" using assms(4) by (simp add: claims_belong_def)
  ultimately show ?thesis using assms(2,3,5-7) by (auto simp: session_json_def S_def split: option.splits)
qed

lemma token_email_json:
  "carried ok access \<Longrightarrow> idc = JUndef \<or> carried ok idc \<Longrightarrow> truthy (token_email access idc f) \<Longrightarrow> carried ok (token_email access idc f)"
  by (cases "idc = JUndef") (auto simp: token_email_def nullish_def prop_of_def [of JUndef] fields_of_def [of JUndef] split: if_splits intro!: carried_prop)

lemma stored_session_resolves:
  assumes "session_of_claims E cfg now_ms token access idc = Inr s" and "carried (token_number ok) access"
    and "idc = JUndef \<or> carried (token_number ok) idc" and "number_law (oe_num E) (oe_double E) ok"
    and "0 \<le> now_ms" and "0 \<le> oc_sessionTtlSeconds cfg" and "now_ms div 1000 + oc_sessionTtlSeconds cfg \<le> max_safe_integer"
  shows "parse_json (oe_double E) (stringify (oe_num E) s) = Some s" and "stringify (oe_num E) s \<noteq> []"
    and "now2 < now_ms div 1000 + oc_sessionTtlSeconds cfg \<longleftrightarrow> session_valid E cfg now2 s"
proof -
  obtain v a where s: "s = session_json cfg (now_ms div 1000) access (token_email access idc ''email'') (token_email access idc ''name'') v a token"
    "claims_belong cfg access (token_email access idc ''email'')" "1 \<le> v" "v \<le> max_safe_integer"
    "pred_option (\<lambda>i. 1 \<le> i \<and> i \<le> max_safe_integer) a" "oc_enforcement cfg \<longleftrightarrow> a \<noteq> None"
    using assms(1) by (rule session_of_claims_shape)
  have js: "carried (token_number ok) s" unfolding s(1)
    using s(2-5) assms(2,3,5-7) token_email_json [OF assms(2,3)] by (intro session_json_value) (auto simp: claims_belong_def)
  note law = token_number_law [OF assms(4)]
  show "parse_json (oe_double E) (stringify (oe_num E) s) = Some s" by (rule parse_carried [OF law js])
  show "stringify (oe_num E) s \<noteq> []" using carried_head [OF law js] by auto
  have "s \<noteq> JNull" by (simp add: s(1) session_json_def)
  then show "now2 < now_ms div 1000 + oc_sessionTtlSeconds cfg \<longleftrightarrow> session_valid E cfg now2 s"
    using s(2-6) by (auto simp: session_valid_def session_json_fields [OF s(1)] to_number_def num_le_int_def num_less_int_def claims_belong_def
      int_of_def not_le split: option.splits)
qed

lemma session_tenant:
  assumes "session_of_claims E cfg now_ms token access idc = Inr s"
  shows "prop_of s ''tenantId'' = JStr (oc_tenantId cfg)"
  using assms by (rule session_of_claims_shape) (simp add: session_json_fields [OF refl] claims_belong_def)

lemma int_less_num_mono: "i \<le> j \<Longrightarrow> int_less_num j n \<Longrightarrow> int_less_num i n"
  by (cases n) (auto simp: int_less_num_def intro: le_less_trans of_int_le_iff [THEN iffD2])

lemma session_principal_later:
  assumes "m \<le> n"
  shows "(session_principal E n s)\<lparr>gs_iamAccessToken := None\<rparr> = (session_principal E m s)\<lparr>gs_iamAccessToken := None\<rparr>"
    and "gs_iamAccessToken (session_principal E n s) \<in> {None, gs_iamAccessToken (session_principal E m s)}"
proof -
  have "m div 1000 \<le> n div 1000" using assms by (rule zdiv_mono1) simp
  from int_less_num_mono [OF this] show "gs_iamAccessToken (session_principal E n s) \<in> {None, gs_iamAccessToken (session_principal E m s)}"
    by (simp add: session_principal_def)
qed (simp add: session_principal_def)

text \<open>
  C22. A session lives from its login until it expires or is dropped: after a completed login, whatever
  other sign-ins and invalidations do, the session resolves to the principal of the login (the IAM
  token is withheld once it has expired), and it resolves to nobody after its lifetime, under a
  configuration of another tenant, and after any command that deletes it, unless another login drew the
  same identifier. The numbers of the verified tokens that are not safe integers (a fractional expiry,
  say) are of a kind \<open>ok\<close> that the engine writes and reads back exactly, as it does every finite double.
\<close>

theorem session_lifetime:
  assumes "completeLogin E cfg net flt clk now_ms sid code state r = (r1, Inr (sid', p))"
    and "rtrace E (t1, r1) es (t2, r2)" and "t2 \<le> now" and "now_ms \<le> now2" and "0 \<le> now_ms" and "0 \<le> oc_sessionTtlSeconds cfg"
    and "now_ms div 1000 + oc_sessionTtlSeconds cfg \<le> max_safe_integer" and "number_law (oe_num E) (oe_double E) ok"
    and "\<forall>tok v. oe_jwt E tok = Inr v \<longrightarrow> carried (token_number ok) v"
  shows "sid' = sid
    \<and> (list_all (keeps_session E sid) es \<and> now < clk 1 + 1000 * oc_sessionTtlSeconds cfg \<and> now2 div 1000 < now_ms div 1000 + oc_sessionTtlSeconds cfg
      \<longrightarrow> (\<exists>q. resolve_session E cfg no_faults now now2 sid r2 = (r2, Inr (Some q))
        \<and> q\<lparr>gs_iamAccessToken := None\<rparr> = p\<lparr>gs_iamAccessToken := None\<rparr> \<and> gs_iamAccessToken q \<in> {None, gs_iamAccessToken p}))
    \<and> (list_all (keeps_session E sid) es \<and> now_ms div 1000 + oc_sessionTtlSeconds cfg \<le> now2 div 1000
      \<longrightarrow> snd (resolve_session E cfg no_faults now now2 sid r2) = Inr None)
    \<and> (list_all (keeps_session E sid) es \<and> oc_tenantId cfg' \<noteq> oc_tenantId cfg
      \<longrightarrow> snd (resolve_session E cfg' no_faults now now2 sid r2) = Inr None)
    \<and> (list_all (saves_other E sid) es \<and> list_ex (drops E sid) es
      \<longrightarrow> snd (resolve_session E cfg flt' now now2 sid r2) \<in> {Inr None} \<union> range Inl)"
proof -
  obtain v token access idc s where c: "sid' = sid" "p = session_principal E now_ms s" "oe_jwt E token = Inr access" "idc = JUndef \<or> (\<exists>i. oe_jwt E i = Inr idc)"
    "session_of_claims E cfg now_ms token access idc = Inr s"
    "r1 (sessionKey E sid) = Some (RText (stringify (oe_num E) s), Some (clk 1 + 1000 * oc_sessionTtlSeconds cfg))"
    using assms(1) by (rule completeLogin_cases)
  have idc: "idc = JUndef \<or> carried (token_number ok) idc" using c(4) assms(9) by blast
  note st = stored_session_resolves [OF c(5) assms(9) [rule_format, OF c(3)] idc assms(8) assms(5-7)]
  have same: "r2 (sessionKey E sid) = r1 (sessionKey E sid)" if "list_all (keeps_session E sid) es"
    using rtrace_frame [OF assms(2), of "sessionKey E sid"] that unfolding keeps_session_touches [abs_def] by simp
  have 1: "\<exists>q. resolve_session E cfg no_faults now now2 sid r2 = (r2, Inr (Some q))
      \<and> q\<lparr>gs_iamAccessToken := None\<rparr> = p\<lparr>gs_iamAccessToken := None\<rparr> \<and> gs_iamAccessToken q \<in> {None, gs_iamAccessToken p}"
    if "list_all (keeps_session E sid) es \<and> now < clk 1 + 1000 * oc_sessionTtlSeconds cfg \<and> now2 div 1000 < now_ms div 1000 + oc_sessionTtlSeconds cfg"
  proof -
    have "live now r2 (sessionKey E sid) = Some (RText (stringify (oe_num E) s))" using same that c(6) by (simp add: live_def)
    then have "resolve_session E cfg no_faults now now2 sid r2 = (r2, Inr (Some (session_principal E now2 s)))"
      using st that by (simp add: resolve_session_def no_faults_def r_get_def)
    with session_principal_later [OF assms(4), of E s] show ?thesis unfolding c(2) by blast
  qed
  have 2: "snd (resolve_session E cfg no_faults now now2 sid r2) = Inr None"
    if "list_all (keeps_session E sid) es \<and> now_ms div 1000 + oc_sessionTtlSeconds cfg \<le> now2 div 1000"
  proof -
    have "live now r2 (sessionKey E sid) \<in> {None, Some (RText (stringify (oe_num E) s))}" using same that c(6) by (simp add: live_def)
    then show ?thesis
      using st(1,2) st(3) [of "now2 div 1000"] that by (auto simp: resolve_session_def no_faults_def r_get_def drop_session_def)
  qed
  have 4: "snd (resolve_session E cfg' no_faults now now2 sid r2) = Inr None"
    if "list_all (keeps_session E sid) es \<and> oc_tenantId cfg' \<noteq> oc_tenantId cfg"
  proof -
    have "live now r2 (sessionKey E sid) \<in> {None, Some (RText (stringify (oe_num E) s))}" using same that c(6) by (simp add: live_def)
    moreover have "\<not> session_valid E cfg' m s" for m using session_tenant [OF c(5)] that by (auto simp: session_valid_def)
    ultimately show ?thesis using st(1,2) by (auto simp: resolve_session_def no_faults_def r_get_def drop_session_def)
  qed
  have 3: "snd (resolve_session E cfg flt' now now2 sid r2) \<in> {Inr None} \<union> range Inl" if "list_all (saves_other E sid) es \<and> list_ex (drops E sid) es"
  proof -
    have "live t2 r2 (sessionKey E sid) = None" using rtrace_session_gone [OF assms(2), of sid] that by simp
    then have "live now r2 (sessionKey E sid) = None" using assms(3) by (rule gone_later)
    then show ?thesis by (simp add: resolve_session_def rcall_def r_get_def split: option.split)
  qed
  show ?thesis using c(1) 1 2 4 3 by (intro conjI impI) simp_all
qed

section \<open>A concrete sign-in\<close>

text \<open>A token that expires half a second after 50; its number is written and read as a double is.\<close>

definition demo_oauth :: oauth_config where
  "demo_oauth = \<lparr>oc_issuer = S ''i'', oc_authorizationEndpoint = S ''i/authorize'', oc_tokenEndpoint = S ''i/token'', oc_signoutUrl = S ''i/out'',
     oc_clientId = S ''c'', oc_clientSecret = S ''s'', oc_tenantId = S ''t'', oc_redirectUri = S ''g/cb'', oc_scope = S ''openid'',
     oc_sessionTtlSeconds = 100, oc_loginTtlSeconds = 300, oc_enforcement = False\<rparr>"

definition demo_half :: jnum where
  "demo_half = NFrac (101 / 2)"

definition demo_access_token :: jv where
  "demo_access_token = JObj [(S ''client_id'', JStr (S ''c'')), (S ''tenant_id'', JStr (S ''t'')), (S ''sub'', JStr (S ''u'')),
     (S ''email'', JStr (S ''e'')), (S ''exp'', JNum demo_half)]"

definition demo_oenv :: oauth_env where
  "demo_oenv = \<lparr>oe_sha = (\<lambda>_. S ''a1''), oe_num = (\<lambda>_. S ''50.5''), oe_double = (\<lambda>_. demo_half), oe_number = (\<lambda>_. NaN),
     oe_jwt = (\<lambda>_. Inr demo_access_token)\<rparr>"

definition demo_login :: redis where
  "demo_login = r_set_ex 0 (loginKey demo_oenv (S ''st'')) (RText (S ''v'')) 300 (\<lambda>_. None)"

definition demo_callback :: "redis \<Rightarrow> redis \<times> (jstr \<times> gateway_session) result" where
  "demo_callback = completeLogin demo_oenv demo_oauth (\<lambda>_. Reply 200 (Some (JObj [(S ''access_token'', JStr (S ''a''))]))) no_faults (\<lambda>_. 1000) 1000
     (S ''id'') (S ''code'') (S ''st'')"

lemma demo_pending: "live 1000 demo_login (loginKey demo_oenv (S ''st'')) = Some (RText (S ''v''))"
  by (simp add: demo_login_def live_def r_set_ex_def)

lemma demo_number_law: "number_law (oe_num demo_oenv) (oe_double demo_oenv) (\<lambda>n. n = demo_half)"
proof -
  have "json_num (oe_num demo_oenv) demo_half = S ''50.5''" by (simp add: json_num_def demo_half_def demo_oenv_def)
  moreover have "read_numeral (oe_double demo_oenv) (S ''50.5'') = Some demo_half"
  proof -
    have "integer_value (S ''50.5'') = None" by (simp add: integer_value_def digits_value_def S_def is_digit_def)
    moreover have "re_test numeral_re (S ''50.5'')" by code_simp
    ultimately show ?thesis by (simp add: read_numeral_def demo_oenv_def)
  qed
  ultimately show ?thesis by (simp add: number_law_def S_def is_digit_def numeral_char_def one_of_def)
qed

lemma demo_callback_ok: "\<exists>r p. demo_callback demo_login = (r, Inr (S ''id'', p))"
proof -
  note demo_pending
  moreover have "S ''v'' \<noteq> []" by (simp add: S_def)
  moreover have "claims_belong demo_oauth demo_access_token (token_email demo_access_token JUndef ''email'')"
    by (simp add: claims_belong_def token_email_def nullish_def demo_access_token_def demo_half_def demo_oauth_def prop_of_def fields_of_def S_def)
  moreover have "version_claim demo_oenv (nullish (prop_of demo_access_token ''user_version'') (JNum (NInt 1))) = Some 1"
    by (simp add: version_claim_def nullish_def demo_access_token_def prop_of_def fields_of_def S_def to_number_def max_safe_integer_def)
  moreover have "prop_of (JObj [(S ''access_token'', JStr (S ''a''))]) ''access_token'' = JStr (S ''a'')"
    "prop_of (JObj [(S ''access_token'', JStr (S ''a''))]) ''id_token'' = JUndef"
    by (simp_all add: prop_of_def fields_of_def S_def)
  moreover have "oe_jwt demo_oenv tok = Inr demo_access_token" "oc_enforcement demo_oauth = False" for tok
    by (simp_all add: demo_oenv_def demo_oauth_def)
  moreover have "live 1000 (r_set_ex 1000 (sessionKey demo_oenv (S ''id'')) v ttl (r_del [k] demo_login)) (userKey u) = None" for v ttl u k
    by (simp add: demo_login_def live_def r_set_ex_def r_del_def)
  ultimately show ?thesis
    by (simp add: demo_callback_def completeLogin_def take_state_def no_faults_def r_getdel_def exchange_code_def reply_ok_def validateTokens_def bindE_def
      id_claims_def session_of_claims_def Let_def store_session_def r_put_def r_sadd_def)
qed

text \<open>The first callback signs the user in, a second one with the same state fails.\<close>

theorem login_state_single_use_witness:
  "\<exists>r p. demo_callback demo_login = (r, Inr (S ''id'', p)) \<and> demo_callback r = (r, Inl no_login)"
proof -
  obtain r p where r: "demo_callback demo_login = (r, Inr (S ''id'', p))" using demo_callback_ok by blast
  have "list_all (keeps_login demo_oenv (S ''st'')) []" "(1000 :: int) \<le> (\<lambda>_. 1000) (0 :: nat)" "(\<lambda>_. 1000 :: int) (0 :: nat) \<le> 1000"
    "no_faults 0 = None" by (simp_all add: no_faults_def)
  note login_state_single_use [OF r [unfolded demo_callback_def] this(4) demo_pending disjI1 [OF refl] this(3) rtrace_nil this(1,2)]
  then have "demo_callback r = (r, Inl no_login)" unfolding demo_callback_def using \<open>no_faults 0 = None\<close> by blast
  with r show ?thesis by blast
qed

theorem session_lifetime_witness:
  "\<exists>r p q. demo_callback demo_login = (r, Inr (S ''id'', p))
     \<and> resolve_session demo_oenv demo_oauth no_faults 2000 2000 (S ''id'') r = (r, Inr (Some q)) \<and> gs_subject q = gs_subject p"
proof -
  obtain r p where r: "demo_callback demo_login = (r, Inr (S ''id'', p))" using demo_callback_ok by blast
  have j: "\<forall>tok v. oe_jwt demo_oenv tok = Inr v \<longrightarrow> carried (token_number (\<lambda>n. n = demo_half)) v"
    by (auto simp: demo_oenv_def demo_access_token_def S_def token_number_def)
  have b: "0 \<le> oc_sessionTtlSeconds demo_oauth" "1000 div 1000 + oc_sessionTtlSeconds demo_oauth \<le> max_safe_integer"
    by (simp_all add: demo_oauth_def max_safe_integer_def)
  have k: "list_all (keeps_session demo_oenv (S ''id'')) [] \<and> (2000 :: int) < 1000 + 1000 * oc_sessionTtlSeconds demo_oauth
      \<and> (2000 :: int) div 1000 < 1000 div 1000 + oc_sessionTtlSeconds demo_oauth"
    by (simp add: demo_oauth_def)
  have "(1000 :: int) \<le> 2000" "(0 :: int) \<le> 1000" by simp_all
  note session_lifetime [OF r [unfolded demo_callback_def] rtrace_nil order_refl this b demo_number_law j]
  from this [THEN conjunct2, THEN conjunct1, THEN mp] k
  obtain q where "resolve_session demo_oenv demo_oauth no_faults 2000 2000 (S ''id'') r = (r, Inr (Some q))"
      "q\<lparr>gs_iamAccessToken := None\<rparr> = p\<lparr>gs_iamAccessToken := None\<rparr>"
    by blast
  moreover from this(2) have "gs_subject q = gs_subject p" by (cases q; cases p) simp
  ultimately show ?thesis using r by blast
qed

end
