(* ===== verification/JobService.thy ===== *)
theory JobService
  imports DaemonReader OAuthSession
begin

text \<open>
  The signing key and the service of management jobs (\<open>signer.ts\<close> and \<open>service.ts\<close> under
  \<open>src/daemonManagement/jobs\<close>): a manager issues a job for a device, lists jobs, and a device fetches its
  pending jobs. The state is the tables and the reader of the identity service. Parameters of a
  call: the replies of the network, the clocks, the failures of the statements and the random
  identifiers, numbered in the order in which the call uses them.
\<close>

section \<open>The signing key\<close>

definition key_schema :: "jv \<Rightarrow> bool" where
  "key_schema = strict_object
     [(''kid'', True, is_text job_id_ok), (''kty'', True, literal (JStr (S ''OKP''))), (''crv'', True, literal (JStr (S ''Ed25519''))),
      (''x'', True, is_text key43_ok), (''d'', True, is_text key43_ok)]"

text \<open>\<open>import x d\<close> is the key of the library, with the public part it exports; \<open>None\<close> when it throws.\<close>

definition fromJwk :: "(jstr \<Rightarrow> jstr \<Rightarrow> ((jstr \<Rightarrow> bytes) \<times> jstr) option) \<Rightarrow> jv \<Rightarrow> ((jstr \<Rightarrow> bytes) \<times> job_trust) option" where
  "fromJwk import_key v = (let x = text_of (prop_of v ''x''); d = text_of (prop_of v ''d'') in
     if \<not> key_schema v \<or> from_base64url x = None \<or> from_base64url d = None then None
     else (case import_key x d of None \<Rightarrow> None
       | Some (pk, public) \<Rightarrow> if public \<noteq> x then None
           else Some (pk, \<lparr>jt_kid = text_of (prop_of v ''kid''), jt_public = x\<rparr>)))"

record key_file =
  kf_symlink :: bool
  kf_regular :: bool
  kf_size :: int
  kf_mode :: nat
  kf_uid :: int
  kf_text :: jstr

text \<open>\<open>getuid\<close> is absent on some platforms.\<close>

definition fromFile :: "(jstr \<Rightarrow> jnum) \<Rightarrow> (jstr \<Rightarrow> jstr \<Rightarrow> ((jstr \<Rightarrow> bytes) \<times> jstr) option) \<Rightarrow> int option \<Rightarrow> key_file option \<Rightarrow>
    ((jstr \<Rightarrow> bytes) \<times> job_trust) option" where
  "fromFile num import_key uid f = (case f of None \<Rightarrow> None
     | Some kf \<Rightarrow>
         if kf_symlink kf \<or> \<not> kf_regular kf \<or> 4096 < kf_size kf \<or> kf_mode kf mod 64 \<noteq> 0 \<or> (Some (kf_uid kf) \<noteq> uid \<and> kf_uid kf \<noteq> 0)
         then None
         else (case parse_json num (kf_text kf) of None \<Rightarrow> None | Some v \<Rightarrow> fromJwk import_key v))"

section \<open>The service\<close>

record job_service =
  js_cfg :: management_config
  js_client :: jstr
  js_trust :: job_trust
  js_sig :: "jstr \<Rightarrow> bytes"
  js_ed :: "jstr \<Rightarrow> jstr \<Rightarrow> bytes \<Rightarrow> bool"

record job_world =
  jw_net :: "nat \<Rightarrow> http_request \<Rightarrow> reply"
  jw_clk :: "nat \<Rightarrow> nat \<Rightarrow> rat"
  jw_now :: "nat \<Rightarrow> int"
  jw_flt :: "nat \<Rightarrow> dfaults"
  jw_dbclk :: "nat \<Rightarrow> nat \<Rightarrow> int"
  jw_uuid :: "nat \<Rightarrow> jstr"

type_synonym 'a jsm = "(dstore \<times> iam_reader, daemon_error, 'a) stm"

definition on_store :: "'a dstm \<Rightarrow> 'a jsm" where
  "on_store m s = (case m (fst s) of (s', r) \<Rightarrow> ((s', snd s), r))"

definition on_reader :: "'a irm \<Rightarrow> 'a jsm" where
  "on_reader m s = (case m (snd s) of (s', r) \<Rightarrow> ((fst s, s'), r))"

definition binding_of :: "management_config \<Rightarrow> device_identity \<Rightarrow> job_binding" where
  "binding_of c i = \<lparr>jn_gateway = mc_resource c, jn_identityIssuer = mc_issuer c, jn_tenant = id_tenant i,
     jn_organization = id_organization i, jn_subject = id_subject i, jn_device = id_device i,
     jn_deviceVersion = id_version i, jn_jkt = id_jkt i\<rparr>"

definition job_error :: "jstr \<Rightarrow> daemon_error" where
  "job_error code = OtherError \<lparr>err_name = S ''Error'', err_message = code, err_code = Some code, err_status = None\<rparr>"

definition zod_error :: daemon_error where
  "zod_error = OtherError \<lparr>err_name = S ''ZodError'', err_message = [], err_code = None, err_status = None\<rparr>"

definition check_job :: "daemon_env \<Rightarrow> job_service \<Rightarrow> jstr \<Rightarrow> device_identity \<Rightarrow> int \<Rightarrow> daemon_error + verified_job" where
  "check_job E V jws i now = (case verify_job E (js_ed V) jws (js_trust V) (binding_of (js_cfg V) i) now of
      Inl code \<Rightarrow> Inl (job_error code) | Inr v \<Rightarrow> Inr v)"

definition ask_authority :: "daemon_env \<Rightarrow> job_service \<Rightarrow> job_world \<Rightarrow> nat \<Rightarrow> jstr \<Rightarrow> jstr \<Rightarrow> authority jsm" where
  "ask_authority E V W k subject organization =
     on_reader (authority_of E (js_cfg V) (jw_net W k) (jw_clk W k 0) (jw_now W k) subject organization (js_client V))"

text \<open>The reader of the job service does not cache.\<close>

definition ask_device :: "daemon_env \<Rightarrow> job_service \<Rightarrow> job_world \<Rightarrow> nat \<Rightarrow> device_identity \<Rightarrow> unit jsm" where
  "ask_device E V W k i = on_reader (authorize E (js_cfg V) 0 (jw_net W k) (jw_clk W k) i)"

text \<open>\<open>String(x)\<close> of a number or a text.\<close>

definition string_of :: "jv \<Rightarrow> jstr" where
  "string_of v = (case v of JNum (NInt i) \<Rightarrow> dec_int i | _ \<Rightarrow> text_of v)"

definition session_current :: "gateway_session \<Rightarrow> authority \<Rightarrow> bool" where
  "session_current ss a \<longleftrightarrow> au_user_version a = string_of (gs_userVersion ss)
     \<and> (gs_serviceAccessVersion ss \<noteq> JUndef \<longrightarrow> au_service_access_version a = string_of (gs_serviceAccessVersion ss))"

definition not_authorized :: daemon_error where
  "not_authorized = mgmt_error 403 ''job_not_authorized''"

definition of_tenant :: "job_service \<Rightarrow> gateway_session \<Rightarrow> bool" where
  "of_tenant V ss \<longleftrightarrow> gs_tenantId ss = JStr (mc_tenant (js_cfg V))"

section \<open>Listing\<close>

record job_view =
  vw_job :: job
  vw_state :: jstr
  vw_admission :: jstr
  vw_termination :: jstr
  vw_observed_at :: "jstr option"
  vw_received_at :: "jstr option"
  vw_fresh :: bool

definition view_of :: "daemon_env \<Rightarrow> int \<Rightarrow> observed_job \<Rightarrow> job_view" where
  "view_of E now row = (let j = sj_job (ob_record row) in
     \<lparr>vw_job = j,
      vw_state = (case ob_result row of
          Some r \<Rightarrow> if jr_termination r = S ''confirmed'' then S ''completed'' else S ''termination_unknown''
        | None \<Rightarrow> if jb_exp j \<le> now then S ''expired_unconfirmed'' else S ''queued''),
      vw_admission = (if ob_result row = None then S ''unconfirmed'' else S ''blocked''),
      vw_termination = (case ob_result row of Some r \<Rightarrow> jr_termination r | None \<Rightarrow> S ''unknown''),
      vw_observed_at = ob_observed_at row, vw_received_at = ob_received_at row,
      vw_fresh = (case (ob_observed_at row, ob_received_at row) of
          (Some o', Some r) \<Rightarrow> o' \<noteq> [] \<and> r \<noteq> [] \<and> fresh_age (now * 1000 - min (date_parse E o') (date_parse E r)) | _ \<Rightarrow> False)\<rparr>)"

definition list_views :: "daemon_env \<Rightarrow> job_service \<Rightarrow> job_world \<Rightarrow> gateway_session \<Rightarrow> jstr option \<Rightarrow> job_view list jsm" where
  "list_views E V W ss organization =
     (if \<not> of_tenant V ss then throwQ not_authorized
      else bindQ (case organization of None \<Rightarrow> retQ ()
          | Some g \<Rightarrow> if \<not> job_id_ok g then throwQ (mgmt_error 400 ''invalid_job_request'')
              else bindQ (ask_authority E V W 0 (text_of (gs_subject ss)) g) (\<lambda>a. if session_current ss a then retQ () else throwQ not_authorized)) (\<lambda>_.
        bindQ (on_store (list_jobs E (jw_flt W 0) (mc_issuer (js_cfg V)) (mc_tenant (js_cfg V)) (text_of (gs_subject ss)) organization)) (\<lambda>rows.
        retQ (map (view_of E (jw_now W 1)) rows))))"

section \<open>Issuing\<close>

definition request_schema :: "jv \<Rightarrow> bool" where
  "request_schema = strict_object
     [(''request_id'', True, is_text job_id_ok), (''organization_id'', True, is_text job_id_ok), (''device_id'', True, is_text job_id_ok),
      (''resource'', True, resource_schema), (''policy_revision'', True, positive), (''expected_state_version'', True, positive)]"

definition job_of_request :: "job_service \<Rightarrow> job_world \<Rightarrow> jstr \<Rightarrow> jv \<Rightarrow> device_identity \<Rightarrow> authority \<Rightarrow> int \<Rightarrow> job" where
  "job_of_request V W subject v i a now = \<lparr>jb_job_id = jw_uuid W 0, jb_iss = mc_resource (js_cfg V), jb_identity_issuer = mc_issuer (js_cfg V),
     jb_tenant_id = mc_tenant (js_cfg V), jb_organization_id = text_of (prop_of v ''organization_id''), jb_subject = id_subject i,
     jb_device_id = id_device i, jb_device_version = id_version i, jb_key_jkt = id_jkt i,
     jb_approved_by = \<lparr>av_subject = subject, av_authorization_id = jw_uuid W 1, av_approved_at = au_checked_at a\<rparr>,
     jb_resource = read_resource (prop_of v ''resource''), jb_policy_revision = int_of (prop_of v ''policy_revision''),
     jb_expected_state_version = int_of (prop_of v ''expected_state_version''), jb_iat = now, jb_exp = now + 300\<rparr>"

definition build_job :: "daemon_env \<Rightarrow> job_service \<Rightarrow> job_world \<Rightarrow> jstr \<Rightarrow> jv \<Rightarrow> device_identity \<Rightarrow> authority \<Rightarrow> unit \<Rightarrow> daemon_error + stored_job" where
  "build_job E V W subject v i a _ = (let now = jw_now W 2; j = job_of_request V W subject v i a now in
     (case sign E (js_sig V) (js_trust V) j of None \<Rightarrow> Inl zod_error
      | Some jws \<Rightarrow> bindE (check_job E V jws i now)
          (\<lambda>_. Inr \<lparr>sj_job = j, sj_compact = jws, sj_kid = jt_kid (js_trust V), sj_authority = a\<rparr>)))"

definition ready :: "daemon_env \<Rightarrow> int \<Rightarrow> jv \<Rightarrow> stored_report \<Rightarrow> bool" where
  "ready E now v t \<longleftrightarrow> is_fresh E t (now * 1000) \<and> rp_connection (st_report t) = S ''connected''
     \<and> (case rp_policy (st_report t) of Some (state, revision) \<Rightarrow> state = S ''valid'' \<and> revision = prop_of v ''policy_revision'' | None \<Rightarrow> False)"

definition is_target :: "job_service \<Rightarrow> jv \<Rightarrow> device_identity \<Rightarrow> bool" where
  "is_target V v i \<longleftrightarrow> id_issuer i = mc_issuer (js_cfg V) \<and> id_tenant i = mc_tenant (js_cfg V)
     \<and> id_organization i = text_of (prop_of v ''organization_id'') \<and> id_device i = text_of (prop_of v ''device_id'')"

definition request_hash :: "daemon_env \<Rightarrow> jv \<Rightarrow> jstr \<Rightarrow> device_identity \<Rightarrow> jstr" where
  "request_hash E v subject i = de_sha E (utf8_encode (canonicalJobJson E
     (JObj [(S ''request'', v), (S ''subject'', JStr subject), (S ''identity'', identity_json i)])))"

definition issue_for :: "daemon_env \<Rightarrow> job_service \<Rightarrow> job_world \<Rightarrow> jstr \<Rightarrow> jv \<Rightarrow> authority \<Rightarrow> device_identity \<Rightarrow> stored_job jsm" where
  "issue_for E V W subject v a i =
     bindQ (on_store (issue_job (jw_flt W 1) (jw_dbclk W 1) (mc_issuer (js_cfg V)) (mc_tenant (js_cfg V)) (text_of (prop_of v ''organization_id''))
       (text_of (prop_of v ''request_id'')) (request_hash E v subject i) (build_job E V W subject v i a))) (\<lambda>r.
     if sj_kid r \<noteq> jt_kid (js_trust V) then throwQ (mgmt_error 409 ''job_signing_key_retired'')
     else (case check_job E V (sj_compact r) i (jw_now W 3) of Inl e \<Rightarrow> throwQ e | Inr _ \<Rightarrow> retQ r))"

definition issue_on_target :: "daemon_env \<Rightarrow> job_service \<Rightarrow> job_world \<Rightarrow> jstr \<Rightarrow> jv \<Rightarrow> authority \<Rightarrow> stored_report option \<Rightarrow> stored_job jsm" where
  "issue_on_target E V W subject v a target = (case target of
      None \<Rightarrow> throwQ (mgmt_error 404 ''managed_device_not_found'')
    | Some t \<Rightarrow>
        if \<not> is_target V v (st_identity t) then throwQ (mgmt_error 404 ''managed_device_not_found'')
        else bindQ (ask_device E V W 1 (st_identity t)) (\<lambda>_.
          if \<not> ready E (jw_now W 1) v t then throwQ (mgmt_error 409 ''managed_device_state_unavailable'')
          else issue_for E V W subject v a (st_identity t)))"

definition issue_checked :: "daemon_env \<Rightarrow> job_service \<Rightarrow> job_world \<Rightarrow> gateway_session \<Rightarrow> jv \<Rightarrow> authority \<Rightarrow> stored_job jsm" where
  "issue_checked E V W ss v a = (if \<not> session_current ss a then throwQ not_authorized
     else bindQ (on_store (target_report (jw_flt W 0) (mc_issuer (js_cfg V)) (mc_tenant (js_cfg V))
         (text_of (prop_of v ''organization_id'')) (text_of (prop_of v ''device_id''))))
       (issue_on_target E V W (text_of (gs_subject ss)) v a))"

definition issue :: "daemon_env \<Rightarrow> job_service \<Rightarrow> job_world \<Rightarrow> gateway_session \<Rightarrow> jv \<Rightarrow> stored_job jsm" where
  "issue E V W ss v =
     (if \<not> request_schema v then throwQ (mgmt_error 400 ''invalid_job_request'')
      else if \<not> of_tenant V ss then throwQ not_authorized
      else bindQ (ask_authority E V W 0 (text_of (gs_subject ss)) (text_of (prop_of v ''organization_id''))) (issue_checked E V W ss v))"

section \<open>Delivering\<close>

definition skips :: "daemon_error \<Rightarrow> bool" where
  "skips e = (case e of ManagementError status _ _ \<Rightarrow> status = 403
     | OtherError x \<Rightarrow> (case err_code x of Some c \<Rightarrow> startsWith c (S ''job_'') | None \<Rightarrow> False))"

definition deliver_one :: "daemon_env \<Rightarrow> job_service \<Rightarrow> job_world \<Rightarrow> device_identity \<Rightarrow> nat \<Rightarrow> stored_job \<Rightarrow> bool jsm" where
  "deliver_one E V W i k r = bindQ (ask_authority E V W k (av_subject (jb_approved_by (sj_job r))) (id_organization i)) (\<lambda>cur.
     if au_user_version cur \<noteq> au_user_version (sj_authority r) \<or> au_service_access_version cur \<noteq> au_service_access_version (sj_authority r)
     then retQ False
     else (case check_job E V (sj_compact r) i (jw_now W k) of Inl e \<Rightarrow> throwQ e | Inr _ \<Rightarrow> retQ True))"

fun deliver :: "daemon_env \<Rightarrow> job_service \<Rightarrow> job_world \<Rightarrow> device_identity \<Rightarrow> nat \<Rightarrow> stored_job list \<Rightarrow> jstr list jsm" where
  "deliver E V W i k [] = retQ []"
| "deliver E V W i k (r # rs) = (\<lambda>s. case deliver_one E V W i k r s of
      (s, Inl e) \<Rightarrow> if skips e then deliver E V W i (Suc k) rs s else (s, Inl e)
    | (s, Inr sent) \<Rightarrow> bindQ (deliver E V W i (Suc k) rs) (\<lambda>out. retQ (if sent then sj_compact r # out else out)) s)"

definition pending :: "daemon_env \<Rightarrow> job_service \<Rightarrow> job_world \<Rightarrow> device_identity \<Rightarrow> jstr list jsm" where
  "pending E V W i = bindQ (ask_device E V W 0 i) (\<lambda>_.
     bindQ (on_store (pending_jobs (jw_flt W 0) (jw_dbclk W 0) i (jt_kid (js_trust V)))) (\<lambda>rs. deliver E V W i 1 rs))"

section \<open>What a device receives\<close>

lemma on_store_Inr: "on_store m s = (s', Inr x) \<longleftrightarrow> m (fst s) = (fst s', Inr x) \<and> snd s' = snd s"
  by (cases s; cases s') (auto simp: on_store_def split: prod.splits)

lemma on_reader_Inr: "on_reader m s = (s', Inr x) \<longleftrightarrow> m (snd s) = (snd s', Inr x) \<and> fst s' = fst s"
  by (cases s; cases s') (auto simp: on_reader_def split: prod.splits)

lemma on_reader_store: "on_reader m s = (s', x) \<Longrightarrow> fst s' = fst s"
  by (auto simp: on_reader_def split: prod.splits)

lemma judge_Inr: "judge read denied rp s = (s', Inr x) \<Longrightarrow> \<exists>status p. rp = Reply status (Some p) \<and> reply_ok status \<and> read p = Inr x"
  by (auto simp: judge_def split: reply.splits if_splits option.splits)

text \<open>The identity service has just vouched for the manager, or confirmed the device.\<close>

definition vouched :: "daemon_env \<Rightarrow> job_service \<Rightarrow> job_world \<Rightarrow> nat \<Rightarrow> jstr \<Rightarrow> jstr \<Rightarrow> authority \<Rightarrow> bool" where
  "vouched E V W k subject organization a \<longleftrightarrow> (\<exists>token status p.
     jw_net W k (authority_request E (js_cfg V) subject organization (js_client V) token) = Reply status (Some p) \<and> reply_ok status
     \<and> authority_schema (js_cfg V) subject organization (js_client V) p
     \<and> text_of (prop_of p ''user_version'') = au_user_version a \<and> text_of (prop_of p ''service_access_version'') = au_service_access_version a
     \<and> int_of (prop_of p ''checked_at'') = au_checked_at a \<and> \<bar>au_checked_at a - jw_now W k\<bar> \<le> 5)"

definition device_vouched :: "daemon_env \<Rightarrow> job_service \<Rightarrow> job_world \<Rightarrow> nat \<Rightarrow> device_identity \<Rightarrow> bool" where
  "device_vouched E V W k i \<longleftrightarrow> (\<exists>token status p. jw_net W k (check_request E (js_cfg V) i token) = Reply status (Some p)
     \<and> reply_ok status \<and> device_confirmed i p)"

lemma authority_of_Inr:
  assumes "authority_of E cfg net start now_s subject organization client s = (s', Inr a)"
  shows "\<exists>r1 token. judge (read_authority cfg now_s subject organization client) ''job_not_authorized''
      (net (authority_request E cfg subject organization client token)) r1 = (s', Inr a)"
proof -
  obtain r1 x where "readerToken cfg net start s = (r1, x)" by (cases "readerToken cfg net start s")
  with assms show ?thesis by (cases x) (auto simp: authority_of_def)
qed

lemma ask_authority_Inr:
  assumes "ask_authority E V W k subject organization s = (s', Inr a)"
  shows "vouched E V W k subject organization a \<and> fst s' = fst s"
proof -
  have s: "fst s' = fst s" and "authority_of E (js_cfg V) (jw_net W k) (jw_clk W k 0) (jw_now W k) subject organization (js_client V) (snd s) = (snd s', Inr a)"
    using assms by (simp_all add: ask_authority_def on_reader_Inr)
  from authority_of_Inr [OF this(2)] obtain r1 token where
    "judge (read_authority (js_cfg V) (jw_now W k) subject organization (js_client V)) ''job_not_authorized''
      (jw_net W k (authority_request E (js_cfg V) subject organization (js_client V) token)) r1 = (snd s', Inr a)" by blast
  from judge_Inr [OF this] obtain status p where p: "jw_net W k (authority_request E (js_cfg V) subject organization (js_client V) token) = Reply status (Some p)"
      "reply_ok status" "read_authority (js_cfg V) (jw_now W k) subject organization (js_client V) p = Inr a"
    by blast
  have "authority_schema (js_cfg V) subject organization (js_client V) p
     \<and> text_of (prop_of p ''user_version'') = au_user_version a \<and> text_of (prop_of p ''service_access_version'') = au_service_access_version a
     \<and> int_of (prop_of p ''checked_at'') = au_checked_at a \<and> \<bar>au_checked_at a - jw_now W k\<bar> \<le> 5"
  proof (cases "\<not> authority_schema (js_cfg V) subject organization (js_client V) p \<or> int_of (prop_of p ''checked_at'') > jw_now W k + 5
      \<or> int_of (prop_of p ''checked_at'') < jw_now W k - 5")
    case False
    then show ?thesis using p(3) by (auto simp: read_authority_def)
  qed (use p(3) in \<open>simp add: read_authority_def\<close>)
  with p(1,2) s show ?thesis unfolding vouched_def by blast
qed

lemma authorize_Inr:
  assumes "authorize E cfg cacheMs net clk i s = (s', Inr u)" and "\<not> snd (look E cacheMs (clk 0) i s)"
  shows "\<exists>r1 r2 token. judge (read_device i) ''device_not_authorized'' (net (check_request E cfg i token)) r1 = (r2, Inr ())"
proof -
  obtain s1 where l: "look E cacheMs (clk 0) i s = (s1, False)" using assms(2) by (cases "look E cacheMs (clk 0) i s") auto
  obtain r1 x where r: "readerToken cfg net (clk 1) s1 = (r1, x)" by (cases "readerToken cfg net (clk 1) s1")
  show ?thesis
  proof (cases x)
    case (Inr token)
    obtain r2 y where j: "judge (read_device i) ''device_not_authorized'' (net (check_request E cfg i token)) r1 = (r2, y)"
      by (cases "judge (read_device i) ''device_not_authorized'' (net (check_request E cfg i token)) r1")
    then show ?thesis using assms(1) l r Inr by (cases y) (auto simp: authorize_def)
  qed (use assms(1) l r in \<open>simp add: authorize_def\<close>)
qed

lemma ask_device_Inr:
  assumes "ask_device E V W k i s = (s', Inr u)"
  shows "device_vouched E V W k i \<and> fst s' = fst s"
proof -
  have a: "authorize E (js_cfg V) 0 (jw_net W k) (jw_clk W k) i (snd s) = (snd s', Inr u)" "fst s' = fst s"
    using assms by (simp_all add: ask_device_def on_reader_Inr)
  moreover have "\<not> snd (look E 0 (jw_clk W k 0) i (snd s))" by (auto simp: look_def split: option.split)
  ultimately obtain r1 r2 token where "judge (read_device i) ''device_not_authorized'' (jw_net W k (check_request E (js_cfg V) i token)) r1 = (r2, Inr ())"
    using authorize_Inr by blast
  from judge_Inr [OF this] a(2) show ?thesis unfolding device_vouched_def by (auto simp: read_device_def split: if_splits)
qed

text \<open>What every delivered text satisfies, for the row it comes from.\<close>

definition deliverable :: "daemon_env \<Rightarrow> job_service \<Rightarrow> job_world \<Rightarrow> device_identity \<Rightarrow> stored_job \<Rightarrow> bool" where
  "deliverable E V W i r \<longleftrightarrow> (\<exists>k cur vj. vouched E V W k (av_subject (jb_approved_by (sj_job r))) (id_organization i) cur
     \<and> au_user_version cur = au_user_version (sj_authority r) \<and> au_service_access_version cur = au_service_access_version (sj_authority r)
     \<and> verify_job E (js_ed V) (sj_compact r) (js_trust V) (binding_of (js_cfg V) i) (jw_now W k) = Inr vj
     \<and> bound_to (binding_of (js_cfg V) i) (vj_job vj) \<and> jw_now W k < jb_exp (vj_job vj))"

lemma verify_job_bound:
  assumes "verify_job E ed token trust b now = Inr vj"
  shows "bound_to b (vj_job vj)" and "now < jb_exp (vj_job vj)"
proof -
  obtain s0 s1 s2 where "verify_segments E ed trust b now s0 s1 s2 = Inr vj"
    using assms by (auto simp: verify_job_def job_fail_def split: if_splits list.splits)
  then obtain v payload where "job_checks (read_job v) b now = Inr ()" "vj = \<lparr>vj_job = read_job v, vj_digest = de_sha E payload, vj_verified_at = now\<rparr>"
    by (rule verify_segments_Inr)
  then show "bound_to b (vj_job vj)" "now < jb_exp (vj_job vj)" by (simp_all add: job_checks_ok)
qed

lemma deliver_one_True:
  assumes "deliver_one E V W i k r s = (s', Inr True)"
  shows "deliverable E V W i r"
proof -
  obtain s1 cur where c: "ask_authority E V W k (av_subject (jb_approved_by (sj_job r))) (id_organization i) s = (s1, Inr cur)"
      "au_user_version cur = au_user_version (sj_authority r)" "au_service_access_version cur = au_service_access_version (sj_authority r)"
      "\<exists>vj. check_job E V (sj_compact r) i (jw_now W k) = Inr vj"
    using assms by (auto simp: deliver_one_def bindQ_Inr_iff retQ_Inr_iff throwQ_def split: if_splits sum.splits)
  then obtain vj where "verify_job E (js_ed V) (sj_compact r) (js_trust V) (binding_of (js_cfg V) i) (jw_now W k) = Inr vj"
    by (auto simp: check_job_def split: sum.splits)
  with verify_job_bound [OF this] ask_authority_Inr [OF c(1)] c(2,3) show ?thesis unfolding deliverable_def by blast
qed

lemma deliver_one_store: "deliver_one E V W i k r s = (s', x) \<Longrightarrow> fst s' = fst s"
  by (auto simp: deliver_one_def bindQ_def retQ_def throwQ_def ask_authority_def dest: on_reader_store split: prod.splits sum.splits if_splits)

lemma deliver_Inr:
  "deliver E V W i k rs s = (s', Inr out) \<Longrightarrow> fst s' = fst s \<and> length out \<le> length rs
    \<and> (\<forall>jws \<in> set out. \<exists>r \<in> set rs. sj_compact r = jws \<and> deliverable E V W i r)"
proof (induction rs arbitrary: k s s' out)
  case Nil
  then show ?case by (simp add: retQ_Inr_iff)
next
  case (Cons r rs)
  obtain s1 x where one: "deliver_one E V W i k r s = (s1, x)" by (cases "deliver_one E V W i k r s")
  have st: "fst s1 = fst s" using one by (rule deliver_one_store)
  show ?case
  proof (cases x)
    case (Inl e)
    then have "deliver E V W i (Suc k) rs s1 = (s', Inr out)" using Cons.prems one by (auto split: if_splits)
    from Cons.IH [OF this] st show ?thesis by auto
  next
    case (Inr sent)
    then obtain out' where d: "deliver E V W i (Suc k) rs s1 = (s', Inr out')" "out = (if sent then sj_compact r # out' else out')"
      using Cons.prems one by (auto simp: bindQ_Inr_iff retQ_Inr_iff)
    from Cons.IH [OF d(1)] st deliver_one_True [of E V W i k r s s1] one Inr d(2) show ?thesis by (auto split: if_splits)
  qed
qed

definition pending_row :: "job_service \<Rightarrow> job_world \<Rightarrow> device_identity \<Rightarrow> dstore \<Rightarrow> job_row \<Rightarrow> bool" where
  "pending_row V W i d q \<longleftrightarrow> jo_issuer q = id_issuer i \<and> jo_tenant q = id_tenant i \<and> jo_organization q = id_organization i
     \<and> jo_device_id q = id_device i \<and> jo_kid q = jt_kid (js_trust V) \<and> jw_dbclk W 0 0 < jo_expires_at q \<and> \<not> confirmed (ds_results d) (jo_job_id q)"

text \<open>
  C13. A device receives a job only while it is valid and authorized: the request for pending jobs changes no
  table and returns at most twenty texts, after the identity service has confirmed the device; each text is
  the signed job of a stored row of that device, unexpired, not yet confirmed and signed under the
  current key, it verifies for that device at the time of delivery, and the identity service has just
  vouched for the manager who approved it with the same user and access versions as at the approval.
\<close>

theorem pending_deliveries:
  assumes "pending E V W i s = (s', Inr out)"
  shows "fst s' = fst s \<and> length out \<le> 20 \<and> device_vouched E V W 0 i
    \<and> (\<forall>jws \<in> set out. \<exists>q \<in> set (ds_jobs (fst s)). sj_compact (jo_record q) = jws \<and> pending_row V W i (fst s) q
        \<and> deliverable E V W i (jo_record q))"
proof -
  obtain s1 s2 rs where p: "ask_device E V W 0 i s = (s1, Inr ())" "on_store (pending_jobs (jw_flt W 0) (jw_dbclk W 0) i (jt_kid (js_trust V))) s1 = (s2, Inr rs)"
      "deliver E V W i 1 rs s2 = (s', Inr out)"
    using assms by (auto simp: pending_def bindQ_Inr_iff)
  have dev: "device_vouched E V W 0 i" "fst s1 = fst s" using ask_device_Inr [OF p(1)] by simp_all
  let ?rows = "order_by created_first (filter (pending_row V W i (fst s)) (ds_jobs (fst s)))"
  have rs: "fst s2 = fst s" "rs = map jo_record (take 20 ?rows)"
    using p(2) dev(2) by (auto simp: on_store_Inr pending_jobs_def query_Inr_iff pending_row_def [abs_def])
  have "\<exists>q \<in> set (ds_jobs (fst s)). jo_record q = r \<and> pending_row V W i (fst s) q" if "r \<in> set rs" for r
  proof -
    from that obtain q where "q \<in> set ?rows" "r = jo_record q" unfolding rs(2) by (auto dest: in_set_takeD)
    then show ?thesis by auto
  qed
  moreover have "length rs \<le> 20" by (simp add: rs(2))
  moreover note rs(1)
  ultimately show ?thesis using deliver_Inr [OF p(3)] dev(1) by fastforce
qed

section \<open>What is issued\<close>

lemma filter_key_unique:
  "distinct (map f xs) \<Longrightarrow> x \<in> set xs \<Longrightarrow> (\<And>y. y \<in> set xs \<Longrightarrow> P y \<longleftrightarrow> f y = f x) \<Longrightarrow> filter P xs = [x]"
proof (induction xs)
  case (Cons a xs)
  show ?case
  proof (cases "a = x")
    case True
    then have "f y \<noteq> f x" if "y \<in> set xs" for y using Cons.prems(1) that by (auto simp: image_iff)
    then show ?thesis using Cons.prems(3) True by (auto simp: filter_empty_conv)
  next
    case False
    then have "f a \<noteq> f x" using Cons.prems(1,2) by auto
    then show ?thesis using Cons False by auto
  qed
qed simp

definition issued_row :: "jstr \<Rightarrow> jstr \<Rightarrow> jstr \<Rightarrow> jstr \<Rightarrow> jstr \<Rightarrow> stored_job \<Rightarrow> job_row \<Rightarrow> bool" where
  "issued_row issuer tenant organization requestId requestHash r q \<longleftrightarrow> same_request issuer tenant organization requestId q
     \<and> jo_request_hash q = requestHash \<and> jo_record q = r"

lemma issue_job_row:
  assumes "issue_job flt clk issuer tenant organization requestId requestHash build s = (s', Inr r)"
  obtains q where "q \<in> set (ds_jobs s')" "issued_row issuer tenant organization requestId requestHash r q"
    "q \<in> set (ds_jobs s) \<or> (build () = Inr r \<and> jo_expires_at q = jb_exp (sj_job r) * 1000)"
proof -
  let ?prior = "filter (same_request issuer tenant organization requestId) (ds_jobs s)"
  have body: "issue_body flt clk issuer tenant organization requestId requestHash build s = (s', Inr r)"
    using assms by (simp add: issue_job_def transaction_Inr_iff)
  show thesis
  proof (cases ?prior)
    case (Cons q qs)
    have "\<forall>x \<in> set (q # qs). x \<in> set (ds_jobs s) \<and> same_request issuer tenant organization requestId x" unfolding Cons [symmetric] by simp
    then have q: "q \<in> set (ds_jobs s)" "same_request issuer tenant organization requestId q" by simp_all
    have "s' = s" "jo_request_hash q = requestHash" "jo_record q = r"
      using body Cons by (auto simp: issue_body_def bindQ_Inr_iff query_Inr_iff retQ_Inr_iff commit_Inr_iff throwQ_def split: if_splits)
    then show thesis using that q by (simp add: issued_row_def)
  next
    case Nil
    let ?q = "job_row_of issuer tenant organization requestId requestHash (clk 3) r"
    have b: "build () = Inr r" "insert_job ?q s = (s', Inr ())"
      using body Nil by (auto simp: issue_body_def bindQ_Inr_iff query_Inr_iff retQ_Inr_iff commit_Inr_iff throwQ_def split: sum.splits)
    have "?q \<in> set (ds_jobs s')" using b(2) by (auto simp: insert_job_def split: if_splits)
    then show thesis using that [of ?q] b(1) by (simp add: issued_row_def job_row_of_def same_request_def)
  qed
qed

text \<open>
  C28. A request identifier names one job: once a job has been issued for a request of an organization, then
  at any later moment, whatever happened in between, the same request returns that job until it
  expires and is refused afterwards, another request under that identifier is refused, and no second
  job is stored for it.
\<close>

theorem job_issued_once:
  assumes "dtrace E (t0, empty_store) es (t1, s1)"
    and "issue_job flt clk issuer tenant organization requestId requestHash build s1 = (s2, Inr r)" and "in_time t1 t2 clk"
    and "dtrace E (t2, s2) es' (t3, s3)"
  shows "issue_job (\<lambda>_. None) clk' issuer tenant organization requestId hash' build' s3 = (s3,
    if hash' \<noteq> requestHash then Inl (mgmt_error 409 ''job_request_conflict'')
    else if clk' 2 < jb_exp (sj_job r) * 1000 then Inr r else Inl (mgmt_error 409 ''job_request_expired''))"
proof -
  have ok1: "store_ok E s1" using dtrace_facts [OF assms(1)] store_ok_empty by simp
  have "dstep E (t1, s1) Issued (t2, s2)" using assms(2,3) by (rule step_issue)
  then have ok2: "store_ok E s2" using dstep_facts ok1 by fastforce
  have g: "store_ok E s3" "grows s2 s3" using dtrace_facts [OF assms(4)] ok2 by simp_all
  obtain q where q: "q \<in> set (ds_jobs s2)" "issued_row issuer tenant organization requestId requestHash r q"
    using assms(2) by (rule issue_job_row)
  have in3: "q \<in> set (ds_jobs s3)" using q(1) g(2) by (auto simp: grows_def)
  have jobs: "jobs_ok s3" using g(1) by (simp add: store_ok_def)
  have expires: "jo_expires_at q = jb_exp (sj_job r) * 1000" using jobs in3 q(2) by (auto simp: jobs_ok_def issued_row_def)
  have "filter (same_request issuer tenant organization requestId) (ds_jobs s3) = [q]"
    using jobs in3 q(2)
    by (intro filter_key_unique [where f = "\<lambda>r. (jo_issuer r, jo_tenant r, jo_organization r, jo_request_id r)"])
      (auto simp: jobs_ok_def issued_row_def same_request_def)
  then show ?thesis
    using q(2) expires
    by (auto simp: issue_job_def transaction_def issue_body_def bindQ_def query_def retQ_def commit_def throwQ_def issued_row_def split: if_splits)
qed

lemma target_report_stored:
  assumes "target_report flt issuer tenant organization device d = (d', Inr (Some t))"
  shows "\<exists>k h. (k, h) \<in> set (ds_heads d) \<and> hd_stored h = Some t"
proof -
  have "set (List.map_filter (\<lambda>(k, h). hd_stored h) xs) \<subseteq> {t. \<exists>k h. (k, h) \<in> set xs \<and> hd_stored h = Some t}" for xs :: "(jstr \<times> head_row) list"
    by (force simp: List.map_filter_def)
  then have "t \<in> set (List.map_filter (\<lambda>(k, h). hd_stored h) xs) \<Longrightarrow> \<exists>k h. (k, h) \<in> set xs \<and> hd_stored h = Some t" for xs :: "(jstr \<times> head_row) list"
    by blast
  moreover have "t \<in> set (List.map_filter (\<lambda>(k, h). hd_stored h) (filter (\<lambda>(k, h). hd_issuer h = issuer \<and> hd_tenant h = tenant
      \<and> pred_option (\<lambda>r. id_organization (st_identity r) = organization \<and> id_device (st_identity r) = device) (hd_stored h)) (ds_heads d)))"
    using assms by (auto simp: target_report_def query_Inr_iff split: list.splits)
  ultimately obtain k h where "(k, h) \<in> set (ds_heads d)" "hd_stored h = Some t" by fastforce
  then show ?thesis by blast
qed

text \<open>
  C7. Nobody revokes a worker without authority: a job is issued only on a well-formed request of a session
  of the tenant, for which the identity service vouches as administrator of the organization with the
  versions of the session, for a device of that organization that the service confirms and whose latest
  report is fresh, connected and under the valid policy of the request; the returned record is the
  stored row of that request, signed under the current key, and it verifies for the device.
\<close>

theorem issued_job_justified:
  assumes "issue E V W ss v s = (s', Inr r)"
  shows "request_schema v \<and> of_tenant V ss
    \<and> (\<exists>a t k h vj q. vouched E V W 0 (text_of (gs_subject ss)) (text_of (prop_of v ''organization_id'')) a \<and> session_current ss a
        \<and> (k, h) \<in> set (ds_heads (fst s)) \<and> hd_stored h = Some t \<and> is_target V v (st_identity t) \<and> device_vouched E V W 1 (st_identity t)
        \<and> ready E (jw_now W 1) v t
        \<and> q \<in> set (ds_jobs (fst s'))
        \<and> issued_row (mc_issuer (js_cfg V)) (mc_tenant (js_cfg V)) (text_of (prop_of v ''organization_id'')) (text_of (prop_of v ''request_id''))
            (request_hash E v (text_of (gs_subject ss)) (st_identity t)) r q
        \<and> sj_kid r = jt_kid (js_trust V)
        \<and> verify_job E (js_ed V) (sj_compact r) (js_trust V) (binding_of (js_cfg V) (st_identity t)) (jw_now W 3) = Inr vj
        \<and> bound_to (binding_of (js_cfg V) (st_identity t)) (vj_job vj) \<and> jw_now W 3 < jb_exp (vj_job vj))"
proof -
  let ?o = "text_of (prop_of v ''organization_id'')" and ?d = "text_of (prop_of v ''device_id'')"
  have ok: "request_schema v" "of_tenant V ss" using assms by (auto simp: issue_def throwQ_def split: if_splits)
  then obtain s1 a where a: "ask_authority E V W 0 (text_of (gs_subject ss)) ?o s = (s1, Inr a)" "issue_checked E V W ss v a s1 = (s', Inr r)"
    using assms by (auto simp: issue_def bindQ_Inr_iff)
  then obtain s2 target where cur: "session_current ss a"
      and t0: "on_store (target_report (jw_flt W 0) (mc_issuer (js_cfg V)) (mc_tenant (js_cfg V)) ?o ?d) s1 = (s2, Inr target)"
        "issue_on_target E V W (text_of (gs_subject ss)) v a target s2 = (s', Inr r)"
    by (auto simp: issue_checked_def bindQ_Inr_iff throwQ_def split: if_splits)
  then obtain t s3 where t: "target = Some t" "is_target V v (st_identity t)" "ask_device E V W 1 (st_identity t) s2 = (s3, Inr ())"
      "ready E (jw_now W 1) v t" "issue_for E V W (text_of (gs_subject ss)) v a (st_identity t) s3 = (s', Inr r)"
    by (auto simp: issue_on_target_def throwQ_def bindQ_Inr_iff split: option.splits if_splits)
  have s1: "fst s1 = fst s" using ask_authority_Inr [OF a(1)] by simp
  obtain k h where h: "(k, h) \<in> set (ds_heads (fst s))" "hd_stored h = Some t"
  proof -
    have "target_report (jw_flt W 0) (mc_issuer (js_cfg V)) (mc_tenant (js_cfg V)) ?o ?d (fst s) = (fst s2, Inr (Some t))"
      using t0(1) t(1) s1 by (simp add: on_store_Inr)
    from target_report_stored [OF this] that show thesis by blast
  qed
  have i: "on_store (issue_job (jw_flt W 1) (jw_dbclk W 1) (mc_issuer (js_cfg V)) (mc_tenant (js_cfg V)) ?o
       (text_of (prop_of v ''request_id'')) (request_hash E v (text_of (gs_subject ss)) (st_identity t))
       (build_job E V W (text_of (gs_subject ss)) v (st_identity t) a)) s3 = (s', Inr r)"
      "sj_kid r = jt_kid (js_trust V)" "\<exists>vj. check_job E V (sj_compact r) (st_identity t) (jw_now W 3) = Inr vj"
    using t(5) by (auto simp: issue_for_def bindQ_Inr_iff throwQ_def retQ_Inr_iff split: if_splits sum.splits)
  from i(1) have "issue_job (jw_flt W 1) (jw_dbclk W 1) (mc_issuer (js_cfg V)) (mc_tenant (js_cfg V)) ?o
       (text_of (prop_of v ''request_id'')) (request_hash E v (text_of (gs_subject ss)) (st_identity t))
       (build_job E V W (text_of (gs_subject ss)) v (st_identity t) a) (fst s3) = (fst s', Inr r)" by (simp add: on_store_Inr)
  then obtain q where q: "q \<in> set (ds_jobs (fst s'))" "issued_row (mc_issuer (js_cfg V)) (mc_tenant (js_cfg V)) ?o (text_of (prop_of v ''request_id''))
      (request_hash E v (text_of (gs_subject ss)) (st_identity t)) r q"
    by (rule issue_job_row)
  obtain vj where vj: "verify_job E (js_ed V) (sj_compact r) (js_trust V) (binding_of (js_cfg V) (st_identity t)) (jw_now W 3) = Inr vj"
    using i(3) by (auto simp: check_job_def split: sum.splits)
  have vouch: "vouched E V W 0 (text_of (gs_subject ss)) ?o a" using ask_authority_Inr [OF a(1)] by simp
  have dev: "device_vouched E V W 1 (st_identity t)" using ask_device_Inr [OF t(3)] by simp
  show ?thesis
    using ok by (intro conjI exI [of _ a] exI [of _ t] exI [of _ k] exI [of _ h] exI [of _ vj] exI [of _ q])
      (rule vouch cur h t(2,4) dev q i(2) vj verify_job_bound [OF vj] | assumption)+
qed

section \<open>A concrete job and its delivery\<close>

definition demo_service :: job_service where
  "demo_service = \<lparr>js_cfg = demo_mcfg, js_client = S ''c'', js_trust = demo_trust, js_sig = demo_sig, js_ed = demo_ed\<rparr>"

definition demo_authority_answer :: jv where
  "demo_authority_answer = JObj [(S ''tenant_id'', JStr (S ''t'')), (S ''subject'', JStr (S ''a'')), (S ''organization_id'', JStr (S ''o'')),
     (S ''client_id'', JStr (S ''c'')), (S ''role'', JStr (S ''ORG_ADMIN'')), (S ''authorized'', JBool True),
     (S ''user_version'', JStr (S ''1'')), (S ''service_access_version'', JStr (S ''1'')), (S ''checked_at'', JNum (NInt 200))]"

definition demo_authority :: authority where
  "demo_authority = \<lparr>au_tenant_id = S ''t'', au_subject = S ''a'', au_organization_id = S ''o'', au_client_id = S ''c'',
     au_user_version = S ''1'', au_service_access_version = S ''1'', au_checked_at = 200\<rparr>"

definition demo_record :: stored_job where
  "demo_record = \<lparr>sj_job = demo_job, sj_compact = demo_token, sj_kid = S ''k1'', sj_authority = demo_authority\<rparr>"

definition demo_ready :: stored_report where
  "demo_ready = \<lparr>st_identity = demo_identity, st_report = demo_report\<lparr>rp_policy := Some (S ''valid'', JNum (NInt 7))\<rparr>,
     st_receipt = \<lparr>rt_report_id = S ''r1'', rt_sequence = 5, rt_received_at = S ''x''\<rparr>\<rparr>"

definition demo_issued :: dstore where
  "demo_issued = empty_store\<lparr>ds_heads := [(S ''h'', \<lparr>hd_issuer = S ''i'', hd_tenant = S ''t'', hd_subject = S ''s'', hd_sequence = 5, hd_stored = Some demo_ready\<rparr>)],
     ds_jobs := [job_row_of (S ''i'') (S ''t'') (S ''o'') (S ''q1'') (replicate 64 97) 100000 demo_record]\<rparr>"

definition demo_tokened :: iam_reader where
  "demo_tokened = \<lparr>ir_token = Some (S ''tok'', 1000), ir_cache = []\<rparr>"

definition demo_world :: "(nat \<Rightarrow> int) \<Rightarrow> job_world" where
  "demo_world now = \<lparr>jw_net = (\<lambda>_ q. Reply 200 (Some (if hq_url q = S ''i/api/v1/device-status/check'' then demo_answer else demo_authority_answer))),
     jw_clk = (\<lambda>_ _. 0), jw_now = now, jw_flt = (\<lambda>_ _. None), jw_dbclk = (\<lambda>_ _. 200000), jw_uuid = (\<lambda>_. S ''z'')\<rparr>"

definition demo_job_request :: jv where
  "demo_job_request = JObj [(S ''request_id'', JStr (S ''q1'')), (S ''organization_id'', JStr (S ''o'')), (S ''device_id'', JStr (S ''d'')),
     (S ''resource'', resource_json (jb_resource demo_job)), (S ''policy_revision'', JNum (NInt 7)), (S ''expected_state_version'', JNum (NInt 3))]"

definition demo_manager :: gateway_session where
  "demo_manager = \<lparr>gs_subject = JStr (S ''a''), gs_tenantId = JStr (S ''t''), gs_email = JStr (S ''e''), gs_name = None,
     gs_userVersion = JNum (NInt 1), gs_serviceAccessVersion = JUndef, gs_iamAccessToken = None\<rparr>"

lemma demo_world_simps [simp]: "jw_now (demo_world now) = now" "jw_flt (demo_world now) = (\<lambda>_ _. None)" "jw_dbclk (demo_world now) = (\<lambda>_ _. 200000)"
  by (simp_all add: demo_world_def)

lemma demo_asks_authority:
  assumes "\<bar>now k - 200\<bar> \<le> 5"
  shows "ask_authority demo_denv demo_service (demo_world now) k (S ''a'') (S ''o'') (d, demo_tokened) = ((d, demo_tokened), Inr demo_authority)"
proof -
  have v: "claim_version (JStr (S ''1''))" by code_simp
  have "authority_schema demo_mcfg (S ''a'') (S ''o'') (S ''c'') demo_authority_answer"
    using v by (simp add: authority_schema_def demo_authority_answer_def strict_object_def only_keys_def jhas_def literal_def demo_mcfg_def
      timestamp_def int_between_def max_safe_integer_def S_def)
  then have "read_authority demo_mcfg (now k) (S ''a'') (S ''o'') (S ''c'') demo_authority_answer = Inr demo_authority"
    using assms by (auto simp: abs_le_iff read_authority_def demo_authority_def demo_authority_answer_def prop_of_def fields_of_def text_of_def int_of_def S_def demo_mcfg_def)
  moreover have "readerToken demo_mcfg net 0 demo_tokened = (demo_tokened, Inr (S ''tok''))" for net
    by (simp add: readerToken_def token_live_def demo_tokened_def)
  ultimately show ?thesis
    by (simp add: ask_authority_def on_reader_def authority_of_def demo_service_def demo_world_def authority_request_def judge_def reply_ok_def
      demo_mcfg_def S_def)
qed

lemma demo_asks_device:
  "ask_device demo_denv demo_service (demo_world now) k demo_identity (d, demo_tokened)
    = ((d, demo_tokened\<lparr>ir_cache := [(identity_key demo_denv demo_identity, 0)]\<rparr>), Inr ())"
proof -
  have "device_confirmed demo_identity demo_answer" "demo_answer \<noteq> JNull"
    by (simp_all add: device_confirmed_def demo_identity_def demo_answer_def prop_of_def fields_of_def S_def max_safe_integer_def)
  moreover have "readerToken demo_mcfg net 0 demo_tokened = (demo_tokened, Inr (S ''tok''))" for net
    by (simp add: readerToken_def token_live_def demo_tokened_def)
  moreover have "hq_url (check_request demo_denv demo_mcfg demo_identity tok) = S ''i/api/v1/device-status/check''" for tok
    by (simp add: check_request_def demo_mcfg_def S_def)
  moreover have "look demo_denv 0 0 demo_identity demo_tokened = (demo_tokened, False)" by (simp add: look_def demo_tokened_def)
  moreover have "remember demo_denv 0 0 demo_identity demo_tokened = (demo_tokened\<lparr>ir_cache := [(identity_key demo_denv demo_identity, 0)]\<rparr>, Inr ())"
    by (simp add: remember_def demo_tokened_def)
  ultimately show ?thesis
    by (simp add: ask_device_def on_reader_def authorize_def demo_service_def demo_world_def judge_def reply_ok_def read_device_def)
qed

lemma demo_binding_of: "binding_of demo_mcfg demo_identity = demo_binding"
  by (simp add: binding_of_def demo_mcfg_def demo_identity_def demo_binding_def)

lemma demo_checked: "\<exists>vj. check_job demo_denv demo_service demo_token demo_identity 200 = Inr vj"
  using demo_verified by (simp add: check_job_def demo_service_def demo_binding_of)

lemma demo_job_rows: "same_request (S ''i'') (S ''t'') (S ''o'') (S ''q1'') (job_row_of (S ''i'') (S ''t'') (S ''o'') (S ''q1'') h now r)"
  "jo_expires_at (job_row_of (S ''i'') (S ''t'') (S ''o'') (S ''q1'') h now demo_record) = 400000"
  by (simp_all add: same_request_def job_row_of_def demo_record_def demo_job_def)

theorem pending_deliveries_witness:
  "\<exists>r. pending demo_denv demo_service (demo_world (\<lambda>_. 200)) demo_identity (demo_issued, demo_tokened) = ((demo_issued, r), Inr [demo_token])
     \<and> deliverable demo_denv demo_service (demo_world (\<lambda>_. 200)) demo_identity demo_record"
proof -
  let ?W = "demo_world (\<lambda>_. 200)" and ?r = "demo_tokened\<lparr>ir_cache := [(identity_key demo_denv demo_identity, 0)]\<rparr>"
  have rows: "pending_jobs (\<lambda>_. None) (\<lambda>_. 200000) demo_identity (S ''k1'') demo_issued = (demo_issued, Inr [demo_record])"
    by (simp add: pending_jobs_def query_def demo_issued_def empty_store_def job_row_of_def demo_record_def demo_job_def demo_identity_def
      confirmed_def order_by_def)
  have ask: "ask_authority demo_denv demo_service ?W 1 (S ''a'') (S ''o'') (demo_issued, ?r) = ((demo_issued, ?r), Inr demo_authority)"
  proof -
    have "readerToken demo_mcfg net 0 ?r = (?r, Inr (S ''tok''))" "readerToken demo_mcfg net 0 demo_tokened = (demo_tokened, Inr (S ''tok''))" for net
      by (simp_all add: readerToken_def token_live_def demo_tokened_def)
    then show ?thesis using demo_asks_authority [of "\<lambda>_. 200" 1 demo_issued]
      by (auto simp: ask_authority_def on_reader_def authority_of_def demo_service_def demo_world_def judge_def split: reply.splits option.splits if_splits)
  qed
  have org: "id_organization demo_identity = S ''o''" "av_subject (jb_approved_by (sj_job demo_record)) = S ''a''"
      "sj_compact demo_record = demo_token" "sj_authority demo_record = demo_authority"
    by (simp_all add: demo_identity_def demo_record_def demo_job_def)
  have W: "jw_now ?W k = 200" "jw_flt ?W k = (\<lambda>_. None)" "jw_dbclk ?W k = (\<lambda>_. 200000)" "jt_kid (js_trust demo_service) = S ''k1''" for k
    by (simp_all add: demo_world_def demo_service_def demo_trust_def)
  obtain vj where "check_job demo_denv demo_service demo_token demo_identity 200 = Inr vj" using demo_checked by blast
  then have "deliver_one demo_denv demo_service ?W demo_identity 1 demo_record (demo_issued, ?r) = ((demo_issued, ?r), Inr True)"
    using ask by (simp add: deliver_one_def bindQ_def retQ_def org W)
  then have p: "pending demo_denv demo_service ?W demo_identity (demo_issued, demo_tokened) = ((demo_issued, ?r), Inr [demo_token])"
    using rows by (simp add: pending_def bindQ_def retQ_def demo_asks_device on_store_def W org)
  have "ds_jobs demo_issued = [job_row_of (S ''i'') (S ''t'') (S ''o'') (S ''q1'') (replicate 64 97) 100000 demo_record]"
    by (simp add: demo_issued_def)
  then have "deliverable demo_denv demo_service ?W demo_identity demo_record"
    using pending_deliveries [OF p] by (simp add: job_row_of_def)
  with p show ?thesis by blast
qed

theorem job_issued_once_witness:
  "\<exists>s. issue_job (\<lambda>_. None) (\<lambda>_. 7) (S ''i'') (S ''t'') (S ''o'') (S ''q1'') (S ''h'') (\<lambda>_. Inr demo_record) empty_store = (s, Inr demo_record)
     \<and> issue_job (\<lambda>_. None) (\<lambda>_. 9) (S ''i'') (S ''t'') (S ''o'') (S ''q1'') (S ''h'') (\<lambda>_. Inl zod_error) s = (s, Inr demo_record)"
proof -
  obtain s where a: "issue_job (\<lambda>_. None) (\<lambda>_. 7) (S ''i'') (S ''t'') (S ''o'') (S ''q1'') (S ''h'') (\<lambda>_. Inr demo_record) empty_store = (s, Inr demo_record)"
    by (simp add: issue_job_def transaction_def issue_body_def bindQ_def query_def retQ_def commit_def empty_store_def insert_job_def)
  have "in_time 0 8 (\<lambda>_. 7)" by (simp add: in_time_def)
  from job_issued_once [OF trace_nil a this trace_nil, of "\<lambda>_. 9" "S ''h''" "\<lambda>_. Inl zod_error"] a
  show ?thesis by (auto simp: demo_record_def demo_job_def)
qed

theorem issued_job_justified_witness:
  "\<exists>s. issue demo_denv demo_service (demo_world (\<lambda>k. if k = 1 then 50 else 200)) demo_manager demo_job_request (demo_issued, demo_tokened)
       = (s, Inr demo_record) \<and> request_schema demo_job_request"
proof -
  let ?W = "demo_world (\<lambda>k. if k = 1 then 50 else 200)" and ?r = "demo_tokened\<lparr>ir_cache := [(identity_key demo_denv demo_identity, 0)]\<rparr>"
  have schema: "request_schema demo_job_request" by code_simp
  have req: "text_of (prop_of demo_job_request ''organization_id'') = S ''o''" "text_of (prop_of demo_job_request ''device_id'') = S ''d''"
      "text_of (prop_of demo_job_request ''request_id'') = S ''q1''" "prop_of demo_job_request ''policy_revision'' = JNum (NInt 7)"
    by (simp_all add: demo_job_request_def prop_of_def fields_of_def text_of_def S_def)
  have man: "text_of (gs_subject demo_manager) = S ''a''" "of_tenant demo_service demo_manager" "session_current demo_manager demo_authority"
    by (simp_all add: demo_manager_def text_of_def of_tenant_def demo_service_def demo_mcfg_def session_current_def demo_authority_def string_of_def
      dec_int_def dec_nat.simps S_def)
  have target: "target_report (\<lambda>_. None) (S ''i'') (S ''t'') (S ''o'') (S ''d'') demo_issued = (demo_issued, Inr (Some demo_ready))"
    by (simp add: target_report_def query_def demo_issued_def demo_ready_def demo_identity_def List.map_filter_def)
  have ready: "ready demo_denv 50 demo_job_request demo_ready" "is_target demo_service demo_job_request demo_identity"
      "st_identity demo_ready = demo_identity"
    by (simp_all add: ready_def is_fresh_def fresh_age_def date_parse_def demo_denv_def demo_ready_def demo_report_def req is_target_def
      demo_service_def demo_mcfg_def demo_identity_def)
  have W: "jw_now ?W 1 = 50" "jw_now ?W 3 = 200" "jw_flt ?W k = (\<lambda>_. None)" "jw_dbclk ?W k = (\<lambda>_. 200000)" "jt_kid (js_trust demo_service) = S ''k1''"
      "mc_issuer (js_cfg demo_service) = S ''i''" "mc_tenant (js_cfg demo_service) = S ''t''" for k
    by (simp_all add: demo_world_def demo_service_def demo_trust_def demo_mcfg_def)
  have h: "request_hash demo_denv demo_job_request sub demo_identity = replicate 64 97" for sub
    by (simp add: request_hash_def demo_denv_def)
  have job: "issue_job (\<lambda>_. None) (\<lambda>_. 200000) (S ''i'') (S ''t'') (S ''o'') (S ''q1'') (replicate 64 97) b demo_issued = (demo_issued, Inr demo_record)" for b
    using demo_job_rows by (simp add: issue_job_def transaction_def issue_body_def bindQ_def query_def retQ_def commit_def demo_issued_def)
      (simp add: job_row_of_def)
  obtain vj where c: "check_job demo_denv demo_service demo_token demo_identity 200 = Inr vj" using demo_checked by blast
  have rec: "sj_kid demo_record = S ''k1''" "sj_compact demo_record = demo_token" by (simp_all add: demo_record_def)
  have "issue_for demo_denv demo_service ?W (S ''a'') demo_job_request demo_authority demo_identity (demo_issued, ?r) = ((demo_issued, ?r), Inr demo_record)"
    using job c by (simp add: issue_for_def bindQ_def retQ_def on_store_def W req h rec)
  then have "issue_on_target demo_denv demo_service ?W (S ''a'') demo_job_request demo_authority (Some demo_ready) (demo_issued, demo_tokened)
      = ((demo_issued, ?r), Inr demo_record)"
    using ready by (simp add: issue_on_target_def bindQ_def demo_asks_device W)
  then have "issue demo_denv demo_service ?W demo_manager demo_job_request (demo_issued, demo_tokened) = ((demo_issued, ?r), Inr demo_record)"
    using schema man target by (simp add: issue_def issue_checked_def bindQ_def demo_asks_authority req on_store_def W)
  then show ?thesis using issued_job_justified by blast
qed

end
