(* ===== verification/DaemonRoutes.thy ===== *)
theory DaemonRoutes
  imports JobService
begin

text \<open>
  The HTTP routes of daemon management (\<open>routes.ts\<close> and \<open>jobs/routes.ts\<close> under \<open>src/daemonManagement\<close>):
  reports and pending jobs for devices, devices and jobs for browser sessions. A header is absent or a
  text, a body is any JSON value. \<open>resolve\<close> finds the session of an identifier or fails.
\<close>

section \<open>Replies\<close>

record response =
  rp_status :: int
  rp_headers :: "(string \<times> jstr) list"
  rp_body :: jv

definition no_store :: "string \<times> jstr" where
  "no_store = (''cache-control'', S ''no-store'')"

definition error_body :: "jstr \<Rightarrow> jv" where
  "error_body code = JObj [(S ''error'', JStr code)]"

text \<open>Every error that is not a management error is reported as unavailable.\<close>

fun failure :: "daemon_error \<Rightarrow> response" where
  "failure (ManagementError status code nonce) = \<lparr>rp_status = status,
     rp_headers = [no_store] @ (if status = 401 then [(''www-authenticate'', S ''DPoP error='' @ [34] @ code @ [34])] else [])
       @ (case nonce of Some n \<Rightarrow> if n \<noteq> [] then [(''dpop-nonce'', n)] else [] | None \<Rightarrow> []),
     rp_body = error_body code\<rparr>"
| "failure (OtherError e) = \<lparr>rp_status = 503, rp_headers = [no_store], rp_body = error_body (S ''authorization_state_unavailable'')\<rparr>"

definition reply_with :: "int \<Rightarrow> jv \<Rightarrow> response" where
  "reply_with status v = \<lparr>rp_status = status, rp_headers = [no_store], rp_body = v\<rparr>"

definition respond :: "('a \<Rightarrow> response) \<Rightarrow> (dstore \<times> iam_reader, daemon_error, 'a) stm \<Rightarrow> dstore \<times> iam_reader \<Rightarrow> (dstore \<times> iam_reader) \<times> response" where
  "respond f m s = (case m s of (s', Inl e) \<Rightarrow> (s', failure e) | (s', Inr x) \<Rightarrow> (s', f x))"

section \<open>Reports\<close>

definition receipt_json :: "receipt \<Rightarrow> jv" where
  "receipt_json r = JObj [(S ''report_id'', JStr (rt_report_id r)), (S ''sequence'', JNum (NInt (rt_sequence r))), (S ''received_at'', JStr (rt_received_at r))]"

definition header_value :: "jstr option \<Rightarrow> jv" where
  "header_value h = (case h of None \<Rightarrow> JUndef | Some s \<Rightarrow> JStr s)"

record daemon_gate =
  dg_jose :: jose
  dg_cfg :: management_config
  dg_calls :: store_calls
  dg_now_ms :: int
  dg_net :: "http_request \<Rightarrow> reply"
  dg_clk :: "nat \<Rightarrow> rat"

definition admit_device :: "daemon_env \<Rightarrow> daemon_gate \<Rightarrow> jstr option \<Rightarrow> jstr option \<Rightarrow> purpose \<Rightarrow> device_identity jsm" where
  "admit_device E G authorization dpop u = on_store (verify_request E (dg_jose G) (dg_cfg G) (dg_calls G) (dg_now_ms G)
     (header_value authorization) (header_value dpop) u)"

definition read_body_report :: "daemon_env \<Rightarrow> int \<Rightarrow> jv \<Rightarrow> daemon_error + report" where
  "read_body_report E now_ms body = (case parse_report E body of
      None \<Rightarrow> Inl (mgmt_error 400 ''invalid_report'')
    | Some rp \<Rightarrow> if now_ms + 5000 < date_parse E (rp_observed_at rp) then Inl (mgmt_error 400 ''invalid_report'') else Inr rp)"

definition submit_report :: "daemon_env \<Rightarrow> daemon_gate \<Rightarrow> dfaults \<Rightarrow> (nat \<Rightarrow> int) \<Rightarrow> jstr option \<Rightarrow> jstr option \<Rightarrow> jv \<Rightarrow> receipt jsm" where
  "submit_report E G flt dbclk authorization dpop body =
     bindQ (admit_device E G authorization dpop For_report) (\<lambda>i.
     bindQ (on_reader (authorize E (dg_cfg G) 15000 (dg_net G) (dg_clk G) i)) (\<lambda>_.
     (case read_body_report E (dg_now_ms G) body of
        Inl e \<Rightarrow> throwQ e
      | Inr rp \<Rightarrow> on_store (accept_report E flt dbclk i rp))))"

definition report_route :: "daemon_env \<Rightarrow> daemon_gate \<Rightarrow> dfaults \<Rightarrow> (nat \<Rightarrow> int) \<Rightarrow> jstr option \<Rightarrow> jstr option \<Rightarrow> jv \<Rightarrow>
    dstore \<times> iam_reader \<Rightarrow> (dstore \<times> iam_reader) \<times> response" where
  "report_route E G flt dbclk authorization dpop body =
     respond (\<lambda>r. reply_with 202 (receipt_json r)) (submit_report E G flt dbclk authorization dpop body)"

section \<open>Devices\<close>

record device_view =
  dv_record :: stored_report
  dv_authorization :: jstr
  dv_fresh :: bool

definition authorization_text :: "daemon_error + unit \<Rightarrow> jstr" where
  "authorization_text r = (case r of Inr _ \<Rightarrow> S ''authorized''
     | Inl (ManagementError status _ _) \<Rightarrow> if status = 403 then S ''denied'' else S ''unknown''
     | Inl (OtherError _) \<Rightarrow> S ''unknown'')"

text \<open>The devices are asked one after the other here; the source starts all calls at once.\<close>

fun view_devices :: "daemon_env \<Rightarrow> management_config \<Rightarrow> (nat \<Rightarrow> http_request \<Rightarrow> reply) \<Rightarrow> (nat \<Rightarrow> nat \<Rightarrow> rat) \<Rightarrow> int \<Rightarrow> nat \<Rightarrow>
    stored_report list \<Rightarrow> device_view list jsm" where
  "view_devices E cfg net clk now_ms k [] = retQ []"
| "view_devices E cfg net clk now_ms k (r # rs) = (\<lambda>s.
     case on_reader (authorize E cfg 15000 (net k) (clk k) (st_identity r)) s of (s', x) \<Rightarrow>
       bindQ (view_devices E cfg net clk now_ms (Suc k) rs)
         (\<lambda>vs. retQ (\<lparr>dv_record = r, dv_authorization = authorization_text x, dv_fresh = is_fresh E r now_ms\<rparr> # vs)) s')"

definition session_cookies :: "jstr option \<Rightarrow> jstr list" where
  "session_cookies h = (case h of None \<Rightarrow> []
     | Some c \<Rightarrow> filter (\<lambda>p. startsWith p (S ''tg_session='')) (map trim (split_units 59 c)))"

type_synonym resolver = "jstr \<Rightarrow> daemon_error + gateway_session option"

definition first_session :: "resolver \<Rightarrow> jstr option \<Rightarrow> daemon_error + gateway_session option" where
  "first_session resolve cookie = (case session_cookies cookie of
      [] \<Rightarrow> Inr None
    | p # _ \<Rightarrow> (let raw = slice_from p 11 in
        if raw = [] then Inr None
        else (case decodeURIComponent raw of Inl e \<Rightarrow> Inl (OtherError e) | Inr i \<Rightarrow> resolve i)))"

definition devices_route :: "daemon_env \<Rightarrow> management_config \<Rightarrow> resolver \<Rightarrow> dfaults \<Rightarrow> (nat \<Rightarrow> http_request \<Rightarrow> reply) \<Rightarrow> (nat \<Rightarrow> nat \<Rightarrow> rat) \<Rightarrow>
    int \<Rightarrow> jstr option \<Rightarrow> dstore \<times> iam_reader \<Rightarrow> (dstore \<times> iam_reader) \<times> (int + device_view list)" where
  "devices_route E cfg resolve flt net clk now_ms cookie s =
     (case first_session resolve cookie of
        Inl _ \<Rightarrow> (s, Inl 503)
      | Inr None \<Rightarrow> (s, Inl 401)
      | Inr (Some ss) \<Rightarrow>
          if gs_tenantId ss \<noteq> JStr (mc_tenant cfg) then (s, Inl 401)
          else (case bindQ (on_store (list_reports flt (mc_issuer cfg) (mc_tenant cfg) (text_of (gs_subject ss))))
              (view_devices E cfg net clk now_ms 0) s of
            (s', Inl _) \<Rightarrow> (s', Inl 503)
          | (s', Inr vs) \<Rightarrow> (s', Inr vs)))"

section \<open>Jobs\<close>

definition unauthorized :: daemon_error where
  "unauthorized = mgmt_error 401 ''unauthorized''"

definition one_session :: "resolver \<Rightarrow> jstr option \<Rightarrow> daemon_error + gateway_session" where
  "one_session resolve cookie = (case session_cookies cookie of
      [p] \<Rightarrow> (case decodeURIComponent (slice_from p 11) of
          Inl _ \<Rightarrow> Inl unauthorized
        | Inr i \<Rightarrow> bindE (resolve i) (\<lambda>r. case r of None \<Rightarrow> Inl unauthorized | Some ss \<Rightarrow> Inr ss))
    | _ \<Rightarrow> Inl unauthorized)"

text \<open>\<open>origin_of\<close> is \<open>new URL(config.resource).origin\<close>.\<close>

definition same_origin :: "jstr \<Rightarrow> jstr option \<Rightarrow> jstr option \<Rightarrow> bool" where
  "same_origin own origin requested_with \<longleftrightarrow> origin = Some own \<and> requested_with = Some (S ''tools-gateway'')"

definition issued_json :: "stored_job \<Rightarrow> jv" where
  "issued_json r = JObj [(S ''schema_version'', JNum (NInt 1)), (S ''job_id'', JStr (jb_job_id (sj_job r))),
     (S ''authorization_id'', JStr (av_authorization_id (jb_approved_by (sj_job r)))), (S ''status'', JStr (S ''queued'')),
     (S ''expires_at'', JNum (NInt (jb_exp (sj_job r))))]"

definition submit_job :: "daemon_env \<Rightarrow> job_service \<Rightarrow> job_world \<Rightarrow> resolver \<Rightarrow> jstr \<Rightarrow> jstr option \<Rightarrow> jstr option \<Rightarrow> jstr option \<Rightarrow> jv \<Rightarrow> stored_job jsm" where
  "submit_job E V W resolve own origin requested_with cookie body =
     (if \<not> same_origin own origin requested_with then throwQ (mgmt_error 403 ''csrf_rejected'')
      else (case one_session resolve cookie of Inl e \<Rightarrow> throwQ e | Inr ss \<Rightarrow> issue E V W ss body))"

definition issue_route :: "daemon_env \<Rightarrow> job_service \<Rightarrow> job_world \<Rightarrow> resolver \<Rightarrow> jstr \<Rightarrow> jstr option \<Rightarrow> jstr option \<Rightarrow> jstr option \<Rightarrow> jv \<Rightarrow>
    dstore \<times> iam_reader \<Rightarrow> (dstore \<times> iam_reader) \<times> response" where
  "issue_route E V W resolve own origin requested_with cookie body =
     respond (\<lambda>r. reply_with 202 (issued_json r)) (submit_job E V W resolve own origin requested_with cookie body)"

text \<open>The query is its list of names with texts; a repeated name is an array in the source.\<close>

datatype query_value = One jstr | Several

definition organization_query :: "(jstr \<times> query_value) list \<Rightarrow> daemon_error + jstr option" where
  "organization_query q = (if list_ex (\<lambda>(k, v). k \<noteq> S ''organization_id'') q then Inl (mgmt_error 400 ''invalid_job_request'')
     else (case map_of q (S ''organization_id'') of
        None \<Rightarrow> Inr None | Some (One s) \<Rightarrow> Inr (Some s) | Some Several \<Rightarrow> Inl (mgmt_error 400 ''invalid_job_request'')))"

definition list_route :: "daemon_env \<Rightarrow> job_service \<Rightarrow> job_world \<Rightarrow> resolver \<Rightarrow> (jstr \<times> query_value) list \<Rightarrow> jstr option \<Rightarrow>
    dstore \<times> iam_reader \<Rightarrow> (dstore \<times> iam_reader) \<times> (response + job_view list)" where
  "list_route E V W resolve q cookie s =
     (case bindE (organization_query q) (\<lambda>g. bindE (one_session resolve cookie) (\<lambda>ss. Inr (g, ss))) of
        Inl e \<Rightarrow> (s, Inl (failure e))
      | Inr (g, ss) \<Rightarrow> (case list_views E V W ss g s of (s', Inl e) \<Rightarrow> (s', Inl (failure e)) | (s', Inr vs) \<Rightarrow> (s', Inr vs)))"

definition fetch_pending :: "daemon_env \<Rightarrow> daemon_gate \<Rightarrow> job_service \<Rightarrow> job_world \<Rightarrow> (jstr \<times> query_value) list \<Rightarrow> jstr option \<Rightarrow> jstr option \<Rightarrow> jstr list jsm" where
  "fetch_pending E G V W q authorization dpop =
     (if q \<noteq> [] then throwQ (mgmt_error 400 ''invalid_request'')
      else bindQ (admit_device E G authorization dpop For_jobs) (pending E V W))"

definition pending_route :: "daemon_env \<Rightarrow> daemon_gate \<Rightarrow> job_service \<Rightarrow> job_world \<Rightarrow> (jstr \<times> query_value) list \<Rightarrow> jstr option \<Rightarrow> jstr option \<Rightarrow>
    dstore \<times> iam_reader \<Rightarrow> (dstore \<times> iam_reader) \<times> response" where
  "pending_route E G V W q authorization dpop =
     respond (\<lambda>out. reply_with 200 (JObj [(S ''schema_version'', JNum (NInt 1)), (S ''jobs'', JArr (map JStr out))]))
       (fetch_pending E G V W q authorization dpop)"

section \<open>An accepted report\<close>

lemma verify_request_parts:
  assumes "verify_request E J cfg C now_ms authorization rawProof u s = (s', Inr i)"
  obtains a p where "authorization = JStr a" "verify_token J cfg now_ms (slice_from a 5) u = Inr i"
    "verify_proof E J cfg (now_ms div 1000) (slice_from a 5) rawProof u i = Inr p"
  using assms by (auto simp: verify_request_def Let_def throwQ_def bindQ_Inr_iff retQ_Inr_iff is_text_def text_of_def split: if_splits sum.splits jv.splits)

lemma proof_steps_ok:
  assumes "take_proof now k s = (s1, Inr b)" and "clean_proofs now' s1 = (s2, Inr ())" and "store_ok E s"
  shows "store_ok E s2"
proof -
  have "dstep E (now, s) (Took now k b) (now, s1)" using assms(1) by (rule step_take) simp
  then have "store_ok E s1" using dstep_facts assms(3) by fastforce
  moreover have "dstep E (now', s1) Cleaned (now', s2)" using assms(2) by (rule step_clean) simp
  ultimately show ?thesis using dstep_facts by fastforce
qed

lemma accept_store_ok:
  assumes "accept_report E flt clk i rp s = (s', r)" and "store_ok E s"
  shows "store_ok E s'"
proof -
  have ok: "reports_ok E s" "jobs_ok s" "results_ok E s" using assms(2) by (simp_all add: store_ok_def)
  from assms(1) ok(3) show ?thesis
  proof (cases rule: accept_cases)
    case (failed e)
    then show ?thesis using assms(2) by simp
  next
    case (repeated prior h)
    then show ?thesis using with_head_ok [OF ok(1)] ok(2,3) by (simp add: store_ok_def jobs_ok_def results_ok_def)
  next
    case (fresh rt h R)
    have "reports_ok E s'" unfolding fresh(2) using ok(1) fresh(3-8) by (rule accepted_state_ok)
    moreover have "ds_jobs s' = ds_jobs s" "ds_results s' = R" by (simp_all add: fresh(2) accepted_state_def update_head_def)
    ultimately show ?thesis using ok(2) fresh(9) by (simp add: store_ok_def jobs_ok_def results_ok_def)
  qed
qed

text \<open>
  C5. A report is accepted only from its device: the access token and the proof of possession verify for one
  identity, the proof had not been used, the identity service stands behind that identity, and what is
  stored, under that device, is the well-formed report of the body with the receipt that is returned;
  the tables stay consistent.
\<close>

theorem accepted_report_authentic:
  assumes "submit_report E G flt dbclk authorization dpop body s = (s', Inr rt)" and "store_ok E (fst s)"
  shows "\<exists>a raw i p rp s1. authorization = Some a \<and> dpop = Some raw
    \<and> verify_token (dg_jose G) (dg_cfg G) (dg_now_ms G) (slice_from a 5) For_report = Inr i
    \<and> verify_proof E (dg_jose G) (dg_cfg G) (dg_now_ms G div 1000) (slice_from a 5) (JStr raw) For_report i = Inr p
    \<and> take_proof (snd (sc_consume (dg_calls G)) 0) (proof_key E (dg_jose G) (dg_cfg G) raw) (fst s) = (s1, Inr True)
    \<and> snd (authorize E (dg_cfg G) 15000 (dg_net G) (dg_clk G) i (snd s)) = Inr ()
    \<and> parse_report E body = Some rp \<and> date_parse E (rp_observed_at rp) \<le> dg_now_ms G + 5000
    \<and> recorded E i rp rt (fst s') \<and> store_ok E (fst s')"
proof -
  obtain sa sb i where adm: "verify_request E (dg_jose G) (dg_cfg G) (dg_calls G) (dg_now_ms G) (header_value authorization) (header_value dpop)
        For_report (fst s) = (fst sa, Inr i)" "snd sa = snd s"
      and dev: "authorize E (dg_cfg G) 15000 (dg_net G) (dg_clk G) i (snd sa) = (snd sb, Inr ())" "fst sb = fst sa"
      and rest: "(case read_body_report E (dg_now_ms G) body of Inl e \<Rightarrow> throwQ e | Inr rp \<Rightarrow> on_store (accept_report E flt dbclk i rp)) sb = (s', Inr rt)"
    using assms(1) unfolding submit_report_def bindQ_Inr_iff admit_device_def on_store_Inr on_reader_Inr by auto
  obtain rp where rp: "read_body_report E (dg_now_ms G) body = Inr rp" "accept_report E flt dbclk i rp (fst sb) = (fst s', Inr rt)"
    using rest by (auto simp: throwQ_def on_store_Inr split: sum.splits)
  have body: "parse_report E body = Some rp" "date_parse E (rp_observed_at rp) \<le> dg_now_ms G + 5000"
    using rp(1) by (auto simp: read_body_report_def split: option.splits if_splits)
  obtain a p where a: "header_value authorization = JStr a" "verify_token (dg_jose G) (dg_cfg G) (dg_now_ms G) (slice_from a 5) For_report = Inr i"
      "verify_proof E (dg_jose G) (dg_cfg G) (dg_now_ms G div 1000) (slice_from a 5) (header_value dpop) For_report i = Inr p"
    using adm(1) by (rule verify_request_parts)
  obtain raw s1 where raw: "header_value dpop = JStr raw"
      "take_proof (snd (sc_consume (dg_calls G)) 0) (proof_key E (dg_jose G) (dg_cfg G) raw) (fst s) = (s1, Inr True)"
      "clean_proofs (snd (sc_consume (dg_calls G)) 1) s1 = (fst sa, Inr ())"
    using adm(1) by (rule verify_request_takes)
  have h: "authorization = Some a" "dpop = Some raw" using a(1) raw(1) by (simp_all add: header_value_def split: option.splits)
  have ok: "store_ok E (fst sb)" using proof_steps_ok [OF raw(2,3) assms(2)] dev(2) by simp
  have rec: "recorded E i rp rt (fst s')" using rp(2) ok by (rule accept_records)
  have ok': "store_ok E (fst s')" using rp(2) ok by (rule accept_store_ok)
  show ?thesis
    using h a(2,3) raw(1,2) dev(1) adm(2) body rec ok' by auto
qed

definition demo_gate :: daemon_gate where
  "demo_gate = \<lparr>dg_jose = demo_jose, dg_cfg = demo_mcfg, dg_calls = demo_calls, dg_now_ms = 1000000,
     dg_net = (\<lambda>_. No_reply), dg_clk = (\<lambda>_. 5000)\<rparr>"

definition demo_status_report :: jv where
  "demo_status_report = JObj [(S ''schema_version'', JNum (NInt 1)), (S ''report_id'', JStr (S ''r1'')), (S ''sequence'', JNum (NInt 5)),
     (S ''observed_at'', JStr (S ''x'')), (S ''status'', JObj [(S ''connection'', JStr (S ''connected''))])]"

definition demo_warm :: iam_reader where
  "demo_warm = \<lparr>ir_token = None, ir_cache = [(identity_key demo_short (identity_of demo_mcfg demo_claims), 0)]\<rparr>"

lemma accept_first:
  "ds_heads s = [] \<Longrightarrow> ds_reports s = [] \<Longrightarrow> rp_job_results rp = [] \<Longrightarrow> 0 < rp_sequence rp \<Longrightarrow>
    \<exists>s' rt. accept_report E (\<lambda>_. None) clk i rp s = (s', Inr rt)"
  by (simp add: accept_report_def transaction_Inr_iff accept_body_def bindQ_def query_def insert_head_def select_head_def
    select_duplicates_def accept_new_def insert_report_def update_head_def commit_def retQ_def)

theorem accepted_report_authentic_witness:
  "\<exists>s rt. submit_report demo_short demo_gate (\<lambda>_. None) (\<lambda>_. 7) (Some (S ''DPoP t'')) (Some (S ''p'')) demo_status_report (demo_dstore, demo_warm)
       = (s, Inr rt) \<and> store_ok demo_short (fst s)"
proof -
  let ?i = "identity_of demo_mcfg demo_claims"
  obtain s1 where v: "verify_request demo_short demo_jose demo_mcfg demo_calls 1000000 (JStr (S ''DPoP t'')) (JStr (S ''p'')) For_report demo_dstore
      = (s1, Inr ?i)" using demo_request_ok by (auto simp: demo_request_def)
  have steps: "\<exists>sx. take_proof (snd (sc_consume demo_calls) 0) (proof_key demo_short demo_jose demo_mcfg (S ''p'')) demo_dstore = (sx, Inr True)
      \<and> clean_proofs (snd (sc_consume demo_calls) 1) sx = (s1, Inr ())"
    using v by (rule verify_request_takes) blast
  then have empty: "ds_heads s1 = []" "ds_reports s1 = []"
    by (auto simp: clean_proofs_def demo_dstore_def empty_store_def dest!: take_proof_shape)
  have schema: "report_schema demo_short demo_status_report" by code_simp
  have rp: "parse_report demo_short demo_status_report = Some (read_report demo_status_report)" using schema by (simp add: parse_report_def)
  have fields: "rp_job_results (read_report demo_status_report) = []" "rp_sequence (read_report demo_status_report) = 5"
      "rp_observed_at (read_report demo_status_report) = S ''x''"
    by (simp_all add: read_report_def demo_status_report_def Let_def prop_of_def fields_of_def elements_of_def int_of_def text_of_def S_def)
  have body: "read_body_report demo_short 1000000 demo_status_report = Inr (read_report demo_status_report)"
  proof -
    have "date_parse demo_short (S ''x'') = 0" by (simp add: date_parse_def demo_short_def demo_denv_def)
    then show ?thesis by (simp add: read_body_report_def rp fields)
  qed
  have dev: "authorize demo_short demo_mcfg 15000 (\<lambda>_. No_reply) (\<lambda>_. 5000) ?i demo_warm = (demo_warm, Inr ())"
    by (simp add: authorize_def look_def demo_warm_def)
  obtain s2 rt where acc: "accept_report demo_short (\<lambda>_. None) (\<lambda>_. 7) ?i (read_report demo_status_report) s1 = (s2, Inr rt)"
    using accept_first [of s1 "read_report demo_status_report" demo_short "\<lambda>_. 7" ?i] empty fields by auto
  have sub: "submit_report demo_short demo_gate (\<lambda>_. None) (\<lambda>_. 7) (Some (S ''DPoP t'')) (Some (S ''p'')) demo_status_report (demo_dstore, demo_warm)
      = ((s2, demo_warm), Inr rt)"
    using v dev body acc by (simp add: submit_report_def bindQ_def admit_device_def on_store_def on_reader_def demo_gate_def header_value_def)
  have "store_ok demo_short demo_dstore"
    by (simp add: demo_dstore_def empty_store_def store_ok_def reports_ok_def jobs_ok_def results_ok_def)
  then show ?thesis using accepted_report_authentic [OF sub] sub by auto
qed

end
