(* ===== verification/McpOAuth.thy ===== *)
theory McpOAuth
  imports OAuthSession LocalUser
begin

text \<open>
  The verifier of MCP access tokens (\<open>src/auth/mcpOAuthVerifier.ts\<close>): the claims, the service access
  state of the subject, the admission as a local user, and the principal with the patterns granted in
  the database. Any failure means no principal. \<open>oe_jwt\<close> is \<open>jwtVerify\<close> for the issuer and resource of
  the configuration.
\<close>

section \<open>The code\<close>

record mcp_config =
  mo_resource :: jstr
  mo_resourceMetadataUrl :: jstr
  mo_authorizationServer :: jstr
  mo_tenantId :: jstr
  mo_serviceAccessClientId :: "jstr option"
  mo_requiredScope :: jstr
  mo_enforcement :: bool

text \<open>\<open>split(/\\s+/)\<close>.\<close>

function split_spaces :: "jstr \<Rightarrow> jstr list" where
  "split_spaces [] = [[]]"
| "split_spaces (c # s) = (if is_space c then [] # split_spaces (dropWhile is_space s)
     else (case split_spaces s of [] \<Rightarrow> [[c]] | t # ts \<Rightarrow> (c # t) # ts))"
  by pat_completeness auto
termination by (relation "measure length") (auto simp: le_imp_less_Suc length_dropWhile_le)

definition hasScope :: "jv \<Rightarrow> jstr \<Rightarrow> bool" where
  "hasScope claim required = is_text (\<lambda>s. required \<in> set (split_spaces s)) claim"

definition nonempty_text :: "jv \<Rightarrow> bool" where
  "nonempty_text = is_text (\<lambda>s. s \<noteq> [])"

definition mcp_claims_ok :: "mcp_config \<Rightarrow> jv \<Rightarrow> bool" where
  "mcp_claims_ok cfg p \<longleftrightarrow> prop_of p ''tenant_id'' = JStr (mo_tenantId cfg) \<and> nonempty_text (prop_of p ''sub'')
     \<and> nonempty_text (prop_of p ''email'') \<and> hasScope (prop_of p ''scope'') (mo_requiredScope cfg)"

definition access_client :: "mcp_config \<Rightarrow> jstr" where
  "access_client cfg = (case mo_serviceAccessClientId cfg of Some c \<Rightarrow> c | None \<Rightarrow> S ''tools-gateway-service'')"

text \<open>The two statements of the service access check.\<close>

definition access_exact :: "db \<Rightarrow> jstr \<times> jstr \<times> jstr \<Rightarrow> int \<Rightarrow> bool" where
  "access_exact d k v = (case access_states d k of None \<Rightarrow> False | Some a \<Rightarrow> as_status a = ACCESS_ACTIVE \<and> as_access_version a = v)"

definition check_access :: "oauth_env \<Rightarrow> mcp_config \<Rightarrow> faults \<Rightarrow> int \<Rightarrow> jv \<Rightarrow> bool dbm" where
  "check_access E cfg flt now p = (if \<not> mo_enforcement cfg then retQ True
     else (case version_claim E (prop_of p ''service_access_version'') of
        None \<Rightarrow> retQ False
      | Some v \<Rightarrow> bindQ (query flt 0 (\<lambda>d. (d, Inr (healthy now (access_last_seen d))))) (\<lambda>alive.
          if \<not> alive then retQ False
          else query flt 1 (\<lambda>d. (d, Inr (access_exact d (mo_tenantId cfg, text_of (prop_of p ''sub''), access_client cfg) v))))))"

definition mcp_identity :: "oauth_env \<Rightarrow> mcp_config \<Rightarrow> int \<Rightarrow> jv \<Rightarrow> identity" where
  "mcp_identity E cfg version p = \<lparr>vi_tenantId = text_of (prop_of p ''tenant_id''), vi_subject = text_of (prop_of p ''sub''),
     vi_email = text_of (prop_of p ''email''),
     vi_name = (if nonempty_text (prop_of p ''name'') then Some (text_of (prop_of p ''name'')) else None),
     vi_userVersion = JNum (NInt version),
     vi_serviceAccessVersion = (if mo_enforcement cfg then JNum (to_number E (prop_of p ''service_access_version'')) else JUndef)\<rparr>"

definition mcp_local_cfg :: "mcp_config \<Rightarrow> local_cfg" where
  "mcp_local_cfg cfg = \<lparr>lu_tenantId = mo_tenantId cfg, lu_enforcement = mo_enforcement cfg, lu_clientId = access_client cfg\<rparr>"

definition granted_patterns :: "db \<Rightarrow> jstr \<Rightarrow> jstr list" where
  "granted_patterns d uid = remdups (map tp_tool_pattern (filter (\<lambda>p. tp_user_id p = uid) (user_tool_permissions d)))
     @ remdups (map (\<lambda>m. m_tool_prefix m @ S ''.*'') (filter (\<lambda>m. m_user_id m = uid \<and> m_is_enabled m) (user_mcp_upstreams d)))"

definition mcp_principal :: "jstr \<Rightarrow> db \<Rightarrow> principal option" where
  "mcp_principal uid d = (case filter (\<lambda>u. u_id u = uid \<and> u_is_active u \<and> u_lifecycle_status u = ACTIVE) (users d) of
      [] \<Rightarrow> None
    | u # _ \<Rightarrow> Some \<lparr>p_userId = u_id u, p_apiKeyId = None, p_systemRole = u_system_role u,
        p_scopes = map (\<lambda>t. S ''tool:'' @ t) (granted_patterns d uid), p_toolPatterns = granted_patterns d uid\<rparr>)"

definition admit_token :: "oauth_env \<Rightarrow> mcp_config \<Rightarrow> faults \<Rightarrow> faults \<Rightarrow> (nat \<Rightarrow> int) \<Rightarrow> jstr \<Rightarrow> jv \<Rightarrow> principal option dbm" where
  "admit_token E cfg flt lflt clk uuid p =
     (if \<not> mcp_claims_ok cfg p then retQ None
      else (case version_claim E (nullish (prop_of p ''user_version'') (JNum (NInt 1))) of
          None \<Rightarrow> retQ None
        | Some v \<Rightarrow> bindQ (check_access E cfg flt (clk 0) p) (\<lambda>ok.
            if \<not> ok then retQ None
            else bindQ (ensureLocalUser (mcp_local_cfg cfg) lflt (clk 1) uuid (mcp_identity E cfg v p)) (\<lambda>uid.
              query flt 2 (\<lambda>d. (d, Inr (mcp_principal uid d)))))))"

definition mcp_verify :: "oauth_env \<Rightarrow> mcp_config \<Rightarrow> faults \<Rightarrow> faults \<Rightarrow> (nat \<Rightarrow> int) \<Rightarrow> jstr \<Rightarrow> jstr \<Rightarrow> db \<Rightarrow> db \<times> principal option" where
  "mcp_verify E cfg flt lflt clk uuid rawToken d = (case oe_jwt E rawToken of
      Inl _ \<Rightarrow> (d, None)
    | Inr p \<Rightarrow> (case admit_token E cfg flt lflt clk uuid p d of (d', Inl _) \<Rightarrow> (d', None) | (d', Inr r) \<Rightarrow> (d', r)))"

section \<open>Who gets a principal\<close>

lemma ensure_active:
  assumes "ensureLocalUser cfg flt now uuid idn d = (d', Inr uid)"
  obtains ver aver u where "positive_version (vi_userVersion idn) = Some ver"
    "aver = (case positive_version (vi_serviceAccessVersion idn) of Some a \<Rightarrow> a | None \<Rightarrow> 0)"
    "admissible cfg now (vi_tenantId idn) (vi_subject idn) ver aver d"
    "u \<in> set (users d')" "u_id u = uid" "is_identity (vi_tenantId idn) (vi_subject idn) u" "u_is_active u" "u_lifecycle_status u = ACTIVE"
    "d' = d\<lparr>users := users d'\<rparr>"
proof -
  obtain ver aver where v: "vi_tenantId idn = lu_tenantId cfg" "positive_version (vi_userVersion idn) = Some ver"
    "aver = (case positive_version (vi_serviceAccessVersion idn) of Some a \<Rightarrow> a | None \<Rightarrow> 0)"
    and up: "upsert_user cfg now (local_id uuid) (vi_email idn)
        (case vi_name idn of Some n \<Rightarrow> n | None \<Rightarrow> vi_email idn) (vi_subject idn) (vi_tenantId idn) ver aver d = (d', Inr [uid])"
    using assms by (rule ensure_cases)
  from up show thesis
  proof (cases rule: upsert_user_Inr)
    case (1 u)
    let ?f = "\<lambda>r. if is_identity (vi_tenantId idn) (vi_subject idn) r
      then refresh_user (vi_email idn) (case vi_name idn of Some n \<Rightarrow> n | None \<Rightarrow> vi_email idn) ver r else r"
    have d': "d' = d\<lparr>users := map ?f (users d)\<rparr>" using 1(7) by (simp add: store_users_Inr)
    have "?f u \<in> set (users d')" using 1(2) by (simp add: d')
    moreover have "d' = d\<lparr>users := users d'\<rparr>" by (simp add: d')
    moreover have "u_id (?f u) = uid" "is_identity (vi_tenantId idn) (vi_subject idn) (?f u)" "u_is_active (?f u)" "u_lifecycle_status (?f u) = ACTIVE"
      using 1 by (simp_all add: refresh_user_def is_identity_def)
    ultimately show thesis using that [OF v(2,3) 1(1)] by blast
  next
    case 2
    let ?u = "new_user (local_id uuid) (vi_email idn) (case vi_name idn of Some n \<Rightarrow> n | None \<Rightarrow> vi_email idn) (vi_tenantId idn) (vi_subject idn) ver"
    have d': "d' = d\<lparr>users := users d @ [?u]\<rparr>" using 2(4) by (simp add: store_users_Inr)
    have "?u \<in> set (users d')" by (simp add: d')
    moreover have "d' = d\<lparr>users := users d'\<rparr>" by (simp add: d')
    moreover have "u_id ?u = uid" "is_identity (vi_tenantId idn) (vi_subject idn) ?u" "u_is_active ?u" "u_lifecycle_status ?u = ACTIVE"
      using 2(3) by (simp_all add: new_user_def is_identity_def)
    ultimately show thesis using that [OF v(2,3) 2(1)] by blast
  qed
qed

text \<open>
  C2. Whoever gets a principal from an MCP token is entitled to it: the token verified and carries the tenant,
  a subject and the required scope; the lifecycle consumer was alive and the subject is neither
  barred nor newer than the token there; where service access is enforced its consumer was alive and the
  subject's access is active at exactly the version of the token; the principal is an active local
  user of that identity, and its scopes are exactly the patterns granted to that user.
\<close>

theorem mcp_token_admission:
  assumes "mcp_verify E cfg flt lflt clk uuid tok d = (d', Some pr)"
  shows "\<exists>p sub v. oe_jwt E tok = Inr p \<and> prop_of p ''tenant_id'' = JStr (mo_tenantId cfg) \<and> prop_of p ''sub'' = JStr sub \<and> sub \<noteq> []
    \<and> (\<exists>sc. prop_of p ''scope'' = JStr sc \<and> mo_requiredScope cfg \<in> set (split_spaces sc))
    \<and> version_claim E (nullish (prop_of p ''user_version'') (JNum (NInt 1))) = Some v
    \<and> \<not> lifecycle_bars d (mo_tenantId cfg) sub v \<and> healthy (clk 1) (lifecycle_last_seen d)
    \<and> (mo_enforcement cfg \<longrightarrow> healthy (clk 0) (access_last_seen d)
        \<and> (\<exists>a s. version_claim E (prop_of p ''service_access_version'') = Some a
            \<and> access_states d (mo_tenantId cfg, sub, access_client cfg) = Some s \<and> as_status s = ACCESS_ACTIVE \<and> as_access_version s = a))
    \<and> (\<exists>u \<in> set (users d'). u_id u = p_userId pr \<and> is_identity (mo_tenantId cfg) sub u \<and> u_is_active u \<and> u_lifecycle_status u = ACTIVE)
    \<and> p_scopes pr = map (\<lambda>t. S ''tool:'' @ t) (granted_patterns d (p_userId pr)) \<and> p_toolPatterns pr = granted_patterns d (p_userId pr)"
proof -
  obtain p where p: "oe_jwt E tok = Inr p" "admit_token E cfg flt lflt clk uuid p d = (d', Inr (Some pr))"
    using assms by (auto simp: mcp_verify_def split: sum.splits prod.splits)
  then obtain v d1 uid where a: "mcp_claims_ok cfg p" "version_claim E (nullish (prop_of p ''user_version'') (JNum (NInt 1))) = Some v"
      "check_access E cfg flt (clk 0) p d = (d1, Inr True)"
      "ensureLocalUser (mcp_local_cfg cfg) lflt (clk 1) uuid (mcp_identity E cfg v p) d1 = (d', Inr uid)" "mcp_principal uid d' = Some pr"
    by (auto simp: admit_token_def bindQ_Inr_iff query_Inr_iff retQ_Inr_iff split: if_splits option.splits)
  obtain sub sc where c: "prop_of p ''tenant_id'' = JStr (mo_tenantId cfg)" "prop_of p ''sub'' = JStr sub" "sub \<noteq> []"
      "prop_of p ''scope'' = JStr sc" "mo_requiredScope cfg \<in> set (split_spaces sc)"
    using a(1) by (auto simp: mcp_claims_ok_def hasScope_def nonempty_text_def is_text_def split: jv.splits)
  have acc: "d1 = d" "mo_enforcement cfg \<longrightarrow> healthy (clk 0) (access_last_seen d)
        \<and> (\<exists>x s. version_claim E (prop_of p ''service_access_version'') = Some x
            \<and> access_states d (mo_tenantId cfg, sub, access_client cfg) = Some s \<and> as_status s = ACCESS_ACTIVE \<and> as_access_version s = x)"
    using a(3) by (auto simp: check_access_def bindQ_Inr_iff query_Inr_iff retQ_Inr_iff access_exact_def c(2) text_of_def split: if_splits option.splits)
  have idn: "vi_tenantId (mcp_identity E cfg v p) = mo_tenantId cfg" "vi_subject (mcp_identity E cfg v p) = sub"
      "vi_userVersion (mcp_identity E cfg v p) = JNum (NInt v)"
    by (simp_all add: mcp_identity_def c text_of_def)
  obtain ver aver u where u: "positive_version (JNum (NInt v)) = Some ver" "admissible (mcp_local_cfg cfg) (clk 1) (mo_tenantId cfg) sub ver aver d"
    "u \<in> set (users d')" "u_id u = uid" "is_identity (mo_tenantId cfg) sub u" "u_is_active u" "u_lifecycle_status u = ACTIVE"
    "d' = d\<lparr>users := users d'\<rparr>"
    using a(4) unfolding acc(1) by (rule ensure_active [where idn = "mcp_identity E cfg v p", unfolded idn])
  have v: "ver = v" using u(1) by (auto simp: positive_version_def split: if_splits)
  have pr: "p_userId pr = uid" "p_scopes pr = map (\<lambda>t. S ''tool:'' @ t) (granted_patterns d' uid)" "p_toolPatterns pr = granted_patterns d' uid"
    using a(5) by (auto simp: mcp_principal_def dest!: filter_eq_ConsD split: list.splits)
  have "granted_patterns d' uid = granted_patterns d uid" by (subst u(8)) (simp add: granted_patterns_def)
  then show ?thesis
    using p(1) c a(2) acc(2) u(2-7) pr by (intro exI [of _ p] exI [of _ sub] exI [of _ v]) (auto simp: v admissible_def)
qed

definition demo_mcp :: mcp_config where
  "demo_mcp = \<lparr>mo_resource = S ''g/mcp'', mo_resourceMetadataUrl = S ''g/meta'', mo_authorizationServer = S ''i'', mo_tenantId = S ''t1'',
     mo_serviceAccessClientId = None, mo_requiredScope = S ''mcp'', mo_enforcement = False\<rparr>"

definition demo_mcp_claims :: jv where
  "demo_mcp_claims = JObj [(S ''tenant_id'', JStr (S ''t1'')), (S ''sub'', JStr (S ''s1'')), (S ''email'', JStr (S ''x@b.c'')),
     (S ''scope'', JStr (S ''openid mcp'')), (S ''user_version'', JNum (NInt 4))]"

definition demo_menv :: oauth_env where
  "demo_menv = demo_oenv\<lparr>oe_jwt := (\<lambda>_. Inr demo_mcp_claims)\<rparr>"

lemma demo_mcp_admits:
  assumes e: "ensureLocalUser (mcp_local_cfg demo_mcp) no_faults 0 (S ''7'') (demo_idn ''s1'' 4) d0 = (d, Inr (S ''u1''))"
  shows "\<exists>pr. mcp_verify demo_menv demo_mcp no_faults no_faults (\<lambda>_. 0) (S ''7'') (S ''tok'') d0 = (d, Some pr) \<and> p_userId pr = S ''u1''"
proof -
  have v: "version_claim demo_menv (nullish (prop_of demo_mcp_claims ''user_version'') (JNum (NInt 1))) = Some 4"
    by (simp add: version_claim_def nullish_def demo_mcp_claims_def prop_of_def fields_of_def S_def to_number_def max_safe_integer_def)
  have idn: "mcp_identity demo_menv demo_mcp 4 demo_mcp_claims = demo_idn ''s1'' 4"
    by (simp add: mcp_identity_def demo_mcp_claims_def prop_of_def fields_of_def S_def text_of_def nonempty_text_def is_text_def demo_mcp_def demo_idn_def)
  from e obtain u where "u \<in> set (users d)" "u_id u = S ''u1''" "u_is_active u" "u_lifecycle_status u = ACTIVE"
    by (rule ensure_active)
  then have "filter (\<lambda>u. u_id u = S ''u1'' \<and> u_is_active u \<and> u_lifecycle_status u = ACTIVE) (users d) \<noteq> []"
    by (auto simp: filter_empty_conv)
  then obtain x xs where x: "filter (\<lambda>u. u_id u = S ''u1'' \<and> u_is_active u \<and> u_lifecycle_status u = ACTIVE) (users d) = x # xs"
    by (auto simp: neq_Nil_conv)
  have "\<forall>u \<in> set (x # xs). u_id u = S ''u1''" unfolding x [symmetric] by simp
  then have "u_id x = S ''u1''" by simp
  with x obtain pr where pr: "mcp_principal (S ''u1'') d = Some pr" "p_userId pr = S ''u1''" by (simp add: mcp_principal_def)
  have "split_spaces (S ''openid mcp'') = [S ''openid'', S ''mcp'']" by (simp add: S_def is_space_def)
  then have "mcp_claims_ok demo_mcp demo_mcp_claims"
    by (simp add: mcp_claims_ok_def demo_mcp_claims_def demo_mcp_def prop_of_def fields_of_def nonempty_text_def hasScope_def is_text_def)
  moreover have "check_access demo_menv demo_mcp no_faults 0 demo_mcp_claims = retQ True" by (simp add: check_access_def demo_mcp_def)
  moreover have "oe_jwt demo_menv (S ''tok'') = Inr demo_mcp_claims" by (simp add: demo_menv_def)
  ultimately show ?thesis using v e pr by (simp add: mcp_verify_def admit_token_def bindQ_def retQ_def idn)
qed

lemma demo_mcp_verified:
  "\<exists>d pr. mcp_verify demo_menv demo_mcp no_faults no_faults (\<lambda>_. 0) (S ''7'') (S ''tok'') demo_db = (d, Some pr) \<and> p_userId pr = S ''u1''"
proof -
  have "snd (ensureLocalUser (mcp_local_cfg demo_mcp) no_faults 0 (S ''7'') (demo_idn ''s1'' 4) demo_db) = Inr (S ''u1'')"
    by code_simp
  then obtain d where "ensureLocalUser (mcp_local_cfg demo_mcp) no_faults 0 (S ''7'') (demo_idn ''s1'' 4) demo_db = (d, Inr (S ''u1''))"
    by (metis prod.collapse)
  from demo_mcp_admits [OF this] show ?thesis by blast
qed

theorem mcp_token_admission_witness:
  "\<exists>pr (u :: user_row). snd (mcp_verify demo_menv demo_mcp no_faults no_faults (\<lambda>_. 0) (S ''7'') (S ''tok'') demo_db) = Some pr
     \<and> p_userId pr = S ''u1'' \<and> u_id u = S ''u1'' \<and> u_is_active u"
proof -
  obtain d pr where v: "mcp_verify demo_menv demo_mcp no_faults no_faults (\<lambda>_. 0) (S ''7'') (S ''tok'') demo_db = (d, Some pr)" "p_userId pr = S ''u1''"
    using demo_mcp_verified by blast
  from mcp_token_admission [OF v(1)] obtain u :: user_row where "u_id u = p_userId pr" "u_is_active u" by blast
  with v show ?thesis by auto
qed

end
