(* ===== verification/UpstreamConfig.thy ===== *)
theory UpstreamConfig
  imports RouteMap UrlValidator JobContract
begin

text \<open>
  The configuration of the upstreams (\<open>src/config/upstreamConfig.ts\<close>): the schema with its refinements, the
  hosts an upstream may not name, and the headers it takes from the environment. The YAML document is a JSON
  value here. \<open>zod_url\<close> is the URL check of the schema library (the text it hands on, or \<open>None\<close>);
  \<open>num\<close> is \<open>Number\<close> on texts other than short decimal numbers.
\<close>

section \<open>The data\<close>

datatype upstream_auth =
    Provider_credential
  | Gateway_delegation (ga_audience: jstr) (ga_targetTenantId: jstr) (ga_targetOrganizationId: "jstr option")

datatype network_scope = Cluster | External

record upstream_config =
  uc_id :: jstr
  uc_toolPrefix :: jstr
  uc_networkScope :: network_scope
  uc_endpoint :: jstr
  uc_enabled :: bool
  uc_agentTools :: bool
  uc_timeoutMs :: int
  uc_auth :: upstream_auth
  uc_headers :: "(jstr \<times> jstr) list"

record gateway_config =
  gc_upstreams :: "upstream_config list"
  gc_allow :: "jstr list"
  gc_deny :: "jstr list"

section \<open>Forbidden hosts\<close>

definition drop_dot :: "jstr \<Rightarrow> jstr" where
  "drop_dot h = (if endsWith h (S ''.'') then butlast h else h)"

definition isClusterServiceHostname :: "jstr \<Rightarrow> bool" where
  "isClusterServiceHostname hostname = (let h = drop_dot (lowercase hostname) in
     endsWith h (S ''.svc'') \<or> endsWith h (S ''.svc.cluster.local''))"

text \<open>\<open>Number\<close>: the empty text is zero.\<close>

definition js_number :: "(jstr \<Rightarrow> jnum) \<Rightarrow> jstr \<Rightarrow> jnum" where
  "js_number num s = (let t = trim s in
     if t = [] then NInt 0
     else if list_all is_digit t \<and> length t \<le> 15 then NInt (int (foldl (\<lambda>n c. 10 * n + (c - 48)) 0 t))
     else num t)"

fun octets_of :: "jnum list \<Rightarrow> (int \<times> int) option" where
  "octets_of [NInt a, NInt b, NInt c, NInt d] = Some (a, b)"
| "octets_of ns = None"

definition isForbiddenExternalHostname :: "(jstr \<Rightarrow> jnum) \<Rightarrow> jstr \<Rightarrow> bool" where
  "isForbiddenExternalHostname num hostname = (let h = strip_brackets (drop_dot (lowercase hostname)) in
     if h = S ''localhost'' \<or> endsWith h (S ''.localhost'') \<or> isClusterServiceHostname h then True
     else (case octets_of (map (js_number num) (split_units 46 h)) of
        None \<Rightarrow> h = S ''::1'' \<or> startsWith h (S ''fe80:'') \<or> startsWith h (S ''fc'') \<or> startsWith h (S ''fd'')
      | Some (a, b) \<Rightarrow> a = 10 \<or> a = 127 \<or> (a = 169 \<and> b = 254) \<or> (a = 172 \<and> 16 \<le> b \<and> b \<le> 31) \<or> (a = 192 \<and> b = 168)))"

section \<open>The schema\<close>

definition non_empty :: "jv \<Rightarrow> bool" where
  "non_empty = is_text (\<lambda>s. s \<noteq> [])"

definition header_name_char :: "nat \<Rightarrow> bool" where
  "header_name_char c \<longleftrightarrow> is_alnum c \<or> one_of ''!#$%&*+.^_`|~-'' c \<or> c = 39"

definition env_name_re :: re where
  "env_name_re = whole [RCls (\<lambda>c. 65 \<le> c \<and> c \<le> 90 \<or> c = 95), RStar (RCls (\<lambda>c. 65 \<le> c \<and> c \<le> 90 \<or> is_digit c \<or> c = 95))]"

definition auth_of :: "jv \<Rightarrow> upstream_auth option" where
  "auth_of v = (if prop_of v ''mode'' = JStr (S ''provider-credential'') then Some Provider_credential
     else if prop_of v ''mode'' = JStr (S ''gateway-delegation'') \<and> non_empty (prop_of v ''audience'') \<and> non_empty (prop_of v ''targetTenantId'')
         \<and> (prop_of v ''targetOrganizationId'' = JUndef \<or> non_empty (prop_of v ''targetOrganizationId''))
     then Some (Gateway_delegation (text_of (prop_of v ''audience'')) (text_of (prop_of v ''targetTenantId''))
        (if prop_of v ''targetOrganizationId'' = JUndef then None else Some (text_of (prop_of v ''targetOrganizationId''))))
     else None)"

definition headers_of :: "jv \<Rightarrow> (jstr \<times> jstr) list option" where
  "headers_of v = (if v = JUndef then Some []
     else if is_record v \<and> list_all (\<lambda>(k, source). re_test (whole_plus header_name_char) k
         \<and> is_text (re_test env_name_re) (prop_of source ''env'')) (fields_of v)
     then Some (map (\<lambda>(k, source). (k, text_of (prop_of source ''env''))) (fields_of v)) else None)"

definition plain_fields_ok :: "jv \<Rightarrow> bool" where
  "plain_fields_ok v \<longleftrightarrow> is_text (re_test (whole_plus valid_prefix_char)) (prop_of v ''id'')
     \<and> is_text (re_test (whole_plus valid_prefix_char)) (prop_of v ''toolPrefix'') \<and> is_one_of [''cluster'', ''external''] (prop_of v ''networkScope'')
     \<and> is_text (\<lambda>_. True) (prop_of v ''endpoint'') \<and> prop_of v ''transport'' = JStr (S ''streamable-http'')
     \<and> prop_of v ''enabled'' \<in> {JUndef, JBool True, JBool False}
     \<and> prop_of v ''payloadContract'' \<in> {JUndef, JStr (S ''agent-tools-cli-v1'')}
     \<and> (prop_of v ''timeoutMs'' = JUndef \<or> positive (prop_of v ''timeoutMs''))"

definition base_upstream :: "(jstr \<Rightarrow> jstr option) \<Rightarrow> jv \<Rightarrow> upstream_config option" where
  "base_upstream zod_url v = (if \<not> plain_fields_ok v then None
     else (case (zod_url (text_of (prop_of v ''endpoint'')), auth_of (prop_of v ''auth''), headers_of (prop_of v ''headers'')) of
        (Some endpoint, Some auth, Some headers) \<Rightarrow> Some \<lparr>uc_id = text_of (prop_of v ''id''), uc_toolPrefix = text_of (prop_of v ''toolPrefix''),
            uc_networkScope = (if prop_of v ''networkScope'' = JStr (S ''cluster'') then Cluster else External),
            uc_endpoint = endpoint, uc_enabled = (prop_of v ''enabled'' \<noteq> JBool False), uc_agentTools = (prop_of v ''payloadContract'' \<noteq> JUndef),
            uc_timeoutMs = (if prop_of v ''timeoutMs'' = JUndef then 30000 else int_of (prop_of v ''timeoutMs'')),
            uc_auth = auth, uc_headers = headers\<rparr>
      | _ \<Rightarrow> None))"

text \<open>The paths of the issues of the refinement; \<open>None\<close> when \<open>new URL\<close> throws.\<close>

definition upstream_issues :: "(jstr \<Rightarrow> jnum) \<Rightarrow> net_env \<Rightarrow> upstream_config \<Rightarrow> string list option" where
  "upstream_issues num E u = map_option (\<lambda>url.
     (if uc_agentTools u \<and> (uc_networkScope u \<noteq> Cluster \<or> uc_auth u = Provider_credential \<or> ga_audience (uc_auth u) \<noteq> S ''agent-tools'')
      then [''payloadContract''] else [])
     @ (if uc_auth u \<noteq> Provider_credential \<and> uc_headers u \<noteq> [] then [''headers''] else [])
     @ (case uc_networkScope u of
          Cluster \<Rightarrow> if \<not> isClusterServiceHostname (url_hostname url) then [''endpoint''] else []
        | External \<Rightarrow> (if url_protocol url \<noteq> S ''https:'' then [''endpoint''] else [])
            @ (if isForbiddenExternalHostname num (url_hostname url) then [''endpoint''] else []))) (ne_URL E (uc_endpoint u))"

definition upstream_of :: "(jstr \<Rightarrow> jnum) \<Rightarrow> net_env \<Rightarrow> (jstr \<Rightarrow> jstr option) \<Rightarrow> jv \<Rightarrow> upstream_config option" where
  "upstream_of num E zod_url v = (case base_upstream zod_url v of None \<Rightarrow> None
     | Some u \<Rightarrow> if upstream_issues num E u = Some [] then Some u else None)"

fun duplicates :: "jstr list \<Rightarrow> jstr list \<Rightarrow> jstr list" where
  "duplicates seen [] = []"
| "duplicates seen (x # xs) = (if x \<in> set seen then [x] else []) @ duplicates (seen @ [x]) xs"

definition patterns_of :: "jv \<Rightarrow> jstr list option" where
  "patterns_of v = (case v of JArr xs \<Rightarrow> if list_all non_empty xs then Some (map text_of xs) else None | _ \<Rightarrow> None)"

definition parseGatewayConfig :: "(jstr \<Rightarrow> jnum) \<Rightarrow> net_env \<Rightarrow> (jstr \<Rightarrow> jstr option) \<Rightarrow> jv \<Rightarrow> gateway_config option" where
  "parseGatewayConfig num E zod_url v = (let policy = prop_of v ''toolPolicy'' in
     case (prop_of v ''upstreams'', patterns_of (prop_of policy ''allow''),
         if prop_of policy ''deny'' = JUndef then Some [] else patterns_of (prop_of policy ''deny'')) of
       (JArr vs, Some allow, Some deny) \<Rightarrow>
         if prop_of policy ''default'' \<noteq> JStr (S ''deny'') \<or> list_ex (\<lambda>u. upstream_of num E zod_url u = None) vs then None
         else (let us = map (\<lambda>u. the (upstream_of num E zod_url u)) vs in
           if duplicates [] (map uc_id us) @ duplicates [] (map uc_toolPrefix us) \<noteq> [] then None
           else Some \<lparr>gc_upstreams = us, gc_allow = allow, gc_deny = deny\<rparr>)
     | _ \<Rightarrow> None)"

section \<open>Headers from the environment\<close>

definition missing_header :: "upstream_config \<Rightarrow> jstr \<times> jstr \<Rightarrow> js_error" where
  "missing_header u h = plain_error (S ''upstream '' @ quoted (uc_id u) @ S '' requires non-empty environment variable ''
     @ quoted (snd h) @ S '' for header '' @ quoted (fst h))"

definition resolve_header :: "(jstr \<Rightarrow> jstr option) \<Rightarrow> upstream_config \<Rightarrow> jstr \<times> jstr \<Rightarrow> (jstr \<times> jstr) result" where
  "resolve_header environment u h = (case environment (snd h) of
      Some value \<Rightarrow> if trim value = [] then Inl (missing_header u h) else Inr (fst h, value)
    | None \<Rightarrow> Inl (missing_header u h))"

definition resolveUpstreamHeaders :: "(jstr \<Rightarrow> jstr option) \<Rightarrow> upstream_config \<Rightarrow> (jstr \<times> jstr) list result" where
  "resolveUpstreamHeaders environment u = mapE (resolve_header environment u) (uc_headers u)"

section \<open>The upstreams of the process and of a request\<close>

definition static_upstreams :: "gateway_config \<Rightarrow> upstream_config list" where
  "static_upstreams cfg = filter (\<lambda>u. uc_enabled u \<and> uc_auth u = Provider_credential) (gc_upstreams cfg)"

definition delegated_upstreams :: "gateway_config \<Rightarrow> upstream_config list" where
  "delegated_upstreams cfg = filter (\<lambda>u. uc_enabled u \<and> uc_auth u \<noteq> Provider_credential) (gc_upstreams cfg)"

section \<open>What a parsed configuration guarantees\<close>

lemma duplicates_Nil: "duplicates seen xs = [] \<longleftrightarrow> distinct xs \<and> set xs \<inter> set seen = {}"
  by (induction xs arbitrary: seen) auto

definition safe_upstream :: "(jstr \<Rightarrow> jnum) \<Rightarrow> net_env \<Rightarrow> upstream_config \<Rightarrow> bool" where
  "safe_upstream num E u \<longleftrightarrow> uc_toolPrefix u \<noteq> [] \<and> list_all valid_prefix_char (uc_toolPrefix u)
     \<and> (uc_auth u \<noteq> Provider_credential \<longrightarrow> uc_headers u = [])
     \<and> (uc_agentTools u \<longrightarrow> uc_networkScope u = Cluster \<and> uc_auth u \<noteq> Provider_credential \<and> ga_audience (uc_auth u) = S ''agent-tools'')
     \<and> (\<exists>url. ne_URL E (uc_endpoint u) = Some url \<and> (case uc_networkScope u of
            Cluster \<Rightarrow> isClusterServiceHostname (url_hostname url)
          | External \<Rightarrow> url_protocol url = S ''https:'' \<and> \<not> isForbiddenExternalHostname num (url_hostname url)))"

lemma base_upstream_prefix:
  assumes "base_upstream zod_url v = Some u"
  shows "uc_toolPrefix u \<noteq> [] \<and> list_all valid_prefix_char (uc_toolPrefix u)"
proof -
  have "is_text (re_test (whole_plus valid_prefix_char)) (prop_of v ''toolPrefix'')" "uc_toolPrefix u = text_of (prop_of v ''toolPrefix'')"
    using assms by (auto simp: base_upstream_def plain_fields_ok_def split: if_splits option.splits)
  then show ?thesis by (auto simp: is_text_def text_of_def re_test_whole_plus split: jv.splits)
qed

lemma upstream_of_safe:
  assumes "upstream_of num E zod_url v = Some u"
  shows "safe_upstream num E u"
proof -
  have b: "base_upstream zod_url v = Some u" and i: "upstream_issues num E u = Some []"
    using assms by (auto simp: upstream_of_def split: option.splits if_splits)
  from i obtain url where url: "ne_URL E (uc_endpoint u) = Some url" by (auto simp: upstream_issues_def)
  show ?thesis using i base_upstream_prefix [OF b] url
    by (auto simp: upstream_issues_def safe_upstream_def split: if_splits network_scope.splits)
qed

lemma parsed_config:
  assumes "parseGatewayConfig num E zod_url v = Some cfg"
  shows "distinct (map uc_id (gc_upstreams cfg)) \<and> distinct (map uc_toolPrefix (gc_upstreams cfg)) \<and> list_all (safe_upstream num E) (gc_upstreams cfg)"
proof -
  obtain vs where vs: "gc_upstreams cfg = map (\<lambda>u. the (upstream_of num E zod_url u)) vs"
      "\<not> list_ex (\<lambda>u. upstream_of num E zod_url u = None) vs"
      "duplicates [] (map uc_id (gc_upstreams cfg)) @ duplicates [] (map uc_toolPrefix (gc_upstreams cfg)) = []"
    using assms unfolding parseGatewayConfig_def Let_def
    by (auto simp del: map_map split: jv.splits option.splits if_splits)
  have "safe_upstream num E (the (upstream_of num E zod_url u))" if "u \<in> set vs" for u
    using vs(2) that upstream_of_safe by (fastforce simp: list_ex_iff)
  with vs show ?thesis by (simp add: duplicates_Nil list_all_iff)
qed

lemma from_loop_builds:
  assumes "\<forall>c \<in> set cs. prefix_check ops c = Inr () \<and> (\<forall>s. \<exists>s' tools. c_listTools ops c s = (s', Inr tools) \<and> distinct (map t_name tools))"
    and "distinct (map (c_toolPrefix ops) cs)" and "\<forall>k \<in> fst ` set rm. name_prefix k \<notin> set (map (c_toolPrefix ops) cs)"
  shows "\<exists>s' rm'. from_loop ops cs rm s = (s', Inr rm')"
  using assms
proof (induction cs arbitrary: rm s)
  case (Cons c cs)
  obtain s1 tools where l: "c_listTools ops c s = (s1, Inr tools)" "distinct (map t_name tools)" using Cons.prems(1) by fastforce
  have p: "list_all valid_prefix_char (c_toolPrefix ops c)" using Cons.prems(1) by (simp add: prefix_check_iff)
  have new: "\<not> rm_has rm (public_name (c_toolPrefix ops c) (t_name t))" for t :: tool
    using Cons.prems(3) name_prefix_public [OF p] by (fastforce simp: rm_has_iff)
  then have f: "for_each (add_tool ops c) tools rm = Inr (rm @ routes_of ops c tools)" using l(2) by (simp add: for_each_add_tool)
  have "\<forall>k \<in> fst ` set (rm @ routes_of ops c tools). name_prefix k \<notin> set (map (c_toolPrefix ops) cs)"
    using Cons.prems(2,3) name_prefix_public [OF p] by (auto simp: routes_of_def)
  then obtain s' rm' where "from_loop ops cs (rm @ routes_of ops c tools) s1 = (s', Inr rm')"
    using Cons.IH [of "rm @ routes_of ops c tools" s1] Cons.prems(1,2) by auto
  with f l(1) Cons.prems(1) show ?case by (auto simp: from_loop_Cons)
qed auto

text \<open>
  A parsed configuration gives a working and safe registry: when the connections of its enabled
  upstreams with static credentials list tools of distinct names, the routing table is always built, never
  stopped by a prefix or by two tools of one name; and every route leads to an upstream of the configuration
  under whose prefix the tool is published, at a Kubernetes service or, over https, at a host that is not forbidden.
\<close>

theorem configured_registry_builds:
  assumes "parseGatewayConfig num E zod_url v = Some cfg"
    and "map (\<lambda>c. (c_id ops c, c_toolPrefix ops c)) conns = map (\<lambda>u. (uc_id u, uc_toolPrefix u)) (static_upstreams cfg)"
    and "\<forall>c \<in> set conns. \<forall>s. \<exists>s' tools. c_listTools ops c s = (s', Inr tools) \<and> distinct (map t_name tools)"
  shows "\<exists>s' rm. fromConnections ops conns s = (s', Inr rm)
    \<and> (\<forall>n r. rm_get rm n = Some r \<longrightarrow> (\<exists>u \<in> set (gc_upstreams cfg). uc_enabled u \<and> uc_auth u = Provider_credential
        \<and> r_upstreamId r = uc_id u \<and> name_prefix n = uc_toolPrefix u \<and> safe_upstream num E u))"
proof -
  have cfg: "distinct (map uc_toolPrefix (gc_upstreams cfg))" "list_all (safe_upstream num E) (gc_upstreams cfg)"
    using parsed_config [OF assms(1)] by simp_all
  have m: "map (c_toolPrefix ops) conns = map uc_toolPrefix (static_upstreams cfg)"
    using arg_cong [OF assms(2), of "map snd"] by (simp add: comp_def)
  have own: "\<exists>u \<in> set (static_upstreams cfg). c_id ops c = uc_id u \<and> c_toolPrefix ops c = uc_toolPrefix u" if "c \<in> set conns" for c
    using arg_cong [OF assms(2), of set] that by (auto simp: image_def set_eq_iff)
  have safe: "safe_upstream num E u" "u \<in> set (gc_upstreams cfg)" "uc_enabled u" "uc_auth u = Provider_credential" if "u \<in> set (static_upstreams cfg)" for u
    using cfg(2) that by (auto simp: static_upstreams_def list_all_iff)
  have d: "distinct (map (c_toolPrefix ops) conns)" unfolding m static_upstreams_def using cfg(1) by (rule distinct_map_filter)
  have p: "prefix_check ops c = Inr ()" if "c \<in> set conns" for c
    using own [OF that] safe(1) unfolding prefix_check_iff safe_upstream_def by metis
  obtain s' rm where f: "fromConnections ops conns s = (s', Inr rm)"
    using from_loop_builds [of conns ops rm_empty s] p d assms(3) by (auto simp: fromConnections_def rm_empty_def)
  have "\<exists>u \<in> set (gc_upstreams cfg). uc_enabled u \<and> uc_auth u = Provider_credential
      \<and> r_upstreamId r = uc_id u \<and> name_prefix n = uc_toolPrefix u \<and> safe_upstream num E u" if g: "rm_get rm n = Some r" for n r
  proof -
    have t: "table_ok ops rm" "r_connection r \<in> set conns" using fromConnections_facts [OF f] g by (force simp: rm_get_def dest: map_of_SomeD)+
    have r: "r = make_route ops (r_connection r) (r_schema r)" "r_publicName r = n" using table_ok_get [OF t(1) g] by simp_all
    have i: "r_upstreamId r = c_id ops (r_connection r)" "n = public_name (c_toolPrefix ops (r_connection r)) (t_name (r_schema r))"
      using arg_cong [OF r(1), of r_upstreamId] arg_cong [OF r(1), of r_publicName] r(2) by (simp_all add: make_route_def)
    have "name_prefix n = c_toolPrefix ops (r_connection r)"
      unfolding i(2) using p [OF t(2)] by (intro name_prefix_public) (simp add: prefix_check_iff)
    with own [OF t(2)] safe i(1) show ?thesis by metis
  qed
  with f show ?thesis by blast
qed

section \<open>Instances\<close>

definition demo_url :: net_env where
  "demo_url = \<lparr>ne_URL = (\<lambda>_. Some \<lparr>url_protocol = S ''https:'', url_hostname = S ''mcp.example.com''\<rparr>),
     ne_isIP = (\<lambda>_. False), ne_resolve = (\<lambda>h. Inr (S ''93.184.216.34''))\<rparr>"

definition demo_upstream_json :: jv where
  "demo_upstream_json = JObj [(S ''id'', JStr (S ''a'')), (S ''toolPrefix'', JStr (S ''ka'')), (S ''networkScope'', JStr (S ''external'')),
     (S ''endpoint'', JStr (S ''https://mcp.example.com'')), (S ''transport'', JStr (S ''streamable-http'')),
     (S ''auth'', JObj [(S ''mode'', JStr (S ''provider-credential''))])]"

definition demo_upstream :: upstream_config where
  "demo_upstream = \<lparr>uc_id = S ''a'', uc_toolPrefix = S ''ka'', uc_networkScope = External, uc_endpoint = S ''https://mcp.example.com'',
     uc_enabled = True, uc_agentTools = False, uc_timeoutMs = 30000, uc_auth = Provider_credential, uc_headers = []\<rparr>"

definition demo_config_json :: jv where
  "demo_config_json = JObj [(S ''upstreams'', JArr [demo_upstream_json]),
     (S ''toolPolicy'', JObj [(S ''default'', JStr (S ''deny'')), (S ''allow'', JArr [JStr (S ''ka.*'')])])]"

lemma demo_external: "\<not> isForbiddenExternalHostname num (S ''mcp.example.com'')"
proof -
  have "split_units 46 (S ''mcp.example.com'') = [S ''mcp'', S ''example'', S ''com'']" by (simp add: S_def)
  moreover have "strip_brackets (drop_dot (lowercase (S ''mcp.example.com''))) = S ''mcp.example.com''" by code_simp
  moreover have "\<not> isClusterServiceHostname (S ''mcp.example.com'')" "\<not> endsWith (S ''mcp.example.com'') (S ''.localhost'')" by code_simp+
  ultimately show ?thesis by (simp add: isForbiddenExternalHostname_def Let_def startsWith_S)
qed

lemma demo_parsed: "parseGatewayConfig (\<lambda>_. NaN) demo_url Some demo_config_json
    = Some \<lparr>gc_upstreams = [demo_upstream], gc_allow = [S ''ka.*''], gc_deny = []\<rparr>"
proof -
  have "plain_fields_ok demo_upstream_json"
    by (simp add: plain_fields_ok_def demo_upstream_json_def prop_of_def fields_of_def S_def is_text_def is_one_of_def re_test_whole_plus
      valid_prefix_char_def is_alnum_def is_alpha_def)
  then have "base_upstream Some demo_upstream_json = Some demo_upstream"
    by (simp add: base_upstream_def demo_upstream_json_def prop_of_def fields_of_def S_def auth_of_def headers_of_def text_of_def demo_upstream_def)
  moreover have "upstream_issues (\<lambda>_. NaN) demo_url demo_upstream = Some []"
    by (simp add: upstream_issues_def demo_url_def demo_upstream_def demo_external)
  ultimately have "upstream_of (\<lambda>_. NaN) demo_url Some demo_upstream_json = Some demo_upstream" by (simp add: upstream_of_def)
  then show ?thesis
    by (simp add: parseGatewayConfig_def Let_def demo_config_json_def prop_of_def fields_of_def patterns_of_def S_def non_empty_def is_text_def text_of_def)
qed

theorem configured_registry_builds_witness:
  "\<exists>s' rm. fromConnections demo_ops [0] [] = (s', Inr rm)
    \<and> (\<exists>r. rm_get rm (S ''ka.x'') = Some r \<and> r_upstreamId r = uc_id demo_upstream)"
proof -
  have m: "map (\<lambda>c. (c_id demo_ops c, c_toolPrefix demo_ops c)) [0]
      = map (\<lambda>u. (uc_id u, uc_toolPrefix u)) (static_upstreams \<lparr>gc_upstreams = [demo_upstream], gc_allow = [S ''ka.*''], gc_deny = []\<rparr>)"
    by (simp add: demo_ops_def static_upstreams_def demo_upstream_def)
  have l: "\<forall>c \<in> set [0]. \<forall>s. \<exists>s' tools. c_listTools demo_ops c s = (s', Inr tools) \<and> distinct (map t_name tools)"
    by (simp add: demo_ops_def demo_tool_def S_def)
  obtain s' rm where f: "fromConnections demo_ops [0] [] = (s', Inr rm)"
      "\<forall>n r. rm_get rm n = Some r \<longrightarrow> (\<exists>u \<in> set [demo_upstream]. r_upstreamId r = uc_id u)"
    using configured_registry_builds [OF demo_parsed m l, of "[]"] by auto
  have "fromConnections demo_ops [0] [] = ([], Inr [(S ''ka.x'', make_route demo_ops 0 (demo_tool ''x'')),
     (S ''ka.y'', make_route demo_ops 0 (demo_tool ''y''))])" by code_simp
  then have "rm_get rm (S ''ka.x'') = Some (make_route demo_ops 0 (demo_tool ''x''))" using f(1) by (simp add: rm_get_def)
  with f show ?thesis by auto
qed

text \<open>Host names that begin like a private IPv6 address are refused; the unspecified address is not.\<close>

lemma forbidden_host_examples:
  "isForbiddenExternalHostname num (S ''fcbarcelona.com'')" "\<not> isForbiddenExternalHostname num (S ''0.0.0.0'')"
proof -
  have n: "strip_brackets (drop_dot (lowercase (S ''fcbarcelona.com''))) = S ''fcbarcelona.com''"
    "strip_brackets (drop_dot (lowercase (S ''0.0.0.0''))) = S ''0.0.0.0''" by code_simp+
  have c: "\<not> isClusterServiceHostname (S ''0.0.0.0'')" "\<not> endsWith (S ''0.0.0.0'') (S ''.localhost'')" by code_simp+
  have s: "split_units 46 (S ''fcbarcelona.com'') = [S ''fcbarcelona'', S ''com'']" "split_units 46 (S ''0.0.0.0'') = [S ''0'', S ''0'', S ''0'', S ''0'']"
    by (simp_all add: S_def)
  have z: "js_number num (S ''0'') = NInt 0" by (simp add: js_number_def S_def trim_def is_space_def is_digit_def)
  show "isForbiddenExternalHostname num (S ''fcbarcelona.com'')"
    by (simp add: isForbiddenExternalHostname_def Let_def n s startsWith_S)
  show "\<not> isForbiddenExternalHostname num (S ''0.0.0.0'')"
    using c by (simp add: isForbiddenExternalHostname_def Let_def n s z)
qed

end
