(* ===== verification/RequestRegistry.thy ===== *)
theory RequestRegistry
  imports UpstreamConfig CustomUpstreams AccessPolicy Http "HOL-Library.Multiset"
begin

text \<open>
  The tool registry of one request (\<open>src/application/requestToolRegistryBuilder.ts\<close>), with the token exchange
  for delegated upstreams (\<open>src/auth/iamDelegationClient.ts\<close>). Connections are values of \<open>'c\<close>, remote servers a
  state \<open>'s\<close>; opening a connection is the parameter \<open>rb_connect\<close>. Whatever else the builder asks is a field
  of \<open>request_world\<close>, numbered by the upstream it is asked for: the identity service, the URL checks and the
  database (number 0 is the list of the upstreams).
\<close>

section \<open>The exchange of the token\<close>

record delegation_client =
  dc_iamUrl :: jstr
  dc_clientId :: jstr
  dc_clientSecret :: jstr

definition delegation_failed :: "int \<Rightarrow> js_error" where
  "delegation_failed status = (plain_error (S ''IAM delegation token exchange failed''))\<lparr>err_status := Some status\<rparr>"

definition exchange_request :: "delegation_client \<Rightarrow> jstr \<Rightarrow> upstream_auth \<Rightarrow> http_request" where
  "exchange_request dc subjectToken target = \<lparr>hq_url = drop_slash (dc_iamUrl dc) @ S ''/api/auth/oauth2/delegation-token'',
     hq_headers = [(''accept'', S ''application/json''), (''authorization'', basic_auth (dc_clientId dc) (dc_clientSecret dc)),
       (''content-type'', S ''application/x-www-form-urlencoded'')],
     hq_body = form_body ([(''grant_type'', S ''urn:ietf:params:oauth:grant-type:token-exchange''), (''subject_token'', subjectToken),
       (''subject_token_type'', S ''urn:ietf:params:oauth:token-type:access_token''),
       (''requested_target_tenant'', ga_targetTenantId target), (''client_id'', ga_audience target)]
       @ (if nonempty (ga_targetOrganizationId target) then [(''requested_target_org'', the (ga_targetOrganizationId target))] else []))\<rparr>"

definition token_exchange :: "(http_request \<Rightarrow> reply) \<Rightarrow> delegation_client \<Rightarrow> jstr \<Rightarrow> upstream_auth \<Rightarrow> jstr result" where
  "token_exchange net dc subjectToken target = (case net (exchange_request dc subjectToken target) of
      No_reply \<Rightarrow> Inl (plain_error (S ''fetch failed''))
    | Reply status body \<Rightarrow>
        if \<not> reply_ok status then Inl (delegation_failed status)
        else (case body of
            None \<Rightarrow> Inl (plain_error (S ''Unexpected token in JSON''))
          | Some payload \<Rightarrow>
              if payload = JNull then Inl (plain_error (S ''Cannot read properties of null''))
              else if \<not> non_empty (prop_of payload ''access_token'') then Inl (delegation_failed 502)
              else Inr (text_of (prop_of payload ''access_token''))))"

section \<open>The builder\<close>

record ('c, 's) registry_builder =
  rb_ops :: "('c, 's) conn_ops"
  rb_base :: "'c registry"
  rb_custom :: "(crypto \<times> bytes) option"
  rb_connect :: "upstream_config \<Rightarrow> (jstr \<times> jstr) list \<Rightarrow> 's \<Rightarrow> 's \<times> 'c result"
  rb_delegated :: "upstream_config list"
  rb_client :: "delegation_client option"

record request_world =
  rw_net :: "nat \<Rightarrow> http_request \<Rightarrow> reply"
  rw_url :: "nat \<Rightarrow> net_env"
  rw_db :: "nat \<Rightarrow> db"
  rw_flt :: "nat \<Rightarrow> faults"

record 'c request_registry =
  rq_registry :: "'c registry"
  rq_prefixes :: "jstr list"
  rq_connections :: "'c list"

definition sharedRegistry :: "'c registry \<Rightarrow> 'c request_registry" where
  "sharedRegistry reg = \<lparr>rq_registry = reg, rq_prefixes = [], rq_connections = []\<rparr>"

definition authorizationHeaders :: "auth_value option \<Rightarrow> (jstr \<times> jstr) list" where
  "authorizationHeaders auth = (case auth of None \<Rightarrow> []
     | Some a \<Rightarrow> if \<not> nonempty (av_authValue a) then []
         else [(av_authHeaderName a, if av_authType a = S ''bearer'' \<and> \<not> startsWith (the (av_authValue a)) (S ''Bearer '')
            then S ''Bearer '' @ the (av_authValue a) else the (av_authValue a))])"

definition custom_config :: "upstream_row \<Rightarrow> upstream_config" where
  "custom_config row = \<lparr>uc_id = m_id row, uc_toolPrefix = m_tool_prefix row, uc_networkScope = External, uc_endpoint = m_endpoint_url row,
     uc_enabled = True, uc_agentTools = False, uc_timeoutMs = 30000, uc_auth = Provider_credential, uc_headers = []\<rparr>"

text \<open>\<open>Promise.all\<close>: every connection is asked to close; the result is the first rejection.\<close>

fun close_all :: "('c, 's) conn_ops \<Rightarrow> 'c list \<Rightarrow> 's \<Rightarrow> 's \<times> unit result" where
  "close_all ops [] s = (s, Inr ())"
| "close_all ops (c # cs) s = (case c_close ops c s of (s1, r) \<Rightarrow>
     (case close_all ops cs s1 of (s2, r') \<Rightarrow> (s2, case r of Inl e \<Rightarrow> Inl e | Inr _ \<Rightarrow> r')))"

text \<open>The registry and the connections so far are kept when the loop stops with an error.\<close>

fun add_delegated :: "('c, 's) registry_builder \<Rightarrow> request_world \<Rightarrow> delegation_client \<Rightarrow> jstr \<Rightarrow> nat \<Rightarrow> upstream_config list \<Rightarrow>
    'c registry \<Rightarrow> 'c list \<Rightarrow> 's \<Rightarrow> 's \<times> 'c registry \<times> 'c list \<times> unit result" where
  "add_delegated B W dc token k [] reg cs s = (s, reg, cs, Inr ())"
| "add_delegated B W dc token k (u # us) reg cs s =
     (if uc_auth u = Provider_credential then add_delegated B W dc token (Suc k) us reg cs s
      else (case token_exchange (rw_net W k) dc token (uc_auth u) of
          Inl e \<Rightarrow> (s, reg, cs, Inl e)
        | Inr accessToken \<Rightarrow> (case rb_connect B u [(S ''Authorization'', S ''Bearer '' @ accessToken)] s of
            (s1, Inl e) \<Rightarrow> (s1, reg, cs, Inl e)
          | (s1, Inr c) \<Rightarrow> (case registry_addRoute (rb_ops B) c reg s1 of
              (s2, reg', Inl e) \<Rightarrow> (s2, reg', cs, Inl e)
            | (s2, reg', Inr _) \<Rightarrow> add_delegated B W dc token (Suc k) us reg' (cs @ [c]) s2))))"

definition addCustomUpstream :: "('c, 's) registry_builder \<Rightarrow> request_world \<Rightarrow> crypto \<times> bytes \<Rightarrow> jstr \<Rightarrow> nat \<Rightarrow> upstream_row \<Rightarrow>
    'c registry \<Rightarrow> 's \<Rightarrow> 's \<times> 'c registry \<times> 'c option result" where
  "addCustomUpstream B W ck userId k row reg s =
     (case validateSafeEndpointUrl (rw_url W k) (m_endpoint_url row) of
        Inl _ \<Rightarrow> (s, reg, Inr None)
      | Inr _ \<Rightarrow> (case snd (getDecryptedAuthValue (fst ck) (snd ck) (rw_flt W k) userId (m_tool_prefix row) (rw_db W k)) of
          Inl _ \<Rightarrow> (s, reg, Inr None)
        | Inr auth \<Rightarrow> (case rb_connect B (custom_config row) (authorizationHeaders auth) s of
            (s1, Inl _) \<Rightarrow> (s1, reg, Inr None)
          | (s1, Inr c) \<Rightarrow> (case registry_addRoute (rb_ops B) c reg s1 of
              (s2, reg', Inr _) \<Rightarrow> (s2, reg', Inr (Some c))
            | (s2, reg', Inl _) \<Rightarrow> (case c_close (rb_ops B) c s2 of
                (s3, Inl e) \<Rightarrow> (s3, reg', Inl e)
              | (s3, Inr _) \<Rightarrow> (s3, reg', Inr None))))))"

fun add_customs :: "('c, 's) registry_builder \<Rightarrow> request_world \<Rightarrow> crypto \<times> bytes \<Rightarrow> jstr \<Rightarrow> nat \<Rightarrow> upstream_row list \<Rightarrow>
    'c request_registry \<Rightarrow> 's \<Rightarrow> 's \<times> 'c request_registry result" where
  "add_customs B W ck userId k [] rq s = (s, Inr rq)"
| "add_customs B W ck userId k (row # rows) rq s = (case addCustomUpstream B W ck userId k row (rq_registry rq) s of
      (s1, reg, Inl e) \<Rightarrow> (s1, Inl e)
    | (s1, reg, Inr None) \<Rightarrow> add_customs B W ck userId (Suc k) rows (rq\<lparr>rq_registry := reg\<rparr>) s1
    | (s1, reg, Inr (Some c)) \<Rightarrow> add_customs B W ck userId (Suc k) rows \<lparr>rq_registry = reg, rq_prefixes = rq_prefixes rq @ [m_tool_prefix row],
        rq_connections = rq_connections rq @ [c]\<rparr> s1)"

definition no_delegation :: js_error where
  "no_delegation = plain_error (S ''Gateway delegation is not configured for this authenticated request'')"

definition enabled_rows :: "('c, 's) registry_builder \<Rightarrow> request_world \<Rightarrow> jstr \<Rightarrow> upstream_row list result" where
  "enabled_rows B W userId = (case rb_custom B of None \<Rightarrow> Inr []
     | Some _ \<Rightarrow> bindE (snd (upstream_list (rw_flt W 0) userId (rw_db W 0))) (\<lambda>rows. Inr (filter m_is_enabled rows)))"

definition build_delegated :: "('c, 's) registry_builder \<Rightarrow> request_world \<Rightarrow> jstr option \<Rightarrow> 's \<Rightarrow> 's \<times> 'c request_registry result" where
  "build_delegated B W subjectToken s = (case (rb_client B, subjectToken) of
      (Some dc, Some token) \<Rightarrow> (case add_delegated B W dc token 1 (rb_delegated B) (registry_clone (rb_base B)) [] s of
          (s1, reg, cs, Inr _) \<Rightarrow> (s1, Inr \<lparr>rq_registry = reg, rq_prefixes = [], rq_connections = cs\<rparr>)
        | (s1, reg, cs, Inl e) \<Rightarrow> (case close_all (rb_ops B) cs s1 of (s2, Inl e') \<Rightarrow> (s2, Inl e') | (s2, Inr _) \<Rightarrow> (s2, Inl e)))
    | _ \<Rightarrow> (s, Inr \<lparr>rq_registry = registry_clone (rb_base B), rq_prefixes = [], rq_connections = []\<rparr>))"

definition build_customs :: "('c, 's) registry_builder \<Rightarrow> request_world \<Rightarrow> jstr \<Rightarrow> upstream_row list \<Rightarrow> 'c request_registry \<Rightarrow> 's \<Rightarrow>
    's \<times> 'c request_registry result" where
  "build_customs B W userId rows rq s = (case rb_custom B of
      None \<Rightarrow> (s, Inr rq)
    | Some ck \<Rightarrow> add_customs B W ck userId (Suc (length (rb_delegated B))) rows rq s)"

definition build_registry :: "('c, 's) registry_builder \<Rightarrow> request_world \<Rightarrow> principal option \<Rightarrow> jstr option \<Rightarrow> 's \<Rightarrow>
    's \<times> 'c request_registry result" where
  "build_registry B W princ subjectToken s = (case princ of
      None \<Rightarrow> (s, Inr (sharedRegistry (rb_base B)))
    | Some p \<Rightarrow>
        if rb_delegated B \<noteq> [] \<and> (\<not> nonempty subjectToken \<or> rb_client B = None) then (s, Inl no_delegation)
        else (case enabled_rows B W (p_userId p) of
            Inl e \<Rightarrow> (s, Inl e)
          | Inr rows \<Rightarrow>
              if rb_delegated B = [] \<and> rows = [] then (s, Inr (sharedRegistry (rb_base B)))
              else (case build_delegated B W subjectToken s of
                  (s1, Inl e) \<Rightarrow> (s1, Inl e)
                | (s1, Inr rq) \<Rightarrow> build_customs B W (p_userId p) rows rq s1)))"

lemma build_registry_Inr:
  assumes "build_registry B W princ token s = (s', Inr rq)"
  obtains (shared) "rq = sharedRegistry (rb_base B)" "s' = s"
    | (own) p rows s1 rq1 where "princ = Some p" "enabled_rows B W (p_userId p) = Inr rows" "build_delegated B W token s = (s1, Inr rq1)"
        "build_customs B W (p_userId p) rows rq1 s1 = (s', Inr rq)"
proof (cases princ)
  case None
  with assms show thesis by (intro shared) (simp_all add: build_registry_def)
next
  case (Some p)
  show thesis
  proof (cases "enabled_rows B W (p_userId p)")
    case (Inl e)
    with assms Some show thesis by (simp add: build_registry_def split: if_splits)
  next
    case (Inr rows)
    obtain s1 r where d: "build_delegated B W token s = (s1, r)" by (cases "build_delegated B W token s")
    have eq: "(if rb_delegated B = [] \<and> rows = [] then (s, Inr (sharedRegistry (rb_base B)))
        else (case r of Inl e \<Rightarrow> (s1, Inl e) | Inr rq \<Rightarrow> build_customs B W (p_userId p) rows rq s1)) = (s', Inr rq)"
      using assms unfolding build_registry_def Some option.case Inr sum.case d prod.case by (auto split: if_split_asm)
    show thesis
    proof (cases "rb_delegated B = [] \<and> rows = []")
      case True
      with eq show thesis by (intro shared) simp_all
    next
      case False
      with eq obtain rq1 where "r = Inr rq1" "build_customs B W (p_userId p) rows rq1 s1 = (s', Inr rq)" by (cases r) auto
      with d show thesis by (intro own [OF Some Inr]) simp_all
    qed
  qed
qed

lemma build_registry_Inl:
  assumes "build_registry B W princ token s = (s', Inl e)"
  obtains (untouched) "s' = s"
    | (delegated) "build_delegated B W token s = (s', Inl e)"
    | (custom) userId rows s1 rq1 where "build_customs B W userId rows rq1 s1 = (s', Inl e)"
proof (cases princ)
  case None
  with assms show thesis by (simp add: build_registry_def)
next
  case (Some p)
  show thesis
  proof (cases "enabled_rows B W (p_userId p)")
    case (Inl e')
    with assms Some show thesis by (intro untouched) (simp add: build_registry_def split: if_splits)
  next
    case (Inr rows)
    obtain s1 r where d: "build_delegated B W token s = (s1, r)" by (cases "build_delegated B W token s")
    have eq: "(if rb_delegated B \<noteq> [] \<and> (\<not> nonempty token \<or> rb_client B = None) then (s, Inl no_delegation)
        else if rb_delegated B = [] \<and> rows = [] then (s, Inr (sharedRegistry (rb_base B)))
        else (case r of Inl e \<Rightarrow> (s1, Inl e) | Inr rq \<Rightarrow> build_customs B W (p_userId p) rows rq s1)) = (s', Inl e)"
      using assms unfolding build_registry_def Some option.case Inr sum.case d prod.case by simp
    show thesis
    proof (cases r)
      case (Inl e')
      show thesis
      proof (cases "s' = s")
        case False
        with eq Inl d show thesis by (intro delegated) (simp split: if_split_asm)
      qed (rule untouched)
    next
      case r: (Inr rq1)
      show thesis
      proof (cases "s' = s")
        case False
        with eq r show thesis by (intro custom [of "p_userId p" rows rq1 s1]) (simp split: if_split_asm)
      qed (rule untouched)
    qed
  qed
qed

definition close_registry :: "('c, 's) conn_ops \<Rightarrow> 'c request_registry \<Rightarrow> 's \<Rightarrow> 's \<times> unit result" where
  "close_registry ops rq s = close_all ops (rq_connections rq) s"

section \<open>Open connections\<close>

text \<open>
  What the connections promise: \<open>opened\<close> counts the open ones in a state of the remote servers. Connecting
  opens the connection it returns, listing changes nothing, and closing closes unless it is rejected.
\<close>

definition accounts :: "('c, 's) registry_builder \<Rightarrow> ('s \<Rightarrow> 'c multiset) \<Rightarrow> bool" where
  "accounts B opened \<longleftrightarrow>
     (\<forall>u h s s' c. rb_connect B u h s = (s', Inr c) \<longrightarrow> opened s' = opened s + {#c#})
     \<and> (\<forall>u h s s' e. rb_connect B u h s = (s', Inl e) \<longrightarrow> opened s' = opened s)
     \<and> (\<forall>c s. opened (fst (c_listTools (rb_ops B) c s)) = opened s)
     \<and> (\<forall>c s s'. c_close (rb_ops B) c s = (s', Inr ()) \<longrightarrow> opened s' = opened s - {#c#})
     \<and> (\<forall>c s s' e. c_close (rb_ops B) c s = (s', Inl e) \<longrightarrow> opened s' = opened s)"

named_theorems account_simps

lemma connect_opens [account_simps]:
  "accounts B opened \<Longrightarrow> rb_connect B u h s = (s', Inr c) \<Longrightarrow> opened s' = opened s + {#c#}"
  "accounts B opened \<Longrightarrow> rb_connect B u h s = (s', Inl e) \<Longrightarrow> opened s' = opened s"
  unfolding accounts_def by blast+

lemma addRoute_opens [account_simps]:
  assumes "accounts B opened" and "registry_addRoute (rb_ops B) c reg s = (s', reg', r)"
  shows "opened s' = opened s"
proof -
  have "s' = fst (c_listTools (rb_ops B) c s)"
    using assms(2) by (auto simp: registry_addRoute_def withConnection_def split: prod.splits sum.splits)
  then show ?thesis using assms(1) by (simp add: accounts_def)
qed

lemma close_opens [account_simps]:
  "accounts B opened \<Longrightarrow> c_close (rb_ops B) c s = (s', Inr ()) \<Longrightarrow> opened s' = opened s - {#c#}"
  by (simp add: accounts_def)

lemma close_all_opens:
  "accounts B opened \<Longrightarrow> close_all (rb_ops B) cs s = (s', Inr ()) \<Longrightarrow> opened s' = opened s - mset cs"
  by (induction cs arbitrary: s) (auto split: prod.splits sum.splits dest: close_opens)

lemma add_delegated_opens:
  assumes "accounts B opened"
  shows "add_delegated B W dc token k us reg cs s = (s', reg', cs', Inr ()) \<Longrightarrow> opened s' + mset cs = opened s + mset cs'"
proof (induction us arbitrary: k reg cs s)
  case (Cons u us)
  show ?case
  proof (cases "uc_auth u = Provider_credential")
    case False
    obtain tok s1 c s2 reg2 where e: "token_exchange (rw_net W k) dc token (uc_auth u) = Inr tok"
        "rb_connect B u [(S ''Authorization'', S ''Bearer '' @ tok)] s = (s1, Inr c)"
        "registry_addRoute (rb_ops B) c reg s1 = (s2, reg2, Inr ())"
        "add_delegated B W dc token (Suc k) us reg2 (cs @ [c]) s2 = (s', reg', cs', Inr ())"
      using Cons.prems False by (auto split: sum.splits prod.splits)
    from Cons.IH [OF e(4)] connect_opens(1) [OF assms e(2)] addRoute_opens [OF assms e(3)] show ?thesis
      by (simp add: add.assoc)
  qed (use Cons in simp)
qed simp

text \<open>A connection whose tools cannot be added is the one the loop forgets.\<close>

definition forgotten :: "('c, 's) registry_builder \<Rightarrow> js_error \<Rightarrow> 'c \<Rightarrow> bool" where
  "forgotten B e c \<longleftrightarrow> (\<exists>u \<in> set (rb_delegated B). \<exists>h s0 s1 reg s2 reg'. rb_connect B u h s0 = (s1, Inr c)
     \<and> registry_addRoute (rb_ops B) c reg s1 = (s2, reg', Inl e))"

lemma add_delegated_fails:
  assumes "accounts B opened"
  shows "add_delegated B W dc token k us reg cs s = (s', reg', cs', Inl e) \<Longrightarrow> set us \<subseteq> set (rb_delegated B) \<Longrightarrow>
    opened s' + mset cs = opened s + mset cs' \<or> (\<exists>c. forgotten B e c \<and> opened s' + mset cs = opened s + mset cs' + {#c#})"
proof (induction us arbitrary: k reg cs s)
  case (Cons u us)
  show ?case
  proof (cases "uc_auth u = Provider_credential")
    case False
    show ?thesis
    proof (cases "token_exchange (rw_net W k) dc token (uc_auth u)")
      case (Inl e')
      then show ?thesis using Cons.prems False by simp
    next
      case (Inr tok)
      obtain s1 r where c: "rb_connect B u [(S ''Authorization'', S ''Bearer '' @ tok)] s = (s1, r)"
        by (cases "rb_connect B u [(S ''Authorization'', S ''Bearer '' @ tok)] s")
      show ?thesis
      proof (cases r)
        case (Inl e')
        then show ?thesis using Cons.prems(1) False Inr c connect_opens(2) [OF assms] by auto
      next
        case r: (Inr cn)
        obtain s2 reg2 a where a: "registry_addRoute (rb_ops B) cn reg s1 = (s2, reg2, a)" by (metis prod_cases3)
        have o1: "opened s1 = opened s + {#cn#}" using connect_opens(1) [OF assms] c r by simp
        have o2: "opened s2 = opened s1" using addRoute_opens [OF assms a] .
        show ?thesis
        proof (cases a)
          case Inl': (Inl e')
          then have "s' = s2" "cs' = cs" "e' = e" using Cons.prems(1) False Inr c r a by auto
          moreover have "forgotten B e cn" using Cons.prems(2) c r a Inl' calculation(3) by (fastforce simp: forgotten_def)
          ultimately show ?thesis using o1 o2 by (auto simp: ac_simps)
        next
          case Inr': (Inr x)
          then have "add_delegated B W dc token (Suc k) us reg2 (cs @ [cn]) s2 = (s', reg', cs', Inl e)"
            using Cons.prems(1) False Inr c r a by auto
          from Cons.IH [OF this] Cons.prems(2) o1 o2 show ?thesis by (auto simp: ac_simps)
        qed
      qed
    qed
  qed (use Cons in simp)
qed simp

lemma add_custom_opens:
  assumes "accounts B opened" and "addCustomUpstream B W ck userId k row reg s = (s', reg', Inr r)"
  shows "opened s' = opened s + (case r of None \<Rightarrow> {#} | Some c \<Rightarrow> {#c#})"
proof -
  let ?h = "\<lambda>auth. authorizationHeaders auth"
  from assms(2) consider "s' = s" "r = None"
    | auth e where "rb_connect B (custom_config row) (?h auth) s = (s', Inl e)" "r = None"
    | auth c s1 where "rb_connect B (custom_config row) (?h auth) s = (s1, Inr c)" "registry_addRoute (rb_ops B) c reg s1 = (s', reg', Inr ())" "r = Some c"
    | auth c s1 s2 e where "rb_connect B (custom_config row) (?h auth) s = (s1, Inr c)" "registry_addRoute (rb_ops B) c reg s1 = (s2, reg', Inl e)"
        "c_close (rb_ops B) c s2 = (s', Inr ())" "r = None"
    by (auto simp: addCustomUpstream_def split: sum.splits prod.splits)
  then show ?thesis
  proof cases
    case 2
    then show ?thesis using connect_opens(2) [OF assms(1)] by auto
  next
    case 3
    then show ?thesis using connect_opens(1) [OF assms(1) 3(1)] addRoute_opens [OF assms(1) 3(2)] by simp
  next
    case 4
    then show ?thesis using connect_opens(1) [OF assms(1) 4(1)] addRoute_opens [OF assms(1) 4(2)] close_opens [OF assms(1) 4(3)] by simp
  qed simp
qed

lemma add_customs_opens:
  assumes "accounts B opened"
  shows "add_customs B W ck userId k rows rq s = (s', Inr rq') \<Longrightarrow> opened s' + mset (rq_connections rq) = opened s + mset (rq_connections rq')"
proof (induction rows arbitrary: k rq s)
  case (Cons row rows)
  obtain s1 reg1 r where a: "addCustomUpstream B W ck userId k row (rq_registry rq) s = (s1, reg1, Inr r)"
    using Cons.prems by (auto split: prod.splits sum.splits)
  from add_custom_opens [OF assms a] Cons.IH Cons.prems a show ?case
    by (cases r) (fastforce simp: ac_simps)+
qed simp

lemma build_delegated_opens:
  assumes "accounts B opened" and "build_delegated B W token s = (s', Inr rq)"
  shows "opened s' = opened s + mset (rq_connections rq)"
  using assms(2) add_delegated_opens [OF assms(1)]
  by (fastforce simp: build_delegated_def split: option.splits prod.splits sum.splits)

text \<open>
  A request leaves no connection behind: while the builder works every connection it opens is either closed
  again or held by the registry it returns, once; and closing the registry at the end of the request, if no
  connection refuses, restores what was open before.
\<close>

theorem request_connections_accounted:
  assumes "accounts B opened" and "build_registry B W princ token s = (s', Inr rq)"
  shows "opened s' = opened s + mset (rq_connections rq)
    \<and> (\<forall>s''. close_registry (rb_ops B) rq s' = (s'', Inr ()) \<longrightarrow> opened s'' = opened s)"
proof -
  from assms(2) have "opened s' = opened s + mset (rq_connections rq)"
  proof (cases rule: build_registry_Inr)
    case (own p rows s1 rq1)
    have "opened s' + mset (rq_connections rq1) = opened s1 + mset (rq_connections rq)"
      using own(4) add_customs_opens [OF assms(1)] by (auto simp: build_customs_def split: option.splits)
    then show ?thesis using build_delegated_opens [OF assms(1) own(3)] by (simp add: ac_simps)
  qed (simp add: sharedRegistry_def)
  then show ?thesis using close_all_opens [OF assms(1)] by (fastforce simp: close_registry_def)
qed

text \<open>
  What a failed build leaves open: when no connection refuses to close, at most the one connection to a
  delegated upstream whose tools could not be added, which the builder closes in no case; all the others are closed.
\<close>

theorem failed_build_forgets_one:
  assumes "accounts B opened" and "build_registry B W princ token s = (s', Inl e)"
    and "\<forall>c s. snd (c_close (rb_ops B) c s) = Inr ()"
  shows "opened s' = opened s \<or> (\<exists>c. forgotten B e c \<and> opened s' = opened s + {#c#})"
proof -
  have cl: "\<exists>s'. c_close (rb_ops B) c s = (s', Inr ())" for c s using assms(3) by (metis surj_pair snd_conv)
  have no: "\<exists>s'. close_all (rb_ops B) cs s = (s', Inr ())" for cs s
  proof (induction cs arbitrary: s)
    case (Cons c cs)
    obtain s1 where "c_close (rb_ops B) c s = (s1, Inr ())" using cl by blast
    with Cons.IH [of s1] show ?case by auto
  qed simp
  have one: "\<exists>s1 reg r. addCustomUpstream B W ck userId k row reg0 s = (s1, reg, Inr r)" for ck userId k row reg0 s
  proof -
    have "c_close (rb_ops B) c s2 \<noteq> (s3, Inl e)" for c s2 s3 e using cl [of c s2] by auto
    then show ?thesis unfolding addCustomUpstream_def by (auto split: sum.split prod.split)
  qed
  have cust: "add_customs B W ck userId k rows rq s \<noteq> (s', Inl e)" for ck userId k rows rq s s' e
  proof (induction rows arbitrary: k rq s)
    case (Cons row rows)
    obtain s1 reg r where "addCustomUpstream B W ck userId k row (rq_registry rq) s = (s1, reg, Inr r)" using one by blast
    with Cons.IH show ?case by (cases r) auto
  qed simp
  from assms(2) show ?thesis
  proof (cases rule: build_registry_Inl)
    case delegated
    then obtain dc tok reg cs s1 where a: "add_delegated B W dc tok 1 (rb_delegated B) (registry_clone (rb_base B)) [] s = (s1, reg, cs, Inl e)"
      and c: "close_all (rb_ops B) cs s1 = (s', Inr ())"
      using no by (auto simp: build_delegated_def split: option.splits prod.splits sum.splits) (metis Pair_inject sum.distinct(1))+
    show ?thesis using add_delegated_fails [OF assms(1) a] close_all_opens [OF assms(1) c] by auto
  next
    case (custom userId rows s1 rq1)
    then show ?thesis using cust by (auto simp: build_customs_def split: option.splits)
  qed simp
qed

section \<open>The tools of a request\<close>

text \<open>A connection carries the identifier and the prefix it was opened with.\<close>

definition connect_faithful :: "('c, 's) registry_builder \<Rightarrow> bool" where
  "connect_faithful B \<longleftrightarrow> (\<forall>u h s s' c. rb_connect B u h s = (s', Inr c) \<longrightarrow>
     c_id (rb_ops B) c = uc_id u \<and> c_toolPrefix (rb_ops B) c = uc_toolPrefix u)"

definition leads_to :: "jstr \<times> jstr \<Rightarrow> jstr \<Rightarrow> 'c route \<Rightarrow> bool" where
  "leads_to ip n r \<longleftrightarrow> r_upstreamId r = fst ip \<and> n = public_name (snd ip) (r_upstreamToolName r)"

definition grown :: "('c, 's) conn_ops \<Rightarrow> (jstr \<times> jstr) set \<Rightarrow> 'c route_map \<Rightarrow> 'c route_map \<Rightarrow> bool" where
  "grown ops own rm rm' \<longleftrightarrow> (table_ok ops rm \<longrightarrow> table_ok ops rm')
     \<and> (\<forall>n r. rm_get rm n = Some r \<longrightarrow> rm_get rm' n = Some r)
     \<and> (\<forall>n r. rm_get rm n = None \<and> rm_get rm' n = Some r \<longrightarrow> (\<exists>ip \<in> own. leads_to ip n r))"

lemma grown_refl [simp]: "grown ops own rm rm"
  by (auto simp: grown_def)

lemma grown_trans:
  assumes "grown ops own rm rm1" and "grown ops own rm1 rm2"
  shows "grown ops own rm rm2"
  unfolding grown_def
proof (intro conjI allI impI)
  fix n r assume "rm_get rm n = None \<and> rm_get rm2 n = Some r"
  then show "\<exists>ip \<in> own. leads_to ip n r"
    using assms by (cases "rm_get rm1 n") (fastforce simp: grown_def)+
qed (use assms in \<open>auto simp: grown_def\<close>)

lemma grown_mono: "grown ops own rm rm' \<Longrightarrow> own \<subseteq> own' \<Longrightarrow> grown ops own' rm rm'"
  by (fastforce simp: grown_def)

lemma addRoute_grown:
  assumes "registry_addRoute ops c reg s = (s', reg', x)"
  shows "grown ops {(c_id ops c, c_toolPrefix ops c)} (reg_routeMap reg) (reg_routeMap reg') \<and> (x = Inr () \<or> reg' = reg)"
proof (cases x)
  case (Inl e)
  then have "reg' = reg" using assms by (auto simp: registry_addRoute_def split: prod.splits sum.splits)
  then show ?thesis by simp
next
  case (Inr u)
  obtain tools where add: "for_each (add_tool ops c) tools (reg_routeMap reg) = Inr (reg_routeMap reg')"
    using assms Inr by (auto simp: registry_addRoute_def withConnection_def split: prod.splits sum.splits)
  have "leads_to (c_id ops c, c_toolPrefix ops c) n r" if n: "rm_get (reg_routeMap reg) n = None" "rm_get (reg_routeMap reg') n = Some r" for n r
    using rm.add_new [OF add n] by (auto simp: leads_to_def make_route_def)
  then show ?thesis using Inr for_each_add_tool_ok [OF _ add] rm.add_preserves [OF add] by (simp add: grown_def)
qed

definition delegated_owners :: "upstream_config list \<Rightarrow> (jstr \<times> jstr) set" where
  "delegated_owners us = (\<lambda>u. (uc_id u, uc_toolPrefix u)) ` {u \<in> set us. uc_auth u \<noteq> Provider_credential}"

definition custom_owners :: "upstream_row list \<Rightarrow> jstr list \<Rightarrow> (jstr \<times> jstr) set" where
  "custom_owners rows active = (\<lambda>row. (m_id row, m_tool_prefix row)) ` {row \<in> set rows. m_tool_prefix row \<in> set active}"

lemma add_delegated_grown:
  assumes "connect_faithful B"
  shows "add_delegated B W dc token k us reg cs s = (s', reg', cs', Inr ()) \<Longrightarrow>
    grown (rb_ops B) (delegated_owners us) (reg_routeMap reg) (reg_routeMap reg')"
proof (induction us arbitrary: k reg cs s)
  case (Cons u us)
  have sub: "delegated_owners us \<subseteq> delegated_owners (u # us)" by (auto simp: delegated_owners_def)
  show ?case
  proof (cases "uc_auth u = Provider_credential")
    case True
    then show ?thesis using grown_mono [OF Cons.IH sub] Cons.prems by simp
  next
    case False
    obtain h s1 c s2 reg2 where e: "rb_connect B u h s = (s1, Inr c)" "registry_addRoute (rb_ops B) c reg s1 = (s2, reg2, Inr ())"
        "add_delegated B W dc token (Suc k) us reg2 (cs @ [c]) s2 = (s', reg', cs', Inr ())"
      using Cons.prems False by (auto split: sum.splits prod.splits)
    have "(c_id (rb_ops B) c, c_toolPrefix (rb_ops B) c) \<in> delegated_owners (u # us)"
      using assms e(1) False by (fastforce simp: connect_faithful_def delegated_owners_def)
    then have "grown (rb_ops B) (delegated_owners (u # us)) (reg_routeMap reg) (reg_routeMap reg2)"
      using addRoute_grown [OF e(2)] by (auto intro: grown_mono)
    moreover have "grown (rb_ops B) (delegated_owners (u # us)) (reg_routeMap reg2) (reg_routeMap reg')"
      using Cons.IH [OF e(3)] sub by (rule grown_mono)
    ultimately show ?thesis by (rule grown_trans)
  qed
qed simp

lemma add_custom_grown:
  assumes "connect_faithful B" and "addCustomUpstream B W ck userId k row reg s = (s', reg', Inr x)"
  shows "case x of None \<Rightarrow> reg' = reg | Some c \<Rightarrow> grown (rb_ops B) {(m_id row, m_tool_prefix row)} (reg_routeMap reg) (reg_routeMap reg')"
proof -
  have f: "c_id (rb_ops B) c = m_id row \<and> c_toolPrefix (rb_ops B) c = m_tool_prefix row"
    if "rb_connect B (custom_config row) h s = (s1, Inr c)" for h s1 c
    using assms(1) that by (fastforce simp: connect_faithful_def custom_config_def)
  show ?thesis using assms(2) f addRoute_grown [of "rb_ops B" _ reg]
    by (auto simp: addCustomUpstream_def split: sum.splits prod.splits) fastforce+
qed

lemma add_customs_grown:
  assumes "connect_faithful B"
  shows "add_customs B W ck userId k rows rq s = (s', Inr rq') \<Longrightarrow>
    grown (rb_ops B) (custom_owners rows (rq_prefixes rq')) (reg_routeMap (rq_registry rq)) (reg_routeMap (rq_registry rq'))
    \<and> set (rq_prefixes rq) \<subseteq> set (rq_prefixes rq') \<and> set (rq_prefixes rq') \<subseteq> set (rq_prefixes rq) \<union> m_tool_prefix ` set rows"
proof (induction rows arbitrary: k rq s)
  case (Cons row rows)
  let ?own = "custom_owners (row # rows) (rq_prefixes rq')"
  obtain s1 reg1 x where a: "addCustomUpstream B W ck userId k row (rq_registry rq) s = (s1, reg1, Inr x)"
    using Cons.prems by (auto split: prod.splits sum.splits)
  have sub: "custom_owners rows (rq_prefixes rq') \<subseteq> ?own" by (auto simp: custom_owners_def)
  show ?case
  proof (cases x)
    case None
    then show ?thesis using Cons.IH [of "Suc k" "rq\<lparr>rq_registry := reg1\<rparr>" s1] Cons.prems a add_custom_grown [OF assms a] sub
      by (auto intro: grown_mono)
  next
    case (Some c)
    let ?rq = "\<lparr>rq_registry = reg1, rq_prefixes = rq_prefixes rq @ [m_tool_prefix row], rq_connections = rq_connections rq @ [c]\<rparr>"
    have IH: "grown (rb_ops B) (custom_owners rows (rq_prefixes rq')) (reg_routeMap reg1) (reg_routeMap (rq_registry rq'))"
        "set (rq_prefixes rq @ [m_tool_prefix row]) \<subseteq> set (rq_prefixes rq')"
        "set (rq_prefixes rq') \<subseteq> set (rq_prefixes rq @ [m_tool_prefix row]) \<union> m_tool_prefix ` set rows"
      using Cons.IH [of "Suc k" ?rq s1] Cons.prems a Some by auto
    have "(m_id row, m_tool_prefix row) \<in> ?own" using IH(2) by (auto simp: custom_owners_def)
    then have "grown (rb_ops B) ?own (reg_routeMap (rq_registry rq)) (reg_routeMap reg1)"
      using add_custom_grown [OF assms a] Some by (auto intro: grown_mono)
    with grown_mono [OF IH(1) sub] IH(2,3) show ?thesis by (auto intro: grown_trans)
  qed
qed simp

lemma enabled_rows_Inr:
  assumes "enabled_rows B W userId = Inr rows" and "row \<in> set rows"
  shows "row \<in> set (user_mcp_upstreams (rw_db W 0)) \<and> m_user_id row = userId \<and> m_is_enabled row"
  using assms by (auto simp: enabled_rows_def upstream_list_def query_def bindE_Inr_iff split: option.splits)

text \<open>
  The tools of a request are the shared ones and those of its own user: a route of the shared registry is
  never replaced, and every further one leads, under the prefix of its upstream, to an upstream with delegated
  identity of the configuration or to an enabled upstream that the user of the request registered; without a
  user there are only the shared ones. The active prefixes are those of the user's enabled upstreams.
\<close>

lemma request_registry_scope:
  assumes "build_registry B W princ token s = (s', Inr rq)" and "connect_faithful B" and "table_ok (rb_ops B) (reg_routeMap (rb_base B))"
  shows "table_ok (rb_ops B) (reg_routeMap (rq_registry rq))
    \<and> (\<forall>n r. rm_get (reg_routeMap (rb_base B)) n = Some r \<longrightarrow> rm_get (reg_routeMap (rq_registry rq)) n = Some r)
    \<and> (\<forall>n r. rm_get (reg_routeMap (rb_base B)) n = None \<and> rm_get (reg_routeMap (rq_registry rq)) n = Some r \<longrightarrow>
        (\<exists>u \<in> set (rb_delegated B). uc_auth u \<noteq> Provider_credential \<and> leads_to (uc_id u, uc_toolPrefix u) n r)
        \<or> (\<exists>p row. princ = Some p \<and> row \<in> set (user_mcp_upstreams (rw_db W 0)) \<and> m_user_id row = p_userId p \<and> m_is_enabled row
            \<and> m_tool_prefix row \<in> set (rq_prefixes rq) \<and> leads_to (m_id row, m_tool_prefix row) n r))
    \<and> (\<forall>q \<in> set (rq_prefixes rq). \<exists>p row. princ = Some p \<and> row \<in> set (user_mcp_upstreams (rw_db W 0)) \<and> m_user_id row = p_userId p
        \<and> m_is_enabled row \<and> m_tool_prefix row = q)"
  using assms(1)
proof (cases rule: build_registry_Inr)
  case shared
  then show ?thesis using assms(3) by (auto simp: sharedRegistry_def)
next
  case (own p rows s1 rq1)
  let ?own = "delegated_owners (rb_delegated B) \<union> custom_owners rows (rq_prefixes rq)"
  have d: "grown (rb_ops B) (delegated_owners (rb_delegated B)) (reg_routeMap (rb_base B)) (reg_routeMap (rq_registry rq1))" "rq_prefixes rq1 = []"
    using own(3) add_delegated_grown [OF assms(2)]
    by (fastforce simp: build_delegated_def registry_clone_def split: option.splits prod.splits sum.splits)+
  have c: "grown (rb_ops B) (custom_owners rows (rq_prefixes rq)) (reg_routeMap (rq_registry rq1)) (reg_routeMap (rq_registry rq))"
      "set (rq_prefixes rq) \<subseteq> m_tool_prefix ` set rows"
    using own(4) add_customs_grown [OF assms(2)] d(2) by (fastforce simp: build_customs_def split: option.splits)+
  have g: "grown (rb_ops B) ?own (reg_routeMap (rb_base B)) (reg_routeMap (rq_registry rq))"
    using grown_mono [OF d(1)] grown_mono [OF c(1)] by (blast intro: grown_trans)
  show ?thesis
  proof (intro conjI allI impI ballI)
    fix n r assume "rm_get (reg_routeMap (rb_base B)) n = None \<and> rm_get (reg_routeMap (rq_registry rq)) n = Some r"
    then obtain ip where "ip \<in> ?own" "leads_to ip n r" using g unfolding grown_def by blast
    then show "(\<exists>u \<in> set (rb_delegated B). uc_auth u \<noteq> Provider_credential \<and> leads_to (uc_id u, uc_toolPrefix u) n r)
        \<or> (\<exists>p row. princ = Some p \<and> row \<in> set (user_mcp_upstreams (rw_db W 0)) \<and> m_user_id row = p_userId p \<and> m_is_enabled row
            \<and> m_tool_prefix row \<in> set (rq_prefixes rq) \<and> leads_to (m_id row, m_tool_prefix row) n r)"
      using own(1) enabled_rows_Inr [OF own(2)] by (fastforce simp: delegated_owners_def custom_owners_def)
  next
    fix q assume "q \<in> set (rq_prefixes rq)"
    then obtain row where "row \<in> set rows" "m_tool_prefix row = q" using c(2) by auto
    then show "\<exists>p row. princ = Some p \<and> row \<in> set (user_mcp_upstreams (rw_db W 0)) \<and> m_user_id row = p_userId p
        \<and> m_is_enabled row \<and> m_tool_prefix row = q"
      using own(1) enabled_rows_Inr [OF own(2)] by blast
  qed (use g assms(3) in \<open>auto simp: grown_def\<close>)
qed

section \<open>Instances\<close>

text \<open>Connections are their configurations; the state of the servers is what is open.\<close>

definition demo_conn_ops :: "(upstream_config, upstream_config multiset) conn_ops" where
  "demo_conn_ops = \<lparr>c_id = uc_id, c_toolPrefix = uc_toolPrefix,
     c_listTools = (\<lambda>c s. (s, if uc_toolPrefix c = S ''bad'' then Inl (plain_error []) else Inr [\<lparr>t_name = S ''x'', t_fields = []\<rparr>])),
     c_callTool = (\<lambda>c n a s. (s, Inr JNull)), c_close = (\<lambda>c s. (s - {#c#}, Inr ()))\<rparr>"

definition demo_delegated :: "jstr \<Rightarrow> upstream_config" where
  "demo_delegated p = \<lparr>uc_id = S ''g'', uc_toolPrefix = p, uc_networkScope = Cluster, uc_endpoint = S ''http://a.svc'',
     uc_enabled = True, uc_agentTools = False, uc_timeoutMs = 30000, uc_auth = Gateway_delegation (S ''a'') (S ''t'') None, uc_headers = []\<rparr>"

definition demo_builder :: "upstream_config list \<Rightarrow> (upstream_config, upstream_config multiset) registry_builder" where
  "demo_builder us = \<lparr>rb_ops = demo_conn_ops, rb_base = new_ToolRegistry [], rb_custom = Some (toy_crypto, []),
     rb_connect = (\<lambda>u h s. (s + {#u#}, Inr u)), rb_delegated = us, rb_client = Some \<lparr>dc_iamUrl = [], dc_clientId = [], dc_clientSecret = []\<rparr>\<rparr>"

definition demo_custom_row :: upstream_row where
  "demo_custom_row = \<lparr>m_id = S ''m1'', m_user_id = S ''u1'', m_tool_prefix = S ''mine'', m_endpoint_url = S ''https://mcp.example.com'',
     m_auth_type = S ''none'', m_auth_header_name = S ''X-API-Key'', m_encrypted_auth_value = None, m_encryption_iv = None,
     m_encryption_tag = None, m_is_enabled = True, m_description = None\<rparr>"

definition demo_upstreams :: "upstream_row list \<Rightarrow> db" where
  "demo_upstreams rows = \<lparr>users = [], api_keys = [], user_mcp_upstreams = rows, user_tool_permissions = [], lifecycle_states = (\<lambda>_. None),
     lifecycle_events = (\<lambda>_. None), lifecycle_last_seen = None, access_states = (\<lambda>_. None), access_events = (\<lambda>_. None), access_last_seen = None\<rparr>"

definition demo_request_world :: "db \<Rightarrow> request_world" where
  "demo_request_world d = \<lparr>rw_net = (\<lambda>_ _. Reply 200 (Some (JObj [(S ''access_token'', JStr (S ''tok''))]))), rw_url = (\<lambda>_. demo_url),
     rw_db = (\<lambda>_. d), rw_flt = (\<lambda>_ _. None)\<rparr>"

definition demo_caller :: principal where
  "demo_caller = \<lparr>p_userId = S ''u1'', p_apiKeyId = None, p_systemRole = S ''USER'', p_scopes = [], p_toolPatterns = []\<rparr>"

definition demo_custom_registry :: "upstream_config request_registry" where
  "demo_custom_registry = \<lparr>rq_registry = \<lparr>reg_connections = [], reg_routeMap = [(S ''mine.x'', make_route demo_conn_ops (custom_config demo_custom_row)
     \<lparr>t_name = S ''x'', t_fields = []\<rparr>)]\<rparr>, rq_prefixes = [S ''mine''], rq_connections = [custom_config demo_custom_row]\<rparr>"

lemma demo_accounts: "accounts (demo_builder us) (\<lambda>s. s)"
  by (simp add: accounts_def demo_builder_def demo_conn_ops_def)

lemma demo_faithful: "connect_faithful (demo_builder us)"
  by (simp add: connect_faithful_def demo_builder_def demo_conn_ops_def)

lemma demo_built_on:
  assumes d: "user_mcp_upstreams d = [demo_custom_row]"
    and route: "\<And>s. registry_addRoute demo_conn_ops (custom_config demo_custom_row) (registry_clone base) s = (s, reg, Inr ())"
  shows "build_registry ((demo_builder [])\<lparr>rb_base := base\<rparr>) (demo_request_world d) (Some pr) token {#}
    = (if p_userId pr = S ''u1'' then ({#custom_config demo_custom_row#}, Inr \<lparr>rq_registry = reg, rq_prefixes = [S ''mine''],
        rq_connections = [custom_config demo_custom_row]\<rparr>) else ({#}, Inr (sharedRegistry base)))"
proof -
  let ?B = "(demo_builder [])\<lparr>rb_base := base\<rparr>" and ?W = "demo_request_world d"
  have rows: "enabled_rows ?B ?W q = Inr (if q = S ''u1'' then [demo_custom_row] else [])" for q
    by (simp add: enabled_rows_def demo_builder_def upstream_list_def query_def demo_request_world_def d demo_custom_row_def)
  have url: "validateSafeEndpointUrl demo_url u = Inr ()" for u
    by (simp add: validateSafeEndpointUrl_def demo_url_def resolved_check_def Let_def) code_simp
  have auth: "snd (getDecryptedAuthValue toy_crypto [] (\<lambda>_. None) (S ''u1'') (S ''mine'') d)
      = Inr (Some \<lparr>av_authType = S ''none'', av_authHeaderName = S ''X-API-Key'', av_authValue = None\<rparr>)"
    by (simp add: getDecryptedAuthValue_def bindQ_def query_def d demo_custom_row_def open_row_def)
  have row: "m_tool_prefix demo_custom_row = S ''mine''" "m_endpoint_url demo_custom_row = S ''https://mcp.example.com''"
    by (simp_all add: demo_custom_row_def)
  have add: "addCustomUpstream ?B ?W (toy_crypto, []) (S ''u1'') (Suc 0) demo_custom_row (registry_clone base) {#}
      = ({#custom_config demo_custom_row#}, reg, Inr (Some (custom_config demo_custom_row)))"
    using auth by (simp add: addCustomUpstream_def demo_request_world_def url demo_builder_def row route)
  have b: "rb_delegated ?B = []" "rb_custom ?B = Some (toy_crypto, [])" "rb_base ?B = base" by (simp_all add: demo_builder_def)
  have "build_delegated ?B ?W token {#} = ({#}, Inr \<lparr>rq_registry = registry_clone base, rq_prefixes = [], rq_connections = []\<rparr>)"
    by (simp add: build_delegated_def b split: option.split)
  then show ?thesis by (simp add: build_registry_def rows b build_customs_def add row)
qed

lemma demo_request_built:
  assumes "user_mcp_upstreams d = [demo_custom_row]"
  shows "build_registry (demo_builder []) (demo_request_world d) (Some demo_caller) None {#} = ({#custom_config demo_custom_row#}, Inr demo_custom_registry)"
proof -
  have row: "uc_toolPrefix (custom_config demo_custom_row) = S ''mine''" "uc_id (custom_config demo_custom_row) = S ''m1''"
    by (simp_all add: demo_custom_row_def custom_config_def)
  have "registry_addRoute demo_conn_ops (custom_config demo_custom_row) (registry_clone (new_ToolRegistry [])) s
      = (s, rq_registry demo_custom_registry, Inr ())" for s
    by (simp add: registry_addRoute_def withConnection_def registry_clone_def new_ToolRegistry_def demo_conn_ops_def row add_tool_def Let_def
      rm_has_def rm_get_def rm_empty_def demo_custom_registry_def make_route_def public_name_def S_append [symmetric] del: S_append)
  from demo_built_on [OF assms this, of demo_caller None] show ?thesis
    by (simp add: demo_caller_def demo_custom_registry_def) (simp add: demo_builder_def)
qed

theorem request_connections_accounted_witness:
  "\<exists>d s rq. build_registry (demo_builder []) (demo_request_world d) (Some demo_caller) None {#} = (s, Inr rq)
    \<and> s = mset (rq_connections rq) \<and> close_registry demo_conn_ops rq s = ({#}, Inr ())"
proof -
  let ?d = "demo_upstreams [demo_custom_row]"
  have b: "build_registry (demo_builder []) (demo_request_world ?d) (Some demo_caller) None {#}
      = ({#custom_config demo_custom_row#}, Inr demo_custom_registry)" by (rule demo_request_built) (simp add: demo_upstreams_def)
  have "{#custom_config demo_custom_row#} = {#} + mset (rq_connections demo_custom_registry)"
    using request_connections_accounted [OF demo_accounts b] by blast
  moreover have "close_registry demo_conn_ops demo_custom_registry {#custom_config demo_custom_row#} = ({#}, Inr ())"
    by (simp add: close_registry_def demo_custom_registry_def demo_conn_ops_def)
  ultimately show ?thesis using b by (metis add_0)
qed

lemma demo_registry_scope:
  "\<exists>d s rq r row. build_registry (demo_builder []) (demo_request_world d) (Some demo_caller) None {#} = (s, Inr rq)
    \<and> rm_get (reg_routeMap (rq_registry rq)) (S ''mine.x'') = Some r \<and> row \<in> set (user_mcp_upstreams d)
    \<and> m_user_id row = S ''u1'' \<and> leads_to (m_id row, m_tool_prefix row) (S ''mine.x'') r"
proof -
  let ?d = "demo_upstreams [demo_custom_row]"
  have b: "build_registry (demo_builder []) (demo_request_world ?d) (Some demo_caller) None {#}
      = ({#custom_config demo_custom_row#}, Inr demo_custom_registry)" by (rule demo_request_built) (simp add: demo_upstreams_def)
  have base: "table_ok (rb_ops (demo_builder [])) (reg_routeMap (rb_base (demo_builder [])))" "rm_get (reg_routeMap (rb_base (demo_builder []))) (S ''mine.x'') = None"
      "rb_delegated (demo_builder []) = []" "rw_db (demo_request_world ?d) 0 = ?d"
    by (simp_all add: demo_builder_def new_ToolRegistry_def rm_get_def rm_empty_def table_ok_def demo_request_world_def)
  obtain r where r: "rm_get (reg_routeMap (rq_registry demo_custom_registry)) (S ''mine.x'') = Some r"
    by (simp add: demo_custom_registry_def rm_get_def)
  obtain row where row: "row \<in> set (user_mcp_upstreams ?d)" "m_user_id row = p_userId demo_caller" "leads_to (m_id row, m_tool_prefix row) (S ''mine.x'') r"
    using request_registry_scope [OF b demo_faithful base(1)] base(2-4) r by force
  then have "m_user_id row = S ''u1''" by (simp add: demo_caller_def)
  with b r row show ?thesis by blast
qed

text \<open>The forgotten connection.\<close>

lemma demo_forgets:
  assumes "user_mcp_upstreams d = []"
  shows "build_registry (demo_builder [demo_delegated (S ''bad'')]) (demo_request_world d) (Some demo_caller) (Some (S ''tok'')) {#}
    = ({#demo_delegated (S ''bad'')#}, Inl (plain_error []))"
proof -
  let ?u = "demo_delegated (S ''bad'')" and ?W = "demo_request_world d"
  have x: "token_exchange (rw_net ?W k) dc token a = Inr (S ''tok'')" for k dc token a
    by (simp add: token_exchange_def demo_request_world_def reply_ok_def non_empty_def is_text_def prop_of_def fields_of_def text_of_def)
  have r: "registry_addRoute demo_conn_ops ?u reg s = (s, reg, Inl (plain_error []))" for reg s
    by (simp add: registry_addRoute_def withConnection_def demo_conn_ops_def demo_delegated_def)
  have b: "rb_ops (demo_builder us) = demo_conn_ops" "rb_delegated (demo_builder us) = us" "rb_connect (demo_builder us) u h s = (s + {#u#}, Inr u)"
      "\<exists>dc. rb_client (demo_builder us) = Some dc" "rb_custom (demo_builder us) = Some (toy_crypto, [])" for us u h s
    by (simp_all add: demo_builder_def)
  obtain dc where dc: "rb_client (demo_builder [?u]) = Some dc" using b(4) by blast
  have a: "uc_auth ?u \<noteq> Provider_credential" by (simp add: demo_delegated_def)
  have e: "enabled_rows (demo_builder [?u]) ?W q = Inr []" for q
    by (simp add: enabled_rows_def b upstream_list_def query_def demo_request_world_def assms)
  have "build_delegated (demo_builder [?u]) ?W (Some (S ''tok'')) {#} = ({#?u#}, Inl (plain_error []))"
    by (simp add: build_delegated_def dc b a x r)
  then show ?thesis by (simp add: build_registry_def e b dc nonempty_def)
qed

theorem failed_build_forgets_one_witness:
  "\<exists>d e c. build_registry (demo_builder [demo_delegated (S ''bad'')]) (demo_request_world d) (Some demo_caller) (Some (S ''tok'')) {#}
    = ({#c#}, Inl e) \<and> forgotten (demo_builder [demo_delegated (S ''bad'')]) e c"
proof -
  let ?d = "demo_upstreams []" and ?B = "demo_builder [demo_delegated (S ''bad'')]"
  have b: "build_registry ?B (demo_request_world ?d) (Some demo_caller) (Some (S ''tok'')) {#} = ({#demo_delegated (S ''bad'')#}, Inl (plain_error []))"
    by (rule demo_forgets) (simp add: demo_upstreams_def)
  have "\<forall>c s. snd (c_close (rb_ops ?B) c s) = Inr ()" by (simp add: demo_builder_def demo_conn_ops_def)
  from failed_build_forgets_one [OF demo_accounts b this] b show ?thesis by auto
qed

end
