(* ===== verification/McpEndpoint.thy ===== *)
theory McpEndpoint
  imports RequestRegistry GatewayServer McpOAuth
begin

text \<open>
  The endpoint of the MCP protocol (\<open>src/api/mcpRoutes.ts\<close>): a request is admitted by its token, gets a registry
  of its own, a policy over it, and a server with the tools that the policy allows. The transport of the
  protocol library then hands calls to the handlers of \<open>GatewayServer\<close>; \<open>close_registry\<close> runs when the
  connection of the client closes.
\<close>

section \<open>The code\<close>

record mcp_headers =
  mh_authorization :: "jstr option"
  mh_delimiter :: "jstr option"
  mh_userAgent :: "jstr option"

definition resolveMcpNamingDelimiter :: "jv \<Rightarrow> mcp_headers \<Rightarrow> jstr" where
  "resolveMcpNamingDelimiter params h =
     (if prop_of params ''delimiter'' = JStr (S ''_'') \<or> mh_delimiter h = Some (S ''_'') \<or> prop_of params ''naming'' = JStr (S ''underscore'')
         \<or> prop_of params ''naming'' = JStr (S ''flat'') then S ''_''
      else if str_includes (lowercase (or_else (mh_userAgent h) [])) (S ''antigravity'') then S ''_'' else S ''.'')"

text \<open>The public description of the resource.\<close>

definition resource_metadata :: "mcp_config \<Rightarrow> jv" where
  "resource_metadata c = JObj [(S ''resource'', JStr (mo_resource c)), (S ''authorization_servers'', JArr [JStr (mo_authorizationServer c)]),
     (S ''scopes_supported'', JArr [JStr (mo_requiredScope c)]), (S ''bearer_methods_supported'', JArr [JStr (S ''header'')])]"

definition challenge_header :: "mcp_config \<Rightarrow> jstr" where
  "challenge_header c = S ''Bearer resource_metadata='' @ [34] @ mo_resourceMetadataUrl c @ [34] @ S '', scope='' @ [34] @ mo_requiredScope c @ [34]"

definition virtual_tools :: "bool \<Rightarrow> jstr list" where
  "virtual_tools router = (if router then [meta_tool_name] else [])"

definition request_policy :: "gateway_config \<Rightarrow> bool \<Rightarrow> jstr list \<Rightarrow> tool_policy_config" where
  "request_policy cfg router active = \<lparr>cfg_allow = gc_allow cfg @ virtual_tools router @ map (\<lambda>q. q @ S ''.*'') active, cfg_deny = gc_deny cfg\<rparr>"

definition agent_contracts :: "gateway_config \<Rightarrow> contract list" where
  "agent_contracts cfg = map (\<lambda>u. \<lparr>ct_upstreamId = uc_id u, ct_toolPrefix = uc_toolPrefix u\<rparr>)
     (filter (\<lambda>u. uc_enabled u \<and> uc_agentTools u) (gc_upstreams cfg))"

record ('c, 's) mcp_endpoint =
  me_config :: gateway_config
  me_oauth :: mcp_config
  me_verify :: "jstr \<Rightarrow> db \<Rightarrow> db \<times> principal option"
  me_builder :: "('c, 's) registry_builder"
  me_env :: agent_env
  me_guardrail :: "(jev_fetch \<times> jev_config \<times> jev_guardrail) option"
  me_router :: "(jev_fetch \<times> jev_config \<times> int) option"
  me_audit :: bool
  me_collate :: "jstr comparator"

record mcp_call =
  mc_id :: jstr
  mc_ip :: jstr
  mc_query :: jv
  mc_headers :: mcp_headers

definition context_of :: "mcp_call \<Rightarrow> principal \<Rightarrow> request_context" where
  "context_of q p = \<lparr>rc_requestId = Some (mc_id q), rc_userId = Some (p_userId p),
     rc_apiKeyId = (if nonempty (p_apiKeyId p) then p_apiKeyId p else None), rc_ipAddress = Some (mc_ip q),
     rc_userAgent = mh_userAgent (mc_headers q)\<rparr>"

definition request_gateway :: "('c, 's) mcp_endpoint \<Rightarrow> mcp_call \<Rightarrow> principal \<Rightarrow> access_policy \<Rightarrow> gateway_env" where
  "request_gateway M q p ap = \<lparr>gw_env = me_env M, gw_gate = Access ap, gw_guardrail = me_guardrail M, gw_router = me_router M,
     gw_contracts = agent_contracts (me_config M), gw_delimiter = resolveMcpNamingDelimiter (mc_query q) (mc_headers q),
     gw_invocation = \<lparr>ic_requestContext = Some (context_of q p), ic_auditLogger = me_audit M\<rparr>\<rparr>"

datatype 'c mcp_outcome =
    Unauthorized jstr
  | Failed js_error
  | Serving "'c request_registry" gateway_env "'c gateway_server"

definition serve_request :: "('c, 's) mcp_endpoint \<Rightarrow> mcp_call \<Rightarrow> principal \<Rightarrow> 'c request_registry \<Rightarrow> 'c mcp_outcome" where
  "serve_request M q p rq =
     (case bindE (new_ToolAccessPolicy (request_policy (me_config M) (me_router M \<noteq> None) (rq_prefixes rq)) (Some p)) (\<lambda>ap.
        bindE (createGatewayServer (me_collate M) (request_gateway M q p ap) (reg_routeMap (rq_registry rq))) (\<lambda>srv.
        Inr (request_gateway M q p ap, srv))) of
      Inl e \<Rightarrow> Failed e | Inr (G, srv) \<Rightarrow> Serving rq G srv)"

definition mcp_open :: "('c, 's) mcp_endpoint \<Rightarrow> request_world \<Rightarrow> mcp_call \<Rightarrow> db \<times> 's \<Rightarrow> (db \<times> 's) \<times> 'c mcp_outcome" where
  "mcp_open M W q ds = (case bearerToken (mh_authorization (mc_headers q)) of
      None \<Rightarrow> (ds, Unauthorized (challenge_header (me_oauth M)))
    | Some token \<Rightarrow> (case me_verify M token (fst ds) of
        (d, None) \<Rightarrow> ((d, snd ds), Unauthorized (challenge_header (me_oauth M)))
      | (d, Some p) \<Rightarrow> (case build_registry (me_builder M) W (Some p) (Some token) (snd ds) of
          (s, Inl e) \<Rightarrow> ((d, s), Failed e)
        | (s, Inr rq) \<Rightarrow> ((d, s), serve_request M q p rq))))"

section \<open>What a request can see\<close>

lemma serve_request_Serving:
  assumes "serve_request M q p rq = Serving rq' G srv"
  obtains ap where "rq' = rq" "new_ToolAccessPolicy (request_policy (me_config M) (me_router M \<noteq> None) (rq_prefixes rq)) (Some p) = Inr ap"
    "G = request_gateway M q p ap" "createGatewayServer (me_collate M) G (reg_routeMap (rq_registry rq)) = Inr srv"
  using assms by (auto simp: serve_request_def bindE_Inr_iff split: sum.splits prod.splits)

lemma mcp_open_Serving:
  assumes "mcp_open M W q ds = ((d, s), Serving rq G srv)"
  obtains token p where "bearerToken (mh_authorization (mc_headers q)) = Some token" "me_verify M token (fst ds) = (d, Some p)"
    "build_registry (me_builder M) W (Some p) (Some token) (snd ds) = (s, Inr rq)" "serve_request M q p rq = Serving rq G srv"
proof -
  obtain token where t: "bearerToken (mh_authorization (mc_headers q)) = Some token"
    using assms by (cases "bearerToken (mh_authorization (mc_headers q))") (simp_all add: mcp_open_def)
  obtain d1 po where v: "me_verify M token (fst ds) = (d1, po)" by (cases "me_verify M token (fst ds)")
  obtain p where p: "po = Some p" using assms t v by (cases po) (simp_all add: mcp_open_def)
  obtain s1 r where b: "build_registry (me_builder M) W (Some p) (Some token) (snd ds) = (s1, r)"
    by (cases "build_registry (me_builder M) W (Some p) (Some token) (snd ds)")
  obtain rq1 where r: "r = Inr rq1" using assms t v p b by (cases r) (simp_all add: mcp_open_def)
  have e: "d1 = d" "s1 = s" "serve_request M q p rq1 = Serving rq G srv" using assms t v p b r by (simp_all add: mcp_open_def)
  then have "rq1 = rq" using serve_request_Serving by metis
  with that t v p b r e show thesis by blast
qed

lemma server_tools:
  assumes "createGatewayServer collate G rm = Inr srv" and "reg \<in> set (gs_tools srv)"
  shows "gate_spec (gw_gate G) (rg_publicName reg) \<and> rg_route reg \<in> snd ` set rm \<and> rg_publicName reg = r_publicName (rg_route reg)"
proof -
  have r: "register_tools G (rm_list collate rm) = Inr (gs_tools srv)"
    using assms(1) by (auto simp: createGatewayServer_def bindE_Inr_iff split: if_splits)
  have n: "register_tools G rs = Inr regs \<Longrightarrow> reg \<in> set regs \<Longrightarrow> rg_publicName reg = r_publicName (rg_route reg)" for rs regs
    by (induction rs arbitrary: regs) (auto simp: bindE_Inr_iff Let_def split: if_splits)
  show ?thesis using register_tools_allowed [OF r assms(2)] n [OF r assms(2)] by (auto simp: rm_list_def)
qed

lemma any_glob_policy: "any_glob (cfg_allow (request_policy cfg b active)) n \<longleftrightarrow>
    any_glob (gc_allow cfg) n \<or> any_glob (virtual_tools b) n \<or> any_glob (map (\<lambda>q. q @ S ''.*'') active) n"
  by (simp add: request_policy_def)

text \<open>
  C19. What a client of the endpoint can use: a server is opened only for a token that verified, and each of its
  tools is not denied by the configuration, is granted to the user of the token by pattern and by scope, and
  is allowed by the configuration or lies under the prefix of one of the user's own upstreams; the call goes to
  an upstream of the shared registry, to one with delegated identity, or to an enabled upstream that this very
  user registered.
\<close>

theorem mcp_request_scope:
  assumes "mcp_open M W q ds = ((d, s), Serving rq G srv)" and "reg \<in> set (gs_tools srv)"
    and "connect_faithful (me_builder M)" and "table_ok (rb_ops (me_builder M)) (reg_routeMap (rb_base (me_builder M)))"
  shows "\<exists>token p. bearerToken (mh_authorization (mc_headers q)) = Some token \<and> me_verify M token (fst ds) = (d, Some p)
    \<and> \<not> any_glob (gc_deny (me_config M)) (rg_publicName reg) \<and> principal_spec p (rg_publicName reg)
    \<and> (any_glob (gc_allow (me_config M)) (rg_publicName reg) \<or> any_glob (virtual_tools (me_router M \<noteq> None)) (rg_publicName reg)
       \<or> (\<exists>row \<in> set (user_mcp_upstreams (rw_db W 0)). m_user_id row = p_userId p \<and> m_is_enabled row
            \<and> glob_match (m_tool_prefix row @ S ''.*'') (rg_publicName reg)))
    \<and> rm_get (reg_routeMap (rq_registry rq)) (rg_publicName reg) = Some (rg_route reg)
    \<and> (rm_get (reg_routeMap (rb_base (me_builder M))) (rg_publicName reg) = Some (rg_route reg)
       \<or> (\<exists>u \<in> set (rb_delegated (me_builder M)). uc_auth u \<noteq> Provider_credential
            \<and> leads_to (uc_id u, uc_toolPrefix u) (rg_publicName reg) (rg_route reg))
       \<or> (\<exists>row \<in> set (user_mcp_upstreams (rw_db W 0)). m_user_id row = p_userId p \<and> m_is_enabled row
            \<and> leads_to (m_id row, m_tool_prefix row) (rg_publicName reg) (rg_route reg)))"
proof -
  obtain token p where o: "bearerToken (mh_authorization (mc_headers q)) = Some token" "me_verify M token (fst ds) = (d, Some p)"
      "build_registry (me_builder M) W (Some p) (Some token) (snd ds) = (s, Inr rq)" "serve_request M q p rq = Serving rq G srv"
    using assms(1) by (rule mcp_open_Serving)
  let ?n = "rg_publicName reg" and ?cfg = "request_policy (me_config M) (me_router M \<noteq> None) (rq_prefixes rq)"
  obtain ap where ap: "new_ToolAccessPolicy ?cfg (Some p) = Inr ap" "G = request_gateway M q p ap"
      "createGatewayServer (me_collate M) G (reg_routeMap (rq_registry rq)) = Inr srv"
    using o(4) by (rule serve_request_Serving)
  have tool: "gate_spec (gw_gate G) ?n" "rg_route reg \<in> snd ` set (reg_routeMap (rq_registry rq))" "?n = r_publicName (rg_route reg)"
    using server_tools [OF ap(3) assms(2)] by blast+
  have "ToolAccessPolicy_allows ap ?n = Inr True" using tool(1) ap(2) by (simp add: gate_spec_def gate_allows_def request_gateway_def)
  then have pol: "policy_spec ?cfg ?n" "principal_spec p ?n" using new_ToolAccessPolicy_True [OF ap(1)] by simp_all
  note scope = request_registry_scope [OF o(3) assms(3,4)]
  have route: "rm_get (reg_routeMap (rq_registry rq)) ?n = Some (rg_route reg)"
  proof -
    have ok: "table_ok (rb_ops (me_builder M)) (reg_routeMap (rq_registry rq))" using scope by blast
    obtain k where k: "(k, rg_route reg) \<in> set (reg_routeMap (rq_registry rq))" using tool(2) by auto
    then have "k = ?n" using ok tool(3) by (fastforce simp: table_ok_def route_ok_def)
    with k ok show ?thesis by (simp add: rm_get_def table_ok_def)
  qed
  have owner: "rm_get (reg_routeMap (rb_base (me_builder M))) ?n = Some (rg_route reg)
      \<or> (\<exists>u \<in> set (rb_delegated (me_builder M)). uc_auth u \<noteq> Provider_credential \<and> leads_to (uc_id u, uc_toolPrefix u) ?n (rg_route reg))
      \<or> (\<exists>row \<in> set (user_mcp_upstreams (rw_db W 0)). m_user_id row = p_userId p \<and> m_is_enabled row
          \<and> leads_to (m_id row, m_tool_prefix row) ?n (rg_route reg))"
  proof (cases "rm_get (reg_routeMap (rb_base (me_builder M))) ?n")
    case None
    then show ?thesis using scope route by fastforce
  next
    case (Some r)
    then have "rm_get (reg_routeMap (rq_registry rq)) ?n = Some r" using scope by blast
    with route Some show ?thesis by simp
  qed
  have "\<exists>row \<in> set (user_mcp_upstreams (rw_db W 0)). m_user_id row = p_userId p \<and> m_is_enabled row \<and> glob_match (m_tool_prefix row @ S ''.*'') ?n"
    if "any_glob (map (\<lambda>q. q @ S ''.*'') (rq_prefixes rq)) ?n"
  proof -
    from that obtain a where "a \<in> set (rq_prefixes rq)" "glob_match (a @ S ''.*'') ?n" by (auto simp: any_glob_def)
    moreover have "\<exists>row. row \<in> set (user_mcp_upstreams (rw_db W 0)) \<and> m_user_id row = p_userId p \<and> m_is_enabled row \<and> m_tool_prefix row = a"
      using scope calculation(1) by fastforce
    ultimately show ?thesis by blast
  qed
  then have allow: "any_glob (gc_allow (me_config M)) ?n \<or> any_glob (virtual_tools (me_router M \<noteq> None)) ?n
      \<or> (\<exists>row \<in> set (user_mcp_upstreams (rw_db W 0)). m_user_id row = p_userId p \<and> m_is_enabled row \<and> glob_match (m_tool_prefix row @ S ''.*'') ?n)"
    using pol(1) unfolding policy_spec_def any_glob_policy by blast
  have "\<not> any_glob (gc_deny (me_config M)) ?n" using pol(1) by (simp add: policy_spec_def request_policy_def)
  with o pol(2) allow route owner show ?thesis by blast
qed

section \<open>A prefix that is already taken\<close>

lemma mcp_verify_patterns:
  assumes "mcp_verify E cfg flt lflt clk uuid token d0 = (d, Some p)"
  shows "p_toolPatterns p = granted_patterns d (p_userId p)" "p_scopes p = map (\<lambda>t. S ''tool:'' @ t) (granted_patterns d (p_userId p))"
proof -
  obtain claims where a: "admit_token E cfg flt lflt clk uuid claims d0 = (d, Inr (Some p))"
    using assms by (auto simp: mcp_verify_def split: sum.splits prod.splits)
  then obtain uid where "mcp_principal uid d = Some p"
    by (auto simp: admit_token_def retQ_def bindQ_Inr_iff query_def split: if_splits option.splits)
  then have "p_toolPatterns p = granted_patterns d (p_userId p) \<and> p_scopes p = map (\<lambda>t. S ''tool:'' @ t) (granted_patterns d (p_userId p))"
    by (auto simp: mcp_principal_def dest!: filter_eq_ConsD split: list.splits)
  then show "p_toolPatterns p = granted_patterns d (p_userId p)" "p_scopes p = map (\<lambda>t. S ''tool:'' @ t) (granted_patterns d (p_userId p))"
    by simp_all
qed

lemma register_tools_complete:
  assumes "register_tools G rs = Inr regs" and "route \<in> set rs"
  shows "\<exists>b. gate_allows (gw_gate G) (r_publicName route) = Inr b \<and> (b \<longrightarrow> (\<exists>reg \<in> set regs. rg_route reg = route \<and> rg_publicName reg = r_publicName route))"
  using assms
proof (induction rs arbitrary: regs)
  case (Cons r rs)
  obtain b where b: "gate_allows (gw_gate G) (r_publicName r) = Inr b" using Cons.prems(1) by (auto simp: bindE_Inr_iff)
  show ?case
  proof (cases b)
    case False
    then show ?thesis using Cons b by auto
  next
    case True
    obtain regs' where regs': "register_tools G rs = Inr regs'" "regs = \<lparr>rg_exposedName = exposed_name (gw_delimiter G) (r_publicName r),
        rg_publicName = r_publicName r, rg_command = command_of (gw_contracts G) r, rg_route = r\<rparr> # regs'"
      using Cons.prems(1) b True by (auto simp: bindE_Inr_iff Let_def split: if_splits)
    show ?thesis
    proof (cases "route = r")
      case True
      with b regs'(2) show ?thesis by auto
    next
      case False
      then have "route \<in> set rs" using Cons.prems(2) by simp
      from Cons.IH [OF regs'(1) this] regs'(2) show ?thesis by auto
    qed
  qed
qed simp

lemma glob_prefix: "list_all (\<lambda>c. \<not> is_line_term c) (p @ t) \<Longrightarrow> glob_match (p @ S ''.*'') (p @ S ''.'' @ t)"
proof (induction p)
  case Nil
  have "glob_match (42 # []) t" using Nil by (subst glob_star_iff) (metis append_Nil append_Nil2 glob_match.simps(1))
  then show ?case by (cases t) (simp_all add: S_def)
next
  case (Cons c p)
  then show ?case by (cases "p @ S ''.'' @ t") auto
qed

lemma policy_opens:
  assumes "new_ToolAccessPolicy cfg (Some p) = Inr ap" and "ToolAccessPolicy_allows ap n = Inr b"
    and "policy_spec cfg n" and "g \<in> set (p_toolPatterns p)" and "S ''tool:'' @ g \<in> set (p_scopes p)" and "glob_match g n"
  shows b
proof (rule ccontr)
  assume "\<not> b"
  then have f: "someE (\<lambda>g. matchesToolPattern g n) (p_toolPatterns p) = Inr False \<or> someE (scope_matches n) (p_scopes p) = Inr False"
    using assms(1-3) by (auto simp: new_ToolAccessPolicy_def bindE_Inr_iff ToolAccessPolicy_allows_def policy_spec_def mapE_compile_test Let_def
      split: if_splits)
  then have "matchesToolPattern g n = Inr False \<or> scope_matches n (S ''tool:'' @ g) = Inr False"
    using assms(4,5) by (auto simp: someE_False)
  moreover have "scope_matches n (S ''tool:'' @ g) = matchesToolPattern g n" by (simp add: scope_matches_def slice_from_def S_def startsWith_def)
  ultimately show False using assms(6) by (simp add: matchesToolPattern_Inr_iff)
qed

text \<open>
  C32. A user can open the shared tools of a prefix by registering an upstream of their own under it: nothing
  reserves the prefixes of the configuration, so when the user's enabled upstream of that prefix answers in a
  request, every shared tool under the prefix whose name is not denied is served to the user, whatever the
  configuration allows and whatever was granted.
\<close>

theorem own_prefix_opens_shared_tools:
  assumes "mcp_open M W q ds = ((d, s), Serving rq G srv)" and "me_verify M = mcp_verify E cfg flt lflt clk uuid"
    and "connect_faithful (me_builder M)" and "table_ok (rb_ops (me_builder M)) (reg_routeMap (rb_base (me_builder M)))"
    and "bearerToken (mh_authorization (mc_headers q)) = Some token" and "snd (me_verify M token (fst ds)) = Some p"
    and "m_user_id row = p_userId p" and "row \<in> set (user_mcp_upstreams d)" and "m_is_enabled row" and "m_tool_prefix row \<in> set (rq_prefixes rq)"
    and "n = public_name (m_tool_prefix row) t" and "list_all (\<lambda>c. \<not> is_line_term c) n"
    and "rm_get (reg_routeMap (rb_base (me_builder M))) n = Some r" and "\<not> any_glob (gc_deny (me_config M)) n"
  shows "\<exists>reg \<in> set (gs_tools srv). rg_publicName reg = n \<and> rg_route reg = r"
proof -
  have o: "me_verify M token (fst ds) = (d, Some p)"
      "build_registry (me_builder M) W (Some p) (Some token) (snd ds) = (s, Inr rq)" "serve_request M q p rq = Serving rq G srv"
    using mcp_open_Serving [OF assms(1)] assms(5,6) by (metis option.inject snd_conv)+
  let ?cfg = "request_policy (me_config M) (me_router M \<noteq> None) (rq_prefixes rq)" and ?g = "m_tool_prefix row @ S ''.*''"
  obtain ap where ap: "new_ToolAccessPolicy ?cfg (Some p) = Inr ap" "G = request_gateway M q p ap"
      "createGatewayServer (me_collate M) G (reg_routeMap (rq_registry rq)) = Inr srv"
    using o(3) by (rule serve_request_Serving)
  have g: "glob_match ?g n" using glob_prefix [of "m_tool_prefix row" t] assms(11,12) by (simp add: public_name_def)
  have "?g \<in> set (granted_patterns d (p_userId p))" using assms(7-9) by (auto simp: granted_patterns_def)
  moreover have "p_toolPatterns p = granted_patterns d (p_userId p)" "p_scopes p = map (\<lambda>t. S ''tool:'' @ t) (granted_patterns d (p_userId p))"
    using mcp_verify_patterns [of E cfg flt lflt clk uuid token "fst ds" d p] o(1) assms(2) by simp_all
  ultimately have grant: "?g \<in> set (p_toolPatterns p)" "S ''tool:'' @ ?g \<in> set (p_scopes p)" by auto
  have pol: "policy_spec ?cfg n" using assms(10,14) g by (auto simp: policy_spec_def request_policy_def any_glob_def)
  have regs: "register_tools G (rm_list (me_collate M) (reg_routeMap (rq_registry rq))) = Inr (gs_tools srv)"
    using ap(3) by (auto simp: createGatewayServer_def bindE_Inr_iff split: if_splits)
  have ok: "table_ok (rb_ops (me_builder M)) (reg_routeMap (rq_registry rq))" "rm_get (reg_routeMap (rq_registry rq)) n = Some r"
    using request_registry_scope [OF o(2) assms(3,4)] assms(13) by blast+
  have "r \<in> set (rm_list (me_collate M) (reg_routeMap (rq_registry rq)))"
    using ok(2) by (force simp: rm_list_def rm_get_def dest: map_of_SomeD)
  then obtain b where b: "gate_allows (gw_gate G) (r_publicName r) = Inr b"
      "b \<longrightarrow> (\<exists>reg \<in> set (gs_tools srv). rg_route reg = r \<and> rg_publicName reg = r_publicName r)"
    using register_tools_complete [OF regs] by blast
  have n: "r_publicName r = n" using table_ok_get [OF ok] by simp
  have "ToolAccessPolicy_allows ap n = Inr b" using b(1) n ap(2) by (simp add: gate_allows_def request_gateway_def)
  from policy_opens [OF ap(1) this pol grant g] b(2) n show ?thesis by auto
qed

section \<open>An instance\<close>

definition demo_own_db :: db where
  "demo_own_db = demo_db\<lparr>user_mcp_upstreams := [demo_custom_row]\<rparr>"

text \<open>The shared upstream has the prefix that the user registered, and the configuration allows none of its tools.\<close>

definition demo_shared :: "upstream_config registry" where
  "demo_shared = \<lparr>reg_connections = [demo_delegated (S ''mine'')], reg_routeMap = [(S ''mine.y'', make_route demo_conn_ops (demo_delegated (S ''mine''))
     \<lparr>t_name = S ''y'', t_fields = []\<rparr>)]\<rparr>"

definition demo_endpoint :: "(upstream_config, upstream_config multiset) mcp_endpoint" where
  "demo_endpoint = \<lparr>me_config = \<lparr>gc_upstreams = [], gc_allow = [], gc_deny = []\<rparr>, me_oauth = demo_mcp,
     me_verify = mcp_verify demo_menv demo_mcp no_faults no_faults (\<lambda>_. 0) (S ''7''), me_builder = (demo_builder [])\<lparr>rb_base := demo_shared\<rparr>,
     me_env = demo_agent_env, me_guardrail = None, me_router = None, me_audit = False, me_collate = key length default\<rparr>"

definition demo_call :: mcp_call where
  "demo_call = \<lparr>mc_id = S ''r'', mc_ip = [], mc_query = JObj [], mc_headers = \<lparr>mh_authorization = Some (S ''Bearer tok''), mh_delimiter = None,
     mh_userAgent = None\<rparr>\<rparr>"

lemma register_tools_total:
  "\<forall>route \<in> set rs. gate_allows (gw_gate G) (r_publicName route) = Inr True \<Longrightarrow> gw_contracts G = [] \<Longrightarrow>
    \<exists>regs. register_tools G rs = Inr regs \<and> map rg_route regs = rs"
  by (induction rs) (auto simp: command_of_def contract_of_def)

lemma demo_bearer: "bearerToken (Some (S ''Bearer tok'')) = Some (S ''tok'')"
  by (simp add: bearer_token_spec startsWith_S) (simp add: S_def is_space_def)

lemma demo_admitted:
  obtains d pr where "mcp_verify demo_menv demo_mcp no_faults no_faults (\<lambda>_. 0) (S ''7'') (S ''tok'') demo_own_db = (d, Some pr)"
    "p_userId pr = S ''u1''" "user_mcp_upstreams d = [demo_custom_row]" "p_toolPatterns pr = [S ''jira.*'', S ''mine.*'']"
    "p_scopes pr = [S ''tool:jira.*'', S ''tool:mine.*'']"
proof -
  have "snd (ensureLocalUser (mcp_local_cfg demo_mcp) no_faults 0 (S ''7'') (demo_idn ''s1'' 4) demo_own_db) = Inr (S ''u1'')"
    by code_simp
  then obtain d where e: "ensureLocalUser (mcp_local_cfg demo_mcp) no_faults 0 (S ''7'') (demo_idn ''s1'' 4) demo_own_db = (d, Inr (S ''u1''))"
    by (metis prod.collapse)
  obtain pr where v: "mcp_verify demo_menv demo_mcp no_faults no_faults (\<lambda>_. 0) (S ''7'') (S ''tok'') demo_own_db = (d, Some pr)" "p_userId pr = S ''u1''"
    using demo_mcp_admits [OF e] by blast
  have d: "d = demo_own_db\<lparr>users := users d\<rparr>" using e by (rule ensure_active)
  have p: "user_mcp_upstreams d = [demo_custom_row]" "user_tool_permissions d = [\<lparr>tp_id = S ''p1'', tp_user_id = S ''u1'', tp_tool_pattern = S ''jira.*''\<rparr>]"
    by (subst d, simp add: demo_own_db_def demo_db_def)+
  have g: "granted_patterns d (S ''u1'') = [S ''jira.*'', S ''mine.*'']" unfolding granted_patterns_def p
    by (simp add: demo_custom_row_def S_append [symmetric] del: S_append)
  show thesis using that [OF v p(1)] mcp_verify_patterns [OF v(1)] v(2) g by (simp add: S_append [symmetric] del: S_append)
qed

lemma demo_open:
  obtains d pr s rq G srv where "mcp_open demo_endpoint (demo_request_world d) demo_call (demo_own_db, {#}) = ((d, s), Serving rq G srv)"
    "me_verify demo_endpoint (S ''tok'') demo_own_db = (d, Some pr)" "p_userId pr = S ''u1''" "user_mcp_upstreams d = [demo_custom_row]"
    "rq_prefixes rq = [S ''mine'']" "\<exists>reg \<in> set (gs_tools srv). rg_publicName reg = S ''mine.x''"
proof -
  obtain d pr where v: "mcp_verify demo_menv demo_mcp no_faults no_faults (\<lambda>_. 0) (S ''7'') (S ''tok'') demo_own_db = (d, Some pr)"
    "p_userId pr = S ''u1''" "user_mcp_upstreams d = [demo_custom_row]" "p_toolPatterns pr = [S ''jira.*'', S ''mine.*'']"
    "p_scopes pr = [S ''tool:jira.*'', S ''tool:mine.*'']" by (rule demo_admitted)
  let ?mine = "(S ''mine.x'', make_route demo_conn_ops (custom_config demo_custom_row) \<lparr>t_name = S ''x'', t_fields = []\<rparr>)"
  let ?reg = "demo_shared\<lparr>reg_routeMap := reg_routeMap demo_shared @ [?mine]\<rparr>"
  let ?rq = "\<lparr>rq_registry = ?reg, rq_prefixes = [S ''mine''], rq_connections = [custom_config demo_custom_row]\<rparr>"
  have "uc_toolPrefix (custom_config demo_custom_row) = S ''mine''" "uc_id (custom_config demo_custom_row) = S ''m1''"
    by (simp_all add: demo_custom_row_def custom_config_def)
  then have "registry_addRoute demo_conn_ops (custom_config demo_custom_row) (registry_clone demo_shared) s = (s, ?reg, Inr ())" for s
    by (simp add: registry_addRoute_def withConnection_def registry_clone_def new_ToolRegistry_def demo_conn_ops_def add_tool_def Let_def
      rm_has_def rm_get_def demo_shared_def make_route_def public_name_def S_append [symmetric] del: S_append)
  from demo_built_on [OF v(3) this, of pr] v(2)
  have b: "build_registry (me_builder demo_endpoint) (demo_request_world d) (Some pr) token {#} = ({#custom_config demo_custom_row#}, Inr ?rq)" for token
    by (simp add: demo_endpoint_def)
  let ?cfg = "request_policy (me_config demo_endpoint) False [S ''mine'']"
  have cfg: "?cfg = \<lparr>cfg_allow = [S ''mine.*''], cfg_deny = []\<rparr>"
    by (simp add: request_policy_def demo_endpoint_def virtual_tools_def S_append [symmetric] del: S_append)
  have "valid_pattern (S ''mine.*'')" "valid_pattern (S ''jira.*'')" by (simp_all add: valid_pattern_def S_def trim_def is_space_def)
  then have val: "valid_principal pr" "\<exists>r. compileToolPattern (S ''mine.*'') = Inr r"
    by (simp_all add: valid_principal_def v scope_patterns_def startsWith_S slice_from_def compileToolPattern_total) (simp add: S_def)
  then obtain ap where ap: "new_ToolAccessPolicy ?cfg (Some pr) = Inr ap" unfolding cfg by (auto simp: new_ToolAccessPolicy_def)
  have glob: "glob_match (S ''mine.*'') (S ''mine.x'')" "glob_match (S ''mine.*'') (S ''mine.y'')"
    by (simp_all add: S_def is_line_term_def)
  have allow: "ToolAccessPolicy_allows ap n = Inr True" if "glob_match (S ''mine.*'') n" for n
    using new_ToolAccessPolicy_allows [OF ap val(1), of n] that
    by (simp add: cfg policy_spec_def principal_spec_def any_glob_def v scope_patterns_def startsWith_S slice_from_def) (simp add: S_def)
  let ?G = "request_gateway demo_endpoint demo_call pr ap" and ?rs = "rm_list (key length default) (reg_routeMap ?reg)"
  have names: "r_publicName (snd ?mine) = S ''mine.x''" "map (r_publicName \<circ> snd) (reg_routeMap demo_shared) = [S ''mine.y'']"
    by (simp_all add: make_route_def demo_conn_ops_def public_name_def custom_config_def demo_custom_row_def demo_shared_def demo_delegated_def
      S_append [symmetric] del: S_append)
  have rs: "set ?rs = insert (snd ?mine) (snd ` set (reg_routeMap demo_shared))" by (auto simp: rm_list_def)
  have "\<forall>route \<in> set ?rs. gate_allows (gw_gate ?G) (r_publicName route) = Inr True"
    unfolding rs using names allow glob by (auto simp: gate_allows_def request_gateway_def demo_shared_def)
  moreover have "gw_contracts ?G = []" by (simp add: request_gateway_def demo_endpoint_def agent_contracts_def)
  ultimately obtain regs where regs: "register_tools ?G ?rs = Inr regs" "map rg_route regs = ?rs" using register_tools_total by blast
  have "gw_router ?G = None" by (simp add: request_gateway_def demo_endpoint_def)
  then have srv: "createGatewayServer (key length default) ?G (reg_routeMap ?reg) = Inr \<lparr>gs_tools = regs, gs_meta = None\<rparr>"
    using regs(1) by (simp add: createGatewayServer_def)
  have "snd ?mine \<in> set (map rg_route regs)" unfolding regs(2) rs by simp
  then obtain reg where reg: "reg \<in> set regs" "rg_route reg = snd ?mine" by auto
  then have "rg_publicName reg = S ''mine.x''" using server_tools [OF srv, of reg] names(1) by simp
  moreover have "serve_request demo_endpoint demo_call pr ?rq = Serving ?rq ?G \<lparr>gs_tools = regs, gs_meta = None\<rparr>"
    using ap srv by (simp add: serve_request_def demo_endpoint_def)
  moreover have "me_verify demo_endpoint (S ''tok'') demo_own_db = (d, Some pr)" using v(1) by (simp add: demo_endpoint_def)
  ultimately show thesis using that [of d "{#custom_config demo_custom_row#}" ?rq ?G "\<lparr>gs_tools = regs, gs_meta = None\<rparr>" pr] v(2,3) reg(1) b
    by (simp add: mcp_open_def demo_call_def demo_bearer) blast
qed

lemma demo_tables: "connect_faithful (me_builder demo_endpoint)" "table_ok (rb_ops (me_builder demo_endpoint)) (reg_routeMap (rb_base (me_builder demo_endpoint)))"
  by (simp_all add: demo_endpoint_def connect_faithful_def demo_builder_def demo_conn_ops_def table_ok_def demo_shared_def route_ok_def make_route_def
    demo_delegated_def public_name_def S_append [symmetric] del: S_append)

theorem mcp_request_scope_witness:
  "\<exists>d s rq G srv reg p. mcp_open demo_endpoint (demo_request_world d) demo_call (demo_own_db, {#}) = ((d, s), Serving rq G srv)
    \<and> reg \<in> set (gs_tools srv) \<and> rg_publicName reg = S ''mine.x'' \<and> principal_spec p (S ''mine.x'')"
proof -
  obtain d pr s rq G srv where o: "mcp_open demo_endpoint (demo_request_world d) demo_call (demo_own_db, {#}) = ((d, s), Serving rq G srv)"
    "\<exists>reg \<in> set (gs_tools srv). rg_publicName reg = S ''mine.x''" by (rule demo_open)
  from o(2) obtain reg where reg: "reg \<in> set (gs_tools srv)" "rg_publicName reg = S ''mine.x''" by blast
  from mcp_request_scope [OF o(1) reg(1) demo_tables] obtain p where "principal_spec p (rg_publicName reg)" by blast
  with o(1) reg show ?thesis by metis
qed

theorem own_prefix_opens_shared_tools_witness:
  "\<exists>d s rq G srv reg. mcp_open demo_endpoint (demo_request_world d) demo_call (demo_own_db, {#}) = ((d, s), Serving rq G srv)
    \<and> reg \<in> set (gs_tools srv) \<and> rg_publicName reg = S ''mine.y'' \<and> gc_allow (me_config demo_endpoint) = []"
proof -
  obtain d pr s rq G srv where o: "mcp_open demo_endpoint (demo_request_world d) demo_call (demo_own_db, {#}) = ((d, s), Serving rq G srv)"
    "me_verify demo_endpoint (S ''tok'') demo_own_db = (d, Some pr)" "p_userId pr = S ''u1''" "user_mcp_upstreams d = [demo_custom_row]"
    "rq_prefixes rq = [S ''mine'']" by (rule demo_open)
  have v: "me_verify demo_endpoint = mcp_verify demo_menv demo_mcp no_faults no_faults (\<lambda>_. 0) (S ''7'')" by (simp add: demo_endpoint_def)
  have t: "bearerToken (mh_authorization (mc_headers demo_call)) = Some (S ''tok'')" by (simp add: demo_call_def demo_bearer)
  have p: "snd (me_verify demo_endpoint (S ''tok'') (fst (demo_own_db, {#} :: upstream_config multiset))) = Some pr" using o(2) by simp
  have row: "m_user_id demo_custom_row = p_userId pr" "demo_custom_row \<in> set (user_mcp_upstreams d)" "m_is_enabled demo_custom_row"
      "m_tool_prefix demo_custom_row \<in> set (rq_prefixes rq)" "S ''mine.y'' = public_name (m_tool_prefix demo_custom_row) (S ''y'')"
      "list_all (\<lambda>c. \<not> is_line_term c) (S ''mine.y'')"
    using o(3-5) by (simp_all add: demo_custom_row_def public_name_def) (simp_all add: S_def is_line_term_def)
  obtain r where r: "rm_get (reg_routeMap (rb_base (me_builder demo_endpoint))) (S ''mine.y'') = Some r"
    by (simp add: demo_endpoint_def demo_shared_def rm_get_def)
  have deny: "\<not> any_glob (gc_deny (me_config demo_endpoint)) (S ''mine.y'')" by (simp add: demo_endpoint_def any_glob_def)
  obtain reg where "reg \<in> set (gs_tools srv)" "rg_publicName reg = S ''mine.y''"
    using own_prefix_opens_shared_tools [OF o(1) v demo_tables t p row r deny] by blast
  moreover have "gc_allow (me_config demo_endpoint) = []" by (simp add: demo_endpoint_def)
  ultimately show ?thesis using o(1) by blast
qed

end
