(* ===== verification/Spec2Isabelle.thy ===== *)
theory Spec2Isabelle
  imports CircuitBreaker UserSync GatewayServer CustomUpstreams ApiKeys Startup JobContract DaemonRoutes McpOAuth McpEndpoint
begin

text \<open>
  A verification library for the tools gateway (TypeScript, \<open>src/\<close>).

  The program. The gateway is a server of the Model Context Protocol that stands between agents and upstream
  tool servers. A request to \<open>/mcp\<close> is admitted by its access token, gets a registry of its own (the shared
  upstreams, those with a delegated identity, those its user registered), a policy over the tool names, and
  handlers that check the arguments, call the upstream through a circuit breaker, sanitise the result and write an
  audit entry. Beside it run the browser sign-in with its API keys and custom upstreams, three event consumers that
  follow the identity service, the initialisation of the database, and the management of daemons: devices report
  with tokens and single-use proofs, managers issue signed jobs, devices fetch and verify them. State lives in
  PostgreSQL, in Redis and in the memory of a process; everything else is a function of a request.

  How the model reads. A JavaScript string is a list of UTF-16 code units (\<open>jstr\<close>), a value a \<open>jv\<close>, a thrown
  error the left side of \<open>result\<close>, a promise that rejects a left value as well. A class is a record of its
  fields, a method a function from the state to the state and a result. Where an \<open>await\<close> lets other requests run,
  the method is cut there into the steps of a relation, and the theorems speak of all interleavings. The tables
  are the record \<open>db\<close>, the Redis keyspace is \<open>redis\<close> with the expiry of each key; \<open>faults\<close> says which of the
  numbered commands of a call fail.

  Foundations.
  \<^item> \<open>Prelude\<close>: strings, values, errors and the collections of simplification rules that the components share.
  \<^item> \<open>JsValue\<close>, \<open>Json\<close>, \<open>JsonParse\<close>, \<open>Encodings\<close>: traversal of values, \<open>JSON.stringify\<close>, \<open>JSON.parse\<close>, UTF-8,
    hexadecimal, base64 and base64url, with their round trips. The parser is bounded by a fuel of twice the length
    of the text plus one, and \<open>fuel_enough\<close> shows that more changes nothing.
  \<^item> \<open>JsRegex\<close>, \<open>RegexFacts\<close>, \<open>Runs\<close>: a backtracking matcher for the expressions the source writes, what
    \<open>test\<close> means for their shapes, and global replacement of runs (locale \<open>run_masking\<close>).
  \<^item> \<open>Http\<close>, \<open>Db\<close>, \<open>Inbox\<close>: requests, forms and cookies; the tables of \<open>database/migrations.ts\<close> and the Redis
    commands; the contract of a versioned inbox (locale \<open>inbox\<close>) which both consumers interpret.

  Access to tools.
  \<^item> \<open>ToolPattern\<close>, \<open>AccessPolicy\<close> (\<open>domain/toolPattern.ts\<close>, \<open>policy/toolPolicy.ts\<close>, \<open>auth/scopeGuard.ts\<close>,
    \<open>domain/toolAccessPolicy.ts\<close>): the expression built from a pattern decides exactly the wildcard language, and
    the policies are deny-first and conjunctive. The locale \<open>tool_gate\<close> is the interface of a policy; both classes
    interpret it.
  \<^item> \<open>RouteMap\<close>, \<open>CircuitBreaker\<close> (\<open>domain/toolRouteMap.ts\<close>, \<open>upstream/toolRegistry.ts\<close>,
    \<open>resilience/circuitBreaker.ts\<close>, \<open>upstream/resilientUpstreamConnection.ts\<close>): routes belong to the connection whose
    prefix they carry (locale \<open>route_table\<close>); the breaker under every interleaving of calls and settlements.
  \<^item> \<open>UpstreamConfig\<close>, \<open>RequestRegistry\<close>, \<open>McpEndpoint\<close> (\<open>config/upstreamConfig.ts\<close>,
    \<open>application/requestToolRegistryBuilder.ts\<close>, \<open>auth/iamDelegationClient.ts\<close>, \<open>api/mcpRoutes.ts\<close>): which tools a
    request sees and where they lead; the connections it opens are counted.
  \<^item> \<open>ToolInvocation\<close>, \<open>GatewayServer\<close> (\<open>domain/toolInvocationContext.ts\<close>, \<open>server/createGatewayServer.ts\<close>): the
    handler of a tool and the smart dispatcher; an upstream is called only after every check, and each invocation is
    audited with the status of its outcome.

  Content.
  \<^item> \<open>PiiMasker\<close>, \<open>Entropy\<close>, \<open>ArgumentSanitizer\<close>, \<open>SecretBoundary\<close>, \<open>AgentTools\<close>, \<open>UrlValidator\<close>, \<open>Jev\<close>
    (\<open>policy/\<close>, \<open>crypto/entropy.ts\<close>, \<open>jev/\<close>): what passes into an upstream, into the audit log and back to the
    caller, by recursion over the tree; the ranges the URL validator refuses; the advisory service.
  \<^item> \<open>AuditLogger\<close> (\<open>audit/auditLogger.ts\<close>): queue, flush in flight, timer and fallback file as events; it refines
    a spool of pending entries. One insert holds at most 4369 entries, 15 parameters each of the 65535 that
    PostgreSQL accepts.

  Identity.
  \<^item> \<open>KeyVerifier\<close>, \<open>ApiKeys\<close> (\<open>auth/keyVerifier.ts\<close>, \<open>api/apiKeyService.ts\<close>): keys with their cache in Redis;
    sequential histories (\<open>cache_run\<close>) and interleaved steps with time (\<open>kv_step\<close>), where a grant outlives its
    revocation by at most the time to live of the cache and the latency of one verification.
  \<^item> \<open>OAuthSession\<close>, \<open>McpOAuth\<close>, \<open>LocalUser\<close> (\<open>auth/oauthSession.ts\<close>, \<open>auth/mcpOAuthVerifier.ts\<close>,
    \<open>users/ensureLocalUser.ts\<close>): sign-in and sessions, MCP tokens, and the local row of a verified identity. Other
    callers of Redis between two commands are the steps \<open>rstep\<close>.
  \<^item> \<open>Lifecycle\<close>, \<open>ServiceAccess\<close>, \<open>UserSync\<close> (\<open>events/\<close>): parsing and transactional application of events, retry,
    dead letters; at-least-once delivery in any order converges to the newest event.
  \<^item> \<open>CustomUpstreams\<close>, \<open>Startup\<close> (\<open>api/customUpstreamService.ts\<close>, \<open>crypto/envelopeCrypto.ts\<close>,
    \<open>database/initializeDatabase.ts\<close>): credentials stored encrypted; migrations and the seed of the administrator
    over any sequence of starts with any failing statement.

  Daemon management (\<open>daemonManagement/\<close>).
  \<^item> \<open>DaemonModel\<close>, \<open>CanonicalJson\<close>, \<open>JobContract\<close>: schemas, canonical text, signing, verification and planning of
    jobs.
  \<^item> \<open>DaemonStore\<close>, \<open>DaemonLedger\<close>, \<open>DaemonVerifier\<close>: the tables with every statement of their operations, the
    invariant of all reachable stores, and the tokens and proofs of a request.
  \<^item> \<open>DaemonReader\<close>, \<open>JobService\<close>, \<open>DaemonRoutes\<close>: the client of the identity service with its cache and its
    interleavings, the job service and the routes. \<open>read_body\<close> reads a stream that need not end, as a
    \<open>partial_function\<close>; it is shown to return.

  Parameters. SHA-256, AES-256-GCM, Ed25519, the JOSE and URL libraries, Unicode normalisation, the resolver, the
  network, clocks, floating point rounding and the decimal text of a double are arguments; what a theorem
  relies on, such as that decryption inverts encryption, is a hypothesis, and its witness supplies a concrete function.

  Not modelled: the pages and the handlers of \<open>api/managementRoutes.ts\<close> and \<open>api/gatewayResourceRoutes.ts\<close>, which
  call the modelled services and render their results (their cookies are in \<open>Http\<close>); the loaders of settings under
  \<open>config/\<close> other than that of the upstreams; the composition in \<open>main.ts\<close>; \<open>upstream/remoteMcpConnection.ts\<close> and the
  transport of the MCP library; \<open>audit/r2AuditArchiver.ts\<close>; the Fastify plugins, the key script, the static page
  and the log lines; the endless read loops and the creation of the groups of the event streams.
\<close>

end
